(* ===== verification/Prelude.thy ===== *)
theory Prelude
  imports Main "HOL-Library.List_Lexorder" "HOL-Library.Char_ord"
    "HOL-Library.Product_Lexorder" "HOL-Library.Multiset"
begin

text \<open>
  Shared vocabulary of the development: fallible stateful computations (the awaited calls
  of the services), the stable comparator sort of the language, decimal numerals as
  strings, and generic facts on lists that the component theories use.
\<close>

section \<open>Fallible stateful computations\<close>

text \<open>
  An awaited call either resolves with a value (\<open>Inr\<close>) or rejects with a thrown error
  (\<open>Inl\<close>); in both cases it may have changed the state.
\<close>

type_synonym ('s, 'e, 'a) exec = "'s \<Rightarrow> ('e + 'a) \<times> 's"

definition returnE :: "'a \<Rightarrow> ('s, 'e, 'a) exec" where
  "returnE a = (\<lambda>s. (Inr a, s))"

definition throwE :: "'e \<Rightarrow> ('s, 'e, 'a) exec" where
  "throwE e = (\<lambda>s. (Inl e, s))"

definition bindE :: "('s, 'e, 'a) exec \<Rightarrow> ('a \<Rightarrow> ('s, 'e, 'b) exec) \<Rightarrow> ('s, 'e, 'b) exec" where
  "bindE m f = (\<lambda>s. case m s of (Inl e, s') \<Rightarrow> (Inl e, s') | (Inr a, s') \<Rightarrow> f a s')"

definition catchE :: "('s, 'e, 'a) exec \<Rightarrow> ('e \<Rightarrow> ('s, 'e, 'a) exec) \<Rightarrow> ('s, 'e, 'a) exec" where
  "catchE m h = (\<lambda>s. case m s of (Inl e, s') \<Rightarrow> h e s' | (Inr a, s') \<Rightarrow> (Inr a, s'))"

definition whenE :: "bool \<Rightarrow> ('s, 'e, unit) exec \<Rightarrow> ('s, 'e, unit) exec" where
  "whenE b m = (if b then m else returnE ())"

text \<open>A \<open>for \<dots> of\<close> loop whose body may throw: it stops at the first error.\<close>

fun forE :: "'x list \<Rightarrow> ('x \<Rightarrow> ('s, 'e, 'a) exec) \<Rightarrow> ('s, 'e, 'a list) exec" where
  "forE [] f = returnE []"
| "forE (x # xs) f = bindE (f x) (\<lambda>y. bindE (forE xs f) (\<lambda>ys. returnE (y # ys)))"

text \<open>\<open>try \<dots> finally\<close>: an error of the cleanup replaces the outcome of the block.\<close>

definition finallyE :: "('s, 'e, 'a) exec \<Rightarrow> ('s, 'e, unit) exec \<Rightarrow> ('s, 'e, 'a) exec" where
  "finallyE m c = (\<lambda>s. case m s of (r, s') \<Rightarrow>
     (case c s' of (Inl e, s'') \<Rightarrow> (Inl e, s'') | (Inr _, s'') \<Rightarrow> (r, s'')))"

named_theorems exec_simps \<open>unfolding of the computation combinators\<close>

lemma bindE_step: "m s = (Inr a, s') \<Longrightarrow> f a s' = r \<Longrightarrow> bindE m f s = r"
  by (simp add: bindE_def)

lemma returnE_simp [simp, exec_simps]: "returnE a s = (Inr a, s)"
  by (simp add: returnE_def)

lemma throwE_simp [simp, exec_simps]: "throwE e s = (Inl e, s)"
  by (simp add: throwE_def)

lemma bindE_Inr [exec_simps]: "m s = (Inr a, s') \<Longrightarrow> bindE m f s = f a s'"
  by (simp add: bindE_def)

lemma bindE_Inl [exec_simps]: "m s = (Inl e, s') \<Longrightarrow> bindE m f s = (Inl e, s')"
  by (simp add: bindE_def)

lemma bindE_returnE [simp]: "bindE (returnE a) f = f a"
  by (simp add: bindE_def fun_eq_iff)

lemma bindE_throwE [simp]: "bindE (throwE e) f = throwE e"
  by (simp add: bindE_def fun_eq_iff)

lemma whenE_simps [simp]: "whenE True m = m" "whenE False m = returnE ()"
  by (simp_all add: whenE_def)

lemma bindE_InrE:
  assumes "bindE m f s = (Inr b, t)"
  obtains a s' where "m s = (Inr a, s')" "f a s' = (Inr b, t)"
  using assms by (auto simp: bindE_def split: prod.splits sum.splits)

lemma bindE_InlE:
  assumes "bindE m f s = (Inl e, t)"
  obtains (first) "m s = (Inl e, t)"
    | (second) a s' where "m s = (Inr a, s')" "f a s' = (Inl e, t)"
  using assms by (auto simp: bindE_def split: prod.splits sum.splits)

lemma catchE_Inr [exec_simps]: "m s = (Inr a, s') \<Longrightarrow> catchE m h s = (Inr a, s')"
  by (simp add: catchE_def)

lemma catchE_Inl [exec_simps]: "m s = (Inl e, s') \<Longrightarrow> catchE m h s = h e s'"
  by (simp add: catchE_def)

lemma finallyE_InrE:
  assumes "finallyE m c s = (Inr a, t)"
  obtains s' where "m s = (Inr a, s')" "c s' = (Inr (), t)"
  using assms by (auto simp: finallyE_def split: prod.splits sum.splits)

lemma finallyE_InlE:
  assumes "finallyE m c s = (Inl e, t)"
  obtains r s' q where "m s = (r, s')" "c s' = (q, t)" "r = Inl e \<or> q = Inl e"
  using assms by (auto simp: finallyE_def split: prod.splits sum.splits)

text \<open>
  State invariants of computations: \<open>keeps P m\<close> says that \<open>m\<close> preserves \<open>P\<close> whether it
  resolves or throws. The rules below carry it through every combinator.
\<close>

definition keeps :: "('s \<Rightarrow> bool) \<Rightarrow> ('s, 'e, 'a) exec \<Rightarrow> bool" where
  "keeps P m \<longleftrightarrow> (\<forall>s. P s \<longrightarrow> P (snd (m s)))"

named_theorems keeps_intros \<open>introduction rules for preserved state predicates\<close>

lemma keepsD: "keeps P m \<Longrightarrow> P s \<Longrightarrow> m s = (r, s') \<Longrightarrow> P s'"
  by (metis keeps_def snd_conv)

lemma keepsI: "(\<And>s r s'. P s \<Longrightarrow> m s = (r, s') \<Longrightarrow> P s') \<Longrightarrow> keeps P m"
  by (metis keeps_def prod.collapse)

lemma keeps_returnE [keeps_intros]: "keeps P (returnE a)"
  by (simp add: keeps_def)

lemma keeps_throwE [keeps_intros]: "keeps P (throwE e)"
  by (simp add: keeps_def)

lemma keeps_bindE [keeps_intros]: "keeps P m \<Longrightarrow> (\<And>a. keeps P (f a)) \<Longrightarrow> keeps P (bindE m f)"
  by (fastforce simp: keeps_def bindE_def split: prod.splits sum.splits)

lemma keeps_catchE [keeps_intros]: "keeps P m \<Longrightarrow> (\<And>e. keeps P (h e)) \<Longrightarrow> keeps P (catchE m h)"
  by (fastforce simp: keeps_def catchE_def split: prod.splits sum.splits)

lemma keeps_whenE [keeps_intros]: "(b \<Longrightarrow> keeps P m) \<Longrightarrow> keeps P (whenE b m)"
  by (cases b) (auto intro: keeps_intros)

lemma keeps_forE [keeps_intros]: "(\<And>x. x \<in> set xs \<Longrightarrow> keeps P (f x)) \<Longrightarrow> keeps P (forE xs f)"
  by (induction xs) (auto intro!: keeps_intros)

lemma keeps_if [keeps_intros]:
  "(b \<Longrightarrow> keeps P m) \<Longrightarrow> (\<not> b \<Longrightarrow> keeps P n) \<Longrightarrow> keeps P (if b then m else n)"
  by simp

lemma forE_Inr_length: "forE xs f s = (Inr ys, s') \<Longrightarrow> length ys = length xs"
  by (induction xs arbitrary: s ys) (auto elim!: bindE_InrE)

section \<open>The comparator sort of the language\<close>

text \<open>
  \<open>Array.prototype.sort\<close> with a comparator is a stable sort: an element goes before the
  first element that compares greater. The comparator returns a negative, zero or positive
  number.
\<close>

fun js_insert :: "('a \<Rightarrow> 'a \<Rightarrow> int) \<Rightarrow> 'a \<Rightarrow> 'a list \<Rightarrow> 'a list" where
  "js_insert cmp x [] = [x]"
| "js_insert cmp x (y # ys) = (if cmp x y \<le> 0 then x # y # ys else y # js_insert cmp x ys)"

fun js_sort :: "('a \<Rightarrow> 'a \<Rightarrow> int) \<Rightarrow> 'a list \<Rightarrow> 'a list" where
  "js_sort cmp [] = []"
| "js_sort cmp (x # xs) = js_insert cmp x (js_sort cmp xs)"

lemma mset_js_insert [simp]: "mset (js_insert cmp x xs) = {#x#} + mset xs"
  by (induction xs) auto

lemma mset_js_sort [simp]: "mset (js_sort cmp xs) = mset xs"
  by (induction xs) auto

lemma set_js_sort [simp]: "set (js_sort cmp xs) = set xs"
  by (metis mset_js_sort set_mset_mset)

lemma length_js_sort [simp]: "length (js_sort cmp xs) = length xs"
  by (metis mset_js_sort size_mset)

lemma distinct_js_sort [simp]: "distinct (js_sort cmp xs) = distinct xs"
  by (rule mset_eq_imp_distinct_iff) simp

text \<open>A comparator that agrees with a key sorts by that key.\<close>

definition cmp_key :: "('a \<Rightarrow> 'a \<Rightarrow> int) \<Rightarrow> ('a \<Rightarrow> 'k::linorder) \<Rightarrow> bool" where
  "cmp_key cmp k \<longleftrightarrow> (\<forall>x y. cmp x y \<le> 0 \<longleftrightarrow> k x \<le> k y)"

lemma js_insert_insort: "cmp_key cmp k \<Longrightarrow> js_insert cmp x xs = insort_key k x xs"
  by (induction xs) (auto simp: cmp_key_def)

lemma js_sort_sort_key: "cmp_key cmp k \<Longrightarrow> js_sort cmp xs = sort_key k xs"
  by (induction xs) (auto simp: js_insert_insort)

lemma sorted_js_sort: "cmp_key cmp k \<Longrightarrow> sorted (map k (js_sort cmp xs))"
  by (simp add: js_sort_sort_key)

section \<open>Decimal numerals\<close>

definition is_digit :: "char \<Rightarrow> bool" where
  "is_digit c \<longleftrightarrow> 48 \<le> (of_char c :: nat) \<and> (of_char c :: nat) \<le> 57"

definition digit_val :: "char \<Rightarrow> nat" where
  "digit_val c = of_char c - 48"

definition digit_char :: "nat \<Rightarrow> char" where
  "digit_char d = char_of (48 + d)"

text \<open>The test of the pattern \<open>/^\d+$/\<close>.\<close>

definition all_digits :: "string \<Rightarrow> bool" where
  "all_digits s \<longleftrightarrow> s \<noteq> [] \<and> list_all is_digit s"

fun nat_of_digits_acc :: "nat \<Rightarrow> string \<Rightarrow> nat" where
  "nat_of_digits_acc a [] = a"
| "nat_of_digits_acc a (c # cs) = nat_of_digits_acc (10 * a + digit_val c) cs"

abbreviation nat_of_digits :: "string \<Rightarrow> nat" where
  "nat_of_digits \<equiv> nat_of_digits_acc 0"

fun show_nat :: "nat \<Rightarrow> string" where
  "show_nat n = (if n < 10 then [digit_char n] else show_nat (n div 10) @ [digit_char (n mod 10)])"

declare show_nat.simps [simp del]

definition show_int :: "int \<Rightarrow> string" where
  "show_int i = (if i < 0 then CHR ''-'' # show_nat (nat (- i)) else show_nat (nat i))"

lemma digit_char_is_digit [simp]: "d < 10 \<Longrightarrow> is_digit (digit_char d)"
  by (simp add: is_digit_def digit_char_def)

lemma digit_val_char [simp]: "d < 10 \<Longrightarrow> digit_val (digit_char d) = d"
  by (simp add: digit_val_def digit_char_def)

lemma nat_of_digits_acc_append:
  "nat_of_digits_acc a (xs @ ys) = nat_of_digits_acc (nat_of_digits_acc a xs) ys"
  by (induction xs arbitrary: a) auto

lemma show_nat_nonempty [simp]: "show_nat n \<noteq> []"
  by (subst show_nat.simps) simp

lemma show_nat_digits: "list_all is_digit (show_nat n)"
proof (induction n rule: show_nat.induct)
  case (1 n)
  then show ?case by (cases "n < 10") (simp_all add: show_nat.simps [of n])
qed

lemma all_digits_show_nat [simp]: "all_digits (show_nat n)"
  by (simp add: all_digits_def show_nat_digits)

lemma nat_of_digits_show_nat [simp]: "nat_of_digits (show_nat n) = n"
proof (induction n rule: show_nat.induct)
  case (1 n)
  then show ?case
    by (cases "n < 10") (simp_all add: show_nat.simps [of n] nat_of_digits_acc_append)
qed

lemma show_nat_inj [simp]: "show_nat m = show_nat n \<longleftrightarrow> m = n"
  by (metis nat_of_digits_show_nat)

lemma show_nat_leading: "n > 0 \<Longrightarrow> hd (show_nat n) \<noteq> CHR ''0''"
proof (induction n rule: show_nat.induct)
  case (1 n)
  show ?case
  proof (cases "n < 10")
    case True
    then have "digit_val (digit_char n) = n" by simp
    then have "digit_char n \<noteq> CHR ''0''"
      using 1(2) by (auto simp: digit_val_def)
    then show ?thesis using True by (simp add: show_nat.simps [of n])
  next
    case False
    then have "hd (show_nat (n div 10)) \<noteq> CHR ''0''" using 1 by simp
    then show ?thesis using False by (simp add: show_nat.simps [of n] hd_append)
  qed
qed

section \<open>Lists\<close>

lemma filter_key_unique:
  assumes "distinct (map k xs)" and "x \<in> set xs"
  shows "filter (\<lambda>y. k y = k x) xs = [x]"
  using assms
proof (induction xs)
  case (Cons y ys)
  show ?case
  proof (cases "x = y")
    case True
    with Cons.prems have "\<forall>z\<in>set ys. k z \<noteq> k x" by (metis distinct.simps(2) image_eqI list.map(2) list.set_map)
    then show ?thesis using True by (simp add: filter_empty_conv)
  next
    case False
    with Cons.prems have "x \<in> set ys" "k y \<noteq> k x" by auto
    then show ?thesis using Cons by simp
  qed
qed simp

lemma find_Some_in: "find P xs = Some x \<Longrightarrow> x \<in> set xs \<and> P x"
  by (induction xs) (auto split: if_splits)

lemma find_unique:
  assumes "distinct (map k xs)" and "\<And>y. P y \<Longrightarrow> k y = v"
  shows "find P xs = Some x \<longleftrightarrow> x \<in> set xs \<and> P x"
proof
  assume x: "x \<in> set xs \<and> P x"
  then obtain y where y: "find P xs = Some y" by (metis find_None_iff not_Some_eq)
  then have "y \<in> set xs" "k y = k x" using find_Some_in [OF y] assms(2) x by auto
  then have "y = x" using assms(1) x by (auto simp: distinct_map dest: inj_onD)
  then show "find P xs = Some x" using y by simp
qed (rule find_Some_in)

lemma distinct_keyD: "distinct (map k xs) \<Longrightarrow> x \<in> set xs \<Longrightarrow> y \<in> set xs \<Longrightarrow> k x = k y \<Longrightarrow> x = y"
  by (auto simp: distinct_map dest: inj_onD)

lemma sum_list_concat_map: "sum_list (map f (concat xss)) = (\<Sum>xs\<leftarrow>xss. sum_list (map f xs))"
  for f :: "'a \<Rightarrow> int"
  by (induction xss) simp_all

lemma sum_list_swap:
  fixes f :: "'a \<Rightarrow> 'b \<Rightarrow> int"
  shows "(\<Sum>x\<leftarrow>xs. \<Sum>y\<leftarrow>ys. f x y) = (\<Sum>y\<leftarrow>ys. \<Sum>x\<leftarrow>xs. f x y)"
  by (induction xs) (simp_all add: sum_list_addf)

lemma sum_list_pick: "distinct ks \<Longrightarrow> k \<in> set ks \<Longrightarrow> (\<Sum>x\<leftarrow>ks. if x = k then c else 0) = (c :: int)"
proof (induction ks)
  case (Cons x ks)
  have "(\<Sum>x\<leftarrow>ks. if x = k then c else 0) = 0" if "k \<notin> set ks" using that by (induction ks) auto
  then show ?case using Cons by auto
qed simp

lemma sum_list_groups:
  fixes f :: "'a \<Rightarrow> int"
  assumes "distinct ks" and "key ` set js \<subseteq> set ks"
  shows "(\<Sum>k\<leftarrow>ks. \<Sum>j\<leftarrow>filter (\<lambda>j. key j = k) js. f j) = (\<Sum>j\<leftarrow>js. f j)"
  using assms(2)
proof (induction js)
  case (Cons j js)
  have "(\<Sum>k\<leftarrow>ks. \<Sum>j\<leftarrow>filter (\<lambda>j. key j = k) (j # js). f j)
      = (\<Sum>k\<leftarrow>ks. (if k = key j then f j else 0) + (\<Sum>j\<leftarrow>filter (\<lambda>j. key j = k) js. f j))"
    by (rule arg_cong [of _ _ sum_list], rule map_cong) auto
  then show ?case using Cons assms(1) by (simp add: sum_list_addf sum_list_pick)
qed simp

section \<open>Trimming\<close>

definition js_space :: "char \<Rightarrow> bool" where
  "js_space c \<longleftrightarrow> of_char c \<in> {9 :: nat, 10, 11, 12, 13, 32, 160}"

definition js_trim :: "string \<Rightarrow> string" where
  "js_trim s = rev (dropWhile js_space (rev (dropWhile js_space s)))"

end
