(* ===== verification/JsErrors.thy ===== *)
theory JsErrors
  imports Prelude
begin

text \<open>
  Thrown values and their classification: \<open>src/common/with-retry.ts\<close> (\<open>readPgCode\<close>,
  \<open>withRetry\<close>), \<open>src/types/problem.exception.ts\<close>, the error classes of
  \<open>src/checkout/checkout.service.ts\<close> and \<open>src/messaging/outbox-relay.ts\<close>, and
  \<open>isTransientConsumerError\<close> of \<open>src/messaging/order-placed.consumer.ts\<close>, which walks the
  \<open>driverError\<close> and \<open>cause\<close> links of an arbitrary, possibly cyclic, object graph.
\<close>

section \<open>Objects\<close>

text \<open>
  A value of type \<open>unknown\<close>: only strings and object references are looked into. Objects
  live in a heap, so that two links may lead to the same object and a chain of links may
  return to where it started.
\<close>

datatype js_value = JUndefined | JNull | JOther | JStr string | JRef nat

record js_object =
  obj_code :: js_value
  obj_driverError :: js_value
  obj_cause :: js_value
  obj_is_error :: bool
  obj_message :: string

type_synonym js_heap = "(nat \<times> js_object) list"

text \<open>The string-valued \<open>code\<close> property of a value, if it is an object that has one.\<close>

definition string_code :: "js_heap \<Rightarrow> js_value \<Rightarrow> string option" where
  "string_code h v =
     (case v of
        JRef a \<Rightarrow> (case map_of h a of
            Some ob \<Rightarrow> (case obj_code ob of JStr c \<Rightarrow> Some c | _ \<Rightarrow> None)
          | None \<Rightarrow> None)
      | _ \<Rightarrow> None)"

definition readPgCode :: "js_heap \<Rightarrow> js_value \<Rightarrow> string option" where
  "readPgCode h err =
     (case err of
        JRef a \<Rightarrow> (case map_of h a of
            None \<Rightarrow> None
          | Some asRecord \<Rightarrow>
              (case string_code h err of
                 Some c \<Rightarrow> Some c
               | None \<Rightarrow> string_code h (obj_driverError asRecord)))
      | _ \<Rightarrow> None)"

section \<open>The errors of the application\<close>

record problem_body =
  pb_type :: string
  pb_title :: string
  pb_status :: int
  pb_detail :: string
  pb_instance :: string

datatype thrown =
    PgError string string
  | NodeError string string
  | PlainError string
  | OutOfStockError
  | InsufficientFundsError
  | IdempotencyKeyConflictError
  | OutboxWriteAbortedError
  | IdempotencyReplayError
  | RelayCrashedError
  | ProblemException problem_body

definition mk_problem :: "int \<Rightarrow> string \<Rightarrow> string \<Rightarrow> string \<Rightarrow> string \<Rightarrow> thrown" where
  "mk_problem status type title detail instance_path =
     ProblemException \<lparr>pb_type = type, pb_title = title, pb_status = status,
       pb_detail = detail, pb_instance = instance_path\<rparr>"

fun thrown_message :: "thrown \<Rightarrow> string" where
  "thrown_message (PgError c m) = m"
| "thrown_message (NodeError c m) = m"
| "thrown_message (PlainError m) = m"
| "thrown_message OutOfStockError = ''Out of stock''"
| "thrown_message InsufficientFundsError = ''Insufficient funds''"
| "thrown_message IdempotencyKeyConflictError = ''Idempotency key conflict''"
| "thrown_message OutboxWriteAbortedError = ''business write aborted after outbox insert''"
| "thrown_message IdempotencyReplayError = ''idempotency key already committed''"
| "thrown_message RelayCrashedError =
     ''relay stopped after publish and before published_at update''"
| "thrown_message (ProblemException b) = pb_detail b"

text \<open>
  The object a thrown error is: a failed query carries the SQLSTATE on the driver error it
  wraps, a network error carries its own code, the application's errors carry none.
\<close>

fun thrown_heap :: "thrown \<Rightarrow> js_heap" where
  "thrown_heap (PgError c m) =
     [(0, \<lparr>obj_code = JStr c, obj_driverError = JRef 1, obj_cause = JUndefined,
           obj_is_error = True, obj_message = m\<rparr>),
      (1, \<lparr>obj_code = JStr c, obj_driverError = JUndefined, obj_cause = JUndefined,
           obj_is_error = True, obj_message = m\<rparr>)]"
| "thrown_heap (NodeError c m) =
     [(0, \<lparr>obj_code = JStr c, obj_driverError = JUndefined, obj_cause = JUndefined,
           obj_is_error = True, obj_message = m\<rparr>)]"
| "thrown_heap e =
     [(0, \<lparr>obj_code = JUndefined, obj_driverError = JUndefined, obj_cause = JUndefined,
           obj_is_error = True, obj_message = thrown_message e\<rparr>)]"

definition pg_code :: "thrown \<Rightarrow> string option" where
  "pg_code e = readPgCode (thrown_heap e) (JRef 0)"

lemma pg_code_simps [simp]:
  "pg_code (PgError c m) = Some c"
  "pg_code (NodeError c m) = Some c"
  "pg_code (PlainError m) = None"
  "pg_code OutOfStockError = None"
  "pg_code InsufficientFundsError = None"
  "pg_code IdempotencyKeyConflictError = None"
  "pg_code OutboxWriteAbortedError = None"
  "pg_code IdempotencyReplayError = None"
  "pg_code RelayCrashedError = None"
  "pg_code (ProblemException b) = None"
  by (simp_all add: pg_code_def readPgCode_def string_code_def)

section \<open>Retrying a transaction\<close>

definition RETRYABLE :: "string list" where
  "RETRYABLE = [''40001'', ''40P01'']"

definition is_retryable :: "thrown \<Rightarrow> bool" where
  "is_retryable err \<longleftrightarrow> (\<exists>code \<in> set RETRYABLE. pg_code err = Some code)"

lemma is_retryable_iff:
  "is_retryable err \<longleftrightarrow> pg_code err = Some ''40001'' \<or> pg_code err = Some ''40P01''"
  by (auto simp: is_retryable_def RETRYABLE_def)

text \<open>
  The loop of \<open>withRetry\<close> from a given attempt on, with the list of the delays it waited.
\<close>

function retry_loop ::
  "('s, thrown, 'a) exec \<Rightarrow> nat \<Rightarrow> nat \<Rightarrow> 's \<Rightarrow> ((thrown + 'a) \<times> 's) \<times> nat list"
where
  "retry_loop fn maxAttempts attempt s =
     (if attempt \<le> maxAttempts then
        (case fn s of
           (Inr a, s') \<Rightarrow> ((Inr a, s'), [])
         | (Inl err, s') \<Rightarrow>
             (let canRetry = (is_retryable err \<and> attempt < maxAttempts) in
              if \<not> canRetry then ((Inl err, s'), [])
              else
                let waitMs = 10 * 2 ^ (attempt - 1);
                    (res, waits) = retry_loop fn maxAttempts (Suc attempt) s'
                in (res, waitMs # waits)))
      else ((Inl (PlainError ''unreachable''), s), []))"
  by pat_completeness auto
termination
  by (relation "measure (\<lambda>(fn, m, attempt, s). Suc m - attempt)") auto

declare retry_loop.simps [simp del]

definition withRetry :: "('s, thrown, 'a) exec \<Rightarrow> nat \<Rightarrow> ('s, thrown, 'a) exec" where
  "withRetry fn maxAttempts s = fst (retry_loop fn maxAttempts 1 s)"

definition withRetry_waits :: "('s, thrown, 'a) exec \<Rightarrow> nat \<Rightarrow> 's \<Rightarrow> nat list" where
  "withRetry_waits fn maxAttempts s = snd (retry_loop fn maxAttempts 1 s)"

text \<open>The state in which the attempt number \<open>k\<close>, counted from 0, runs.\<close>

definition attempt_state :: "('s, thrown, 'a) exec \<Rightarrow> 's \<Rightarrow> nat \<Rightarrow> 's" where
  "attempt_state fn s k = ((\<lambda>t. snd (fn t)) ^^ k) s"

lemma attempt_state_0 [simp]: "attempt_state fn s 0 = s"
  by (simp add: attempt_state_def)

lemma attempt_state_shift: "attempt_state fn (snd (fn s)) k = attempt_state fn s (Suc k)"
  by (simp add: attempt_state_def funpow_Suc_right del: funpow.simps)

definition fails_retryably :: "('s, thrown, 'a) exec \<Rightarrow> 's \<Rightarrow> bool" where
  "fails_retryably fn s \<longleftrightarrow> (\<exists>e. fst (fn s) = Inl e \<and> is_retryable e)"

lemma retry_loop_spec:
  assumes "1 \<le> attempt" and "attempt \<le> m"
  shows "\<exists>k. attempt + k \<le> m
    \<and> (\<forall>i<k. fails_retryably fn (attempt_state fn s i))
    \<and> fst (retry_loop fn m attempt s) = fn (attempt_state fn s k)
    \<and> (fails_retryably fn (attempt_state fn s k) \<longrightarrow> attempt + k = m)
    \<and> snd (retry_loop fn m attempt s) = map (\<lambda>i. 10 * 2 ^ (attempt - 1 + i)) [0..<k]"
  using assms
proof (induction fn m attempt s rule: retry_loop.induct)
  case (1 fn m attempt s)
  obtain r s' where fs: "fn s = (r, s')" by fastforce
  show ?case
  proof (cases "fails_retryably fn s \<and> attempt < m")
    case False
    then have "retry_loop fn m attempt s = (fn s, [])"
      using 1(3) fs by (subst retry_loop.simps)
        (auto simp: fails_retryably_def split: sum.splits)
    then show ?thesis using False 1(3) by (intro exI [of _ 0]) auto
  next
    case True
    then obtain e where e: "r = Inl e" "is_retryable e" by (auto simp: fails_retryably_def fs)
    let ?l = "retry_loop fn m (Suc attempt) s'"
    have l: "retry_loop fn m attempt s = (fst ?l, 10 * 2 ^ (attempt - 1) # snd ?l)"
      using True e fs by (subst retry_loop.simps) (simp add: case_prod_unfold Let_def)
    obtain k where k: "Suc attempt + k \<le> m"
      "\<forall>i<k. fails_retryably fn (attempt_state fn s (Suc i))"
      "fst ?l = fn (attempt_state fn s (Suc k))"
      "fails_retryably fn (attempt_state fn s (Suc k)) \<longrightarrow> Suc attempt + k = m"
      "snd ?l = map (\<lambda>i. 10 * 2 ^ (Suc attempt - 1 + i)) [0..<k]"
      using 1(1) [of "Inl e" s' e True "10 * 2 ^ (attempt - 1)"] True e fs 1(2,3)
      by (auto simp: attempt_state_shift [of fn s, simplified fs snd_conv])
    have w: "10 * 2 ^ (attempt - 1) # snd ?l = map (\<lambda>i. 10 * 2 ^ (attempt - 1 + i)) [0..<Suc k]"
      using 1(2) by (simp add: k(5) upt_conv_Cons map_Suc_upt [symmetric] del: upt_Suc)
    have "\<forall>i<Suc k. fails_retryably fn (attempt_state fn s i)"
      using k(2) True by (auto simp: less_Suc_eq_0_disj)
    then show ?thesis using k(1,3,4) l w by (intro exI [of _ "Suc k"]) auto
  qed
qed

lemma keeps_retry_loop:
  "keeps P fn \<Longrightarrow> P s \<Longrightarrow> P (snd (fst (retry_loop fn m attempt s)))"
proof (induction fn m attempt s rule: retry_loop.induct)
  case (1 fn m attempt s)
  obtain r s' where fs: "fn s = (r, s')" by fastforce
  then have s': "P s'" using 1(2,3) by (metis keepsD)
  show ?case
  proof (cases "attempt \<le> m \<and> (\<exists>e. r = Inl e \<and> is_retryable e \<and> attempt < m)")
    case True
    then obtain e where e: "r = Inl e" "is_retryable e" "attempt < m" by auto
    then have "P (snd (fst (retry_loop fn m (Suc attempt) s')))"
      using 1(1) [of "Inl e" s' e True "10 * 2 ^ (attempt - 1)"] fs 1(2) s' by simp
    then show ?thesis using e fs by (subst retry_loop.simps) (simp add: case_prod_unfold Let_def)
  next
    case False
    then show ?thesis using fs s' 1(3)
      by (subst retry_loop.simps) (auto split: sum.splits)
  qed
qed

lemma keeps_withRetry [keeps_intros]: "keeps P fn \<Longrightarrow> keeps P (withRetry fn m)"
  by (rule keepsI) (metis keeps_retry_loop snd_conv withRetry_def)

lemma withRetry_Inr_once: "fn s = (Inr a, s') \<Longrightarrow> 1 \<le> m \<Longrightarrow> withRetry fn m s = (Inr a, s')"
  by (simp add: withRetry_def retry_loop.simps)

lemma withRetry_permanent:
  "fn s = (Inl e, s') \<Longrightarrow> \<not> is_retryable e \<Longrightarrow> 1 \<le> m \<Longrightarrow> withRetry fn m s = (Inl e, s')"
  by (simp add: withRetry_def retry_loop.simps)

section \<open>Transient errors of the consumer\<close>

definition TRANSIENT_NODE :: "string list" where
  "TRANSIENT_NODE = [''EAI_AGAIN'', ''ECONNABORTED'', ''ECONNREFUSED'', ''ECONNRESET'',
     ''EHOSTUNREACH'', ''ENETDOWN'', ''ENETUNREACH'', ''ENOTFOUND'', ''EPIPE'', ''ETIMEDOUT'']"

fun to_lower :: "char \<Rightarrow> char" where
  "to_lower c = (if 65 \<le> (of_char c :: nat) \<and> (of_char c :: nat) \<le> 90
     then char_of ((of_char c :: nat) + 32) else c)"

fun is_prefix :: "string \<Rightarrow> string \<Rightarrow> bool" where
  "is_prefix [] ys = True"
| "is_prefix (x # xs) [] = False"
| "is_prefix (x # xs) (y # ys) = (x = y \<and> is_prefix xs ys)"

fun contains_str :: "string \<Rightarrow> string \<Rightarrow> bool" where
  "contains_str p [] = (p = [])"
| "contains_str p (c # cs) = (is_prefix p (c # cs) \<or> contains_str p cs)"

definition TRANSIENT_MESSAGE :: "string \<Rightarrow> bool" where
  "TRANSIENT_MESSAGE m \<longleftrightarrow>
     list_ex (\<lambda>p. contains_str p (map to_lower m))
       [''connection terminated'', ''not queryable'', ''could not connect to server'',
        ''the database system is starting up'', ''the database system is shutting down'',
        ''sor'' @ ''ry, too many clients already'']"

definition isTransientCode :: "string \<Rightarrow> bool" where
  "isTransientCode code \<longleftrightarrow>
     code \<in> set TRANSIENT_NODE \<or> code = ''55P03''
     \<or> (length code = 5 \<and> list_ex (\<lambda>p. is_prefix p code) [''08'', ''40'', ''53'', ''57''])"

text \<open>The test one object has to pass; the empty string is falsy.\<close>

definition transient_object :: "js_heap \<Rightarrow> nat \<Rightarrow> js_object \<Rightarrow> bool" where
  "transient_object h a ob \<longleftrightarrow>
     (case readPgCode h (JRef a) of Some code \<Rightarrow> code \<noteq> [] \<and> isTransientCode code | None \<Rightarrow> False)
     \<or> (obj_is_error ob \<and> TRANSIENT_MESSAGE (obj_message ob))"

text \<open>
  \<open>visit\<close> with the mutable set \<open>seen\<close> passed along: the second recursive call sees the
  objects the first one has added.
\<close>

function visit :: "js_heap \<Rightarrow> nat list \<Rightarrow> js_value \<Rightarrow> bool \<times> nat list" where
  "visit h seen current =
     (case current of
        JRef a \<Rightarrow>
          (if a \<in> set seen then (False, seen)
           else (case map_of h a of
               None \<Rightarrow> (False, seen)
             | Some ob \<Rightarrow>
                 if transient_object h a ob then (True, a # seen)
                 else (case visit h (a # seen) (obj_driverError ob) of
                         (True, seen') \<Rightarrow> (True, seen')
                       | (False, seen') \<Rightarrow> visit h seen' (obj_cause ob))))
      | _ \<Rightarrow> (False, seen))"
  by pat_completeness auto

lemma visit_seen_mono_dom:
  "visit_dom (h, seen, v) \<Longrightarrow> set seen \<subseteq> set (snd (visit h seen v))"
proof (induction h seen v rule: visit.pinduct)
  case (1 h seen v)
  show ?case
  proof (cases "\<exists>a ob. v = JRef a \<and> a \<notin> set seen \<and> map_of h a = Some ob \<and> \<not> transient_object h a ob")
    case False
    then show ?thesis
      by (subst visit.psimps [OF 1(1)]) (auto split: js_value.splits option.splits)
  next
    case True
    then obtain a ob where v: "v = JRef a" "a \<notin> set seen" "map_of h a = Some ob"
      "\<not> transient_object h a ob" by blast
    obtain r seen' where r: "visit h (a # seen) (obj_driverError ob) = (r, seen')" by fastforce
    have s': "set seen \<subseteq> set seen'" using 1(2) [OF v] r by simp
    show ?thesis
    proof (cases r)
      case True
      then show ?thesis using v r s' by (subst visit.psimps [OF 1(1)]) simp
    next
      case False
      have "set seen' \<subseteq> set (snd (visit h seen' (obj_cause ob)))"
        using 1(3) [OF v, of r seen'] r False by simp
      then show ?thesis using v r s' False by (subst visit.psimps [OF 1(1)]) simp
    qed
  qed
qed

termination visit
proof (relation "inv_image finite_psubset (\<lambda>(h, seen, v). fst ` set h - set seen)", goal_cases)
  case 1
  show ?case by auto
next
  case (2 h seen current a ob)
  then have "a \<in> fst ` set h" by (metis domI dom_map_of_conv_image_fst)
  with 2 show ?case by (auto simp: finite_psubset_def)
next
  case (3 h seen current a ob r seen')
  then have "a \<in> fst ` set h" by (metis domI dom_map_of_conv_image_fst)
  moreover have "set (a # seen) \<subseteq> set seen'"
    using visit_seen_mono_dom 3(5,7) by (metis snd_conv)
  ultimately show ?case using 3(2) by (auto simp: finite_psubset_def)
qed

declare visit.simps [simp del]

definition isTransientConsumerError :: "js_heap \<Rightarrow> js_value \<Rightarrow> bool" where
  "isTransientConsumerError h err = fst (visit h [] err)"

text \<open>
  The links of the object graph, and the reference reading of the search: some object that
  can be reached over \<open>driverError\<close> and \<open>cause\<close> links passes the test.
\<close>

definition err_link :: "js_heap \<Rightarrow> (nat \<times> nat) set" where
  "err_link h = {(a, b). \<exists>ob. map_of h a = Some ob
     \<and> (obj_driverError ob = JRef b \<or> obj_cause ob = JRef b)}"

definition transient_at :: "js_heap \<Rightarrow> nat \<Rightarrow> bool" where
  "transient_at h a \<longleftrightarrow> (\<exists>ob. map_of h a = Some ob \<and> transient_object h a ob)"

lemma visit_step:
  assumes "map_of h a = Some ob" "a \<notin> set seen" "\<not> transient_object h a ob"
  shows "visit h seen (JRef a) =
    (if fst (visit h (a # seen) (obj_driverError ob)) then visit h (a # seen) (obj_driverError ob)
     else visit h (snd (visit h (a # seen) (obj_driverError ob))) (obj_cause ob))"
  using assms by (subst visit.simps) (auto split: prod.splits bool.splits)

lemma visit_stop:
  assumes "\<not> (\<exists>a ob. v = JRef a \<and> a \<notin> set seen \<and> map_of h a = Some ob \<and> \<not> transient_object h a ob)"
  shows "visit h seen v =
    (case v of JRef a \<Rightarrow> if a \<notin> set seen \<and> transient_at h a then (True, a # seen) else (False, seen)
     | _ \<Rightarrow> (False, seen))"
  using assms by (subst visit.simps) (auto simp: transient_at_def split: js_value.splits option.splits)

lemma visit_finds:
  "fst (visit h seen v) \<Longrightarrow> \<exists>a b. v = JRef a \<and> (a, b) \<in> (err_link h)\<^sup>* \<and> transient_at h b"
proof (induction h seen v rule: visit.induct)
  case (1 h seen v)
  show ?case
  proof (cases "\<exists>a ob. v = JRef a \<and> a \<notin> set seen \<and> map_of h a = Some ob \<and> \<not> transient_object h a ob")
    case False
    then show ?thesis using 1(3)
      by (auto simp: visit_stop split: js_value.splits if_splits)
  next
    case True
    then obtain a ob where v: "v = JRef a" "a \<notin> set seen" "map_of h a = Some ob"
      "\<not> transient_object h a ob" by blast
    let ?d = "visit h (a # seen) (obj_driverError ob)"
    have "\<exists>c b. (a, c) \<in> err_link h \<and> (c, b) \<in> (err_link h)\<^sup>* \<and> transient_at h b"
    proof (cases "fst ?d")
      case True
      then have "\<exists>c b. obj_driverError ob = JRef c \<and> (c, b) \<in> (err_link h)\<^sup>* \<and> transient_at h b"
        using 1(1) [OF v] by blast
      moreover have "(a, c) \<in> err_link h" if "obj_driverError ob = JRef c" for c
        using that v(3) by (simp add: err_link_def)
      ultimately show ?thesis by blast
    next
      case False
      then have "fst (visit h (snd ?d) (obj_cause ob))" using 1(3) v by (simp add: visit_step)
      moreover have "(False, snd ?d) = ?d" using False by (metis (full_types) prod.collapse)
      ultimately have "\<exists>c b. obj_cause ob = JRef c \<and> (c, b) \<in> (err_link h)\<^sup>* \<and> transient_at h b"
        using 1(2) [OF v _ refl] by blast
      moreover have "(a, c) \<in> err_link h" if "obj_cause ob = JRef c" for c
        using that v(3) by (simp add: err_link_def)
      ultimately show ?thesis by blast
    qed
    then show ?thesis using v(1) by (auto intro: converse_rtrancl_into_rtrancl)
  qed
qed

text \<open>What a search that found nothing has covered.\<close>

definition covered :: "js_heap \<Rightarrow> nat set \<Rightarrow> nat set \<Rightarrow> bool" where
  "covered h old new \<longleftrightarrow> old \<subseteq> new \<and>
     (\<forall>a \<in> new - old. \<not> transient_at h a \<and> (err_link h `` {a}) \<inter> dom (map_of h) \<subseteq> new)"

lemma covered_trans: "covered h A B \<Longrightarrow> covered h B C \<Longrightarrow> covered h A C"
  unfolding covered_def by blast

lemma covered_insert:
  assumes "covered h (insert a A) B" and "\<not> transient_at h a"
    and "err_link h `` {a} \<inter> dom (map_of h) \<subseteq> B"
  shows "covered h A B"
  using assms unfolding covered_def by blast

lemma visit_covers:
  "\<not> fst (visit h seen v) \<Longrightarrow>
    covered h (set seen) (set (snd (visit h seen v)))
    \<and> (\<forall>a. v = JRef a \<and> a \<in> dom (map_of h) \<longrightarrow> a \<in> set (snd (visit h seen v)))"
proof (induction h seen v rule: visit.induct)
  case (1 h seen v)
  show ?case
  proof (cases "\<exists>a ob. v = JRef a \<and> a \<notin> set seen \<and> map_of h a = Some ob \<and> \<not> transient_object h a ob")
    case False
    then show ?thesis using 1(3)
      by (auto simp: visit_stop covered_def transient_at_def split: js_value.splits if_splits)
  next
    case True
    then obtain a ob where v: "v = JRef a" "a \<notin> set seen" "map_of h a = Some ob"
      "\<not> transient_object h a ob" by blast
    let ?d = "visit h (a # seen) (obj_driverError ob)"
    let ?c = "visit h (snd ?d) (obj_cause ob)"
    have f: "\<not> fst ?d" "\<not> fst ?c" and eq: "visit h seen v = ?c"
      using 1(3) v by (auto simp: visit_step split: if_splits)
    have d: "covered h (set (a # seen)) (set (snd ?d))"
      "\<forall>b. obj_driverError ob = JRef b \<and> b \<in> dom (map_of h) \<longrightarrow> b \<in> set (snd ?d)"
      using 1(1) [OF v f(1)] by simp_all
    have c: "covered h (set (snd ?d)) (set (snd ?c))"
      "\<forall>b. obj_cause ob = JRef b \<and> b \<in> dom (map_of h) \<longrightarrow> b \<in> set (snd ?c)"
      using 1(2) [OF v _ refl f(2)] f(1) by (metis (full_types) prod.collapse)+
    from covered_trans [OF d(1) c(1)] have ac: "covered h (set (a # seen)) (set (snd ?c))" .
    have "err_link h `` {a} \<inter> dom (map_of h) \<subseteq> set (snd ?c)"
      using d(2) c v(3) by (auto simp: err_link_def covered_def)
    moreover have "\<not> transient_at h a" using v by (simp add: transient_at_def)
    ultimately have "covered h (set seen) (set (snd ?c))"
      using ac by (auto intro: covered_insert)
    then show ?thesis using ac v(1) unfolding eq by (auto simp: covered_def)
  qed
qed

lemma covered_reachable:
  assumes "covered h {} S" and "a \<in> S" and "(a, b) \<in> (err_link h)\<^sup>*" and "b \<in> dom (map_of h)"
  shows "b \<in> S"
  using assms(3,4)
proof (induction rule: rtrancl_induct)
  case (step b c)
  then have "b \<in> dom (map_of h)" by (auto simp: err_link_def)
  with step assms(1) show ?case unfolding covered_def by blast
qed (use assms in simp)

section \<open>Properties\<close>

text \<open>
  \<open>withRetry\<close> runs the callback at most \<open>maxAttempts\<close> times and always settles with the
  outcome of its last run, never with the trailing \<open>unreachable\<close> error: every earlier run
  failed with SQLSTATE 40001 or 40P01, the last run failed that way only if the attempts
  were used up, and the delays between the runs are 10, 20, 40, \<dots> milliseconds.
\<close>

theorem withRetry_settles:
  assumes "1 \<le> m"
  shows "\<exists>k<m. (\<forall>i<k. fails_retryably fn (attempt_state fn s i))
    \<and> withRetry fn m s = fn (attempt_state fn s k)
    \<and> (fails_retryably fn (attempt_state fn s k) \<longrightarrow> Suc k = m)
    \<and> withRetry_waits fn m s = map (\<lambda>i. 10 * 2 ^ i) [0..<k]"
  using retry_loop_spec [OF order_refl assms, of fn s]
  unfolding withRetry_def withRetry_waits_def by (simp add: Suc_le_eq)

definition flaky :: "(nat, thrown, nat) exec" where
  "flaky s = (if s < 2 then (Inl (PgError ''40001'' ''could not serialize access''), Suc s)
     else (Inr s, s))"

theorem withRetry_settles_witness:
  "(1::nat) \<le> 5 \<and> withRetry flaky 5 0 = (Inr 2, 2) \<and> withRetry_waits flaky 5 0 = [10, 20]
   \<and> (\<exists>k<5. withRetry flaky 5 0 = flaky (attempt_state flaky 0 k))"
proof -
  have "(1::nat) \<le> 5" by simp
  from withRetry_settles [OF this, of flaky 0]
  have "\<exists>k<5. withRetry flaky 5 0 = flaky (attempt_state flaky 0 k)" by blast
  moreover have "withRetry flaky 5 0 = (Inr 2, 2)" "withRetry_waits flaky 5 0 = [10, 20]"
    by (simp_all add: withRetry_def withRetry_waits_def retry_loop.simps flaky_def is_retryable_iff)
  ultimately show ?thesis by simp
qed

text \<open>
  (C33) \<open>isTransientConsumerError\<close> terminates on every object graph, cyclic ones included, and
  answers true exactly when an object with a transient code or message can be reached from
  the thrown value over \<open>driverError\<close> and \<open>cause\<close> links: sharing the set of seen objects
  between the two branches of the search loses nothing.
\<close>

theorem isTransientConsumerError_reachable:
  "isTransientConsumerError h v \<longleftrightarrow>
     (\<exists>a b. v = JRef a \<and> (a, b) \<in> (err_link h)\<^sup>* \<and> transient_at h b)"
proof
  assume "isTransientConsumerError h v"
  then show "\<exists>a b. v = JRef a \<and> (a, b) \<in> (err_link h)\<^sup>* \<and> transient_at h b"
    unfolding isTransientConsumerError_def by (rule visit_finds)
next
  assume "\<exists>a b. v = JRef a \<and> (a, b) \<in> (err_link h)\<^sup>* \<and> transient_at h b"
  then obtain a b where ab: "v = JRef a" "(a, b) \<in> (err_link h)\<^sup>*" "transient_at h b" by blast
  have b: "b \<in> dom (map_of h)" using ab(3) by (auto simp: transient_at_def)
  have a: "a \<in> dom (map_of h)"
    using ab(2) b by (auto elim: converse_rtranclE simp: err_link_def)
  show "isTransientConsumerError h v"
  proof (rule ccontr)
    assume "\<not> isTransientConsumerError h v"
    then have c: "covered h {} (set (snd (visit h [] v)))" "a \<in> set (snd (visit h [] v))"
      using visit_covers [of h "[]" v] a ab(1) by (auto simp: isTransientConsumerError_def)
    then have "b \<in> set (snd (visit h [] v))" using covered_reachable ab(2) b by blast
    then show False using c(1) ab(3) by (auto simp: covered_def)
  qed
qed

end
