(* ===== verification/Schema.thy ===== *)
theory Schema
  imports JsErrors
begin

text \<open>
  The PostgreSQL schema of \<open>src/entities\<close> and \<open>src/migrations\<close>: one record per table row, the
  constraints of the migrations as a well-formedness predicate, and the unit of work of the
  services, a transaction that commits or leaves the tables as they were.

  The SQL text is part of the sources and its statements are translated in the component
  theories. What the database server and the other processes do is an input: a schedule
  that says, for every database call of the modelled process in turn, which committed
  changes of other transactions it finds (\<open>interfere\<close>) and whether the server aborts it
  (\<open>aborts\<close>: a serialization failure, a deadlock victim, a lost connection).
\<close>

section \<open>JSON documents\<close>

datatype json =
    JsNull
  | JsBool bool
  | JsNum int
  | JsString string
  | JsArr "json list"
  | JsObj "(string \<times> json) list"

definition json_field :: "json \<Rightarrow> string \<Rightarrow> json option" where
  "json_field j k = (case j of JsObj fs \<Rightarrow> map_of fs k | _ \<Rightarrow> None)"

text \<open>The operator \<open>->>\<close> on scalar fields: the field as text, SQL \<open>NULL\<close> when it is absent.\<close>

definition json_text :: "json \<Rightarrow> string \<Rightarrow> string option" where
  "json_text j k =
     (case json_field j k of
        Some (JsString s) \<Rightarrow> Some s
      | Some (JsNum n) \<Rightarrow> Some (show_int n)
      | Some (JsBool b) \<Rightarrow> Some (if b then ''true'' else ''false'')
      | _ \<Rightarrow> None)"

section \<open>Rows\<close>

datatype user_role = Buyer | Seller | Admin

record user_row =
  u_id :: int
  u_email :: string
  u_full_name :: string
  u_role :: user_role
  u_is_active :: bool
  u_balance_cents :: int

record category_row =
  g_id :: int
  g_slug :: string
  g_title :: string

record product_row =
  p_id :: int
  p_name :: string
  p_description :: string
  p_price_cents :: int
  p_stock :: int
  p_is_active :: bool
  p_seller_id :: int
  p_category_id :: "int option"

record order_row =
  o_id :: int
  o_user_id :: int
  o_status :: string
  o_total_cents :: int
  o_created_at :: int

record order_item_row =
  i_id :: int
  i_order_id :: int
  i_product_id :: int
  i_quantity :: int
  i_unit_price_cents :: int

record job_row =
  j_id :: int
  j_kind :: string
  j_payload :: json
  j_status :: string
  j_processed_count :: int
  j_worker_id :: "string option"

record outbox_row =
  x_id :: int
  x_aggregate_type :: string
  x_aggregate_id :: string
  x_type :: string
  x_payload :: json
  x_created_at :: nat
  x_published_at :: "nat option"
  x_attempts :: int

record idempotency_row =
  k_user_id :: int
  k_key :: string
  k_order_id :: int
  k_request_hash :: string

record effect_row =
  e_event_id :: string
  e_order_id :: string
  e_occurred_at :: string
  e_acked_at :: "nat option"

record processed_row =
  m_message_id :: string
  m_consumer :: string

text \<open>
  The tables, the identity sequences and the server's clock. A sequence is not rolled back
  with the transaction that drew from it.
\<close>

record db =
  users :: "user_row list"
  categories :: "category_row list"
  products :: "product_row list"
  orders :: "order_row list"
  order_items :: "order_item_row list"
  jobs :: "job_row list"
  outbox :: "outbox_row list"
  idempotency_keys :: "idempotency_row list"
  order_placed_effects :: "effect_row list"
  order_placed_deliveries :: "(int \<times> string) list"
  processed_messages :: "processed_row list"
  users_seq :: int
  categories_seq :: int
  products_seq :: int
  orders_seq :: int
  order_items_seq :: int
  jobs_seq :: int
  outbox_seq :: int
  deliveries_seq :: int
  now :: nat

section \<open>Constraints\<close>

definition int4_max :: int where
  "int4_max = 2147483647"

definition int8_max :: int where
  "int8_max = 9223372036854775807"

definition in_int4 :: "int \<Rightarrow> bool" where
  "in_int4 n \<longleftrightarrow> - int4_max - 1 \<le> n \<and> n \<le> int4_max"

text \<open>\<open>position('@' in email) > 1\<close> and \<open>length(btrim(name)) > 0\<close>.\<close>

definition email_ok :: "string \<Rightarrow> bool" where
  "email_ok s \<longleftrightarrow> (case s of [] \<Rightarrow> False | c # cs \<Rightarrow> c \<noteq> CHR ''@'' \<and> CHR ''@'' \<in> set cs)"

definition name_ok :: "string \<Rightarrow> bool" where
  "name_ok s \<longleftrightarrow> list_ex (\<lambda>c. c \<noteq> CHR '' '') s"

definition users_ok :: "db \<Rightarrow> bool" where
  "users_ok d \<longleftrightarrow> distinct (map u_id (users d)) \<and> distinct (map u_email (users d))
     \<and> (\<forall>u \<in> set (users d). 0 \<le> u_balance_cents u \<and> u_balance_cents u \<le> int4_max
          \<and> email_ok (u_email u) \<and> u_id u < users_seq d)"

definition categories_ok :: "db \<Rightarrow> bool" where
  "categories_ok d \<longleftrightarrow> distinct (map g_id (categories d)) \<and> distinct (map g_slug (categories d))
     \<and> (\<forall>g \<in> set (categories d). g_id g < categories_seq d)"

definition products_ok :: "db \<Rightarrow> bool" where
  "products_ok d \<longleftrightarrow> distinct (map p_id (products d)) \<and> distinct (map p_name (products d))
     \<and> (\<forall>p \<in> set (products d). 0 \<le> p_stock p \<and> p_stock p \<le> int4_max
          \<and> 0 < p_price_cents p \<and> p_price_cents p \<le> int4_max
          \<and> name_ok (p_name p) \<and> p_id p < products_seq d
          \<and> p_seller_id p \<in> u_id ` set (users d)
          \<and> set_option (p_category_id p) \<subseteq> g_id ` set (categories d))"

definition order_statuses :: "string list" where
  "order_statuses = [''pending'', ''paid'', ''shipped'', ''delivered'', ''cancelled'']"

definition orders_ok :: "db \<Rightarrow> bool" where
  "orders_ok d \<longleftrightarrow> distinct (map o_id (orders d))
     \<and> (\<forall>r \<in> set (orders d). 0 \<le> o_total_cents r \<and> o_total_cents r \<le> int4_max
          \<and> o_status r \<in> set order_statuses
          \<and> o_user_id r \<in> u_id ` set (users d) \<and> o_id r < orders_seq d)"

definition order_items_ok :: "db \<Rightarrow> bool" where
  "order_items_ok d \<longleftrightarrow> distinct (map i_id (order_items d))
     \<and> distinct (map (\<lambda>i. (i_order_id i, i_product_id i)) (order_items d))
     \<and> (\<forall>i \<in> set (order_items d). 0 < i_quantity i \<and> 0 < i_unit_price_cents i
          \<and> i_order_id i \<in> o_id ` set (orders d) \<and> i_product_id i \<in> p_id ` set (products d)
          \<and> i_id i < order_items_seq d)"

definition jobs_ok :: "db \<Rightarrow> bool" where
  "jobs_ok d \<longleftrightarrow> distinct (map j_id (jobs d))
     \<and> (\<forall>j \<in> set (jobs d). j_status j \<in> {''pending'', ''done''} \<and> 0 \<le> j_processed_count j
          \<and> j_id j < jobs_seq d)"

definition outbox_ok :: "db \<Rightarrow> bool" where
  "outbox_ok d \<longleftrightarrow> distinct (map x_id (outbox d))
     \<and> (\<forall>x \<in> set (outbox d). 0 \<le> x_attempts x \<and> x_id x < outbox_seq d)"

definition keys_ok :: "db \<Rightarrow> bool" where
  "keys_ok d \<longleftrightarrow> distinct (map (\<lambda>k. (k_user_id k, k_key k)) (idempotency_keys d))
     \<and> (\<forall>k \<in> set (idempotency_keys d). k_user_id k \<in> u_id ` set (users d)
          \<and> k_order_id k \<in> o_id ` set (orders d))"

definition inbox_ok :: "db \<Rightarrow> bool" where
  "inbox_ok d \<longleftrightarrow> distinct (map e_event_id (order_placed_effects d))
     \<and> distinct (map (\<lambda>m. (m_message_id m, m_consumer m)) (processed_messages d))
     \<and> distinct (map fst (order_placed_deliveries d))
     \<and> (\<forall>r \<in> set (order_placed_deliveries d). fst r < deliveries_seq d)"

definition db_ok :: "db \<Rightarrow> bool" where
  "db_ok d \<longleftrightarrow> users_ok d \<and> categories_ok d \<and> products_ok d \<and> orders_ok d \<and> order_items_ok d \<and> jobs_ok d
     \<and> outbox_ok d \<and> keys_ok d \<and> inbox_ok d"

lemmas schema_defs = db_ok_def users_ok_def categories_ok_def products_ok_def orders_ok_def order_items_ok_def
  jobs_ok_def outbox_ok_def keys_ok_def inbox_ok_def

text \<open>
  The denormalised total of an order: the sum of its lines. It is an invariant the code has
  to keep, not a constraint of the schema.
\<close>

definition lines_of :: "db \<Rightarrow> int \<Rightarrow> order_item_row list" where
  "lines_of d oid = filter (\<lambda>i. i_order_id i = oid) (order_items d)"

definition line_total :: "order_item_row list \<Rightarrow> int" where
  "line_total is = (\<Sum>i\<leftarrow>is. i_quantity i * i_unit_price_cents i)"

definition totals_ok :: "db \<Rightarrow> bool" where
  "totals_ok d \<longleftrightarrow> (\<forall>r \<in> set (orders d). o_total_cents r = line_total (lines_of d (o_id r)))"

section \<open>Bind parameters\<close>

text \<open>
  A number of the language is sent as text. A whole number out of the range of \<open>integer\<close> is
  refused with 22003; from \<open>10^21\<close> on the text is in exponent notation and is refused with
  22P02, as is any number that is not whole.
\<close>

datatype js_number = Whole int | NotInteger string

definition pg_int4 :: "int \<Rightarrow> thrown + int" where
  "pg_int4 n =
     (if \<bar>n\<bar> \<ge> 10 ^ 21 then Inl (PgError ''22P02'' ''invalid input syntax for type integer'')
      else if in_int4 n then Inr n
      else Inl (PgError ''22003'' ''value is out of range for type integer''))"

fun pg_int4_num :: "js_number \<Rightarrow> thrown + int" where
  "pg_int4_num (Whole n) = pg_int4 n"
| "pg_int4_num (NotInteger t) = Inl (PgError ''22P02'' ''invalid input syntax for type integer'')"

definition is_space :: "char \<Rightarrow> bool" where
  "is_space c \<longleftrightarrow> of_char c \<in> {9 :: nat, 10, 11, 12, 13, 32}"

definition trim_space :: "string \<Rightarrow> string" where
  "trim_space s = rev (dropWhile is_space (rev (dropWhile is_space s)))"

definition int_of_text :: "string \<Rightarrow> int option" where
  "int_of_text s =
     (case s of
        [] \<Rightarrow> None
      | c # cs \<Rightarrow>
          if c = CHR ''-'' then (if all_digits cs then Some (- int (nat_of_digits cs)) else None)
          else if c = CHR ''+'' then (if all_digits cs then Some (int (nat_of_digits cs)) else None)
          else if all_digits s then Some (int (nat_of_digits s)) else None)"

text \<open>Text sent where a \<open>bigint\<close> is expected: blanks around it and a sign are accepted.\<close>

definition pg_bigint :: "string \<Rightarrow> thrown + int" where
  "pg_bigint s =
     (case int_of_text (trim_space s) of
        None \<Rightarrow> Inl (PgError ''22P02'' ''invalid input syntax for type bigint'')
      | Some n \<Rightarrow> if - int8_max - 1 \<le> n \<and> n \<le> int8_max then Inr n
          else Inl (PgError ''22003'' ''value is out of range for type bigint''))"

section \<open>The process and its transactions\<close>

record env_step =
  interfere :: "db \<Rightarrow> db"
  aborts :: "thrown option"

record world =
  w_db :: db
  w_rng :: nat
  w_sched :: "env_step list"

definition rollback :: "db \<Rightarrow> db \<Rightarrow> db" where
  "rollback d0 d1 = d0\<lparr>users_seq := users_seq d1, categories_seq := categories_seq d1,
     products_seq := products_seq d1, orders_seq := orders_seq d1, order_items_seq := order_items_seq d1,
     jobs_seq := jobs_seq d1, outbox_seq := outbox_seq d1, deliveries_seq := deliveries_seq d1\<rparr>"

text \<open>One statement of an open transaction.\<close>

definition sqlE :: "(db \<Rightarrow> (thrown + 'a) \<times> db) \<Rightarrow> (world, thrown, 'a) exec" where
  "sqlE f w = (case f (w_db w) of (r, d) \<Rightarrow> (r, w\<lparr>w_db := d\<rparr>))"

definition liftE :: "thrown + 'a \<Rightarrow> ('s, thrown, 'a) exec" where
  "liftE r s = (r, s)"

text \<open>The next step of the schedule: what the environment does before the call runs.\<close>

definition next_env :: "world \<Rightarrow> thrown option \<times> world" where
  "next_env w =
     (case w_sched w of
        [] \<Rightarrow> (None, w)
      | st # ss \<Rightarrow> (aborts st, w\<lparr>w_db := interfere st (w_db w), w_sched := ss\<rparr>))"

text \<open>\<open>dataSource.transaction\<close>: commit when the callback resolves, roll back when it throws.\<close>

definition transaction :: "(world, thrown, 'a) exec \<Rightarrow> (world, thrown, 'a) exec" where
  "transaction body w =
     (case next_env w of
        (Some e, w1) \<Rightarrow> (Inl e, w1)
      | (None, w1) \<Rightarrow>
          (case body w1 of
             (Inr a, w2) \<Rightarrow> (Inr a, w2)
           | (Inl e, w2) \<Rightarrow> (Inl e, w2\<lparr>w_db := rollback (w_db w1) (w_db w2)\<rparr>)))"

text \<open>\<open>dataSource.query\<close>: one statement in a transaction of its own.\<close>

definition query :: "(db \<Rightarrow> (thrown + 'a) \<times> db) \<Rightarrow> (world, thrown, 'a) exec" where
  "query f = transaction (sqlE f)"

section \<open>What a failed call leaves behind\<close>

text \<open>The contents of the tables, the sequences forgotten.\<close>

definition tables :: "db \<Rightarrow> db" where
  "tables d = d\<lparr>users_seq := 0, categories_seq := 0, products_seq := 0, orders_seq := 0, order_items_seq := 0, jobs_seq := 0, outbox_seq := 0,
     deliveries_seq := 0\<rparr>"

definition seqs_le :: "db \<Rightarrow> db \<Rightarrow> bool" where
  "seqs_le d0 d1 \<longleftrightarrow> users_seq d0 \<le> users_seq d1 \<and> categories_seq d0 \<le> categories_seq d1
     \<and> products_seq d0 \<le> products_seq d1 \<and> orders_seq d0 \<le> orders_seq d1 \<and> order_items_seq d0 \<le> order_items_seq d1
     \<and> jobs_seq d0 \<le> jobs_seq d1 \<and> outbox_seq d0 \<le> outbox_seq d1
     \<and> deliveries_seq d0 \<le> deliveries_seq d1"

definition advanced :: "world \<Rightarrow> world \<Rightarrow> bool" where
  "advanced w0 w1 \<longleftrightarrow> seqs_le (w_db w0) (w_db w1) \<and> w_rng w0 \<le> w_rng w1 \<and> w_sched w0 = w_sched w1"

text \<open>
  A step in which the modelled process changes no table: it draws from sequences or from
  the generator of identifiers, or the environment takes its next step.
\<close>

definition quiet_step :: "world \<Rightarrow> world \<Rightarrow> bool" where
  "quiet_step w w' \<longleftrightarrow>
     (tables (w_db w') = tables (w_db w) \<and> advanced w w') \<or> w' = snd (next_env w)"

abbreviation unaffected :: "world \<Rightarrow> world \<Rightarrow> bool" where
  "unaffected \<equiv> quiet_step\<^sup>*\<^sup>*"

text \<open>A computation that only moves sequences forward and leaves the schedule alone.\<close>

definition tame :: "(world, thrown, 'a) exec \<Rightarrow> bool" where
  "tame m \<longleftrightarrow> (\<forall>w0. keeps (advanced w0) m)"

lemma tables_eq_iff:
  "tables d = tables d' \<longleftrightarrow>
     users d = users d' \<and> categories d = categories d' \<and> products d = products d' \<and> orders d = orders d'
     \<and> order_items d = order_items d' \<and> jobs d = jobs d' \<and> outbox d = outbox d'
     \<and> idempotency_keys d = idempotency_keys d' \<and> order_placed_effects d = order_placed_effects d'
     \<and> order_placed_deliveries d = order_placed_deliveries d'
     \<and> processed_messages d = processed_messages d' \<and> now d = now d'"
  by (cases d; cases d') (auto simp: tables_def)

lemma tables_rollback [simp]: "tables (rollback d0 d1) = tables d0"
  by (simp add: tables_def rollback_def)

lemma seqs_le_rollback [simp]: "seqs_le d (rollback d0 d1) = seqs_le d d1"
  by (simp add: seqs_le_def rollback_def)

lemma seqs_le_refl [simp]: "seqs_le d d"
  by (simp add: seqs_le_def)

lemma seqs_le_trans: "seqs_le a b \<Longrightarrow> seqs_le b c \<Longrightarrow> seqs_le a c"
  by (auto simp: seqs_le_def)

lemma advanced_refl [simp]: "advanced w w"
  by (simp add: advanced_def)

lemma advanced_trans: "advanced a b \<Longrightarrow> advanced b c \<Longrightarrow> advanced a c"
  by (auto simp: advanced_def intro: seqs_le_trans)

lemma sqlE_iff:
  "sqlE f w = (r, w') \<longleftrightarrow> (\<exists>d. f (w_db w) = (r, d) \<and> w' = w\<lparr>w_db := d\<rparr>)"
  by (auto simp: sqlE_def split: prod.splits)

lemma next_env_empty [simp]: "w_sched w = [] \<Longrightarrow> next_env w = (None, w)"
  by (simp add: next_env_def)

lemma transaction_empty:
  assumes "w_sched w = []"
  shows "transaction body w =
    (case body w of
       (Inr a, w2) \<Rightarrow> (Inr a, w2)
     | (Inl e, w2) \<Rightarrow> (Inl e, w2\<lparr>w_db := rollback (w_db w) (w_db w2)\<rparr>))"
  using assms by (simp add: transaction_def)

lemma query_alone:
  assumes "w_sched w = []" and "\<And>d. snd (f d) = d"
  shows "query f w = (fst (f (w_db w)), w)"
proof -
  obtain r d where f: "f (w_db w) = (r, d)" by fastforce
  then have "d = w_db w" using assms(2) by (metis snd_conv)
  then show ?thesis using assms(1) f
    by (simp add: query_def transaction_empty sqlE_def rollback_def split: sum.split)
qed

lemma query_run:
  assumes "w_sched w = []" and "f (w_db w) = (Inr a, d)"
  shows "query f w = (Inr a, w\<lparr>w_db := d\<rparr>)"
  using assms by (simp add: query_def transaction_empty sqlE_def)

text \<open>Tameness through the combinators.\<close>

named_theorems tame_intros \<open>introduction rules for tame computations\<close>

lemma tameI: "(\<And>w r w'. m w = (r, w') \<Longrightarrow> advanced w w') \<Longrightarrow> tame m"
  unfolding tame_def by (intro allI keepsI) (blast intro: advanced_trans)

lemma tameD: "tame m \<Longrightarrow> m w = (r, w') \<Longrightarrow> advanced w w'"
  unfolding tame_def by (metis advanced_refl keepsD)

lemma tame_returnE [tame_intros]: "tame (returnE a)"
  by (simp add: tame_def keeps_returnE)

lemma tame_throwE [tame_intros]: "tame (throwE e)"
  by (simp add: tame_def keeps_throwE)

lemma tame_bindE [tame_intros]: "tame m \<Longrightarrow> (\<And>a. tame (f a)) \<Longrightarrow> tame (bindE m f)"
  by (simp add: tame_def keeps_bindE)

lemma tame_if [tame_intros]: "(b \<Longrightarrow> tame m) \<Longrightarrow> (\<not> b \<Longrightarrow> tame n) \<Longrightarrow> tame (if b then m else n)"
  by simp

lemma tame_sqlE [tame_intros]: "(\<And>d. seqs_le d (snd (f d))) \<Longrightarrow> tame (sqlE f)"
  by (rule tameI) (auto simp: sqlE_iff advanced_def, metis snd_conv)

section \<open>The contract of a unit of work\<close>

text \<open>
  What the services rely on: a call that resolves ran its body once in the state it found
  and kept its changes; a call that throws left no change. Retrying such a call keeps the
  contract, which is proved here once for every transactional service.
\<close>

locale unit_of_work =
  fixes run :: "('s, thrown, 'a) exec \<Rightarrow> ('s, thrown, 'a) exec"
    and start :: "'s \<Rightarrow> 's"
    and quiet :: "'s \<Rightarrow> 's \<Rightarrow> bool"
    and well :: "('s, thrown, 'a) exec \<Rightarrow> bool"
  assumes quiet_start: "quiet s (start s)"
    and quiet_refl: "quiet s s"
    and quiet_trans: "quiet s t \<Longrightarrow> quiet t u \<Longrightarrow> quiet s u"
    and commit: "run m s = (Inr a, s') \<Longrightarrow> m (start s) = (Inr a, s')"
    and abort: "well m \<Longrightarrow> run m s = (Inl e, s') \<Longrightarrow> quiet s s'"
begin

lemma quiet_attempts:
  assumes "well m" and "\<forall>i<k. fails_retryably (run m) (attempt_state (run m) s i)"
  shows "quiet s (attempt_state (run m) s k)"
  using assms(2)
proof (induction k)
  case (Suc k)
  let ?t = "attempt_state (run m) s k"
  from Suc.prems obtain e where "fst (run m ?t) = Inl e" by (auto simp: fails_retryably_def)
  then have "run m ?t = (Inl e, attempt_state (run m) s (Suc k))"
    by (simp add: attempt_state_def prod_eq_iff)
  then show ?case using Suc abort [OF assms(1)] quiet_trans by auto
qed (simp add: quiet_refl)

lemma retry_abort:
  assumes "well m" and "1 \<le> n" and "withRetry (run m) n s = (Inl e, s')"
  shows "quiet s s'"
proof -
  obtain k where k: "\<forall>i<k. fails_retryably (run m) (attempt_state (run m) s i)"
    "withRetry (run m) n s = run m (attempt_state (run m) s k)"
    using retry_loop_spec [OF order_refl assms(2), of "run m" s] by (auto simp: withRetry_def)
  then show ?thesis
    using quiet_attempts [OF assms(1) k(1)] abort [OF assms(1)] assms(3) quiet_trans by metis
qed

lemma retry_commit:
  assumes "well m" and "1 \<le> n" and "withRetry (run m) n s = (Inr a, s')"
  obtains s1 where "quiet s s1" and "m s1 = (Inr a, s')"
proof -
  obtain k where k: "\<forall>i<k. fails_retryably (run m) (attempt_state (run m) s i)"
    "withRetry (run m) n s = run m (attempt_state (run m) s k)"
    using retry_loop_spec [OF order_refl assms(2), of "run m" s] by (auto simp: withRetry_def)
  have "quiet s (start (attempt_state (run m) s k))"
    using quiet_attempts [OF assms(1) k(1)] quiet_start quiet_trans by blast
  then show ?thesis using that commit k(2) assms(3) by metis
qed

end

lemma transaction_commit:
  "transaction body w = (Inr a, w') \<Longrightarrow> body (snd (next_env w)) = (Inr a, w')"
  by (auto simp: transaction_def split: prod.splits option.splits sum.splits)

lemma transaction_abort:
  assumes "tame body" and "transaction body w = (Inl e, w')"
  shows "unaffected w w'"
proof -
  obtain ab w1 where env: "next_env w = (ab, w1)" by fastforce
  then have q: "quiet_step w w1" by (simp add: quiet_step_def)
  show ?thesis
  proof (cases ab)
    case (Some err)
    then show ?thesis using assms(2) env q by (simp add: transaction_def)
  next
    case None
    then obtain w2 where "body w1 = (Inl e, w2)" and
      w': "w' = w2\<lparr>w_db := rollback (w_db w1) (w_db w2)\<rparr>"
      using assms(2) env by (auto simp: transaction_def split: prod.splits sum.splits)
    then have "advanced w1 w2" using tameD [OF assms(1)] by blast
    then have "quiet_step w1 w'" by (simp add: quiet_step_def w' advanced_def)
    then show ?thesis using q by (meson converse_rtranclp_into_rtranclp r_into_rtranclp)
  qed
qed

interpretation tx: unit_of_work transaction "\<lambda>w. snd (next_env w)" unaffected tame
proof unfold_locales
  fix w :: world
  show "unaffected w (snd (next_env w))" by (auto simp: quiet_step_def)
qed (auto intro: transaction_commit transaction_abort)

text \<open>Without a schedule the environment does nothing, so unaffected tables are unchanged.\<close>

lemma unaffected_alone:
  assumes "unaffected w w'" and "w_sched w = []"
  shows "tables (w_db w') = tables (w_db w) \<and> advanced w w'"
  using assms(1)
proof (induction rule: rtranclp_induct)
  case (step y z)
  then have "w_sched y = []" using assms(2) by (simp add: advanced_def)
  then show ?case using step by (auto simp: quiet_step_def intro: advanced_trans)
qed simp

text \<open>
  A predicate on the database that the environment keeps is kept by every computation that
  leaves the tables alone.
\<close>

definition env_keeps :: "(db \<Rightarrow> bool) \<Rightarrow> world \<Rightarrow> bool" where
  "env_keeps P w \<longleftrightarrow> (\<forall>st \<in> set (w_sched w). \<forall>d. P d \<longrightarrow> P (interfere st d))"

definition table_pred :: "(db \<Rightarrow> bool) \<Rightarrow> bool" where
  "table_pred P \<longleftrightarrow> (\<forall>d d'. P d \<longrightarrow> tables d' = tables d \<longrightarrow> seqs_le d d' \<longrightarrow> P d')"

lemma unaffected_keeps:
  assumes "unaffected w w'" and "table_pred P" and "env_keeps P w" and "P (w_db w)"
  shows "P (w_db w') \<and> env_keeps P w'"
  using assms(1)
proof (induction rule: rtranclp_induct)
  case (step y z)
  from step.hyps(2) consider "tables (w_db z) = tables (w_db y)" "advanced y z"
    | "z = snd (next_env y)" by (auto simp: quiet_step_def)
  then show ?case
  proof cases
    case 1
    then show ?thesis using step.IH assms(2)
      by (simp add: advanced_def table_pred_def env_keeps_def) blast
  next
    case 2
    then show ?thesis using step.IH
      by (auto simp: env_keeps_def next_env_def split: list.splits)
  qed
qed (use assms in simp)

lemma table_pred_db_ok: "table_pred db_ok"
  unfolding table_pred_def
proof (intro allI impI)
  fix d d' assume ok: "db_ok d" and t: "tables d' = tables d" and q: "seqs_le d d'"
  have e: "users d' = users d" "categories d' = categories d" "products d' = products d" "orders d' = orders
    d" "order_items d' = order_items d" "jobs d' = jobs d" "outbox d' = outbox d" "idempotency_keys d' =
    idempotency_keys d" "order_placed_effects d' = order_placed_effects d" "order_placed_deliveries d' =
    order_placed_deliveries d" "processed_messages d' = processed_messages d"
    using t by (simp_all add: tables_eq_iff)
  have le: "users_seq d \<le> users_seq d'" "categories_seq d \<le> categories_seq d'" "products_seq d \<le>
    products_seq d'" "orders_seq d \<le> orders_seq d'" "order_items_seq d \<le> order_items_seq d'"
    "jobs_seq d \<le> jobs_seq d'" "outbox_seq d \<le> outbox_seq d'" "deliveries_seq d \<le>
    deliveries_seq d'"
    using q by (simp_all add: seqs_le_def)
  show "db_ok d'" unfolding db_ok_def
  proof (intro conjI)
    show "users_ok d'" using ok order_less_le_trans [OF _ le(1)] by (simp add: db_ok_def users_ok_def e)
    show "categories_ok d'" using ok order_less_le_trans [OF _ le(2)] by (simp add: db_ok_def categories_ok_def e)
    show "products_ok d'" using ok order_less_le_trans [OF _ le(3)] by (simp add: db_ok_def products_ok_def e)
    show "orders_ok d'" using ok order_less_le_trans [OF _ le(4)] by (simp add: db_ok_def orders_ok_def e)
    show "order_items_ok d'" using ok order_less_le_trans [OF _ le(5)] by (simp add: db_ok_def order_items_ok_def e)
    show "jobs_ok d'" using ok order_less_le_trans [OF _ le(6)] by (simp add: db_ok_def jobs_ok_def e)
    show "outbox_ok d'" using ok order_less_le_trans [OF _ le(7)] by (simp add: db_ok_def outbox_ok_def e)
    show "inbox_ok d'" using ok order_less_le_trans [OF _ le(8)] by (simp add: db_ok_def inbox_ok_def e)
    show "keys_ok d'" using ok by (simp add: db_ok_def keys_ok_def e)
  qed
qed

section \<open>Predicates kept by units of work\<close>

definition safe :: "(db \<Rightarrow> bool) \<Rightarrow> world \<Rightarrow> bool" where
  "safe P w \<longleftrightarrow> P (w_db w) \<and> env_keeps P w"

lemma safe_unaffected: "table_pred P \<Longrightarrow> unaffected w w' \<Longrightarrow> safe P w \<Longrightarrow> safe P w'"
  using unaffected_keeps unfolding safe_def by blast

lemma keeps_transaction:
  assumes "table_pred P" and "tame body" and "keeps (safe P) body"
  shows "keeps (safe P) (transaction body)"
proof (rule keepsI)
  fix w r w' assume w: "safe P w" and t: "transaction body w = (r, w')"
  show "safe P w'"
  proof (cases r)
    case (Inl e)
    then show ?thesis using tx.abort [OF assms(2)] t safe_unaffected [OF assms(1) _ w] by blast
  next
    case (Inr a)
    have "body (snd (next_env w)) = (Inr a, w')" by (rule tx.commit) (use t Inr in simp)
    moreover have "safe P (snd (next_env w))" by (rule safe_unaffected [OF assms(1) tx.quiet_start w])
    ultimately show ?thesis using keepsD [OF assms(3)] by blast
  qed
qed

lemma keeps_sqlE: "(\<And>d. P d \<Longrightarrow> P (snd (f d))) \<Longrightarrow> keeps (safe P) (sqlE f)"
  by (rule keepsI) (auto simp: sqlE_iff safe_def env_keeps_def, metis snd_conv)

lemma keeps_query:
  "table_pred P \<Longrightarrow> (\<And>d. seqs_le d (snd (f d))) \<Longrightarrow> (\<And>d. P d \<Longrightarrow> P (snd (f d))) \<Longrightarrow> keeps (safe P) (query f)"
  unfolding query_def by (intro keeps_transaction tame_sqlE keeps_sqlE)

lemma transaction_cases:
  assumes "transaction body w = (r, w')" and "tame body"
  obtains (aborted) e where "r = Inl e" "unaffected w w'"
    | (completed) a where "r = Inr a" "body (snd (next_env w)) = (Inr a, w')"
  using assms(1) transaction_abort [OF assms(2)] transaction_commit [of body w] by (cases r) auto

lemma env_keeps_transaction:
  assumes "transaction body w = (r, w')" and "tame body" and "env_keeps P w"
  shows "env_keeps P w'"
proof -
  obtain ab w1 where n: "next_env w = (ab, w1)" by fastforce
  have "env_keeps P w1" using assms(3) n by (auto simp: env_keeps_def next_env_def split: list.splits)
  moreover have "w_sched w' = w_sched w1"
  proof (cases ab)
    case None
    obtain rb wb where "body w1 = (rb, wb)" by fastforce
    then show ?thesis using assms(1) n None tameD [OF assms(2)]
      by (auto simp: transaction_def advanced_def split: sum.splits)
  qed (use assms(1) n in \<open>simp add: transaction_def\<close>)
  ultimately show ?thesis by (simp add: env_keeps_def)
qed

text \<open>A schedule in which the server may abort calls but other sessions change no table.\<close>

definition calm :: "world \<Rightarrow> bool" where
  "calm w \<longleftrightarrow> (\<forall>st \<in> set (w_sched w). interfere st = (\<lambda>d. d))"

lemma calm_next:
  "calm w \<Longrightarrow> next_env w = (ab, w1) \<Longrightarrow> calm w1 \<and> w_db w1 = w_db w \<and> w_rng w1 = w_rng w"
  by (auto simp: calm_def next_env_def split: list.splits)

lemma calm_env_keeps: "calm w \<Longrightarrow> env_keeps P w"
  by (simp add: calm_def env_keeps_def)

lemma unaffected_calm:
  assumes "unaffected w w'" and "calm w"
  shows "calm w' \<and> tables (w_db w') = tables (w_db w) \<and> seqs_le (w_db w) (w_db w') \<and> w_rng w \<le> w_rng w'"
  using assms(1)
proof (induction rule: rtranclp_induct)
  case (step y z)
  from step.hyps(2) consider "tables (w_db z) = tables (w_db y)" "advanced y z"
    | "z = snd (next_env y)" by (auto simp: quiet_step_def)
  then show ?case
  proof cases
    case 1
    then show ?thesis using step.IH by (auto simp: advanced_def calm_def intro: seqs_le_trans)
  next
    case 2
    then show ?thesis using step.IH calm_next [of y "fst (next_env y)" z] by auto
  qed
qed (use assms(2) in simp)

lemma keeps_rng:
  assumes "tame body" shows "keeps (\<lambda>w. n \<le> w_rng w) (transaction body)"
proof (rule keepsI)
  fix w r w' assume n: "n \<le> w_rng w" and t: "transaction body w = (r, w')"
  obtain ab w1 where e: "next_env w = (ab, w1)" by fastforce
  then have w1: "w_rng w1 = w_rng w" by (auto simp: next_env_def split: list.splits)
  obtain rb wb where b: "body w1 = (rb, wb)" by fastforce
  then have "w_rng w1 \<le> w_rng wb" using tameD [OF assms] by (simp add: advanced_def)
  then show "n \<le> w_rng w'" using n t e b w1
    by (auto simp: transaction_def split: option.splits sum.splits)
qed

end
