(* ===== verification/OrderPlaced.thy ===== *)
theory OrderPlaced
  imports Schema
begin

text \<open>
  The domain event contract of \<open>src/messaging/order-placed.event.ts\<close> and its JSON form. The
  generator of event ids and the clock are parameters: \<open>uuid n\<close> is the result of the
  \<open>n\<close>-th call of \<open>crypto.randomUUID\<close>, \<open>toISO t\<close> the text of the time \<open>t\<close>.
\<close>

record order_placed_event =
  ev_eventId :: string
  ev_occurredAt :: string
  ev_orderId :: string
  ev_userId :: string
  ev_totalCents :: int
  ev_poison :: bool

definition event_type :: string where
  "event_type = ''order.placed''"

record event_input =
  in_orderId :: string
  in_userId :: string
  in_totalCents :: int
  in_eventId :: "string option"
  in_occurredAt :: "string option"
  in_poison :: bool

definition createOrderPlacedEvent ::
  "(nat \<Rightarrow> string) \<Rightarrow> (nat \<Rightarrow> string) \<Rightarrow> event_input \<Rightarrow> (world, thrown, order_placed_event) exec"
where
  "createOrderPlacedEvent uuid toISO inp w =
     (let (eventId, w1) =
            (case in_eventId inp of
               Some i \<Rightarrow> (i, w)
             | None \<Rightarrow> (uuid (w_rng w), w\<lparr>w_rng := Suc (w_rng w)\<rparr>));
          occurredAt =
            (case in_occurredAt inp of Some t \<Rightarrow> t | None \<Rightarrow> toISO (now (w_db w)))
      in (Inr \<lparr>ev_eventId = eventId, ev_occurredAt = occurredAt, ev_orderId = in_orderId inp,
               ev_userId = in_userId inp, ev_totalCents = in_totalCents inp,
               ev_poison = in_poison inp\<rparr>, w1))"

definition toOrderPlacedEvent ::
  "(nat \<Rightarrow> string) \<Rightarrow> (nat \<Rightarrow> string) \<Rightarrow> string \<Rightarrow> string \<Rightarrow> int \<Rightarrow> string option \<Rightarrow> string option
    \<Rightarrow> (world, thrown, order_placed_event) exec"
where
  "toOrderPlacedEvent uuid toISO orderId userId totalCents eventId occurredAt =
     createOrderPlacedEvent uuid toISO
       \<lparr>in_orderId = orderId, in_userId = userId, in_totalCents = totalCents,
        in_eventId = eventId, in_occurredAt = occurredAt, in_poison = False\<rparr>"

text \<open>The object as it is serialised: \<open>poison\<close> is present only when it is set.\<close>

definition event_json :: "order_placed_event \<Rightarrow> json" where
  "event_json e = JsObj
     ([(''eventId'', JsString (ev_eventId e)), (''type'', JsString event_type),
       (''occurredAt'', JsString (ev_occurredAt e)), (''orderId'', JsString (ev_orderId e)),
       (''userId'', JsString (ev_userId e)), (''totalCents'', JsNum (ev_totalCents e))]
      @ (if ev_poison e then [(''poison'', JsBool True)] else []))"

lemma event_json_fields [simp]:
  "json_field (event_json e) ''eventId'' = Some (JsString (ev_eventId e))"
  "json_field (event_json e) ''type'' = Some (JsString event_type)"
  "json_field (event_json e) ''occurredAt'' = Some (JsString (ev_occurredAt e))"
  "json_field (event_json e) ''orderId'' = Some (JsString (ev_orderId e))"
  "json_field (event_json e) ''userId'' = Some (JsString (ev_userId e))"
  "json_field (event_json e) ''totalCents'' = Some (JsNum (ev_totalCents e))"
  "json_field (event_json e) ''poison'' = (if ev_poison e then Some (JsBool True) else None)"
  by (simp_all add: json_field_def event_json_def)

lemma event_json_user [simp]: "json_text (event_json e) ''userId'' = Some (ev_userId e)"
  by (simp add: json_text_def)

end
