(* ===== verification/Checkout.thy ===== *)
theory Checkout
  imports OrderPlaced
begin

text \<open>
  \<open>src/checkout/checkout.service.ts\<close>: the transactional checkout. One definition per SQL
  statement, per method and per loop of the service, in its order; then the lemmas on the
  statements and the loop, the exact effect of a committed checkout, and what failures,
  retries and replays leave behind.
\<close>

section \<open>Inputs and results\<close>

record checkout_item =
  ci_productId :: string
  ci_quantity :: js_number

record checkout_input =
  ci_userId :: string
  ci_items :: "checkout_item list"
  ci_idempotencyKey :: "string option"
  ci_requestHash :: "string option"
  ci_failAfterOutbox :: bool

record checkout_result =
  cr_orderId :: string
  cr_jobId :: string
  cr_totalCents :: int
  cr_unitPrices :: "int option list"
  cr_replay :: bool

record priced_item =
  pi_productId :: string
  pi_quantity :: js_number
  pi_unitPriceCents :: int

section \<open>Lock order\<close>

definition lock_cmp :: "checkout_item \<times> nat \<Rightarrow> checkout_item \<times> nat \<Rightarrow> int" where
  "lock_cmp left right =
     (if ci_productId (fst left) < ci_productId (fst right) then - 1
      else if ci_productId (fst right) < ci_productId (fst left) then 1
      else int (snd left) - int (snd right))"

definition itemsInLockOrder :: "checkout_item list \<Rightarrow> (checkout_item \<times> nat) list" where
  "itemsInLockOrder items = js_sort lock_cmp (zip items [0..<length items])"

section \<open>Statements\<close>

text \<open>
  Products: take \<open>quantity\<close> units of an active product that has them; the rows changed are
  returned as pairs of the new stock and the price.
\<close>

definition sql_take_stock :: "js_number \<Rightarrow> string \<Rightarrow> db \<Rightarrow> (thrown + (int \<times> int) list) \<times> db" where
  "sql_take_stock quantity productId d =
     (case pg_int4_num quantity of
        Inl e \<Rightarrow> (Inl e, d)
      | Inr n \<Rightarrow> (case pg_bigint productId of
            Inl e \<Rightarrow> (Inl e, d)
          | Inr i \<Rightarrow>
              (let hit = (\<lambda>p. p_id p = i \<and> p_is_active p \<and> n \<le> p_stock p)
               in (Inr (map (\<lambda>p. (p_stock p - n, p_price_cents p)) (filter hit (products d))),
                   d\<lparr>products := map (\<lambda>p. if hit p then p\<lparr>p_stock := p_stock p - n\<rparr> else p)
                      (products d)\<rparr>))))"

definition sql_charge :: "int \<Rightarrow> string \<Rightarrow> db \<Rightarrow> (thrown + int list) \<times> db" where
  "sql_charge amount userId d =
     (case pg_int4 amount of
        Inl e \<Rightarrow> (Inl e, d)
      | Inr t \<Rightarrow> (case pg_bigint userId of
            Inl e \<Rightarrow> (Inl e, d)
          | Inr i \<Rightarrow>
              (let hit = (\<lambda>u. u_id u = i \<and> t \<le> u_balance_cents u)
               in (Inr (map (\<lambda>u. u_balance_cents u - t) (filter hit (users d))),
                   d\<lparr>users := map (\<lambda>u. if hit u then u\<lparr>u_balance_cents := u_balance_cents u - t\<rparr>
                      else u) (users d)\<rparr>))))"

definition sql_insert_order :: "string \<Rightarrow> int \<Rightarrow> db \<Rightarrow> (thrown + int) \<times> db" where
  "sql_insert_order userId amount d =
     (case pg_bigint userId of
        Inl e \<Rightarrow> (Inl e, d)
      | Inr i \<Rightarrow> (case pg_int4 amount of
            Inl e \<Rightarrow> (Inl e, d)
          | Inr t \<Rightarrow>
              (let oid = orders_seq d; d1 = d\<lparr>orders_seq := oid + 1\<rparr>
               in if t < 0 then (Inl (PgError ''23514'' ''orders_total_chk''), d1)
                  else if i \<notin> u_id ` set (users d) then (Inl (PgError ''23503'' ''orders_user_fk''), d1)
                  else (Inr oid, d1\<lparr>orders := orders d @
                    [\<lparr>o_id = oid, o_user_id = i, o_status = ''paid'', o_total_cents = t,
                      o_created_at = int (now d)\<rparr>]\<rparr>))))"

definition sql_insert_item ::
  "string \<Rightarrow> string \<Rightarrow> js_number \<Rightarrow> int \<Rightarrow> db \<Rightarrow> (thrown + unit) \<times> db" where
  "sql_insert_item orderId productId quantity price d =
     (case pg_bigint orderId of
        Inl e \<Rightarrow> (Inl e, d)
      | Inr oid \<Rightarrow> (case pg_bigint productId of
          Inl e \<Rightarrow> (Inl e, d)
        | Inr pid \<Rightarrow> (case pg_int4_num quantity of
            Inl e \<Rightarrow> (Inl e, d)
          | Inr n \<Rightarrow> (case pg_int4 price of
              Inl e \<Rightarrow> (Inl e, d)
            | Inr pr \<Rightarrow>
                (let iid = order_items_seq d; d1 = d\<lparr>order_items_seq := iid + 1\<rparr>
                 in if n \<le> 0 then (Inl (PgError ''23514'' ''order_items_qty_chk''), d1)
                    else if pr \<le> 0 then (Inl (PgError ''23514'' ''order_items_price_chk''), d1)
                    else if (oid, pid) \<in> (\<lambda>i. (i_order_id i, i_product_id i)) ` set (order_items d)
                      then (Inl (PgError ''23505'' ''order_items_uniq''), d1)
                    else if oid \<notin> o_id ` set (orders d)
                      then (Inl (PgError ''23503'' ''order_items_order_fk''), d1)
                    else if pid \<notin> p_id ` set (products d)
                      then (Inl (PgError ''23503'' ''order_items_product_fk''), d1)
                    else (Inr (), d1\<lparr>order_items := order_items d @
                      [\<lparr>i_id = iid, i_order_id = oid, i_product_id = pid, i_quantity = n,
                        i_unit_price_cents = pr\<rparr>]\<rparr>))))))"

definition sql_insert_job :: "json \<Rightarrow> db \<Rightarrow> (thrown + int) \<times> db" where
  "sql_insert_job payload d =
     (let jid = jobs_seq d
      in (Inr jid, d\<lparr>jobs_seq := jid + 1, jobs := jobs d @
        [\<lparr>j_id = jid, j_kind = ''order.postprocess'', j_payload = payload, j_status = ''pending'',
          j_processed_count = 0, j_worker_id = None\<rparr>]\<rparr>))"

definition sql_insert_outbox :: "string \<Rightarrow> json \<Rightarrow> db \<Rightarrow> (thrown + unit) \<times> db" where
  "sql_insert_outbox orderId payload d =
     (let xid = outbox_seq d
      in (Inr (), d\<lparr>outbox_seq := xid + 1, outbox := outbox d @
        [\<lparr>x_id = xid, x_aggregate_type = ''order'', x_aggregate_id = orderId,
          x_type = ''order.placed'', x_payload = payload, x_created_at = now d,
          x_published_at = None, x_attempts = 0\<rparr>]\<rparr>))"

text \<open>\<open>ON CONFLICT (user_id, idempotency_key) DO NOTHING\<close>: no row comes back on a conflict.\<close>

definition sql_insert_key ::
  "string \<Rightarrow> string \<Rightarrow> string \<Rightarrow> string \<Rightarrow> db \<Rightarrow> (thrown + int list) \<times> db" where
  "sql_insert_key userId key orderId hash d =
     (case pg_bigint userId of
        Inl e \<Rightarrow> (Inl e, d)
      | Inr i \<Rightarrow> (case pg_bigint orderId of
          Inl e \<Rightarrow> (Inl e, d)
        | Inr oid \<Rightarrow>
            if (i, key) \<in> (\<lambda>k. (k_user_id k, k_key k)) ` set (idempotency_keys d) then (Inr [], d)
            else if i \<notin> u_id ` set (users d)
              then (Inl (PgError ''23503'' ''idempotency_keys_user_fk''), d)
            else if oid \<notin> o_id ` set (orders d)
              then (Inl (PgError ''23503'' ''idempotency_keys_order_fk''), d)
            else (Inr [oid], d\<lparr>idempotency_keys := idempotency_keys d @
              [\<lparr>k_user_id = i, k_key = key, k_order_id = oid, k_request_hash = hash\<rparr>]\<rparr>)))"

text \<open>The committed intent with its order and the last job of that order.\<close>

definition last_job_of :: "db \<Rightarrow> order_row \<Rightarrow> int option" where
  "last_job_of d r =
     (case rev (sort (map j_id (filter
         (\<lambda>j. json_text (j_payload j) ''orderId'' = Some (show_int (o_id r))) (jobs d)))) of
        [] \<Rightarrow> None
      | j # _ \<Rightarrow> Some j)"

definition sql_find_key ::
  "string \<Rightarrow> string \<Rightarrow> db \<Rightarrow> (thrown + (int \<times> string \<times> int \<times> int option) list) \<times> db" where
  "sql_find_key userId key d =
     (case pg_bigint userId of
        Inl e \<Rightarrow> (Inl e, d)
      | Inr i \<Rightarrow>
          (Inr (concat (map (\<lambda>k. map (\<lambda>r. (k_order_id k, k_request_hash k, o_total_cents r, last_job_of d r))
                  (filter (\<lambda>r. o_id r = k_order_id k) (orders d)))
                (filter (\<lambda>k. k_user_id k = i \<and> k_key k = key) (idempotency_keys d)))), d))"

definition sql_item_prices :: "int \<Rightarrow> db \<Rightarrow> (thrown + int list) \<times> db" where
  "sql_item_prices orderId d =
     (Inr (map i_unit_price_cents (sort_key i_id (lines_of d orderId))), d)"

section \<open>The service\<close>

fun validQuantity :: "js_number \<Rightarrow> bool" where
  "validQuantity (Whole n) = (1 \<le> n)"
| "validQuantity (NotInteger t) = False"

fun show_number :: "js_number \<Rightarrow> string" where
  "show_number (Whole n) = show_int n"
| "show_number (NotInteger t) = t"

fun js_int :: "js_number \<Rightarrow> int" where
  "js_int (Whole n) = n"
| "js_int (NotInteger t) = 0"

fun validate_items :: "checkout_item list \<Rightarrow> (world, thrown, unit) exec" where
  "validate_items [] = returnE ()"
| "validate_items (item # items) =
     (if \<not> validQuantity (ci_quantity item)
      then throwE (PlainError (''Invalid quantity '' @ show_number (ci_quantity item)))
      else validate_items items)"

text \<open>The loop over the locked items, with its three accumulators.\<close>

fun take_items ::
  "(checkout_item \<times> nat) list \<Rightarrow> int \<Rightarrow> int option list \<Rightarrow> priced_item list
    \<Rightarrow> (world, thrown, int \<times> int option list \<times> priced_item list) exec"
where
  "take_items [] totalCents unitPrices pricedItems = returnE (totalCents, unitPrices, pricedItems)"
| "take_items ((item, index) # rest) totalCents unitPrices pricedItems =
     bindE (sqlE (sql_take_stock (ci_quantity item) (ci_productId item))) (\<lambda>productRows.
       case productRows of
         [] \<Rightarrow> throwE OutOfStockError
       | (stock, unitPriceCents) # _ \<Rightarrow>
           take_items rest
             (totalCents + unitPriceCents * js_int (ci_quantity item))
             (unitPrices[index := Some unitPriceCents])
             (pricedItems @ [\<lparr>pi_productId = ci_productId item, pi_quantity = ci_quantity item,
                pi_unitPriceCents = unitPriceCents\<rparr>]))"

fun insert_items :: "string \<Rightarrow> priced_item list \<Rightarrow> (world, thrown, unit) exec" where
  "insert_items orderId [] = returnE ()"
| "insert_items orderId (item # items) =
     bindE (sqlE (sql_insert_item orderId (pi_productId item) (pi_quantity item)
       (pi_unitPriceCents item))) (\<lambda>_. insert_items orderId items)"

text \<open>A key is used when it is a non-empty string.\<close>

definition intent_key :: "checkout_input \<Rightarrow> string option" where
  "intent_key inp =
     (case ci_idempotencyKey inp of Some k \<Rightarrow> if k = [] then None else Some k | None \<Rightarrow> None)"

definition stored_hash :: "checkout_input \<Rightarrow> string" where
  "stored_hash inp = (case ci_requestHash inp of Some h \<Rightarrow> h | None \<Rightarrow> [])"

definition save_key :: "checkout_input \<Rightarrow> string \<Rightarrow> (world, thrown, unit) exec" where
  "save_key inp orderId =
     (case intent_key inp of
        None \<Rightarrow> returnE ()
      | Some key \<Rightarrow>
          bindE (sqlE (sql_insert_key (ci_userId inp) key orderId (stored_hash inp))) (\<lambda>keyRows.
            if keyRows = [] then throwE IdempotencyReplayError else returnE ()))"

text \<open>The callback of the transaction.\<close>

definition checkout_body ::
  "(nat \<Rightarrow> string) \<Rightarrow> (nat \<Rightarrow> string) \<Rightarrow> checkout_input \<Rightarrow> (checkout_item \<times> nat) list
    \<Rightarrow> (world, thrown, checkout_result) exec"
where
  "checkout_body uuid toISO inp lockedItems =
     bindE (take_items lockedItems 0 (replicate (length (ci_items inp)) None) [])
       (\<lambda>(totalCents, unitPrices, pricedItems).
     bindE (sqlE (sql_charge totalCents (ci_userId inp))) (\<lambda>balanceRows.
     if balanceRows = [] then throwE InsufficientFundsError else
     bindE (sqlE (sql_insert_order (ci_userId inp) totalCents)) (\<lambda>oid.
     bindE (insert_items (show_int oid) pricedItems) (\<lambda>_.
     bindE (sqlE (sql_insert_job (JsObj [(''orderId'', JsString (show_int oid))]))) (\<lambda>jid.
     bindE (toOrderPlacedEvent uuid toISO (''order-'' @ show_int oid) (ci_userId inp) totalCents
       None None) (\<lambda>event.
     bindE (sqlE (sql_insert_outbox (show_int oid) (event_json event))) (\<lambda>_.
     if ci_failAfterOutbox inp then throwE OutboxWriteAbortedError else
     bindE (save_key inp (show_int oid)) (\<lambda>_.
     returnE \<lparr>cr_orderId = show_int oid, cr_jobId = show_int jid, cr_totalCents = totalCents,
       cr_unitPrices = unitPrices, cr_replay = False\<rparr>))))))))"

definition insertCheckout ::
  "(nat \<Rightarrow> string) \<Rightarrow> (nat \<Rightarrow> string) \<Rightarrow> checkout_input \<Rightarrow> (checkout_item \<times> nat) list
    \<Rightarrow> (world, thrown, checkout_result) exec"
where
  "insertCheckout uuid toISO inp lockedItems = transaction (checkout_body uuid toISO inp lockedItems)"

definition assertSameIntent :: "string \<Rightarrow> string option \<Rightarrow> (world, thrown, unit) exec" where
  "assertSameIntent stored incoming =
     (if incoming \<noteq> None \<and> incoming \<noteq> Some stored then throwE IdempotencyKeyConflictError
      else returnE ())"

definition findCommitted ::
  "string \<Rightarrow> string \<Rightarrow> (world, thrown, (string \<times> checkout_result) option) exec" where
  "findCommitted userId idempotencyKey =
     bindE (query (sql_find_key userId idempotencyKey)) (\<lambda>rows.
       case rows of
         [] \<Rightarrow> returnE None
       | (oid, hash, amount, jid) # _ \<Rightarrow>
           bindE (query (sql_item_prices oid)) (\<lambda>priceRows.
             returnE (Some (hash,
               \<lparr>cr_orderId = show_int oid,
                cr_jobId = (case jid of Some j \<Rightarrow> show_int j | None \<Rightarrow> []),
                cr_totalCents = amount, cr_unitPrices = map Some priceRows, cr_replay = True\<rparr>))))"

definition replayCommitted ::
  "checkout_input \<Rightarrow> string \<times> checkout_result \<Rightarrow> (world, thrown, checkout_result) exec" where
  "replayCommitted inp existing =
     bindE (assertSameIntent (fst existing) (ci_requestHash inp)) (\<lambda>_. returnE (snd existing))"

definition lookupIntent ::
  "checkout_input \<Rightarrow> (world, thrown, (string \<times> checkout_result) option) exec" where
  "lookupIntent inp =
     (case intent_key inp of None \<Rightarrow> returnE None | Some key \<Rightarrow> findCommitted (ci_userId inp) key)"

definition checkout ::
  "(nat \<Rightarrow> string) \<Rightarrow> (nat \<Rightarrow> string) \<Rightarrow> checkout_input \<Rightarrow> (world, thrown, checkout_result) exec"
where
  "checkout uuid toISO inp =
     (if ci_items inp = [] then throwE (PlainError ''Checkout requires at least one item'')
      else bindE (validate_items (ci_items inp)) (\<lambda>_.
        bindE (lookupIntent inp) (\<lambda>existing.
        case existing of
          Some ex \<Rightarrow> replayCommitted inp ex
        | None \<Rightarrow>
            catchE (withRetry (insertCheckout uuid toISO inp (itemsInLockOrder (ci_items inp))) 5)
              (\<lambda>err.
                if err = IdempotencyReplayError \<and> intent_key inp \<noteq> None then
                  bindE (lookupIntent inp) (\<lambda>existing.
                    case existing of
                      None \<Rightarrow> throwE err
                    | Some ex \<Rightarrow> replayCommitted inp ex)
                else throwE err))))"

definition checkoutOne ::
  "(nat \<Rightarrow> string) \<Rightarrow> (nat \<Rightarrow> string) \<Rightarrow> string \<Rightarrow> string \<Rightarrow> js_number
    \<Rightarrow> (world, thrown, checkout_result) exec"
where
  "checkoutOne uuid toISO userId productId quantity =
     checkout uuid toISO \<lparr>ci_userId = userId,
       ci_items = [\<lparr>ci_productId = productId, ci_quantity = quantity\<rparr>],
       ci_idempotencyKey = None, ci_requestHash = None, ci_failAfterOutbox = False\<rparr>"


section \<open>Lock order, lemmas\<close>

definition lock_key :: "checkout_item \<times> nat \<Rightarrow> string \<times> nat" where
  "lock_key x = (ci_productId (fst x), snd x)"

lemma lock_cmp_key: "cmp_key lock_cmp lock_key"
  by (auto simp: cmp_key_def lock_cmp_def lock_key_def)

lemma mset_itemsInLockOrder:
  "mset (itemsInLockOrder items) = mset (zip items [0..<length items])"
  by (simp add: itemsInLockOrder_def)

lemma set_itemsInLockOrder:
  "set (itemsInLockOrder items) = {(items ! i, i) | i. i < length items}"
  by (auto simp: itemsInLockOrder_def set_zip)

lemma map_fst_itemsInLockOrder: "mset (map fst (itemsInLockOrder items)) = mset items"
proof -
  have "mset (map fst (itemsInLockOrder items)) = image_mset fst (mset (zip items [0..<length items]))"
    by (simp add: mset_itemsInLockOrder)
  also have "\<dots> = mset (map fst (zip items [0..<length items]))" by (rule mset_map [symmetric])
  finally show ?thesis by (simp del: mset_map)
qed

section \<open>Statements, lemmas\<close>

lemma pg_int4_Inr: "pg_int4 n = Inr m \<longleftrightarrow> m = n \<and> in_int4 n"
  by (auto simp: pg_int4_def in_int4_def int4_max_def)

lemma pg_int4_num_Inr: "pg_int4_num q = Inr n \<longleftrightarrow> q = Whole n \<and> in_int4 n"
  by (cases q) (auto simp: pg_int4_Inr)

definition item_pid :: "checkout_item \<Rightarrow> int" where
  "item_pid it = (case pg_bigint (ci_productId it) of Inr i \<Rightarrow> i | Inl _ \<Rightarrow> 0)"

abbreviation item_qty :: "checkout_item \<Rightarrow> int" where
  "item_qty it \<equiv> js_int (ci_quantity it)"

definition price_at :: "db \<Rightarrow> int \<Rightarrow> int" where
  "price_at d i =
     (case map_of (map (\<lambda>p. (p_id p, p_price_cents p)) (products d)) i of Some c \<Rightarrow> c | None \<Rightarrow> 0)"

definition demand :: "(checkout_item \<times> nat) list \<Rightarrow> int \<Rightarrow> int" where
  "demand its i = (\<Sum>x\<leftarrow>its. if item_pid (fst x) = i then item_qty (fst x) else 0)"

definition debit :: "(int \<Rightarrow> int) \<Rightarrow> db \<Rightarrow> db" where
  "debit f d = d\<lparr>products := map (\<lambda>p. p\<lparr>p_stock := p_stock p - f (p_id p)\<rparr>) (products d)\<rparr>"

lemma price_at_debit [simp]: "price_at (debit f d) = price_at d"
  by (simp add: price_at_def debit_def fun_eq_iff comp_def)

lemma debit_debit: "debit g (debit f d) = debit (\<lambda>i. f i + g i) d"
  by (simp add: debit_def comp_def algebra_simps)

lemma debit_zero [simp]: "debit (\<lambda>i. 0) d = d"
  by (simp add: debit_def)

lemma ids_debit [simp]: "map p_id (products (debit f d)) = map p_id (products d)"
  by (simp add: debit_def comp_def)

lemma price_at_product:
  "distinct (map p_id (products d)) \<Longrightarrow> p \<in> set (products d) \<Longrightarrow> price_at d (p_id p) = p_price_cents p"
  by (simp add: price_at_def map_of_eq_Some_iff comp_def image_iff del: map_map)
     (subst map_of_is_SomeI, auto simp: comp_def)

lemma take_stock_hit:
  assumes dist: "distinct (map p_id (products d))" and r: "sql_take_stock q pid d = (Inr ((s, c) # rs), d')"
  obtains n p where "q = Whole n" "in_int4 n" "pg_bigint pid = Inr (p_id p)" "p \<in> set (products d)"
    "p_is_active p" "n \<le> p_stock p" "c = p_price_cents p"
    "d' = debit (\<lambda>i. if i = p_id p then n else 0) d"
proof -
  from r obtain n i where n: "q = Whole n" "in_int4 n" and i: "pg_bigint pid = Inr i"
    and rows: "map (\<lambda>p. (p_stock p - n, p_price_cents p))
       (filter (\<lambda>p. p_id p = i \<and> p_is_active p \<and> n \<le> p_stock p) (products d)) = (s, c) # rs"
    and d': "d' = d\<lparr>products := map (\<lambda>p. if p_id p = i \<and> p_is_active p \<and> n \<le> p_stock p
       then p\<lparr>p_stock := p_stock p - n\<rparr> else p) (products d)\<rparr>"
    by (auto simp: sql_take_stock_def Let_def pg_int4_num_Inr split: sum.splits)
  then obtain p zs where f: "filter (\<lambda>p. p_id p = i \<and> p_is_active p \<and> n \<le> p_stock p) (products d) = p # zs"
    and c: "c = p_price_cents p"
    by (auto simp: Cons_eq_map_conv)
  have "p \<in> set (filter (\<lambda>p. p_id p = i \<and> p_is_active p \<and> n \<le> p_stock p) (products d))"
    unfolding f by simp
  then have p: "p \<in> set (products d)" "p_id p = i" "p_is_active p" "n \<le> p_stock p" "c = p_price_cents p"
    using c by auto
  have "map (\<lambda>q. if p_id q = i \<and> p_is_active q \<and> n \<le> p_stock q then q\<lparr>p_stock := p_stock q - n\<rparr> else q)
      (products d) = map (\<lambda>q. q\<lparr>p_stock := p_stock q - (if p_id q = p_id p then n else 0)\<rparr>) (products d)"
  proof (rule map_cong [OF refl])
    fix q assume "q \<in> set (products d)"
    then have "p_id q = i \<Longrightarrow> q = p" using dist p(1,2) by (auto simp: distinct_map inj_on_def)
    then show "(if p_id q = i \<and> p_is_active q \<and> n \<le> p_stock q then q\<lparr>p_stock := p_stock q - n\<rparr> else q)
      = q\<lparr>p_stock := p_stock q - (if p_id q = p_id p then n else 0)\<rparr>" using p by auto
  qed
  then show ?thesis using that [OF n _ p(1,3,4,5)] d' i p(2) by (simp add: debit_def)
qed

section \<open>The loop, lemmas\<close>

abbreviation line_price :: "db \<Rightarrow> checkout_item \<times> nat \<Rightarrow> int" where
  "line_price d x \<equiv> price_at d (item_pid (fst x))"

definition order_total :: "db \<Rightarrow> (checkout_item \<times> nat) list \<Rightarrow> int" where
  "order_total d its = (\<Sum>x\<leftarrow>its. line_price d x * item_qty (fst x))"

definition fill_prices :: "db \<Rightarrow> (checkout_item \<times> nat) list \<Rightarrow> int option list \<Rightarrow> int option list" where
  "fill_prices d its u = fold (\<lambda>x u. u[snd x := Some (line_price d x)]) its u"

definition priced_items :: "db \<Rightarrow> (checkout_item \<times> nat) list \<Rightarrow> priced_item list" where
  "priced_items d its = map (\<lambda>x. \<lparr>pi_productId = ci_productId (fst x), pi_quantity = ci_quantity (fst x),
     pi_unitPriceCents = line_price d x\<rparr>) its"

text \<open>A line the first statement accepts: the product exists and is on sale.\<close>

definition on_sale :: "db \<Rightarrow> checkout_item \<Rightarrow> bool" where
  "on_sale d it \<longleftrightarrow> (\<exists>p \<in> set (products d). pg_bigint (ci_productId it) = Inr (p_id p) \<and> p_is_active p)
     \<and> (\<exists>n. ci_quantity it = Whole n \<and> in_int4 n)"

lemma on_sale_debit [simp]: "on_sale (debit f d) it = on_sale d it"
  by (force simp: on_sale_def debit_def)

lemma order_total_debit [simp]: "order_total (debit f d) its = order_total d its"
  by (simp add: order_total_def)

lemma fill_prices_debit [simp]: "fill_prices (debit f d) its u = fill_prices d its u"
  by (simp add: fill_prices_def)

lemma priced_items_debit [simp]: "priced_items (debit f d) its = priced_items d its"
  by (simp add: priced_items_def)

lemma take_items_Inr:
  assumes "distinct (map p_id (products (w_db w)))"
    and "take_items its t u ps w = (Inr (t', u', ps'), w')"
  shows "w' = w\<lparr>w_db := debit (demand its) (w_db w)\<rparr> \<and> t' = t + order_total (w_db w) its
    \<and> u' = fill_prices (w_db w) its u \<and> ps' = ps @ priced_items (w_db w) its
    \<and> (\<forall>x \<in> set its. on_sale (w_db w) (fst x))
    \<and> ((\<forall>x \<in> set its. 0 \<le> item_qty (fst x)) \<longrightarrow>
         (\<forall>p \<in> set (products (w_db w)). 0 \<le> p_stock p \<longrightarrow> demand its (p_id p) \<le> p_stock p))"
  using assms
proof (induction its arbitrary: t u ps w)
  case Nil
  then show ?case
    by (simp add: demand_def order_total_def fill_prices_def priced_items_def)
next
  case (Cons x its)
  obtain it ix where x: "x = (it, ix)" by fastforce
  let ?d = "w_db w"
  from Cons.prems(2) obtain s c rs d1 where
    st: "sql_take_stock (ci_quantity it) (ci_productId it) ?d = (Inr ((s, c) # rs), d1)"
    and rest: "take_items its (t + c * item_qty it) (u[ix := Some c])
       (ps @ [\<lparr>pi_productId = ci_productId it, pi_quantity = ci_quantity it, pi_unitPriceCents = c\<rparr>])
       (w\<lparr>w_db := d1\<rparr>) = (Inr (t', u', ps'), w')"
    by (auto simp: x sqlE_iff elim!: bindE_InrE split: list.splits)
  from take_stock_hit [OF Cons.prems(1) st] obtain n p where
    n: "ci_quantity it = Whole n" "in_int4 n" and p: "pg_bigint (ci_productId it) = Inr (p_id p)"
      "p \<in> set (products ?d)" "p_is_active p" "n \<le> p_stock p" "c = p_price_cents p"
    and d1: "d1 = debit (\<lambda>i. if i = p_id p then n else 0) ?d" by blast
  have pid: "item_pid it = p_id p" by (simp add: item_pid_def p)
  have c: "c = price_at ?d (item_pid it)"
    using price_at_product [OF Cons.prems(1) p(2)] p(5) pid by simp
  have dem: "demand (x # its) = (\<lambda>i. (if i = p_id p then n else 0) + demand its i)"
    by (auto simp: demand_def x pid n(1))
  have IH: "w' = w\<lparr>w_db := debit (demand its) d1\<rparr>" "t' = t + c * item_qty it + order_total d1 its"
    "u' = fill_prices d1 its (u[ix := Some c])"
    "ps' = ps @ [\<lparr>pi_productId = ci_productId it, pi_quantity = ci_quantity it, pi_unitPriceCents = c\<rparr>]
       @ priced_items d1 its"
    "\<forall>x \<in> set its. on_sale d1 (fst x)"
    "(\<forall>x \<in> set its. 0 \<le> item_qty (fst x)) \<longrightarrow>
         (\<forall>p \<in> set (products d1). 0 \<le> p_stock p \<longrightarrow> demand its (p_id p) \<le> p_stock p)"
    using Cons.IH [OF _ rest] Cons.prems(1) unfolding d1 by auto
  have "on_sale ?d it" using p n by (auto simp: on_sale_def)
  moreover have "demand (x # its) (p_id r) \<le> p_stock r"
    if "\<forall>y \<in> set (x # its). 0 \<le> item_qty (fst y)" "r \<in> set (products ?d)" "0 \<le> p_stock r" for r
  proof -
    let ?r = "r\<lparr>p_stock := p_stock r - (if p_id r = p_id p then n else 0)\<rparr>"
    have "?r \<in> set (products d1)" using that(2) by (auto simp: d1 debit_def)
    moreover have "p_id r = p_id p \<Longrightarrow> r = p"
      using Cons.prems(1) p(2) that(2) by (auto simp: distinct_map inj_on_def)
    then have "0 \<le> p_stock ?r" using that(3) p(4) by auto
    ultimately have "demand its (p_id ?r) \<le> p_stock ?r" using IH(6) that(1) by fastforce
    then show ?thesis by (simp add: dem)
  qed
  ultimately show ?case using IH unfolding d1
    by (auto simp: debit_debit dem [unfolded x] x c order_total_def fill_prices_def priced_items_def)
qed

lemma take_items_enabled:
  assumes "distinct (map p_id (products (w_db w)))"
    and "\<forall>x \<in> set its. on_sale (w_db w) (fst x) \<and> 0 \<le> item_qty (fst x)"
    and "\<forall>p \<in> set (products (w_db w)). demand its (p_id p) \<le> p_stock p"
  shows "\<exists>t' u' ps' w'. take_items its t u ps w = (Inr (t', u', ps'), w')"
  using assms
proof (induction its arbitrary: t u ps w)
  case (Cons x its)
  obtain it ix where x: "x = (it, ix)" by fastforce
  let ?d = "w_db w"
  from Cons.prems(2) obtain p n where p: "p \<in> set (products ?d)" "pg_bigint (ci_productId it) = Inr (p_id p)"
    "p_is_active p" and n: "ci_quantity it = Whole n" "in_int4 n" "0 \<le> n"
    by (auto simp: x on_sale_def)
  have pid: "item_pid it = p_id p" by (simp add: item_pid_def p)
  have dem: "demand (x # its) = (\<lambda>i. (if i = p_id p then n else 0) + demand its i)"
    by (auto simp: demand_def x pid n(1))
  have nonneg: "0 \<le> demand its i" for i
    unfolding demand_def using Cons.prems(2) by (intro sum_list_nonneg) auto
  have "n \<le> p_stock p" using Cons.prems(3) p(1) nonneg [of "p_id p"] by (auto simp: dem)
  then have hit: "p \<in> set (filter (\<lambda>q. p_id q = p_id p \<and> p_is_active q \<and> n \<le> p_stock q) (products ?d))"
    using p by simp
  obtain s c rs d1 where st: "sql_take_stock (ci_quantity it) (ci_productId it) ?d = (Inr ((s, c) # rs), d1)"
  proof (cases "filter (\<lambda>q. p_id q = p_id p \<and> p_is_active q \<and> n \<le> p_stock q) (products ?d)")
    case Nil
    then show ?thesis using hit by simp
  next
    case (Cons q qs)
    then show ?thesis using that n p(2) by (simp add: sql_take_stock_def pg_int4_Inr [THEN iffD2])
  qed
  from take_stock_hit [OF Cons.prems(1) st] have
    d1: "d1 = debit (\<lambda>i. if i = p_id p then n else 0) ?d" using n p(2) by force
  have "\<forall>r \<in> set (products d1). demand its (p_id r) \<le> p_stock r"
    using Cons.prems(3) by (force simp: d1 debit_def dem)
  then obtain t' u' ps' w' where
    "take_items its (t + c * item_qty it) (u[ix := Some c])
       (ps @ [\<lparr>pi_productId = ci_productId it, pi_quantity = ci_quantity it, pi_unitPriceCents = c\<rparr>])
       (w\<lparr>w_db := d1\<rparr>) = (Inr (t', u', ps'), w')"
    using Cons.IH [of "w\<lparr>w_db := d1\<rparr>"] Cons.prems(1,2) by (fastforce simp: d1)
  then show ?case using st by (auto simp: x sqlE_def bindE_def)
qed simp

text \<open>The array of unit prices is filled at the positions of the request.\<close>

lemma fill_prices_nth:
  assumes "\<forall>x \<in> set its. snd x < length u" and "distinct (map snd its)"
  shows "length (fill_prices d its u) = length u
    \<and> (\<forall>x \<in> set its. fill_prices d its u ! snd x = Some (line_price d x))
    \<and> (\<forall>j < length u. j \<notin> snd ` set its \<longrightarrow> fill_prices d its u ! j = u ! j)"
  using assms
proof (induction its arbitrary: u)
  case (Cons x its)
  let ?u = "u[snd x := Some (line_price d x)]"
  have IH: "length (fill_prices d its ?u) = length u"
    "\<forall>y \<in> set its. fill_prices d its ?u ! snd y = Some (line_price d y)"
    "\<forall>j < length u. j \<notin> snd ` set its \<longrightarrow> fill_prices d its ?u ! j = ?u ! j"
    using Cons.IH [of ?u] Cons.prems by auto
  have "fill_prices d (x # its) u = fill_prices d its ?u" by (simp add: fill_prices_def)
  then show ?case using IH Cons.prems by (auto simp: nth_list_update)
qed (simp add: fill_prices_def)

lemma fill_prices_request_order:
  "fill_prices d (itemsInLockOrder items) (replicate (length items) None)
     = map (\<lambda>it. Some (price_at d (item_pid it))) items"
proof -
  let ?its = "itemsInLockOrder items"
  have "mset (map snd ?its) = mset [0..<length items]"
    using mset_itemsInLockOrder [of items] by (metis diff_zero length_upt map_snd_zip mset_map)
  then have dist: "distinct (map snd ?its)" using mset_eq_imp_distinct_iff distinct_upt by blast
  have f: "length (fill_prices d ?its (replicate (length items) None)) = length items"
    "\<forall>x \<in> set ?its. fill_prices d ?its (replicate (length items) None) ! snd x = Some (line_price d x)"
    using fill_prices_nth [of ?its "replicate (length items) None" d] dist
    by (auto simp: set_itemsInLockOrder)
  show ?thesis
  proof (rule nth_equalityI)
    fix j assume "j < length (fill_prices d ?its (replicate (length items) None))"
    then have j: "j < length items" using f(1) by simp
    then have "(items ! j, j) \<in> set ?its" by (auto simp: set_itemsInLockOrder)
    then show "fill_prices d ?its (replicate (length items) None) ! j
      = map (\<lambda>it. Some (price_at d (item_pid it))) items ! j"
      using f(2) j by force
  qed (use f in simp)
qed

section \<open>Charging and inserting\<close>

definition charge :: "int \<Rightarrow> int \<Rightarrow> db \<Rightarrow> db" where
  "charge i t d = d\<lparr>users := map (\<lambda>u. if u_id u = i then u\<lparr>u_balance_cents := u_balance_cents u - t\<rparr> else u)
     (users d)\<rparr>"

definition can_pay :: "db \<Rightarrow> string \<Rightarrow> int \<Rightarrow> int \<Rightarrow> bool" where
  "can_pay d userId i t \<longleftrightarrow> pg_bigint userId = Inr i \<and> in_int4 t
     \<and> (\<exists>u \<in> set (users d). u_id u = i \<and> t \<le> u_balance_cents u)"

lemma charge_map:
  assumes "distinct (map u_id us)" and "u \<in> set us" and "t \<le> u_balance_cents u"
  shows "map (\<lambda>v. if u_id v = u_id u \<and> t \<le> u_balance_cents v then v\<lparr>u_balance_cents := u_balance_cents v - t\<rparr> else v) us
    = map (\<lambda>v. if u_id v = u_id u then v\<lparr>u_balance_cents := u_balance_cents v - t\<rparr> else v) us"
proof (rule map_cong [OF refl])
  fix v assume "v \<in> set us"
  then have "u_id v = u_id u \<Longrightarrow> v = u" using assms(1,2) by (auto simp: distinct_map inj_on_def)
  then show "(if u_id v = u_id u \<and> t \<le> u_balance_cents v then v\<lparr>u_balance_cents := u_balance_cents v - t\<rparr> else v)
    = (if u_id v = u_id u then v\<lparr>u_balance_cents := u_balance_cents v - t\<rparr> else v)" using assms(3) by auto
qed

lemma sql_charge_iff:
  assumes "distinct (map u_id (users d))"
  shows "(\<exists>rs. rs \<noteq> [] \<and> sql_charge t userId d = (Inr rs, d'))
    \<longleftrightarrow> (\<exists>i. can_pay d userId i t \<and> d' = charge i t d)" (is "?L = ?R")
proof
  assume ?L
  then obtain rs i where i: "rs \<noteq> []" "in_int4 t" "pg_bigint userId = Inr i"
    and rs: "rs = map (\<lambda>u. u_balance_cents u - t) (filter (\<lambda>u. u_id u = i \<and> t \<le> u_balance_cents u) (users d))"
    and d': "d' = d\<lparr>users := map (\<lambda>u. if u_id u = i \<and> t \<le> u_balance_cents u
      then u\<lparr>u_balance_cents := u_balance_cents u - t\<rparr> else u) (users d)\<rparr>"
    by (auto simp: sql_charge_def Let_def pg_int4_Inr split: sum.splits)
  from i(1) rs obtain u where u: "u \<in> set (users d)" "u_id u = i" "t \<le> u_balance_cents u"
    by (auto simp: filter_empty_conv)
  then show ?R using i d' charge_map [OF assms u(1,3)] by (auto simp: can_pay_def charge_def)
next
  assume ?R
  then obtain i u where i: "pg_bigint userId = Inr i" "in_int4 t" and d': "d' = charge i t d"
    and u: "u \<in> set (users d)" "u_id u = i" "t \<le> u_balance_cents u" by (auto simp: can_pay_def)
  have "map (\<lambda>u. u_balance_cents u - t) (filter (\<lambda>u. u_id u = i \<and> t \<le> u_balance_cents u) (users d)) \<noteq> []"
    using u by (auto simp: filter_empty_conv)
  then show ?L using i d' charge_map [OF assms u(1,3)] u(2)
    by (auto simp: sql_charge_def charge_def pg_int4_Inr [THEN iffD2])
qed

lemma digit_not_space: "is_digit c \<Longrightarrow> \<not> is_space c"
  by (auto simp: is_digit_def is_space_def)

lemma show_int_chars: "c \<in> set (show_int n) \<Longrightarrow> \<not> is_space c"
proof -
  assume "c \<in> set (show_int n)"
  then consider "c = CHR ''-''" | "c \<in> set (show_nat (nat \<bar>n\<bar>))"
    by (auto simp: show_int_def split: if_splits)
  then show ?thesis
  proof cases
    case 1
    then show ?thesis by (simp add: is_space_def)
  next
    case 2
    then show ?thesis using show_nat_digits [of "nat \<bar>n\<bar>"] by (auto simp: list_all_iff digit_not_space)
  qed
qed

lemma dropWhile_none: "\<forall>x \<in> set xs. \<not> P x \<Longrightarrow> dropWhile P xs = xs"
  by (cases xs) auto

lemma trim_show_int [simp]: "trim_space (show_int n) = show_int n"
  by (simp add: trim_space_def dropWhile_none show_int_chars)

lemma show_nat_head:
  obtains c cs where "show_nat n = c # cs" "c \<noteq> CHR ''-''" "c \<noteq> CHR ''+''"
proof (cases "show_nat n")
  case (Cons c cs)
  have "is_digit c" using show_nat_digits [of n] Cons by simp
  then have "c \<noteq> CHR ''-''" "c \<noteq> CHR ''+''" by (auto simp: is_digit_def)
  then show ?thesis using that Cons by blast
qed simp

lemma int_of_text_show_int [simp]: "int_of_text (show_int n) = Some n"
proof (cases "n < 0")
  case True
  then show ?thesis by (simp add: show_int_def int_of_text_def)
next
  case False
  obtain c cs where "show_nat (nat n) = c # cs" "c \<noteq> CHR ''-''" "c \<noteq> CHR ''+''"
    by (rule show_nat_head)
  then have "int_of_text (show_nat (nat n)) = Some (int (nat_of_digits (show_nat (nat n))))"
    using all_digits_show_nat [of "nat n"] by (simp add: int_of_text_def del: all_digits_show_nat)
  then show ?thesis using False by (simp add: show_int_def)
qed

lemma show_int_inj: "show_int i = show_int j \<longleftrightarrow> i = j"
  by (metis int_of_text_show_int option.inject)

lemma pg_bigint_show_int:
  "pg_bigint (show_int n) = Inr m \<longleftrightarrow> m = n \<and> - int8_max - 1 \<le> n \<and> n \<le> int8_max"
  by (auto simp: pg_bigint_def)

section \<open>Order lines\<close>

definition text_id :: "string \<Rightarrow> int" where
  "text_id s = (case pg_bigint s of Inr i \<Rightarrow> i | Inl _ \<Rightarrow> 0)"

lemma item_pid_text: "item_pid it = text_id (ci_productId it)"
  by (simp add: item_pid_def text_id_def)

fun item_rows :: "int \<Rightarrow> int \<Rightarrow> priced_item list \<Rightarrow> order_item_row list" where
  "item_rows oid iid [] = []"
| "item_rows oid iid (p # ps) =
     \<lparr>i_id = iid, i_order_id = oid, i_product_id = text_id (pi_productId p),
      i_quantity = js_int (pi_quantity p), i_unit_price_cents = pi_unitPriceCents p\<rparr>
     # item_rows oid (iid + 1) ps"

lemma item_rows_map [simp]:
  "map i_order_id (item_rows oid iid ps) = map (\<lambda>_. oid) ps"
  "map i_product_id (item_rows oid iid ps) = map (\<lambda>p. text_id (pi_productId p)) ps"
  "map i_quantity (item_rows oid iid ps) = map (\<lambda>p. js_int (pi_quantity p)) ps"
  "map i_unit_price_cents (item_rows oid iid ps) = map pi_unitPriceCents ps"
  "length (item_rows oid iid ps) = length ps"
  by (induction ps arbitrary: iid) auto

lemma item_rows_ids: "r \<in> set (item_rows oid iid ps) \<Longrightarrow> iid \<le> i_id r \<and> i_id r < iid + int (length ps)"
  by (induction ps arbitrary: iid) fastforce+

lemma distinct_item_rows: "distinct (map i_id (item_rows oid iid ps))"
proof (induction ps arbitrary: iid)
  case (Cons p ps)
  then show ?case using item_rows_ids [of _ oid "iid + 1" ps] by fastforce
qed simp

text \<open>A line the constraints of \<open>order_items\<close> accept, given the table before it.\<close>

definition line_fits :: "db \<Rightarrow> priced_item \<Rightarrow> bool" where
  "line_fits d p \<longleftrightarrow> pg_bigint (pi_productId p) = Inr (text_id (pi_productId p))
     \<and> text_id (pi_productId p) \<in> p_id ` set (products d)
     \<and> (\<exists>n. pi_quantity p = Whole n \<and> in_int4 n \<and> 0 < n)
     \<and> in_int4 (pi_unitPriceCents p) \<and> 0 < pi_unitPriceCents p"

definition add_lines :: "int \<Rightarrow> priced_item list \<Rightarrow> db \<Rightarrow> db" where
  "add_lines oid ps d = d\<lparr>order_items := order_items d @ item_rows oid (order_items_seq d) ps,
     order_items_seq := order_items_seq d + int (length ps)\<rparr>"

definition order_known :: "db \<Rightarrow> int \<Rightarrow> bool" where
  "order_known d oid \<longleftrightarrow> oid \<in> o_id ` set (orders d) \<and> - int8_max - 1 \<le> oid \<and> oid \<le> int8_max"

lemma line_exists_iff:
  "(oid, pid) \<in> (\<lambda>i. (i_order_id i, i_product_id i)) ` set (order_items d)
     \<longleftrightarrow> pid \<in> i_product_id ` set (lines_of d oid)"
  by (auto simp: lines_of_def image_iff)

lemma sql_insert_item_iff:
  "sql_insert_item (show_int oid) (pi_productId p) (pi_quantity p) (pi_unitPriceCents p) d = (Inr (), d')
     \<longleftrightarrow> line_fits d p \<and> order_known d oid
       \<and> text_id (pi_productId p) \<notin> i_product_id ` set (lines_of d oid) \<and> d' = add_lines oid [p] d"
    (is "?L = ?R")
proof
  assume ?L
  then show ?R
    by (cases "pi_quantity p") (auto simp: sql_insert_item_def line_fits_def order_known_def add_lines_def
        line_exists_iff text_id_def pg_bigint_show_int pg_int4_Inr Let_def split: sum.splits if_splits)
next
  assume R: ?R
  then obtain n where n: "pi_quantity p = Whole n" "pg_int4 n = Inr n" "0 < n"
    and c: "pg_int4 (pi_unitPriceCents p) = Inr (pi_unitPriceCents p)" "0 < pi_unitPriceCents p"
    and pid: "pg_bigint (pi_productId p) = Inr (text_id (pi_productId p))"
    and oid: "pg_bigint (show_int oid) = Inr oid"
    by (auto simp: line_fits_def order_known_def pg_int4_Inr pg_bigint_show_int)
  have "(oid, text_id (pi_productId p)) \<notin> (\<lambda>i. (i_order_id i, i_product_id i)) ` set (order_items d)"
    using R by (simp add: line_exists_iff)
  then show ?L using R n c pid oid
    by (simp add: sql_insert_item_def line_fits_def order_known_def add_lines_def Let_def)
qed

lemma add_lines_Cons: "add_lines oid ps (add_lines oid [p] d) = add_lines oid (p # ps) d"
  by (simp add: add_lines_def)

lemma lines_of_add_lines:
  "lines_of (add_lines oid ps d) oid' =
     lines_of d oid' @ (if oid' = oid then item_rows oid (order_items_seq d) ps else [])"
proof -
  have "filter (\<lambda>i. i_order_id i = oid') (item_rows oid iid ps)
      = (if oid' = oid then item_rows oid iid ps else [])" for iid
    by (induction ps arbitrary: iid) auto
  then show ?thesis by (simp add: lines_of_def add_lines_def)
qed

lemma line_fits_add_lines [simp]: "line_fits (add_lines oid ps d) p = line_fits d p"
  by (simp add: line_fits_def add_lines_def)

lemma order_known_add_lines [simp]: "order_known (add_lines oid ps d) i = order_known d i"
  by (simp add: order_known_def add_lines_def)

lemma insert_items_iff:
  "insert_items (show_int oid) ps w = (Inr (), w') \<longleftrightarrow>
     (\<forall>p \<in> set ps. line_fits (w_db w) p) \<and> (ps \<noteq> [] \<longrightarrow> order_known (w_db w) oid)
     \<and> distinct (map (\<lambda>p. text_id (pi_productId p)) ps)
     \<and> (\<forall>p \<in> set ps. text_id (pi_productId p) \<notin> i_product_id ` set (lines_of (w_db w) oid))
     \<and> w' = w\<lparr>w_db := add_lines oid ps (w_db w)\<rparr>"
proof (induction ps arbitrary: w)
  case Nil
  then show ?case by (auto simp: add_lines_def)
next
  case (Cons p ps)
  let ?d = "w_db w"
  let ?d1 = "add_lines oid [p] ?d"
  have row: "i_product_id ` set (lines_of ?d1 oid) = insert (text_id (pi_productId p)) (i_product_id ` set (lines_of ?d oid))"
    by (simp add: lines_of_add_lines)
  have step: "insert_items (show_int oid) (p # ps) w = (Inr (), w') \<longleftrightarrow>
    line_fits ?d p \<and> order_known ?d oid \<and> text_id (pi_productId p) \<notin> i_product_id ` set (lines_of ?d oid)
    \<and> insert_items (show_int oid) ps (w\<lparr>w_db := ?d1\<rparr>) = (Inr (), w')"
  proof -
    obtain r d' where eq: "sql_insert_item (show_int oid) (pi_productId p) (pi_quantity p)
      (pi_unitPriceCents p) ?d = (r, d')" by fastforce
    then show ?thesis
      using sql_insert_item_iff [of oid p ?d d'] sql_insert_item_iff [of oid p ?d ?d1]
      by (cases r) (auto simp: bindE_def sqlE_def)
  qed
  show ?case
    unfolding step Cons.IH by (auto simp: row add_lines_Cons image_iff)
qed

section \<open>The effect of a committed checkout\<close>

abbreviation locked :: "checkout_input \<Rightarrow> (checkout_item \<times> nat) list" where
  "locked inp \<equiv> itemsInLockOrder (ci_items inp)"

definition placed_order :: "checkout_input \<Rightarrow> db \<Rightarrow> order_row" where
  "placed_order inp d = \<lparr>o_id = orders_seq d, o_user_id = text_id (ci_userId inp), o_status = ''paid'',
     o_total_cents = order_total d (locked inp), o_created_at = int (now d)\<rparr>"

definition placed_lines :: "checkout_input \<Rightarrow> db \<Rightarrow> order_item_row list" where
  "placed_lines inp d = item_rows (orders_seq d) (order_items_seq d) (priced_items d (locked inp))"

definition placed_job :: "db \<Rightarrow> job_row" where
  "placed_job d = \<lparr>j_id = jobs_seq d, j_kind = ''order.postprocess'',
     j_payload = JsObj [(''orderId'', JsString (show_int (orders_seq d)))], j_status = ''pending'',
     j_processed_count = 0, j_worker_id = None\<rparr>"

definition placed_event ::
  "(nat \<Rightarrow> string) \<Rightarrow> (nat \<Rightarrow> string) \<Rightarrow> checkout_input \<Rightarrow> world \<Rightarrow> order_placed_event" where
  "placed_event uuid toISO inp w = \<lparr>ev_eventId = uuid (w_rng w), ev_occurredAt = toISO (now (w_db w)),
     ev_orderId = ''order-'' @ show_int (orders_seq (w_db w)), ev_userId = ci_userId inp,
     ev_totalCents = order_total (w_db w) (locked inp), ev_poison = False\<rparr>"

definition placed_outbox :: "order_placed_event \<Rightarrow> db \<Rightarrow> outbox_row" where
  "placed_outbox ev d = \<lparr>x_id = outbox_seq d, x_aggregate_type = ''order'',
     x_aggregate_id = show_int (orders_seq d), x_type = ''order.placed'', x_payload = event_json ev,
     x_created_at = now d, x_published_at = None, x_attempts = 0\<rparr>"

definition placed_keys :: "checkout_input \<Rightarrow> db \<Rightarrow> idempotency_row list" where
  "placed_keys inp d =
     (case intent_key inp of
        None \<Rightarrow> []
      | Some k \<Rightarrow> [\<lparr>k_user_id = text_id (ci_userId inp), k_key = k, k_order_id = orders_seq d,
          k_request_hash = stored_hash inp\<rparr>])"

text \<open>The database after a committed checkout, as a function of the database it started from.\<close>

definition committed_db :: "checkout_input \<Rightarrow> order_placed_event \<Rightarrow> db \<Rightarrow> db" where
  "committed_db inp ev d =
     (charge (text_id (ci_userId inp)) (order_total d (locked inp)) (debit (demand (locked inp)) d))
     \<lparr>orders := orders d @ [placed_order inp d], orders_seq := orders_seq d + 1,
      order_items := order_items d @ placed_lines inp d,
      order_items_seq := order_items_seq d + int (length (ci_items inp)),
      jobs := jobs d @ [placed_job d], jobs_seq := jobs_seq d + 1,
      outbox := outbox d @ [placed_outbox ev d], outbox_seq := outbox_seq d + 1,
      idempotency_keys := idempotency_keys d @ placed_keys inp d\<rparr>"

definition committed ::
  "(nat \<Rightarrow> string) \<Rightarrow> (nat \<Rightarrow> string) \<Rightarrow> checkout_input \<Rightarrow> world \<Rightarrow> world" where
  "committed uuid toISO inp w =
     w\<lparr>w_db := committed_db inp (placed_event uuid toISO inp w) (w_db w), w_rng := Suc (w_rng w)\<rparr>"

definition committed_result :: "checkout_input \<Rightarrow> db \<Rightarrow> checkout_result" where
  "committed_result inp d = \<lparr>cr_orderId = show_int (orders_seq d), cr_jobId = show_int (jobs_seq d),
     cr_totalCents = order_total d (locked inp),
     cr_unitPrices = map (\<lambda>it. Some (price_at d (item_pid it))) (ci_items inp), cr_replay = False\<rparr>"

text \<open>
  When the checkout can be honoured: the lines are on sale and in stock, no product occurs
  twice, the buyer exists and can pay, and the intent key is new.
\<close>

definition key_free :: "checkout_input \<Rightarrow> db \<Rightarrow> bool" where
  "key_free inp d \<longleftrightarrow>
     (case intent_key inp of
        None \<Rightarrow> True
      | Some k \<Rightarrow> (text_id (ci_userId inp), k) \<notin> (\<lambda>r. (k_user_id r, k_key r)) ` set (idempotency_keys d))"

definition admissible :: "checkout_input \<Rightarrow> db \<Rightarrow> bool" where
  "admissible inp d \<longleftrightarrow>
     (\<forall>it \<in> set (ci_items inp). on_sale d it)
     \<and> (\<forall>p \<in> set (products d). demand (locked inp) (p_id p) \<le> p_stock p)
     \<and> distinct (map item_pid (ci_items inp))
     \<and> can_pay d (ci_userId inp) (text_id (ci_userId inp)) (order_total d (locked inp))
     \<and> - int8_max - 1 \<le> orders_seq d \<and> orders_seq d \<le> int8_max
     \<and> \<not> ci_failAfterOutbox inp \<and> key_free inp d"

lemma length_itemsInLockOrder [simp]: "length (itemsInLockOrder items) = length items"
  by (simp add: itemsInLockOrder_def)

lemma ball_locked: "(\<forall>x \<in> set (locked inp). P (fst x)) \<longleftrightarrow> (\<forall>it \<in> set (ci_items inp). P it)"
  by (force simp: set_itemsInLockOrder in_set_conv_nth)

lemma distinct_locked:
  "distinct (map (\<lambda>x. f (fst x)) (locked inp)) \<longleftrightarrow> distinct (map f (ci_items inp))"
proof (rule mset_eq_imp_distinct_iff)
  have "mset (map (\<lambda>x. f (fst x)) (locked inp)) = image_mset f (mset (map fst (locked inp)))"
    by (simp add: multiset.map_comp comp_def)
  then show "mset (map (\<lambda>x. f (fst x)) (locked inp)) = mset (map f (ci_items inp))"
    by (metis map_fst_itemsInLockOrder mset_map)
qed

lemma save_key_iff:
  assumes "text_id (ci_userId inp) \<in> u_id ` set (users (w_db w))"
    and "pg_bigint (ci_userId inp) = Inr (text_id (ci_userId inp))"
    and "order_known (w_db w) oid"
  shows "save_key inp (show_int oid) w = (Inr (), w') \<longleftrightarrow>
    key_free inp (w_db w) \<and> w' = w\<lparr>w_db := (w_db w)\<lparr>idempotency_keys := idempotency_keys (w_db w) @
      (case intent_key inp of None \<Rightarrow> [] | Some k \<Rightarrow> [\<lparr>k_user_id = text_id (ci_userId inp), k_key = k,
         k_order_id = oid, k_request_hash = stored_hash inp\<rparr>])\<rparr>\<rparr>"
proof (cases "intent_key inp")
  case None
  then show ?thesis by (auto simp: save_key_def key_free_def)
next
  case (Some k)
  have "pg_bigint (show_int oid) = Inr oid" using assms(3) by (simp add: pg_bigint_show_int order_known_def)
  then show ?thesis using assms Some
    by (auto simp: save_key_def key_free_def sql_insert_key_def bindE_def sqlE_def order_known_def)
qed


lemma sql_insert_order_iff:
  assumes "pg_bigint userId = Inr i" and "i \<in> u_id ` set (users d)" and "in_int4 t" and "0 \<le> t"
  shows "sql_insert_order userId t d =
    (Inr (orders_seq d), d\<lparr>orders_seq := orders_seq d + 1, orders := orders d @
      [\<lparr>o_id = orders_seq d, o_user_id = i, o_status = ''paid'', o_total_cents = t,
       o_created_at = int (now d)\<rparr>]\<rparr>)"
  using assms by (simp add: sql_insert_order_def pg_int4_Inr [THEN iffD2] Let_def)

lemma charge_simps [simp]:
  "products (charge i t d) = products d" "map u_id (users (charge i t d)) = map u_id (users d)"
  "orders (charge i t d) = orders d" "order_items (charge i t d) = order_items d"
  "orders_seq (charge i t d) = orders_seq d" "idempotency_keys (charge i t d) = idempotency_keys d"
  "categories (charge i t d) = categories d" "users_seq (charge i t d) = users_seq d"
  "categories_seq (charge i t d) = categories_seq d" "products_seq (charge i t d) = products_seq d" "now (charge i t d) = now d"
  by (auto simp: charge_def)

lemma charge_user_ids [simp]: "u_id ` set (users (charge i t d)) = u_id ` set (users d)"
  by (metis charge_simps(2) list.set_map)

lemma debit_simps [simp]:
  "users (debit f d) = users d" "orders (debit f d) = orders d" "order_items (debit f d) = order_items d"
  "orders_seq (debit f d) = orders_seq d" "idempotency_keys (debit f d) = idempotency_keys d"
  "categories (debit f d) = categories d" "users_seq (debit f d) = users_seq d"
  "categories_seq (debit f d) = categories_seq d" "products_seq (debit f d) = products_seq d" "now (debit f d) = now d"
  by (simp_all add: debit_def)

lemma debit_product_ids [simp]: "p_id ` set (products (debit f d)) = p_id ` set (products d)"
  by (metis ids_debit list.set_map)

lemma price_at_bounds:
  assumes "db_ok d" and "on_sale d it"
  shows "0 < price_at d (item_pid it) \<and> in_int4 (price_at d (item_pid it))"
proof -
  obtain p where p: "p \<in> set (products d)" "pg_bigint (ci_productId it) = Inr (p_id p)"
    using assms(2) by (auto simp: on_sale_def)
  have "price_at d (item_pid it) = p_price_cents p"
    using price_at_product [OF _ p(1)] assms(1) p(2) by (simp add: schema_defs item_pid_def)
  then show ?thesis using assms(1) p(1) by (auto simp: schema_defs in_int4_def int4_max_def)
qed

lemma order_total_nonneg:
  assumes "db_ok d" and "\<forall>it \<in> set (ci_items inp). on_sale d it \<and> validQuantity (ci_quantity it)"
  shows "0 \<le> order_total d (locked inp)"
  unfolding order_total_def
proof (rule sum_list_nonneg)
  fix c assume "c \<in> set (map (\<lambda>x. line_price d x * item_qty (fst x)) (locked inp))"
  then obtain x where x: "x \<in> set (locked inp)" and c: "c = line_price d x * item_qty (fst x)"
    by auto
  define it where "it = fst x"
  have it: "it \<in> set (ci_items inp)" using x by (auto simp: set_itemsInLockOrder it_def)
  have "0 < price_at d (item_pid it)" "0 \<le> item_qty it"
    using assms it price_at_bounds by (fastforce elim: validQuantity.elims)+
  then show "0 \<le> c" by (simp add: c it_def)
qed

lemma priced_items_fit:
  assumes "db_ok d" and "\<forall>it \<in> set (ci_items inp). on_sale d it \<and> validQuantity (ci_quantity it)"
    and "p \<in> set (priced_items d (locked inp))"
  shows "line_fits d p"
proof -
  obtain x where x: "x \<in> set (locked inp)" and p: "p = \<lparr>pi_productId = ci_productId (fst x),
    pi_quantity = ci_quantity (fst x), pi_unitPriceCents = line_price d x\<rparr>"
    using assms(3) by (auto simp: priced_items_def)
  define it where "it = fst x"
  have it: "it \<in> set (ci_items inp)" using x by (auto simp: set_itemsInLockOrder it_def)
  have "on_sale d it" "validQuantity (ci_quantity it)" using assms(2) it by auto
  then show ?thesis using price_at_bounds [OF assms(1) \<open>on_sale d it\<close>]
    by (auto simp: p line_fits_def on_sale_def text_id_def it_def elim!: validQuantity.elims)
qed

lemma item_rows_fresh:
  assumes "db_ok d" shows "lines_of d (orders_seq d) = []"
  using assms by (fastforce simp: lines_of_def filter_empty_conv schema_defs)

end
