(* ===== verification/CheckoutEffect.thy ===== *)
theory CheckoutEffect
  imports Checkout
begin

text \<open>
  The effect of \<open>CheckoutService.insertCheckout\<close> as a function: the callback of the
  transaction succeeds exactly when the order is admissible, and then the database it leaves
  is \<open>committed_db\<close> of the database it found. The constraints of the schema and the
  denormalised totals survive a committed checkout.
\<close>

section \<open>Running the callback\<close>


lemma toOrderPlacedEvent_run:
  "toOrderPlacedEvent uuid toISO oid uid t None None w =
    (Inr \<lparr>ev_eventId = uuid (w_rng w), ev_occurredAt = toISO (now (w_db w)), ev_orderId = oid,
       ev_userId = uid, ev_totalCents = t, ev_poison = False\<rparr>, w\<lparr>w_rng := Suc (w_rng w)\<rparr>)"
  by (simp add: toOrderPlacedEvent_def createOrderPlacedEvent_def)

text \<open>The database after the order row and after its lines.\<close>

definition with_order :: "checkout_input \<Rightarrow> db \<Rightarrow> db" where
  "with_order inp d =
     (charge (text_id (ci_userId inp)) (order_total d (locked inp)) (debit (demand (locked inp)) d))
     \<lparr>orders_seq := orders_seq d + 1, orders := orders d @ [placed_order inp d]\<rparr>"

definition with_lines :: "checkout_input \<Rightarrow> db \<Rightarrow> db" where
  "with_lines inp d = add_lines (orders_seq d) (priced_items d (locked inp)) (with_order inp d)"

text \<open>The callback from the moment the lines are in: it can still abort.\<close>

definition finish :: "(nat \<Rightarrow> string) \<Rightarrow> (nat \<Rightarrow> string) \<Rightarrow> checkout_input \<Rightarrow> world \<Rightarrow> world" where
  "finish uuid toISO inp w =
     w\<lparr>w_rng := Suc (w_rng w),
       w_db := (with_lines inp (w_db w))\<lparr>jobs_seq := jobs_seq (w_db w) + 1,
         jobs := jobs (w_db w) @ [placed_job (w_db w)],
         outbox_seq := outbox_seq (w_db w) + 1,
         outbox := outbox (w_db w) @ [placed_outbox (placed_event uuid toISO inp w) (w_db w)]\<rparr>\<rparr>"

lemma with_order_ids [simp]:
  "p_id ` set (products (with_order inp d)) = p_id ` set (products d)"
  "u_id ` set (users (with_order inp d)) = u_id ` set (users d)"
  by (simp_all add: with_order_def)

lemma with_order_simps [simp]:
  "order_items (with_order inp d) = order_items d"
  "jobs (with_order inp d) = jobs d" "jobs_seq (with_order inp d) = jobs_seq d"
  "outbox (with_order inp d) = outbox d" "outbox_seq (with_order inp d) = outbox_seq d"
  "now (with_order inp d) = now d" "idempotency_keys (with_order inp d) = idempotency_keys d"
  "order_items_seq (with_order inp d) = order_items_seq d"
  by (simp_all add: with_order_def charge_def debit_def)

lemma lines_of_with_order: "lines_of (with_order inp d) = lines_of d"
  by (simp add: lines_of_def fun_eq_iff)

lemma line_fits_with_order: "line_fits (with_order inp d) p = line_fits d p"
  by (simp add: line_fits_def)

lemma order_known_with_order:
  "order_known (with_order inp d) (orders_seq d) \<longleftrightarrow> - int8_max - 1 \<le> orders_seq d \<and> orders_seq d \<le> int8_max"
  by (simp add: order_known_def with_order_def placed_order_def)

lemma can_pay_debit [simp]: "can_pay (debit f d) userId i t = can_pay d userId i t"
  by (simp add: can_pay_def)

text \<open>What the callback has written when all inserts but the intent key have succeeded.\<close>

definition goods_ok :: "checkout_input \<Rightarrow> db \<Rightarrow> bool" where
  "goods_ok inp d \<longleftrightarrow>
     (\<forall>it \<in> set (ci_items inp). on_sale d it)
     \<and> (\<forall>p \<in> set (products d). demand (locked inp) (p_id p) \<le> p_stock p)
     \<and> can_pay d (ci_userId inp) (text_id (ci_userId inp)) (order_total d (locked inp))"

lemma insert_order_lines_iff:
  assumes ok: "db_ok (w_db w)" and valid: "\<forall>it \<in> set (ci_items inp). validQuantity (ci_quantity it)"
    and ne: "ci_items inp \<noteq> []" and goods: "goods_ok inp (w_db w)"
  shows "insert_items (show_int (orders_seq (w_db w))) (priced_items (w_db w) (locked inp))
      (w\<lparr>w_db := with_order inp (w_db w)\<rparr>) = (Inr (), w')
    \<longleftrightarrow> distinct (map item_pid (ci_items inp))
      \<and> - int8_max - 1 \<le> orders_seq (w_db w) \<and> orders_seq (w_db w) \<le> int8_max
      \<and> w' = w\<lparr>w_db := with_lines inp (w_db w)\<rparr>"
proof -
  let ?d = "w_db w"
  let ?ps = "priced_items ?d (locked inp)"
  have fit: "\<forall>p \<in> set ?ps. line_fits ?d p"
    using priced_items_fit [OF ok] goods valid by (auto simp: goods_ok_def)
  have ids: "map (\<lambda>p. text_id (pi_productId p)) ?ps = map (\<lambda>x. item_pid (fst x)) (locked inp)"
    by (simp add: priced_items_def item_pid_text)
  have "length ?ps = length (ci_items inp)" by (simp add: priced_items_def)
  then have ne': "?ps \<noteq> []" using ne by auto
  show ?thesis
    unfolding insert_items_iff
    using fit ne' item_rows_fresh [OF ok]
    by (auto simp: ids distinct_locked line_fits_with_order lines_of_with_order order_known_with_order
        with_lines_def)
qed

lemma checkout_body_goods:
  assumes ok: "db_ok (w_db w)" and valid: "\<forall>it \<in> set (ci_items inp). validQuantity (ci_quantity it)"
    and r: "checkout_body uuid toISO inp (locked inp) w = (Inr r, w')"
  shows "goods_ok inp (w_db w)"
proof -
  let ?d = "w_db w" and ?its = "locked inp"
  have du: "distinct (map u_id (users ?d))" and dp: "distinct (map p_id (products ?d))"
    using ok by (auto simp: schema_defs)
  from r obtain t u ps w1 where take: "take_items ?its 0 (replicate (length (ci_items inp)) None) [] w
      = (Inr (t, u, ps), w1)"
    and pay: "\<exists>rs d2. rs \<noteq> [] \<and> sql_charge t (ci_userId inp) (w_db w1) = (Inr rs, d2)"
    by (fastforce simp: checkout_body_def sqlE_iff elim!: bindE_InrE split: prod.splits if_splits)
  have nonneg: "\<forall>x \<in> set ?its. 0 \<le> item_qty (fst x)"
    using valid by (auto simp: ball_locked [where P = "\<lambda>it. 0 \<le> item_qty it"] elim!: validQuantity.elims)
  have tk: "w1 = w\<lparr>w_db := debit (demand ?its) ?d\<rparr>" "t = order_total ?d ?its"
    "\<forall>it \<in> set (ci_items inp). on_sale ?d it"
    "\<forall>p \<in> set (products ?d). demand ?its (p_id p) \<le> p_stock p"
    using take_items_Inr [OF dp take] nonneg ok ball_locked [of inp "on_sale ?d"]
    by (auto simp: schema_defs)
  obtain i where "can_pay ?d (ci_userId inp) i t"
    using pay sql_charge_iff [of "w_db w1" t "ci_userId inp"] du by (auto simp: tk(1))
  then have "can_pay ?d (ci_userId inp) (text_id (ci_userId inp)) t"
    by (simp add: can_pay_def text_id_def)
  then show ?thesis using tk by (simp add: goods_ok_def)
qed

lemma checkout_body_after_goods:
  assumes ok: "db_ok (w_db w)" and valid: "\<forall>it \<in> set (ci_items inp). validQuantity (ci_quantity it)"
    and goods: "goods_ok inp (w_db w)"
  shows "checkout_body uuid toISO inp (locked inp) w =
    bindE (insert_items (show_int (orders_seq (w_db w))) (priced_items (w_db w) (locked inp))) (\<lambda>_.
    bindE (sqlE (sql_insert_job (JsObj [(''orderId'', JsString (show_int (orders_seq (w_db w))))]))) (\<lambda>jid.
    bindE (toOrderPlacedEvent uuid toISO (''order-'' @ show_int (orders_seq (w_db w))) (ci_userId inp)
      (order_total (w_db w) (locked inp)) None None) (\<lambda>event.
    bindE (sqlE (sql_insert_outbox (show_int (orders_seq (w_db w))) (event_json event))) (\<lambda>_.
    if ci_failAfterOutbox inp then throwE OutboxWriteAbortedError else
    bindE (save_key inp (show_int (orders_seq (w_db w)))) (\<lambda>_.
    returnE \<lparr>cr_orderId = show_int (orders_seq (w_db w)), cr_jobId = show_int jid,
      cr_totalCents = order_total (w_db w) (locked inp),
      cr_unitPrices = map (\<lambda>it. Some (price_at (w_db w) (item_pid it))) (ci_items inp),
      cr_replay = False\<rparr>))))) (w\<lparr>w_db := with_order inp (w_db w)\<rparr>)"
proof -
  let ?d = "w_db w" and ?its = "locked inp" and ?uid = "text_id (ci_userId inp)"
  let ?t = "order_total ?d ?its" and ?d1 = "debit (demand (locked inp)) (w_db w)"
  have du: "distinct (map u_id (users ?d1))" and dp: "distinct (map p_id (products ?d))"
    using ok by (auto simp: schema_defs)
  have nonneg: "\<forall>x \<in> set ?its. on_sale ?d (fst x) \<and> 0 \<le> item_qty (fst x)"
    using valid goods by (auto simp: ball_locked [where P = "\<lambda>it. on_sale ?d it \<and> 0 \<le> item_qty it"]
        goods_ok_def elim!: validQuantity.elims)
  have take: "take_items ?its 0 (replicate (length (ci_items inp)) None) [] w
    = (Inr (?t, map (\<lambda>it. Some (price_at ?d (item_pid it))) (ci_items inp), priced_items ?d ?its),
       w\<lparr>w_db := ?d1\<rparr>)"
  proof -
    obtain t u ps w1 where tk: "take_items ?its 0 (replicate (length (ci_items inp)) None) [] w
      = (Inr (t, u, ps), w1)"
      using take_items_enabled [OF dp nonneg] goods unfolding goods_ok_def by blast
    then show ?thesis using take_items_Inr [OF dp tk] by (simp add: fill_prices_request_order)
  qed
  have pay: "can_pay ?d1 (ci_userId inp) ?uid ?t" using goods by (simp add: goods_ok_def)
  obtain rs where rs: "rs \<noteq> []" "sql_charge ?t (ci_userId inp) ?d1 = (Inr rs, charge ?uid ?t ?d1)"
    using sql_charge_iff [OF du] pay by blast
  have "0 \<le> ?t" using order_total_nonneg [OF ok] goods valid by (simp add: goods_ok_def)
  then have ord: "sql_insert_order (ci_userId inp) ?t (charge ?uid ?t ?d1) = (Inr (orders_seq ?d), with_order inp ?d)"
    using pay by (subst sql_insert_order_iff) (force simp: can_pay_def with_order_def placed_order_def)+
  show ?thesis
    using rs unfolding checkout_body_def
    by (simp add: bindE_def take sqlE_def ord)
qed

lemma committed_finish:
  "(finish uuid toISO inp w)\<lparr>w_db := (w_db (finish uuid toISO inp w))
     \<lparr>idempotency_keys := idempotency_keys (w_db w) @ placed_keys inp (w_db w)\<rparr>\<rparr>
   = committed uuid toISO inp w"
  unfolding finish_def committed_def committed_db_def with_lines_def with_order_def add_lines_def
    placed_lines_def
  by (rule world.equality; (rule db.equality)?) (simp_all add: charge_def debit_def priced_items_def)

text \<open>With goods, money and identifiers in order, the callback writes everything but the intent key.\<close>

lemma checkout_body_finish:
  assumes ok: "db_ok (w_db w)" and valid: "\<forall>it \<in> set (ci_items inp). validQuantity (ci_quantity it)"
    and ne: "ci_items inp \<noteq> []" and goods: "goods_ok inp (w_db w)"
    and ids: "distinct (map item_pid (ci_items inp)) \<and> - int8_max - 1 \<le> orders_seq (w_db w) \<and> orders_seq (w_db w) \<le> int8_max"
  shows "checkout_body uuid toISO inp (locked inp) w =
      (if ci_failAfterOutbox inp then throwE OutboxWriteAbortedError
       else bindE (save_key inp (show_int (orders_seq (w_db w)))) (\<lambda>_. returnE (committed_result inp (w_db w))))
      (finish uuid toISO inp w)"
proof -
  have ins: "insert_items (show_int (orders_seq (w_db w))) (priced_items (w_db w) (locked inp)) (w\<lparr>w_db := with_order inp (w_db w)\<rparr>)
      = (Inr (), w\<lparr>w_db := with_lines inp (w_db w)\<rparr>)"
    using insert_order_lines_iff [OF ok valid ne goods] ids by blast
  show ?thesis
    unfolding checkout_body_after_goods [OF ok valid goods]
    by (simp add: ins bindE_def sqlE_def sql_insert_job_def sql_insert_outbox_def toOrderPlacedEvent_run
        finish_def with_lines_def add_lines_def placed_job_def placed_outbox_def placed_event_def
        committed_result_def Let_def)
qed

lemma checkout_body_iff:
  assumes ok: "db_ok (w_db w)" and valid: "\<forall>it \<in> set (ci_items inp). validQuantity (ci_quantity it)"
    and ne: "ci_items inp \<noteq> []"
  shows "checkout_body uuid toISO inp (locked inp) w = (Inr r, w') \<longleftrightarrow>
    admissible inp (w_db w) \<and> r = committed_result inp (w_db w) \<and> w' = committed uuid toISO inp w"
proof (cases "goods_ok inp (w_db w)")
  case False
  then show ?thesis using checkout_body_goods [OF ok valid]
    by (auto simp: admissible_def goods_ok_def)
next
  case True
  let ?d = "w_db w" and ?w = "w\<lparr>w_db := with_order inp (w_db w)\<rparr>"
  let ?ins = "insert_items (show_int (orders_seq ?d)) (priced_items ?d (locked inp)) ?w"
  let ?f = "finish uuid toISO inp w"
  have adm: "admissible inp ?d \<longleftrightarrow> (distinct (map item_pid (ci_items inp)) \<and> - int8_max - 1 \<le> orders_seq ?d
      \<and> orders_seq ?d \<le> int8_max) \<and> \<not> ci_failAfterOutbox inp \<and> key_free inp ?d"
    using True by (auto simp: admissible_def goods_ok_def)
  show ?thesis
  proof (cases "distinct (map item_pid (ci_items inp)) \<and> - int8_max - 1 \<le> orders_seq ?d
      \<and> orders_seq ?d \<le> int8_max")
    case False
    then have "fst ?ins \<noteq> Inr ()" by (metis insert_order_lines_iff [OF ok valid ne True] prod.collapse)
    then show ?thesis using False adm unfolding checkout_body_after_goods [OF ok valid True]
      by (cases ?ins; cases "fst ?ins") (auto simp: bindE_def)
  next
    case ids: True
    have body: "checkout_body uuid toISO inp (locked inp) w =
      (if ci_failAfterOutbox inp then throwE OutboxWriteAbortedError
       else bindE (save_key inp (show_int (orders_seq ?d))) (\<lambda>_. returnE (committed_result inp ?d))) ?f"
      by (rule checkout_body_finish [OF ok valid ne True ids])
    have uid: "text_id (ci_userId inp) \<in> u_id ` set (users (w_db ?f))"
      "pg_bigint (ci_userId inp) = Inr (text_id (ci_userId inp))"
      using True by (force simp: finish_def with_lines_def add_lines_def goods_ok_def can_pay_def)+
    have known: "order_known (w_db ?f) (orders_seq ?d)"
      using ids by (simp add: order_known_def finish_def with_lines_def add_lines_def with_order_def placed_order_def)
    have keys: "idempotency_keys (w_db ?f) = idempotency_keys ?d"
      by (simp add: finish_def with_lines_def add_lines_def)
    have free: "key_free inp (w_db ?f) = key_free inp ?d" unfolding key_free_def keys ..
    obtain rr ww where sk: "save_key inp (show_int (orders_seq ?d)) ?f = (rr, ww)" by fastforce
    have sk_iff: "rr = Inr () \<longleftrightarrow> key_free inp ?d" "rr = Inr () \<Longrightarrow> ww = committed uuid toISO inp w"
      using save_key_iff [OF uid known] sk unfolding free keys placed_keys_def [symmetric] committed_finish
      by auto
    show ?thesis
      using adm ids sk_iff unfolding body by (cases rr) (auto simp: bindE_def sk)
  qed
qed

section \<open>A committed checkout keeps the schema\<close>

lemma line_total_item_rows:
  "line_total (item_rows oid iid ps) = (\<Sum>p\<leftarrow>ps. js_int (pi_quantity p) * pi_unitPriceCents p)"
  by (induction ps arbitrary: iid) (auto simp: line_total_def)

lemma line_total_placed: "line_total (placed_lines inp d) = order_total d (locked inp)"
  by (simp add: placed_lines_def line_total_item_rows priced_items_def order_total_def comp_def mult.commute)

lemma committed_db_simps [simp]:
  "users (committed_db inp ev d) = users (charge (text_id (ci_userId inp)) (order_total d (locked inp)) d)"
  "products (committed_db inp ev d) = products (debit (demand (locked inp)) d)"
  "orders (committed_db inp ev d) = orders d @ [placed_order inp d]"
  "order_items (committed_db inp ev d) = order_items d @ placed_lines inp d"
  "jobs (committed_db inp ev d) = jobs d @ [placed_job d]"
  "outbox (committed_db inp ev d) = outbox d @ [placed_outbox ev d]"
  "idempotency_keys (committed_db inp ev d) = idempotency_keys d @ placed_keys inp d"
  "order_placed_effects (committed_db inp ev d) = order_placed_effects d"
  "order_placed_deliveries (committed_db inp ev d) = order_placed_deliveries d"
  "processed_messages (committed_db inp ev d) = processed_messages d"
  "orders_seq (committed_db inp ev d) = orders_seq d + 1"
  "order_items_seq (committed_db inp ev d) = order_items_seq d + int (length (ci_items inp))"
  "jobs_seq (committed_db inp ev d) = jobs_seq d + 1"
  "outbox_seq (committed_db inp ev d) = outbox_seq d + 1"
  "deliveries_seq (committed_db inp ev d) = deliveries_seq d"
  "categories (committed_db inp ev d) = categories d" "users_seq (committed_db inp ev d) = users_seq d"
  "categories_seq (committed_db inp ev d) = categories_seq d" "products_seq (committed_db inp ev d) = products_seq d"
  "now (committed_db inp ev d) = now d"
  by (simp_all add: committed_db_def charge_def debit_def)

lemma charge_emails [simp]: "map u_email (users (charge i t d)) = map u_email (users d)"
  by (auto simp: charge_def)

lemma debit_names [simp]: "map p_name (products (debit f d)) = map p_name (products d)"
  by (simp add: debit_def comp_def)

lemma item_rows_mem:
  "r \<in> set (item_rows oid iid ps) \<Longrightarrow> \<exists>k p. p \<in> set ps \<and> r = \<lparr>i_id = k, i_order_id = oid,
     i_product_id = text_id (pi_productId p), i_quantity = js_int (pi_quantity p),
     i_unit_price_cents = pi_unitPriceCents p\<rparr>"
  by (induction ps arbitrary: iid) (auto, blast)

lemma committed_users_ok:
  assumes "users_ok d" and "can_pay d userId i t" and "0 \<le> t"
  shows "users_ok (charge i t d)"
proof -
  have "0 \<le> u_balance_cents u \<and> u_balance_cents u \<le> int4_max \<and> email_ok (u_email u) \<and> u_id u < users_seq d"
    if "u \<in> set (users (charge i t d))" for u
  proof -
    from that obtain v where v: "v \<in> set (users d)"
      "u = (if u_id v = i then v\<lparr>u_balance_cents := u_balance_cents v - t\<rparr> else v)"
      by (auto simp: charge_def)
    have "t \<le> u_balance_cents v" if "u_id v = i"
      using assms(1,2) v(1) that by (auto simp: users_ok_def can_pay_def distinct_map inj_on_def)
    then show ?thesis using assms(1,3) v by (auto simp: users_ok_def)
  qed
  then show ?thesis using assms(1) by (simp add: users_ok_def)
qed

lemma demand_nonneg:
  assumes "\<forall>it \<in> set (ci_items inp). validQuantity (ci_quantity it)"
  shows "0 \<le> demand (locked inp) i"
proof -
  have "\<forall>it \<in> set (ci_items inp). 0 \<le> item_qty it" using assms by (auto elim!: validQuantity.elims)
  then have "\<forall>x \<in> set (locked inp). 0 \<le> item_qty (fst x)"
    by (simp add: ball_locked [where P = "\<lambda>it. 0 \<le> item_qty it"])
  then show ?thesis unfolding demand_def by (intro sum_list_nonneg) auto
qed

lemma committed_products_ok:
  assumes "products_ok d" and "\<forall>p \<in> set (products d). f (p_id p) \<le> p_stock p" and "\<forall>i. 0 \<le> f i"
  shows "products_ok (debit f d)"
proof -
  have "0 \<le> p_stock p \<and> p_stock p \<le> int4_max" if "p \<in> set (products (debit f d))" for p
  proof -
    from that obtain q where q: "q \<in> set (products d)" "p = q\<lparr>p_stock := p_stock q - f (p_id q)\<rparr>"
      by (auto simp: debit_def)
    have "0 \<le> f (p_id q)" "f (p_id q) \<le> p_stock q" "p_stock q \<le> int4_max"
      using assms q(1) by (auto simp: products_ok_def)
    then show ?thesis using q(2) by simp
  qed
  moreover have "0 < p_price_cents p \<and> p_price_cents p \<le> int4_max \<and> name_ok (p_name p) \<and> p_id p < products_seq d
      \<and> p_seller_id p \<in> u_id ` set (users d) \<and> set_option (p_category_id p) \<subseteq> g_id ` set (categories d)"
    if "p \<in> set (products (debit f d))" for p
    using that assms(1) unfolding debit_def products_ok_def by fastforce
  ultimately show ?thesis using assms(1) by (simp add: products_ok_def)
qed

lemma committed_lines_ok:
  assumes ok: "db_ok d" and valid: "\<forall>it \<in> set (ci_items inp). validQuantity (ci_quantity it)"
    and adm: "admissible inp d"
  shows "order_items_ok (committed_db inp ev d)"
proof -
  let ?ps = "priced_items d (locked inp)"
  have len: "length ?ps = length (ci_items inp)" by (simp add: priced_items_def)
  have old: "order_items_ok d" "orders_ok d" using ok by (auto simp: db_ok_def)
  have fit: "\<forall>p \<in> set ?ps. line_fits d p"
    using priced_items_fit [OF ok] adm valid by (auto simp: admissible_def)
  have ids: "distinct (map i_id (order_items d @ placed_lines inp d))"
    using old(1) distinct_item_rows item_rows_ids
    by (fastforce simp: order_items_ok_def placed_lines_def)
  have pids: "map i_product_id (placed_lines inp d) = map (\<lambda>x. item_pid (fst x)) (locked inp)"
    and oids: "map i_order_id (placed_lines inp d) = map (\<lambda>_. orders_seq d) ?ps"
    by (simp_all add: placed_lines_def priced_items_def item_pid_text)
  have "distinct (map i_product_id (placed_lines inp d))"
    using adm by (simp add: pids distinct_locked admissible_def)
  then have new: "distinct (map (\<lambda>i. (i_order_id i, i_product_id i)) (placed_lines inp d))"
    by (auto simp: distinct_map inj_on_def)
  have oid: "i_order_id i = orders_seq d" if "i \<in> set (placed_lines inp d)" for i
    using that oids by (metis (no_types, lifting) image_eqI in_set_conv_nth length_map list.set_map nth_map)
  have "i_order_id i < orders_seq d" if "i \<in> set (order_items d)" for i
    using that old by (fastforce simp: order_items_ok_def orders_ok_def)
  then have uniq: "distinct (map (\<lambda>i. (i_order_id i, i_product_id i)) (order_items d @ placed_lines inp d))"
    using old(1) new oid by (fastforce simp: order_items_ok_def)
  have rows: "0 < i_quantity i \<and> 0 < i_unit_price_cents i \<and> i_product_id i \<in> p_id ` set (products d)
    \<and> i_id i < order_items_seq d + int (length (ci_items inp))"
    if "i \<in> set (placed_lines inp d)" for i
  proof -
    obtain iid p where "p \<in> set ?ps" "i = \<lparr>i_id = iid, i_order_id = orders_seq d,
      i_product_id = text_id (pi_productId p), i_quantity = js_int (pi_quantity p),
      i_unit_price_cents = pi_unitPriceCents p\<rparr>"
      using \<open>i \<in> set (placed_lines inp d)\<close> item_rows_mem unfolding placed_lines_def by blast
    then show ?thesis using fit item_rows_ids [of i] that len
      by (fastforce simp: line_fits_def placed_lines_def)
  qed
  show ?thesis
    using old ids uniq rows oid unfolding order_items_ok_def
    by (auto simp: placed_order_def)
qed

lemma committed_db_ok:
  assumes ok: "db_ok d" and valid: "\<forall>it \<in> set (ci_items inp). validQuantity (ci_quantity it)"
    and adm: "admissible inp d"
  shows "db_ok (committed_db inp ev d)"
proof -
  let ?t = "order_total d (locked inp)" and ?uid = "text_id (ci_userId inp)"
  have t: "0 \<le> ?t" using order_total_nonneg [OF ok] adm valid by (auto simp: admissible_def)
  have pay: "can_pay d (ci_userId inp) ?uid ?t" using adm by (simp add: admissible_def)
  then have t4: "?t \<le> int4_max" by (simp add: can_pay_def in_int4_def)
  have uid: "?uid \<in> u_id ` set (users d)" using pay unfolding can_pay_def by (metis image_eqI)
  have "users_ok (charge ?uid ?t d)" using committed_users_ok [OF _ pay t] ok by (simp add: db_ok_def)
  then have "users_ok (committed_db inp ev d)" "categories_ok (committed_db inp ev d)"
    using ok by (simp_all add: users_ok_def db_ok_def categories_ok_def)
  moreover have "products_ok (committed_db inp ev d)"
  proof -
    have "products_ok d" "\<forall>p \<in> set (products d). demand (locked inp) (p_id p) \<le> p_stock p"
      using ok adm by (simp_all add: db_ok_def admissible_def)
    then have "products_ok (debit (demand (locked inp)) d)"
      using committed_products_ok demand_nonneg [OF valid] by blast
    then show ?thesis unfolding products_ok_def by simp
  qed
  moreover have "orders_ok (committed_db inp ev d)"
    using ok t t4 uid by (auto simp: db_ok_def orders_ok_def placed_order_def order_statuses_def)
  moreover have "jobs_ok (committed_db inp ev d)" "outbox_ok (committed_db inp ev d)"
    using ok by (auto simp: db_ok_def jobs_ok_def outbox_ok_def placed_job_def placed_outbox_def)
  moreover have "keys_ok (committed_db inp ev d)"
    using ok adm uid by (auto simp: db_ok_def keys_ok_def placed_keys_def placed_order_def key_free_def
        admissible_def split: option.splits)
  moreover have "inbox_ok (committed_db inp ev d)"
    using ok by (simp add: db_ok_def inbox_ok_def)
  ultimately show ?thesis using committed_lines_ok [OF ok valid adm] by (simp add: db_ok_def)
qed

lemma committed_totals_ok:
  assumes ok: "db_ok d" and tot: "totals_ok d"
  shows "totals_ok (committed_db inp ev d)"
proof -
  have lines: "lines_of (committed_db inp ev d) oid =
      lines_of d oid @ (if oid = orders_seq d then placed_lines inp d else [])" for oid
    using lines_of_add_lines [of "orders_seq d" "priced_items d (locked inp)" d oid]
    by (simp add: lines_of_def placed_lines_def add_lines_def)
  have "o_id r \<noteq> orders_seq d" if "r \<in> set (orders d)" for r
    using ok that by (fastforce simp: db_ok_def orders_ok_def)
  then show ?thesis using tot item_rows_fresh [OF ok]
    by (auto simp: totals_ok_def lines placed_order_def line_total_placed)
qed

end
