(* ===== verification/CheckoutOutcomes.thy ===== *)
theory CheckoutOutcomes
  imports CheckoutEffect
begin

text \<open>
  \<open>CheckoutService.checkout\<close> as its callers see it: validation, the lookup of a committed
  intent, the retried transaction and the recovery from a lost race for the intent key. The
  properties state what each outcome means for the tables.
\<close>


section \<open>Tameness\<close>

lemma tame_Pair [tame_intros]: "tame (Pair r)"
  by (rule tameI) simp

lemma tame_statements [tame_intros]:
  "tame (sqlE (sql_take_stock q pid))" "tame (sqlE (sql_charge t uid))"
  "tame (sqlE (sql_insert_order uid t))" "tame (sqlE (sql_insert_item oid pid q c))"
  "tame (sqlE (sql_insert_job j))" "tame (sqlE (sql_insert_outbox oid j))"
  "tame (sqlE (sql_insert_key uid k oid h))"
  by (intro tame_sqlE; simp add: seqs_le_def sql_take_stock_def sql_charge_def sql_insert_order_def
      sql_insert_item_def sql_insert_job_def sql_insert_outbox_def sql_insert_key_def Let_def
      split: sum.split)+

lemma tame_take_items [tame_intros]: "tame (take_items its t u ps)"
  by (induction its t u ps rule: take_items.induct) (auto intro!: tame_intros split: list.split)

lemma tame_insert_items [tame_intros]: "tame (insert_items oid ps)"
  by (induction ps) (auto intro!: tame_intros)

lemma tame_event [tame_intros]: "tame (toOrderPlacedEvent uuid toISO oid uid t None None)"
  by (rule tameI) (simp add: toOrderPlacedEvent_run advanced_def)

lemma tame_save_key [tame_intros]: "tame (save_key inp oid)"
  by (auto simp: save_key_def intro!: tame_intros split: option.split)

lemma tame_checkout_body: "tame (checkout_body uuid toISO inp its)"
  unfolding checkout_body_def by (auto intro!: tame_intros split: prod.split)

section \<open>Lookups leave the tables alone\<close>

lemma query_readonly:
  assumes "\<And>d. snd (f d) = d" and "query f w = (r, w')"
  shows "w' = snd (next_env w)"
proof -
  obtain ab w1 where env: "next_env w = (ab, w1)" by fastforce
  have *: "sqlE f w1 = (fst (f (w_db w1)), w1)"
    using assms(1) [of "w_db w1"] by (cases "f (w_db w1)") (simp add: sqlE_def)
  have "w1\<lparr>w_db := rollback (w_db w1) (w_db w1)\<rparr> = w1" by (simp add: rollback_def)
  then show ?thesis using assms(2) env
    by (auto simp: query_def transaction_def * split: option.splits sum.splits)
qed

lemma query_readonly_unaffected:
  "(\<And>d. snd (f d) = d) \<Longrightarrow> query f w = (r, w') \<Longrightarrow> unaffected w w'"
  using query_readonly [of f w r w'] by (auto simp: quiet_step_def)

lemma sql_find_key_readonly [simp]: "snd (sql_find_key uid k d) = d"
  by (simp add: sql_find_key_def split: sum.split)

lemma sql_item_prices_readonly [simp]: "snd (sql_item_prices oid d) = d"
  by (simp add: sql_item_prices_def)

lemma findCommitted_unaffected: "findCommitted uid k w = (r, w') \<Longrightarrow> unaffected w w'"
proof -
  assume r: "findCommitted uid k w = (r, w')"
  obtain r1 w1 where q1: "query (sql_find_key uid k) w = (r1, w1)" by fastforce
  have u1: "unaffected w w1" using query_readonly_unaffected [OF _ q1] by simp
  have "w' = w1 \<or> (\<exists>oid r2. query (sql_item_prices oid) w1 = (r2, w'))"
    using r by (auto simp: findCommitted_def bindE_def q1 split: sum.splits list.splits prod.splits)
  then show ?thesis
    using u1 query_readonly_unaffected [of "sql_item_prices _" w1] by (auto intro: rtranclp_trans)
qed

lemma lookupIntent_unaffected: "lookupIntent inp w = (r, w') \<Longrightarrow> unaffected w w'"
  by (auto simp: lookupIntent_def intro: findCommitted_unaffected split: option.splits)

lemma lookupIntent_replay:
  "lookupIntent inp w = (Inr (Some (h, res)), w') \<Longrightarrow> cr_replay res"
  by (auto simp: lookupIntent_def findCommitted_def elim!: bindE_InrE split: option.splits list.splits)

lemma replayCommitted_run:
  "replayCommitted inp (h, res) w =
     (if ci_requestHash inp = None \<or> ci_requestHash inp = Some h then Inr res
      else Inl IdempotencyKeyConflictError, w)"
  by (simp add: replayCommitted_def assertSameIntent_def bindE_def)

lemma validate_items_run:
  "validate_items items w = (r, w') \<Longrightarrow>
    w' = w \<and> (r = Inr () \<longleftrightarrow> (\<forall>it \<in> set items. validQuantity (ci_quantity it)))
    \<and> (\<forall>e. r = Inl e \<longrightarrow> (\<exists>it \<in> set items. \<not> validQuantity (ci_quantity it)
         \<and> e = PlainError (''Invalid quantity '' @ show_number (ci_quantity it))))"
  by (induction items) (auto split: if_splits)

section \<open>The three outcomes of a checkout\<close>

lemma insertCheckout_retry:
  assumes "withRetry (insertCheckout uuid toISO inp its) 5 w = (Inr r, w')"
  obtains w1 where "unaffected w w1" and "checkout_body uuid toISO inp its w1 = (Inr r, w')"
  by (rule tx.retry_commit [OF tame_checkout_body _ assms [unfolded insertCheckout_def]]) (use that in auto)

lemma insertCheckout_retry_Inl:
  "withRetry (insertCheckout uuid toISO inp its) 5 w = (Inl e, w') \<Longrightarrow> unaffected w w'"
  using tx.retry_abort [OF tame_checkout_body, of 5] unfolding insertCheckout_def by auto

lemma checkout_outcomes:
  assumes "checkout uuid toISO inp w = (r, w')"
  obtains (invalid) m where "r = Inl (PlainError m)" "w' = w"
      "ci_items inp = [] \<or> (\<exists>it \<in> set (ci_items inp). \<not> validQuantity (ci_quantity it))"
    | (failed) e where "r = Inl e" "unaffected w w'" "ci_items inp \<noteq> []"
    | (replayed) w1 w2 h res where "unaffected w w1" "lookupIntent inp w1 = (Inr (Some (h, res)), w2)"
      "w' = w2" "r = Inr res" "ci_requestHash inp = None \<or> ci_requestHash inp = Some h"
    | (placed) w1 res where "unaffected w w1" "r = Inr res"
      "checkout_body uuid toISO inp (locked inp) w1 = (Inr res, w')"
      "\<forall>it \<in> set (ci_items inp). validQuantity (ci_quantity it)" "ci_items inp \<noteq> []"
proof (cases "ci_items inp = [] \<or> (\<exists>it \<in> set (ci_items inp). \<not> validQuantity (ci_quantity it))")
  case True
  obtain rv wv where v: "validate_items (ci_items inp) w = (rv, wv)" by fastforce
  then show ?thesis using True assms validate_items_run [OF v] invalid
    by (cases rv) (auto simp: checkout_def bindE_def split: if_splits)
next
  case False
  then have val: "validate_items (ci_items inp) w = (Inr (), w)"
    using validate_items_run by (metis prod.exhaust_sel)
  obtain r1 w1 where l1: "lookupIntent inp w = (r1, w1)" by fastforce
  then have u1: "unaffected w w1" by (rule lookupIntent_unaffected)
  show ?thesis
  proof (cases r1)
    case (Inl e)
    then show ?thesis using False assms val l1 u1 failed by (auto simp: checkout_def bindE_def)
  next
    case (Inr ex)
    show ?thesis
    proof (cases ex)
      case (Some hr)
      obtain h res where hr: "hr = (h, res)" by fastforce
      show ?thesis using False assms val l1 u1 Inr Some hr failed replayed [of w h res]
        by (auto simp: checkout_def bindE_def replayCommitted_run split: if_splits)
    next
      case None
      obtain r2 w2 where rt: "withRetry (insertCheckout uuid toISO inp (locked inp)) 5 w1 = (r2, w2)"
        by fastforce
      show ?thesis
      proof (cases r2)
        case (Inr res)
        obtain wb where "unaffected w1 wb" "checkout_body uuid toISO inp (locked inp) wb = (Inr res, w2)"
          using insertCheckout_retry rt Inr by metis
        then show ?thesis using False assms val l1 u1 \<open>r1 = Inr ex\<close> None rt Inr placed [of wb res]
          by (auto simp: checkout_def bindE_def catchE_def intro: rtranclp_trans)
      next
        case (Inl e)
        then have u2: "unaffected w w2" using insertCheckout_retry_Inl rt u1 by (metis rtranclp_trans)
        obtain r3 w3 where l3: "lookupIntent inp w2 = (r3, w3)" by fastforce
        then have u3: "unaffected w w3" using lookupIntent_unaffected u2 by (metis rtranclp_trans)
        have eq: "(r, w') = (if e = IdempotencyReplayError \<and> intent_key inp \<noteq> None then
            bindE (lookupIntent inp) (\<lambda>existing. case existing of None \<Rightarrow> throwE e
              | Some ex \<Rightarrow> replayCommitted inp ex) w2 else (Inl e, w2))"
          using False assms val l1 \<open>r1 = Inr ex\<close> None rt Inl
          by (auto simp: checkout_def bindE_def catchE_def)
        show ?thesis
        proof (cases r3)
          case (Inl e3)
          then show ?thesis using eq l3 u2 u3 False failed
            by (auto simp: bindE_def split: if_splits)
        next
          case (Inr ex3)
          then show ?thesis using eq l3 u2 u3 False failed replayed [of w2]
            by (cases ex3) (auto simp: bindE_def replayCommitted_run split: if_splits)
        qed
      qed
    qed
  qed
qed

section \<open>Looking up a committed intent\<close>

lemma lookupIntent_free:
  assumes "w_sched w = []" and "pg_bigint (ci_userId inp) = Inr (text_id (ci_userId inp))"
    and "key_free inp (w_db w)"
  shows "lookupIntent inp w = (Inr None, w)"
proof (cases "intent_key inp")
  case None
  then show ?thesis by (simp add: lookupIntent_def)
next
  case (Some k)
  have "filter (\<lambda>r. k_user_id r = text_id (ci_userId inp) \<and> k_key r = k) (idempotency_keys (w_db w)) = []"
    using assms(3) Some by (force simp: key_free_def filter_empty_conv)
  then have "sql_find_key (ci_userId inp) k (w_db w) = (Inr [], w_db w)"
    using assms(2) by (simp add: sql_find_key_def)
  then show ?thesis using assms(1) Some
    by (simp add: lookupIntent_def findCommitted_def bindE_def query_def transaction_empty sqlE_def)
qed

lemma last_job_placed:
  assumes "jobs_ok d"
  shows "last_job_of (committed_db inp ev d) (placed_order inp d) = Some (jobs_seq d)"
proof -
  let ?p = "\<lambda>j. json_text (j_payload j) ''orderId'' = Some (show_int (orders_seq d))"
  let ?ids = "map j_id (filter ?p (jobs d))"
  have new: "?p (placed_job d)" by (simp add: placed_job_def json_text_def json_field_def)
  have "\<forall>i \<in> set ?ids. i < jobs_seq d" using assms by (auto simp: jobs_ok_def)
  then have "sort (?ids @ [jobs_seq d]) = sort ?ids @ [jobs_seq d]"
    by (intro properties_for_sort) (auto simp: sorted_append less_imp_le)
  then show ?thesis using new by (simp add: last_job_of_def placed_order_def placed_job_def)
qed

lemma lines_of_committed:
  assumes "db_ok d"
  shows "lines_of (committed_db inp ev d) (orders_seq d) = placed_lines inp d"
proof -
  have "filter (\<lambda>i. i_order_id i = orders_seq d) (placed_lines inp d) = placed_lines inp d"
    unfolding placed_lines_def by (rule filter_True) (auto dest: item_rows_mem)
  then show ?thesis using item_rows_fresh [OF assms] by (simp add: lines_of_def)
qed

lemma sort_item_rows: "sort_key i_id (item_rows oid iid ps) = item_rows oid iid ps"
proof (rule sort_key_id_if_sorted)
  show "sorted (map i_id (item_rows oid iid ps))"
  proof (induction ps arbitrary: iid)
    case (Cons p ps)
    then show ?case using item_rows_ids [of _ oid "iid + 1" ps] by fastforce
  qed simp
qed

definition replayed_result :: "checkout_input \<Rightarrow> db \<Rightarrow> checkout_result" where
  "replayed_result inp d = (committed_result inp d)
     \<lparr>cr_unitPrices := map (\<lambda>x. Some (line_price d x)) (locked inp), cr_replay := True\<rparr>"

lemma findCommitted_committed:
  assumes ok: "db_ok d" and adm: "admissible inp d" and key: "intent_key inp = Some k"
    and w: "w_db w = committed_db inp ev d" "w_sched w = []"
  shows "findCommitted (ci_userId inp) k w = (Inr (Some (stored_hash inp, replayed_result inp d)), w)"
proof -
  let ?d = "committed_db inp ev d" and ?uid = "text_id (ci_userId inp)"
  have uid: "pg_bigint (ci_userId inp) = Inr ?uid" using adm by (simp add: admissible_def can_pay_def)
  have "filter (\<lambda>r. k_user_id r = ?uid \<and> k_key r = k) (idempotency_keys d) = []"
    using adm key by (force simp: admissible_def key_free_def filter_empty_conv)
  then have keys: "filter (\<lambda>r. k_user_id r = ?uid \<and> k_key r = k) (idempotency_keys ?d) = placed_keys inp d"
    by (simp add: placed_keys_def key)
  have old: "filter (\<lambda>r. o_id r = orders_seq d) (orders d) = []"
    using ok by (fastforce simp: db_ok_def orders_ok_def filter_empty_conv)
  have ord: "filter (\<lambda>r. o_id r = orders_seq d) (orders ?d) = [placed_order inp d]"
    by (simp add: old) (simp add: placed_order_def)
  have job: "last_job_of ?d (placed_order inp d) = Some (jobs_seq d)"
    using last_job_placed ok by (simp add: db_ok_def)
  have find: "sql_find_key (ci_userId inp) k ?d =
      (Inr [(orders_seq d, stored_hash inp, order_total d (locked inp), Some (jobs_seq d))], ?d)"
    unfolding sql_find_key_def uid sum.case keys
    by (simp add: placed_keys_def key old job) (simp add: placed_order_def)
  have items: "sql_item_prices (orders_seq d) ?d = (Inr (map (line_price d) (locked inp)), ?d)"
    unfolding sql_item_prices_def lines_of_committed [OF ok]
    by (simp add: placed_lines_def sort_item_rows priced_items_def)
  have "w\<lparr>w_db := ?d\<rparr> = w" using w(1) by (metis world.surjective world.update_convs(1))
  then show ?thesis
    by (simp add: findCommitted_def bindE_def query_def transaction_empty sqlE_def w find items
        replayed_result_def committed_result_def)
qed

lemma table_pred_totals: "table_pred (\<lambda>d. db_ok d \<and> totals_ok d)"
proof -
  have "totals_ok d' = totals_ok d" if "tables d' = tables d" for d d'
    using that by (simp add: tables_eq_iff totals_ok_def lines_of_def)
  then show ?thesis using table_pred_db_ok unfolding table_pred_def by blast
qed

lemma checkout_alone:
  assumes "w_sched w = []" and "ci_items inp \<noteq> []"
    and "\<forall>it \<in> set (ci_items inp). validQuantity (ci_quantity it)"
    and "lookupIntent inp w = (Inr None, w)"
    and "checkout_body uuid toISO inp (locked inp) w = (Inr r, w')"
  shows "checkout uuid toISO inp w = (Inr r, w')"
proof -
  have val: "validate_items (ci_items inp) w = (Inr (), w)"
    using validate_items_run assms(3) by (metis prod.exhaust_sel)
  have "insertCheckout uuid toISO inp (locked inp) w = (Inr r, w')"
    using assms(1,5) by (simp add: insertCheckout_def transaction_empty)
  then have "withRetry (insertCheckout uuid toISO inp (locked inp)) 5 w = (Inr r, w')"
    by (rule withRetry_Inr_once) simp
  then show ?thesis using assms(2,4) val by (simp add: checkout_def bindE_def catchE_def)
qed

end
