(* ===== verification/CheckoutCorrect.thy ===== *)
theory CheckoutCorrect
  imports CheckoutOutcomes
begin

text \<open>
  The properties of \<open>CheckoutService.checkout\<close>: refinement of its specification, atomicity,
  the invariants it keeps, availability, idempotence under an intent key. The small shop of
  the witnesses is used by the other theories too.
\<close>

section \<open>Conservation\<close>

text \<open>
  What a product row and the order lines say together, and what a balance and the orders say
  together.
\<close>

definition stock_of :: "db \<Rightarrow> int \<Rightarrow> int" where
  "stock_of d i = (\<Sum>p\<leftarrow>products d. if p_id p = i then p_stock p else 0)"

definition sold_of :: "db \<Rightarrow> int \<Rightarrow> int" where
  "sold_of d i = (\<Sum>r\<leftarrow>order_items d. if i_product_id r = i then i_quantity r else 0)"

definition balance_of :: "db \<Rightarrow> int \<Rightarrow> int" where
  "balance_of d i = (\<Sum>u\<leftarrow>users d. if u_id u = i then u_balance_cents u else 0)"

definition spent_of :: "db \<Rightarrow> int \<Rightarrow> int" where
  "spent_of d i = (\<Sum>r\<leftarrow>orders d. if o_user_id r = i then o_total_cents r else 0)"

definition conserved :: "(int \<Rightarrow> int) \<Rightarrow> (int \<Rightarrow> int) \<Rightarrow> db \<Rightarrow> bool" where
  "conserved goods money d \<longleftrightarrow>
     (\<forall>i. stock_of d i + sold_of d i = goods i) \<and> (\<forall>i. balance_of d i + spent_of d i = money i)"

lemma sum_list_update_one:
  fixes f g :: "'a \<Rightarrow> int"
  assumes "distinct (map k xs)" and "x \<in> set xs" and "k x = i"
    and "\<And>y. k y \<noteq> i \<Longrightarrow> g y = f y" and "\<And>y. k y = i \<Longrightarrow> g y = f y - c"
  shows "sum_list (map g xs) = sum_list (map f xs) - c"
  using assms(1,2)
proof (induction xs)
  case (Cons y ys)
  show ?case
  proof (cases "y = x")
    case True
    then have "\<forall>z \<in> set ys. g z = f z" using Cons.prems(1) assms(3,4) by (fastforce simp: image_iff)
    then have "sum_list (map g ys) = sum_list (map f ys)" by (metis map_cong)
    then show ?thesis using True assms(3,5) by simp
  next
    case False
    then have "k y \<noteq> i" using Cons.prems assms(3) by (force simp: image_iff)
    then show ?thesis using Cons False assms(4) by simp
  qed
qed simp

lemma stock_of_debit:
  assumes "distinct (map p_id (products d))" and "i \<in> p_id ` set (products d) \<or> f i = 0"
  shows "stock_of (debit f d) i = stock_of d i - f i"
proof (cases "i \<in> p_id ` set (products d)")
  case True
  then obtain p where "p \<in> set (products d)" "p_id p = i" by auto
  then show ?thesis unfolding stock_of_def debit_def
    using sum_list_update_one [of p_id "products d" p i
      "\<lambda>p. if p_id p = i then p_stock p - f (p_id p) else 0" "\<lambda>p. if p_id p = i then p_stock p else 0" "f i"]
      assms(1) by (simp add: comp_def cong: if_cong)
next
  case False
  then show ?thesis using assms(2) unfolding stock_of_def debit_def
    by (simp add: comp_def) (rule arg_cong [where f = sum_list], auto)
qed

lemma balance_of_charge:
  assumes "distinct (map u_id (users d))" and "j \<in> u_id ` set (users d)"
  shows "balance_of (charge j t d) i = balance_of d i - (if i = j then t else 0)"
proof (cases "i = j")
  case True
  then obtain u where u: "u \<in> set (users d)" "u_id u = i" using assms(2) by auto
  have "map (\<lambda>u. if u_id u = i then u_balance_cents u else 0) (users (charge j t d))
    = map (\<lambda>u. if u_id u = i then u_balance_cents u - t else 0) (users d)"
    using True by (simp add: charge_def)
  then show ?thesis unfolding balance_of_def
    using u True sum_list_update_one [of u_id "users d" u i
      "\<lambda>u. if u_id u = i then u_balance_cents u - t else 0"
      "\<lambda>u. if u_id u = i then u_balance_cents u else 0" t] assms(1) by (simp add: charge_def [symmetric])
next
  case False
  then show ?thesis unfolding balance_of_def charge_def
    by (simp add: comp_def) (rule arg_cong [where f = sum_list], auto)
qed

lemma sold_item_rows:
  "(\<Sum>r\<leftarrow>item_rows oid iid (priced_items d its). if i_product_id r = i then i_quantity r else 0)
     = demand its i"
  by (induction its arbitrary: iid) (auto simp: priced_items_def demand_def item_pid_text)

lemma demand_on_sale:
  assumes "\<forall>it \<in> set (ci_items inp). on_sale d it" and "demand (locked inp) i \<noteq> 0"
  shows "i \<in> p_id ` set (products d)"
proof -
  have "\<exists>x \<in> set (locked inp). item_pid (fst x) = i"
  proof (rule ccontr)
    assume "\<not> ?thesis"
    then have "demand (locked inp) i = (\<Sum>x\<leftarrow>locked inp. 0)" unfolding demand_def
      by (intro arg_cong [where f = sum_list] map_cong) auto
    then show False using assms(2) by simp
  qed
  then obtain it where "it \<in> set (ci_items inp)" "item_pid it = i"
    by (force simp: set_itemsInLockOrder)
  then show ?thesis using assms(1) by (force simp: on_sale_def item_pid_def)
qed

lemma committed_conserved:
  assumes ok: "db_ok d" and adm: "admissible inp d" and c: "conserved G M d"
  shows "conserved G M (committed_db inp ev d)"
proof -
  let ?d = "committed_db inp ev d" and ?t = "order_total d (locked inp)" and ?u = "text_id (ci_userId inp)"
  have dist: "distinct (map p_id (products d))" "distinct (map u_id (users d))"
    using ok by (simp_all add: schema_defs)
  have uid: "?u \<in> u_id ` set (users d)"
    using adm unfolding admissible_def can_pay_def by (metis image_eqI)
  have sale: "\<forall>it \<in> set (ci_items inp). on_sale d it" using adm by (simp add: admissible_def)
  have "stock_of ?d i = stock_of d i - demand (locked inp) i" for i
    using stock_of_debit [OF dist(1), of i "demand (locked inp)"] demand_on_sale [OF sale]
    by (auto simp: stock_of_def)
  moreover have "sold_of ?d i = sold_of d i + demand (locked inp) i" for i
    by (simp add: sold_of_def placed_lines_def sold_item_rows)
  moreover have "balance_of ?d i = balance_of d i - (if i = ?u then ?t else 0)" for i
    using balance_of_charge [OF dist(2) uid, of ?t i] by (simp add: balance_of_def)
  moreover have "spent_of ?d i = spent_of d i + (if i = ?u then ?t else 0)" for i
    by (simp add: spent_of_def placed_order_def)
  ultimately show ?thesis using c by (simp add: conserved_def)
qed

lemma table_pred_conserved: "table_pred (\<lambda>d. db_ok d \<and> totals_ok d \<and> conserved G M d)"
proof -
  have "conserved G M d' = conserved G M d" if "tables d' = tables d" for d d'
    using that
    by (simp add: tables_eq_iff conserved_def stock_of_def sold_of_def balance_of_def spent_of_def)
  then show ?thesis using table_pred_totals unfolding table_pred_def by blast
qed

lemma checkout_success:
  assumes ok: "db_ok (w_db w)" and env: "env_keeps db_ok w"
    and r: "checkout uuid toISO inp w = (Inr r, w')" and new: "\<not> cr_replay r"
  obtains w1 where "unaffected w w1" "admissible inp (w_db w1)" "db_ok (w_db w1)"
    "r = committed_result inp (w_db w1)" "w' = committed uuid toISO inp w1"
    "\<forall>it \<in> set (ci_items inp). validQuantity (ci_quantity it)" "ci_items inp \<noteq> []"
proof (cases rule: checkout_outcomes [OF r])
  case (3 w1 w2 h res)
  then show ?thesis using new lookupIntent_replay by blast
next
  case (4 w1 res)
  have ok1: "db_ok (w_db w1)" using unaffected_keeps [OF 4(1) table_pred_db_ok env ok] by blast
  then show ?thesis using that [OF 4(1)] checkout_body_iff [OF ok1 4(4) 4(5)] 4 by simp
qed simp_all

lemma checkout_no_order:
  assumes "checkout uuid toISO inp w = (r, w')" and "\<forall>res. r = Inr res \<longrightarrow> cr_replay res"
    and "db_ok (w_db w)" and "env_keeps db_ok w"
  shows "unaffected w w'"
proof (cases rule: checkout_outcomes [OF assms(1)])
  case (3 w1 w2 h res)
  then show ?thesis using lookupIntent_unaffected by (metis rtranclp_trans)
next
  case (4 w1 res)
  have "db_ok (w_db w1)" using unaffected_keeps [OF 4(1) table_pred_db_ok assms(4,3)] by blast
  then have "\<not> cr_replay res"
    using checkout_body_iff [OF _ 4(4,5)] 4(3) by (auto simp: committed_result_def)
  then show ?thesis using 4(2) assms(2) by simp
qed auto


lemma checkout_committed:
  assumes "w_sched w = []" and "db_ok (w_db w)" and "ci_items inp \<noteq> []"
    and "\<forall>it \<in> set (ci_items inp). validQuantity (ci_quantity it)" and "admissible inp (w_db w)"
  shows "checkout uuid toISO inp w = (Inr (committed_result inp (w_db w)), committed uuid toISO inp w)"
proof (rule checkout_alone [OF assms(1,3,4)])
  show "lookupIntent inp w = (Inr None, w)"
    using lookupIntent_free [OF assms(1)] assms(5) by (auto simp: admissible_def can_pay_def)
  show "checkout_body uuid toISO inp (locked inp) w
      = (Inr (committed_result inp (w_db w)), committed uuid toISO inp w)"
    using checkout_body_iff [OF assms(2,4,3)] assms(5) by simp
qed

section \<open>A small shop, for the witnesses\<close>

definition shop :: db where
  "shop = \<lparr>
     users = [\<lparr>u_id = 1, u_email = ''seller@example.com'', u_full_name = ''Seller'', u_role = Seller,
                u_is_active = True, u_balance_cents = 0\<rparr>,
              \<lparr>u_id = 2, u_email = ''buyer@example.com'', u_full_name = ''Buyer'', u_role = Buyer,
                u_is_active = True, u_balance_cents = 10000\<rparr>],
     categories = [],
     products = [\<lparr>p_id = 1, p_name = ''Lamp'', p_description = [], p_price_cents = 100, p_stock = 5,
                   p_is_active = True, p_seller_id = 1, p_category_id = None\<rparr>,
                 \<lparr>p_id = 2, p_name = ''Mug'', p_description = [], p_price_cents = 30, p_stock = 2,
                   p_is_active = True, p_seller_id = 1, p_category_id = None\<rparr>],
     orders = [], order_items = [], jobs = [], outbox = [], idempotency_keys = [],
     order_placed_effects = [], order_placed_deliveries = [], processed_messages = [],
     users_seq = 3, categories_seq = 1, products_seq = 3, orders_seq = 1, order_items_seq = 1, jobs_seq = 1, outbox_seq = 1, deliveries_seq = 1, now = 0\<rparr>"

definition shop_world :: world where
  "shop_world = \<lparr>w_db = shop, w_rng = 0, w_sched = []\<rparr>"

text \<open>Two Mugs and a Lamp, in that order, under an intent key.\<close>

definition basket :: checkout_input where
  "basket = \<lparr>ci_userId = ''2'',
     ci_items = [\<lparr>ci_productId = ''2'', ci_quantity = Whole 2\<rparr>, \<lparr>ci_productId = ''1'', ci_quantity = Whole 1\<rparr>],
     ci_idempotencyKey = Some ''k1'', ci_requestHash = Some ''h1'', ci_failAfterOutbox = False\<rparr>"

definition test_uuid :: "nat \<Rightarrow> string" where
  "test_uuid n = ''00000000-0000-4000-8000-00000000000'' @ show_nat (n mod 10)"

definition test_iso :: "nat \<Rightarrow> string" where
  "test_iso n = show_nat n"

lemma shop_ok: "db_ok shop"
  by (simp add: schema_defs shop_def int4_max_def email_ok_def name_ok_def)

lemma shop_totals: "totals_ok shop"
  by (simp add: totals_ok_def shop_def)

lemma shop_env: "env_keeps P shop_world"
  by (simp add: env_keeps_def shop_world_def)

lemma on_sale_code [code]:
  "on_sale d it \<longleftrightarrow>
     list_ex (\<lambda>p. pg_bigint (ci_productId it) = Inr (p_id p) \<and> p_is_active p) (products d)
     \<and> (case ci_quantity it of Whole n \<Rightarrow> in_int4 n | NotInteger t \<Rightarrow> False)"
  by (auto simp: on_sale_def list_ex_iff split: js_number.splits)

lemma shop_admissible: "admissible basket shop"
  by code_simp

lemma shop_checkout:
  "fst (checkout test_uuid test_iso basket shop_world)
     = Inr \<lparr>cr_orderId = ''1'', cr_jobId = ''1'', cr_totalCents = 160, cr_unitPrices = [Some 30, Some 100],
          cr_replay = False\<rparr>"
  by code_simp

text \<open>The shop after that checkout.\<close>

definition paid_shop :: db where
  "paid_shop = shop\<lparr>
     users := [\<lparr>u_id = 1, u_email = ''seller@example.com'', u_full_name = ''Seller'', u_role = Seller,
                 u_is_active = True, u_balance_cents = 0\<rparr>,
               \<lparr>u_id = 2, u_email = ''buyer@example.com'', u_full_name = ''Buyer'', u_role = Buyer,
                 u_is_active = True, u_balance_cents = 9840\<rparr>],
     products := [\<lparr>p_id = 1, p_name = ''Lamp'', p_description = [], p_price_cents = 100, p_stock = 4,
                    p_is_active = True, p_seller_id = 1, p_category_id = None\<rparr>,
                  \<lparr>p_id = 2, p_name = ''Mug'', p_description = [], p_price_cents = 30, p_stock = 0,
                    p_is_active = True, p_seller_id = 1, p_category_id = None\<rparr>],
     orders := [\<lparr>o_id = 1, o_user_id = 2, o_status = ''paid'', o_total_cents = 160, o_created_at = 0\<rparr>],
     order_items := [\<lparr>i_id = 1, i_order_id = 1, i_product_id = 1, i_quantity = 1, i_unit_price_cents = 100\<rparr>,
       \<lparr>i_id = 2, i_order_id = 1, i_product_id = 2, i_quantity = 2, i_unit_price_cents = 30\<rparr>],
     jobs := [\<lparr>j_id = 1, j_kind = ''order.postprocess'', j_payload = JsObj [(''orderId'', JsString ''1'')],
       j_status = ''pending'', j_processed_count = 0, j_worker_id = None\<rparr>],
     outbox := [\<lparr>x_id = 1, x_aggregate_type = ''order'', x_aggregate_id = ''1'', x_type = ''order.placed'',
       x_payload = event_json \<lparr>ev_eventId = test_uuid 0, ev_occurredAt = test_iso 0, ev_orderId = ''order-1'',
         ev_userId = ''2'', ev_totalCents = 160, ev_poison = False\<rparr>,
       x_created_at = 0, x_published_at = None, x_attempts = 0\<rparr>],
     idempotency_keys := [\<lparr>k_user_id = 2, k_key = ''k1'', k_order_id = 1, k_request_hash = ''h1''\<rparr>],
     orders_seq := 2, order_items_seq := 3, jobs_seq := 2, outbox_seq := 2\<rparr>"

section \<open>Properties\<close>

text \<open>
  (C1) A checkout that places an order does exactly what the specification \<open>committed\<close> says, in
  one step, whatever the other processes do between its database calls: in the state its
  transaction found, every line was on sale and in stock, no product occurred twice, the
  buyer could pay and the intent key was new; stock, balance, order, lines, job, outbox row
  and intent key change together, and the result names the new rows with the prices in the
  order of the request. A checkout that answers with a replay changes no table.
\<close>

theorem checkout_refines:
  assumes "db_ok (w_db w)" and "env_keeps db_ok w" and "checkout uuid toISO inp w = (Inr r, w')"
  shows "if cr_replay r then unaffected w w'
    else \<exists>w1. unaffected w w1 \<and> admissible inp (w_db w1) \<and> r = committed_result inp (w_db w1)
      \<and> w' = committed uuid toISO inp w1"
  using checkout_success [OF assms] checkout_no_order [OF assms(3) _ assms(1,2)] by auto

theorem checkout_refines_witness:
  "\<exists>r w'. checkout test_uuid test_iso basket shop_world = (Inr r, w') \<and> \<not> cr_replay r
     \<and> (\<exists>w1. unaffected shop_world w1 \<and> w' = committed test_uuid test_iso basket w1)"
proof -
  obtain r w' where rw: "checkout test_uuid test_iso basket shop_world = (Inr r, w')" "\<not> cr_replay r"
    using shop_checkout by (cases "checkout test_uuid test_iso basket shop_world") auto
  then have "\<exists>w1. unaffected shop_world w1 \<and> w' = committed test_uuid test_iso basket w1"
    using checkout_refines [OF _ shop_env rw(1)] shop_ok by (auto simp: shop_world_def)
  then show ?thesis using rw by blast
qed

text \<open>
  (C2) A checkout that throws leaves no trace in the tables, at whichever statement it failed
  and however often it was retried: from start to end only sequence values and identifiers
  were drawn and other processes took steps. Alone on the database, the tables are equal.
\<close>

theorem checkout_atomic:
  assumes "checkout uuid toISO inp w = (Inl e, w')"
  shows "unaffected w w' \<and> (w_sched w = [] \<longrightarrow> tables (w_db w') = tables (w_db w))"
proof -
  have "unaffected w w'" by (cases rule: checkout_outcomes [OF assms]) auto
  then show ?thesis using unaffected_alone by blast
qed

theorem checkout_atomic_witness:
  "\<exists>w'. checkout test_uuid test_iso (basket\<lparr>ci_failAfterOutbox := True\<rparr>) shop_world
       = (Inl OutboxWriteAbortedError, w') \<and> tables (w_db w') = tables (w_db shop_world)
     \<and> orders_seq (w_db w') = 2"
proof -
  let ?c = "checkout test_uuid test_iso (basket\<lparr>ci_failAfterOutbox := True\<rparr>) shop_world"
  have c: "fst ?c = Inl OutboxWriteAbortedError" "orders_seq (w_db (snd ?c)) = 2"
    by code_simp+
  then obtain w' where w': "?c = (Inl OutboxWriteAbortedError, w')" "orders_seq (w_db w') = 2"
    by (metis prod.collapse)
  moreover have "w_sched shop_world = []" by (simp add: shop_world_def)
  ultimately show ?thesis using checkout_atomic [OF w'(1)] by blast
qed

text \<open>
  (C3) Every outcome of a checkout, interleaved with anything that keeps them, keeps the schema
  constraints (no negative stock or balance among them), the totals of the orders equal to
  their lines, and for every product the sum of its stock and the units sold, and for every
  user the sum of the balance and the amounts paid.
\<close>

theorem checkout_invariant:
  assumes "db_ok (w_db w)" and "totals_ok (w_db w)" and "conserved G M (w_db w)"
    and "env_keeps db_ok w" and "env_keeps (\<lambda>d. db_ok d \<and> totals_ok d \<and> conserved G M d) w"
    and "checkout uuid toISO inp w = (r, w')"
  shows "db_ok (w_db w') \<and> totals_ok (w_db w') \<and> conserved G M (w_db w')"
proof (cases "\<exists>res. r = Inr res \<and> \<not> cr_replay res")
  case True
  then obtain w1 where u: "unaffected w w1" and w1: "admissible inp (w_db w1)" "w' = committed uuid toISO inp w1"
    "\<forall>it \<in> set (ci_items inp). validQuantity (ci_quantity it)"
    using checkout_success [OF assms(1,4)] assms(6) by metis
  have "db_ok (w_db w1) \<and> totals_ok (w_db w1) \<and> conserved G M (w_db w1)"
    using unaffected_keeps [OF u table_pred_conserved assms(5)] assms(1-3) by blast
  then show ?thesis
    using w1 by (simp add: committed_def committed_db_ok committed_totals_ok committed_conserved)
next
  case False
  then have "unaffected w w'" using checkout_no_order [OF assms(6) _ assms(1,4)] by blast
  then show ?thesis using unaffected_keeps [OF _ table_pred_conserved assms(5)] assms(1-3) by blast
qed

theorem checkout_invariant_witness:
  "conserved (stock_of shop) (balance_of shop) (w_db (snd (checkout test_uuid test_iso basket shop_world)))
   \<and> stock_of shop 2 = 2 \<and> balance_of shop 2 = 10000"
proof -
  have "conserved (stock_of shop) (balance_of shop) shop"
    by (simp add: conserved_def sold_of_def spent_of_def shop_def)
  then have "conserved (stock_of shop) (balance_of shop) (w_db (snd (checkout test_uuid test_iso basket shop_world)))"
    using checkout_invariant [OF _ _ _ shop_env shop_env prod.collapse [symmetric]] shop_ok shop_totals
    by (simp add: shop_world_def)
  then show ?thesis by (simp add: stock_of_def balance_of_def shop_def)
qed

text \<open>
  Nothing that can be honoured is refused: alone on the database, a checkout with valid
  quantities of products on sale and in stock, no product twice, a buyer who can pay and a
  new intent key places its order at the first attempt.
\<close>

theorem checkout_available:
  assumes "w_sched w = []" and "db_ok (w_db w)" and "ci_items inp \<noteq> []"
    and "\<forall>it \<in> set (ci_items inp). validQuantity (ci_quantity it)" and "admissible inp (w_db w)"
  shows "checkout uuid toISO inp w = (Inr (committed_result inp (w_db w)), committed uuid toISO inp w)"
  by (rule checkout_committed [OF assms])

theorem checkout_available_witness:
  "checkout test_uuid test_iso basket shop_world
     = (Inr (committed_result basket shop), committed test_uuid test_iso basket shop_world)"
  using checkout_available [of shop_world basket test_uuid test_iso] shop_ok shop_admissible
  by (simp add: shop_world_def basket_def)

text \<open>
  (C4) Repeating a committed checkout under its intent key places no second order and changes
  nothing at all: with the same request hash (or none) it answers the order, the job and the
  total of the first call and marks the answer as a replay, the unit prices now in lock
  order instead of the order of the request; with another hash it throws the conflict error.
\<close>

theorem checkout_idempotent:
  assumes w: "w_sched w = []" "db_ok (w_db w)" and key: "intent_key inp \<noteq> None"
    and first: "checkout uuid toISO inp w = (Inr r, w')" "\<not> cr_replay r"
    and again: "ci_userId inp' = ci_userId inp" "intent_key inp' = intent_key inp" "ci_items inp' \<noteq> []"
      "\<forall>it \<in> set (ci_items inp'). validQuantity (ci_quantity it)"
  shows "checkout uuid toISO inp' w' =
    (if ci_requestHash inp' = None \<or> ci_requestHash inp' = Some (stored_hash inp)
     then Inr (r\<lparr>cr_replay := True,
       cr_unitPrices := map (\<lambda>x. Some (line_price (w_db w) x)) (itemsInLockOrder (ci_items inp))\<rparr>)
     else Inl IdempotencyKeyConflictError, w')"
proof -
  have "env_keeps db_ok w" using w(1) by (simp add: env_keeps_def)
  then obtain w1 where w1: "unaffected w w1" "admissible inp (w_db w1)" "db_ok (w_db w1)"
    "r = committed_result inp (w_db w1)" "w' = committed uuid toISO inp w1"
    using checkout_success [OF w(2) _ first] by metis
  have same: "products (w_db w1) = products (w_db w)" "w_sched w1 = []"
    using unaffected_alone [OF w1(1) w(1)] w(1) by (simp_all add: tables_eq_iff advanced_def)
  obtain k where k: "intent_key inp = Some k" using key by blast
  have "findCommitted (ci_userId inp) k w' = (Inr (Some (stored_hash inp, replayed_result inp (w_db w1))), w')"
    using findCommitted_committed [OF w1(3,2) k, of w'] w1(5) same(2) by (simp add: committed_def)
  then have look: "lookupIntent inp' w' = (Inr (Some (stored_hash inp, replayed_result inp (w_db w1))), w')"
    using k again(1,2) by (simp add: lookupIntent_def)
  have val: "validate_items (ci_items inp') w' = (Inr (), w')"
    using validate_items_run again(4) by (metis prod.exhaust_sel)
  have "price_at (w_db w1) = price_at (w_db w)" using same(1) by (simp add: price_at_def fun_eq_iff)
  then show ?thesis using again(3) look val
    by (simp add: checkout_def bindE_def replayCommitted_run replayed_result_def w1(4) committed_result_def)
qed

theorem checkout_idempotent_witness:
  "\<exists>r w'. checkout test_uuid test_iso basket shop_world = (Inr r, w')
     \<and> cr_unitPrices r = [Some 30, Some 100]
     \<and> checkout test_uuid test_iso basket w'
        = (Inr (r\<lparr>cr_replay := True, cr_unitPrices := [Some 100, Some 30]\<rparr>), w')"
proof -
  let ?r = "\<lparr>cr_orderId = ''1'', cr_jobId = ''1'', cr_totalCents = 160,
    cr_unitPrices = [Some 30, Some 100], cr_replay = False\<rparr>"
  obtain w' where c: "checkout test_uuid test_iso basket shop_world = (Inr ?r, w')"
    using shop_checkout by (metis prod.collapse)
  have h: "intent_key basket \<noteq> None" "ci_items basket \<noteq> []" "ci_requestHash basket = Some (stored_hash basket)"
    "\<forall>it \<in> set (ci_items basket). validQuantity (ci_quantity it)"
    by (simp_all add: basket_def intent_key_def stored_hash_def)
  have p: "map (\<lambda>x. Some (line_price (w_db shop_world) x)) (itemsInLockOrder (ci_items basket)) = [Some 100, Some 30]"
    by code_simp
  have "checkout test_uuid test_iso basket w' =
      (Inr (?r\<lparr>cr_replay := True, cr_unitPrices := [Some 100, Some 30]\<rparr>), w')"
    using checkout_idempotent [OF _ _ h(1) c _ refl refl h(2,4)] shop_ok h(3) p by (simp add: shop_world_def)
  then show ?thesis using c by fastforce
qed

text \<open>
  A request that names a product twice never places an order, although the sort keeps such
  lines apart by their position: the unique constraint on the lines of an order refuses the
  second one. The call throws or replays, and the tables are as before.
\<close>

theorem checkout_duplicate_lines:
  assumes "db_ok (w_db w)" and "env_keeps db_ok w" and "\<not> distinct (map item_pid (ci_items inp))"
    and "checkout uuid toISO inp w = (r, w')"
  shows "unaffected w w' \<and> (case r of Inl e \<Rightarrow> True | Inr res \<Rightarrow> cr_replay res)"
proof -
  have "cr_replay res" if "r = Inr res" for res
  proof (rule ccontr)
    assume new: "\<not> cr_replay res"
    have "checkout uuid toISO inp w = (Inr res, w')" using assms(4) \<open>r = Inr res\<close> by simp
    from checkout_success [OF assms(1,2) this new] show False using assms(3) unfolding admissible_def by blast
  qed
  then show ?thesis using checkout_no_order [OF assms(4) _ assms(1,2)] by (auto split: sum.split)
qed

definition double_lamp :: checkout_input where
  "double_lamp = basket\<lparr>ci_items := [\<lparr>ci_productId = ''1'', ci_quantity = Whole 1\<rparr>,
     \<lparr>ci_productId = ''1'', ci_quantity = Whole 2\<rparr>]\<rparr>"

theorem checkout_duplicate_lines_witness:
  "\<exists>w'. checkout test_uuid test_iso double_lamp shop_world
       = (Inl (PgError ''23505'' ''order_items_uniq''), w') \<and> unaffected shop_world w'"
proof -
  let ?c = "checkout test_uuid test_iso double_lamp shop_world"
  have "fst ?c = Inl (PgError ''23505'' ''order_items_uniq'')" by code_simp
  then have c: "?c = (Inl (PgError ''23505'' ''order_items_uniq''), snd ?c)" by (metis prod.collapse)
  have "\<not> distinct (map item_pid (ci_items double_lamp))" by (simp add: double_lamp_def item_pid_def)
  then show ?thesis using checkout_duplicate_lines [OF _ shop_env _ c] shop_ok c
    by (auto simp: shop_world_def)
qed

end
