(* ===== verification/LockOrder.thy ===== *)
theory LockOrder
  imports CheckoutCorrect
begin

text \<open>
  Row locks of concurrent checkouts. Postgres grants a row to one transaction at a time and
  keeps it until the transaction ends; \<open>itemsInLockOrder\<close> of
  \<open>src/checkout/checkout.service.ts\<close> exists so that two checkouts never wait for each other.
\<close>

section \<open>Rows a checkout locks\<close>

datatype resource = ProductRow int | UserRow int | IntentRow int string

text \<open>
  The rows in the order the statements of the transaction lock them: the products of the
  loop, the buyer, and the entry of the unique index on intent keys.
\<close>

definition lock_sequence :: "checkout_input \<Rightarrow> resource list" where
  "lock_sequence inp =
     map (\<lambda>x. ProductRow (item_pid (fst x))) (itemsInLockOrder (ci_items inp))
     @ [UserRow (text_id (ci_userId inp))]
     @ (case intent_key inp of None \<Rightarrow> [] | Some k \<Rightarrow> [IntentRow (text_id (ci_userId inp)) k])"

definition canonical_ids :: "checkout_input \<Rightarrow> bool" where
  "canonical_ids inp \<longleftrightarrow> (\<forall>it \<in> set (ci_items inp). ci_productId it = show_int (item_pid it))"

fun rank :: "resource \<Rightarrow> nat \<times> string \<times> string" where
  "rank (ProductRow i) = (0, show_int i, [])"
| "rank (UserRow i) = (1, show_int i, [])"
| "rank (IntentRow i k) = (2, show_int i, k)"

lemma rank_inj: "rank r = rank s \<longleftrightarrow> r = s"
  by (cases r; cases s) (auto simp: show_int_inj)

lemma sorted_lock_sequence:
  assumes "canonical_ids inp"
  shows "sorted (map rank (lock_sequence inp))"
proof -
  let ?its = "itemsInLockOrder (ci_items inp)"
  have keys: "sorted (map lock_key ?its)"
    unfolding itemsInLockOrder_def by (rule sorted_js_sort [OF lock_cmp_key])
  have "sorted (map (\<lambda>x. (0::nat, show_int (item_pid (fst x)), [] :: string)) ?its)"
    unfolding sorted_map
  proof (rule sorted_wrt_mono_rel [OF _ keys [unfolded sorted_map]])
    fix x y assume "x \<in> set ?its" "y \<in> set ?its" "lock_key x \<le> lock_key y"
    then show "(0::nat, show_int (item_pid (fst x)), [] :: string) \<le> (0, show_int (item_pid (fst y)), [])"
      using assms by (fastforce simp: set_itemsInLockOrder lock_key_def canonical_ids_def)
  qed
  then show ?thesis
    by (auto simp: lock_sequence_def sorted_append comp_def split: option.split)
qed

section \<open>Interleaved transactions\<close>

text \<open>
  Each open transaction holds some rows and still has to lock others. A row is granted when
  no other transaction holds it; commit and rollback release everything.
\<close>

record lock_tx =
  tx_held :: "resource list"
  tx_todo :: "resource list"

definition holds :: "lock_tx list \<Rightarrow> nat \<Rightarrow> resource \<Rightarrow> bool" where
  "holds ts i r \<longleftrightarrow> i < length ts \<and> r \<in> set (tx_held (ts ! i))"

inductive lock_step :: "lock_tx list \<Rightarrow> lock_tx list \<Rightarrow> bool" where
  begin_tx: "canonical_ids inp \<Longrightarrow>
     lock_step ts (ts @ [\<lparr>tx_held = [], tx_todo = lock_sequence inp\<rparr>])"
| acquire: "i < length ts \<Longrightarrow> tx_todo (ts ! i) = r # rs \<Longrightarrow> \<forall>j. holds ts j r \<longrightarrow> j = i \<Longrightarrow>
     lock_step ts (ts[i := \<lparr>tx_held = r # tx_held (ts ! i), tx_todo = rs\<rparr>])"
| finish_tx: "i < length ts \<Longrightarrow> tx_todo (ts ! i) = [] \<Longrightarrow>
     lock_step ts (ts[i := \<lparr>tx_held = [], tx_todo = []\<rparr>])"
| rollback_tx: "i < length ts \<Longrightarrow>
     lock_step ts (ts[i := \<lparr>tx_held = [], tx_todo = []\<rparr>])"

definition waits_for :: "lock_tx list \<Rightarrow> (nat \<times> nat) set" where
  "waits_for ts = {(i, j). i < length ts \<and> tx_todo (ts ! i) \<noteq> [] \<and> i \<noteq> j
     \<and> holds ts j (hd (tx_todo (ts ! i)))}"

definition ordered_tx :: "lock_tx \<Rightarrow> bool" where
  "ordered_tx t \<longleftrightarrow> sorted (map rank (rev (tx_held t) @ tx_todo t))"

definition locks_ok :: "lock_tx list \<Rightarrow> bool" where
  "locks_ok ts \<longleftrightarrow> (\<forall>t \<in> set ts. ordered_tx t)
     \<and> (\<forall>i j r. holds ts i r \<longrightarrow> holds ts j r \<longrightarrow> i = j)"

lemma holds_update:
  "holds (ts[i := t]) j r \<longleftrightarrow> j < length ts \<and> r \<in> set (tx_held (if j = i then t else ts ! j))"
  by (auto simp: holds_def)

lemma holds_append:
  "holds (ts @ [t]) j r \<longleftrightarrow> holds ts j r \<or> (j = length ts \<and> r \<in> set (tx_held t))"
  by (auto simp: holds_def nth_append less_Suc_eq)

lemma ordered_update:
  "\<forall>t \<in> set ts. ordered_tx t \<Longrightarrow> ordered_tx t' \<Longrightarrow> \<forall>t \<in> set (ts[i := t']). ordered_tx t"
  using set_update_subset_insert [of ts i t'] by blast

lemma release_ok:
  assumes "locks_ok ts" shows "locks_ok (ts[i := \<lparr>tx_held = [], tx_todo = []\<rparr>])"
proof -
  have "holds ts j r" if "holds (ts[i := \<lparr>tx_held = [], tx_todo = []\<rparr>]) j r" for j r
    using that by (auto simp: holds_update) (auto simp: holds_def split: if_splits)
  moreover have "ordered_tx \<lparr>tx_held = [], tx_todo = []\<rparr>" by (simp add: ordered_tx_def)
  ultimately show ?thesis using assms ordered_update unfolding locks_ok_def by blast
qed

lemma locks_ok_step: "lock_step ts ts' \<Longrightarrow> locks_ok ts \<Longrightarrow> locks_ok ts'"
proof (induction rule: lock_step.induct)
  case (begin_tx inp ts)
  then show ?case using sorted_lock_sequence by (auto simp: locks_ok_def holds_append ordered_tx_def)
next
  case (acquire i ts r rs)
  then have "ordered_tx (ts ! i)" by (auto simp: locks_ok_def)
  then have "ordered_tx \<lparr>tx_held = r # tx_held (ts ! i), tx_todo = rs\<rparr>"
    using acquire.hyps(2) by (simp add: ordered_tx_def)
  then have "\<forall>t \<in> set (ts[i := \<lparr>tx_held = r # tx_held (ts ! i), tx_todo = rs\<rparr>]). ordered_tx t"
    using ordered_update acquire.prems by (auto simp: locks_ok_def)
  moreover have "j = k" if "holds (ts[i := \<lparr>tx_held = r # tx_held (ts ! i), tx_todo = rs\<rparr>]) j q"
    "holds (ts[i := \<lparr>tx_held = r # tx_held (ts ! i), tx_todo = rs\<rparr>]) k q" for j k q
    using that [unfolded holds_update] acquire.hyps(3) acquire.prems
    by (auto simp: locks_ok_def holds_def split: if_splits)
  ultimately show ?case by (auto simp: locks_ok_def)
qed (auto intro: release_ok)

lemma locks_ok_reachable: "lock_step\<^sup>*\<^sup>* [] ts \<Longrightarrow> locks_ok ts"
proof (induction rule: rtranclp_induct)
  case base
  then show ?case by (simp add: locks_ok_def holds_def)
qed (rule locks_ok_step)

definition next_rank :: "lock_tx list \<Rightarrow> nat \<Rightarrow> nat \<times> string \<times> string" where
  "next_rank ts i = rank (hd (tx_todo (ts ! i)))"

lemma waits_rank:
  assumes "locks_ok ts" and "(i, j) \<in> waits_for ts" and "(j, k) \<in> waits_for ts"
  shows "next_rank ts i < next_rank ts j"
proof -
  let ?r = "hd (tx_todo (ts ! i))" and ?s = "hd (tx_todo (ts ! j))"
  have j: "j < length ts" "?r \<in> set (tx_held (ts ! j))" "tx_todo (ts ! j) \<noteq> []" "holds ts j ?r" "holds ts k ?s" "j \<noteq> k"
    using assms(2,3) by (auto simp: waits_for_def holds_def)
  have "ordered_tx (ts ! j)" using assms(1) j(1) by (auto simp: locks_ok_def)
  then have "rank ?r \<le> rank ?s" using j(2,3) by (auto simp: ordered_tx_def sorted_append)
  moreover have "?r \<noteq> ?s" using assms(1) j(4-6) by (auto simp: locks_ok_def)
  ultimately show ?thesis by (simp add: next_rank_def rank_inj less_le)
qed

lemma acyclic_waits: "locks_ok ts \<Longrightarrow> acyclic (waits_for ts)"
proof (rule acyclicI, intro allI notI)
  fix i assume ok: "locks_ok ts" and "(i, i) \<in> (waits_for ts)\<^sup>+"
  have "(k, m) \<in> waits_for ts \<Longrightarrow> next_rank ts j < next_rank ts k" if "(j, k) \<in> (waits_for ts)\<^sup>+" for j k m
    using that
  proof (induction arbitrary: m rule: trancl_induct)
    case (base y)
    then show ?case using waits_rank [OF ok] by blast
  next
    case (step y z)
    then show ?case using waits_rank [OF ok] by (meson less_trans)
  qed
  moreover obtain m where "(i, m) \<in> waits_for ts"
    using \<open>(i, i) \<in> (waits_for ts)\<^sup>+\<close> by (meson tranclD)
  ultimately show False using \<open>(i, i) \<in> (waits_for ts)\<^sup>+\<close> by blast
qed

lemma some_tx_free:
  assumes ok: "locks_ok ts" and i: "i < length ts"
  shows "\<exists>j<length ts. (j = i \<or> (i, j) \<in> (waits_for ts)\<^sup>+) \<and> (\<forall>k. (j, k) \<notin> waits_for ts)"
proof -
  have sub: "waits_for ts \<subseteq> {..<length ts} \<times> {..<length ts}" by (auto simp: waits_for_def holds_def)
  then have fin: "finite (waits_for ts)" by (rule finite_subset) simp
  have "wf ((waits_for ts)\<inverse>)" using finite_acyclic_wf_converse [OF fin acyclic_waits [OF ok]] .
  then show ?thesis using i
  proof (induction i rule: wf_induct_rule)
    case (less i)
    show ?case
    proof (cases "\<exists>k. (i, k) \<in> waits_for ts")
      case True
      then obtain k where k: "(i, k) \<in> waits_for ts" by blast
      then have "k < length ts" using sub by auto
      then obtain j where "j < length ts" "j = k \<or> (k, j) \<in> (waits_for ts)\<^sup>+" "\<forall>m. (j, m) \<notin> waits_for ts"
        using less.IH [of k] k by auto
      then show ?thesis using k by (meson trancl.r_into_trancl trancl_into_trancl2)
    qed (use less.prems in blast)
  qed
qed

section \<open>Properties\<close>


text \<open>Two baskets with the same products in opposite orders; the second has to wait.\<close>

definition opposite :: checkout_input where
  "opposite = basket\<lparr>ci_items := rev (ci_items basket)\<rparr>"

definition contended :: "lock_tx list" where
  "contended = [\<lparr>tx_held = [ProductRow 1], tx_todo = tl (lock_sequence basket)\<rparr>,
     \<lparr>tx_held = [], tx_todo = lock_sequence opposite\<rparr>]"

lemma contended_reachable: "lock_step\<^sup>*\<^sup>* [] contended"
proof -
  let ?t = "\<lambda>inp. \<lparr>tx_held = [], tx_todo = lock_sequence inp\<rparr>"
  have ids: "canonical_ids basket" "canonical_ids opposite" by code_simp+
  have seq: "lock_sequence basket = ProductRow 1 # tl (lock_sequence basket)" by code_simp
  have "lock_step [] [?t basket]" using lock_step.begin_tx [OF ids(1), of "[]"] by simp
  moreover have "lock_step [?t basket] [?t basket, ?t opposite]"
    using lock_step.begin_tx [OF ids(2), of "[?t basket]"] by simp
  moreover have "\<forall>j. holds [?t basket, ?t opposite] j (ProductRow 1) \<longrightarrow> j = 0"
    by (auto simp: holds_def less_Suc_eq)
  then have "lock_step [?t basket, ?t opposite] contended"
    using lock_step.acquire [of 0 "[?t basket, ?t opposite]" "ProductRow 1" "tl (lock_sequence basket)"] seq
    by (simp add: contended_def)
  ultimately show ?thesis by (meson converse_rtranclp_into_rtranclp rtranclp.rtrancl_refl)
qed


end
