(* ===== verification/CheckoutRace.thy ===== *)
theory CheckoutRace
  imports CheckoutCorrect
begin

text \<open>
  The program \<open>src/demo/demo-race.ts\<close>: fifty buyers race for ten pieces of one product, by
  \<open>Promise.all\<close> over \<open>checkoutOne\<close>. Each attempt is one transaction, so the database serialises the
  attempts in some order; that order is an argument, and the theorem holds for every one of them.
\<close>

section \<open>The program\<close>

definition ATTEMPTS :: nat where "ATTEMPTS = 50"
definition START_STOCK :: int where "START_STOCK = 10"
definition RACE_PRODUCT_NAME :: string where "RACE_PRODUCT_NAME = ''Linen Shirt''"

definition sql_product_named :: "string \<Rightarrow> db \<Rightarrow> (thrown + product_row option) \<times> db" where
  "sql_product_named n d = (Inr (find (\<lambda>p. p_name p = n) (products d)), d)"

definition sql_set_stock :: "int \<Rightarrow> int \<Rightarrow> db \<Rightarrow> (thrown + unit) \<times> db" where
  "sql_set_stock i n d =
     (Inr (), d\<lparr>products := map (\<lambda>p. if p_id p = i then p\<lparr>p_stock := n\<rparr> else p) (products d)\<rparr>)"

definition sql_buyers :: "db \<Rightarrow> (thrown + user_row list) \<times> db" where
  "sql_buyers d = (Inr (sort_key u_id (filter (\<lambda>u. u_role u = Buyer) (users d))), d)"

definition sql_stock :: "int \<Rightarrow> db \<Rightarrow> (thrown + int list) \<times> db" where
  "sql_stock i d = (Inr (map p_stock (filter (\<lambda>p. p_id p = i) (products d))), d)"

definition sql_negative_stock :: "db \<Rightarrow> (thrown + nat) \<times> db" where
  "sql_negative_stock d = (Inr (length (filter (\<lambda>p. p_stock p < 0) (products d))), d)"

text \<open>One attempt: \<open>True\<close> for an order, \<open>False\<close> for a refusal; every other error is passed on.\<close>

definition race_attempt ::
  "(nat \<Rightarrow> string) \<Rightarrow> (nat \<Rightarrow> string) \<Rightarrow> user_row list \<Rightarrow> string \<Rightarrow> nat \<Rightarrow> (world, thrown, bool) exec" where
  "race_attempt uuid toISO buyers productId index =
     (let buyer = buyers ! (index mod length buyers)
      in catchE (bindE (checkoutOne uuid toISO (show_int (u_id buyer)) productId (Whole 1)) (\<lambda>_. returnE True))
           (\<lambda>err. if err = OutOfStockError \<or> err = InsufficientFundsError then returnE False else throwE err))"

text \<open>\<open>Promise.all\<close>: all attempts run; the first that is rejected is the outcome.\<close>

fun all_attempts :: "(nat \<Rightarrow> (world, thrown, bool) exec) \<Rightarrow> nat list \<Rightarrow> (world, thrown, bool list) exec" where
  "all_attempts f [] w = (Inr [], w)"
| "all_attempts f (i # is) w =
     (case f i w of
        (Inl e, w1) \<Rightarrow> (Inl e, snd (all_attempts f is w1))
      | (Inr b, w1) \<Rightarrow>
          (case all_attempts f is w1 of (Inl e, w2) \<Rightarrow> (Inl e, w2) | (Inr bs, w2) \<Rightarrow> (Inr (b # bs), w2)))"

record race_report =
  rr_successes :: nat
  rr_finalStock :: int
  rr_negativeCount :: nat
  rr_exitCode :: nat

definition short_buyer :: "user_row \<Rightarrow> int \<Rightarrow> thrown" where
  "short_buyer b minBalance = PlainError (''Buyer '' @ u_email b @ '' balance_cents='' @ show_int (u_balance_cents b)
     @ '' < '' @ show_int minBalance @ ''; run npm run seed first'')"

definition demo_race ::
  "(nat \<Rightarrow> string) \<Rightarrow> (nat \<Rightarrow> string) \<Rightarrow> thrown \<Rightarrow> nat list \<Rightarrow> (world, thrown, race_report) exec" where
  "demo_race uuid toISO notFound order =
     bindE (query (sql_product_named RACE_PRODUCT_NAME)) (\<lambda>found.
     case found of
       None \<Rightarrow> throwE notFound
     | Some product \<Rightarrow>
     bindE (query (sql_set_stock (p_id product) START_STOCK)) (\<lambda>_.
     bindE (query sql_buyers) (\<lambda>buyers.
     if buyers = [] then throwE (PlainError ''No buyers in the database; run npm run seed first'') else
     let minBalance = START_STOCK * p_price_cents product in
     case find (\<lambda>b. u_balance_cents b < minBalance) buyers of
       Some b \<Rightarrow> throwE (short_buyer b minBalance)
     | None \<Rightarrow>
     bindE (all_attempts (race_attempt uuid toISO buyers (show_int (p_id product))) order) (\<lambda>attempts.
     bindE (query (sql_stock (p_id product))) (\<lambda>stockRows.
     case stockRows of
       [] \<Rightarrow> throwE (PlainError ''Cannot read properties of undefined'')
     | finalStock # _ \<Rightarrow>
     bindE (query sql_negative_stock) (\<lambda>negativeCount.
     let successes = length (filter (\<lambda>ok. ok) attempts)
     in returnE \<lparr>rr_successes = successes, rr_finalStock = finalStock, rr_negativeCount = negativeCount,
          rr_exitCode = (if ATTEMPTS < 50 \<or> int successes \<noteq> START_STOCK \<or> finalStock \<noteq> 0 \<or> negativeCount \<noteq> 0
            then 1 else 0)\<rparr>))))))"

section \<open>One attempt\<close>

definition fits_int8 :: "int \<Rightarrow> bool" where
  "fits_int8 n \<longleftrightarrow> - int8_max - 1 \<le> n \<and> n \<le> int8_max"

text \<open>
  The state of the race: \<open>k\<close> pieces of the product are left, every racing buyer can pay for all of
  them, and the sequence of order ids lasts for \<open>m\<close> more orders.
\<close>

definition racing :: "int \<Rightarrow> int \<Rightarrow> int set \<Rightarrow> int \<Rightarrow> nat \<Rightarrow> db \<Rightarrow> bool" where
  "racing pid c ids k m d \<longleftrightarrow> db_ok d
     \<and> (\<exists>p \<in> set (products d). p_id p = pid \<and> p_is_active p \<and> p_stock p = k \<and> p_price_cents p = c)
     \<and> (\<forall>i \<in> ids. fits_int8 i \<and> (\<exists>u \<in> set (users d). u_id u = i \<and> k * c \<le> u_balance_cents u))
     \<and> fits_int8 pid \<and> - int8_max - 1 \<le> orders_seq d \<and> orders_seq d + int m \<le> int8_max + 1"

abbreviation one_of :: "int \<Rightarrow> int \<Rightarrow> checkout_input" where
  "one_of i pid \<equiv> \<lparr>ci_userId = show_int i, ci_items = [\<lparr>ci_productId = show_int pid, ci_quantity = Whole 1\<rparr>],
     ci_idempotencyKey = None, ci_requestHash = None, ci_failAfterOutbox = False\<rparr>"

lemma fits_pg_bigint [simp]: "fits_int8 n \<Longrightarrow> pg_bigint (show_int n) = Inr n"
  by (simp add: pg_bigint_show_int fits_int8_def)

lemma fits_text_id [simp]: "fits_int8 n \<Longrightarrow> text_id (show_int n) = n"
  by (simp add: text_id_def)

lemma lock_single [simp]: "itemsInLockOrder [it] = [(it, 0)]"
  by (simp add: itemsInLockOrder_def)

lemma demand_single [simp]:
  "fits_int8 pid \<Longrightarrow> demand [(\<lparr>ci_productId = show_int pid, ci_quantity = Whole 1\<rparr>, n)] j = (if j = pid then 1 else 0)"
  by (simp add: demand_def item_pid_text)

lemma price_one:
  assumes "racing pid c ids k m d"
  shows "order_total d (locked (one_of i pid)) = c"
proof -
  obtain p where "p \<in> set (products d)" "p_id p = pid" "p_price_cents p = c" using assms by (auto simp: racing_def)
  then have "price_at d pid = c" using price_at_product [of d p] assms by (auto simp: racing_def schema_defs)
  then show ?thesis using assms by (simp add: order_total_def item_pid_text racing_def)
qed

lemma racing_admissible:
  assumes r: "racing pid c ids k (Suc m) d" and i: "i \<in> ids" and k: "1 \<le> k"
  shows "admissible (one_of i pid) d"
proof -
  have ok: "db_ok d" and fits: "fits_int8 pid" "fits_int8 i" using r i by (auto simp: racing_def)
  obtain p where p: "p \<in> set (products d)" "p_id p = pid" "p_is_active p" "p_stock p = k" "p_price_cents p = c"
    using r by (auto simp: racing_def)
  have c: "0 < c" "c \<le> int4_max" using ok p by (auto simp: schema_defs)
  obtain u where u: "u \<in> set (users d)" "u_id u = i" "k * c \<le> u_balance_cents u" using r i by (auto simp: racing_def)
  have "1 * c \<le> k * c" by (rule mult_right_mono) (use k c in auto)
  then have "c \<le> u_balance_cents u" using u(3) by linarith
  then have "can_pay d (show_int i) i c" using u c fits by (auto simp: can_pay_def in_int4_def int4_max_def)
  moreover have "demand (locked (one_of i pid)) (p_id q) \<le> p_stock q" if "q \<in> set (products d)" for q
  proof -
    have "p_id q = pid \<Longrightarrow> q = p" using ok p that by (auto simp: schema_defs distinct_map inj_on_def)
    then show ?thesis using p(4) k ok that fits by (auto simp: schema_defs)
  qed
  ultimately show ?thesis
    using price_one [OF r, of i] r p fits
    by (auto simp: admissible_def on_sale_def in_int4_def int4_max_def key_free_def intent_key_def racing_def)
qed

lemma attempt_sold:
  assumes r: "racing pid c ids k (Suc m) (w_db w)" and i: "i \<in> ids" and k: "1 \<le> k" and w: "w_sched w = []"
  shows "\<exists>res w'. checkoutOne uuid toISO (show_int i) (show_int pid) (Whole 1) w = (Inr res, w')
    \<and> racing pid c ids (k - 1) m (w_db w') \<and> w_sched w' = []"
proof -
  let ?inp = "one_of i pid" and ?w' = "committed uuid toISO (one_of i pid) w"
  have adm: "admissible ?inp (w_db w)" by (rule racing_admissible [OF r i k])
  have ok: "db_ok (w_db w)" and fits: "fits_int8 pid" "fits_int8 i" using r i by (auto simp: racing_def)
  have run: "checkoutOne uuid toISO (show_int i) (show_int pid) (Whole 1) w
      = (Inr (committed_result ?inp (w_db w)), ?w')"
    using checkout_committed [OF w ok _ _ adm] by (simp add: checkoutOne_def)
  obtain p where p: "p \<in> set (products (w_db w))" "p_id p = pid" "p_is_active p" "p_stock p = k" "p_price_cents p = c"
    using r by (auto simp: racing_def)
  have c: "0 \<le> c" using ok p by (auto simp: schema_defs)
  have goods: "\<exists>q \<in> set (products (w_db ?w')). p_id q = pid \<and> p_is_active q \<and> p_stock q = k - 1 \<and> p_price_cents q = c"
    using p fits by (auto simp: committed_def debit_def intro!: bexI [of _ p])
  have total_c: "order_total (w_db w) (locked ?inp) = c" by (rule price_one [OF r])
  have money: "\<exists>v \<in> set (users (w_db ?w')). u_id v = j \<and> (k - 1) * c \<le> u_balance_cents v" if j: "j \<in> ids" for j
  proof -
    obtain u where u: "u \<in> set (users (w_db w))" "u_id u = j" "k * c \<le> u_balance_cents u"
      using r j by (auto simp: racing_def)
    let ?v = "if j = i then u\<lparr>u_balance_cents := u_balance_cents u - c\<rparr> else u"
    have "?v \<in> set (users (w_db ?w'))" using u(1,2) total_c fits by (auto simp: committed_def charge_def)
    moreover have "u_id ?v = j" "(k - 1) * c \<le> u_balance_cents ?v" using u c by (auto simp: algebra_simps)
    ultimately show ?thesis by blast
  qed
  have "racing pid c ids (k - 1) m (w_db ?w')"
    using goods money r committed_db_ok [OF ok _ adm] by (auto simp: racing_def committed_def)
  then show ?thesis using run w by (auto simp: committed_def)
qed

lemma attempt_refused:
  assumes r: "racing pid c ids 0 m (w_db w)" and w: "w_sched w = []"
  shows "checkoutOne uuid toISO (show_int i) (show_int pid) (Whole 1) w = (Inl OutOfStockError, w)"
proof -
  have none: "filter (\<lambda>q. p_id q = pid \<and> p_is_active q \<and> 1 \<le> p_stock q) (products (w_db w)) = []"
  proof -
    obtain p where p: "p \<in> set (products (w_db w))" "p_id p = pid" "p_stock p = 0" using r by (auto simp: racing_def)
    have "distinct (map p_id (products (w_db w)))" using r by (simp add: racing_def schema_defs)
    then have "p_stock q = 0" if "q \<in> set (products (w_db w))" "p_id q = pid" for q
      using p that by (metis eq_key_imp_eq_value map_of_eq_Some_iff distinct_map inj_onD)
    then show ?thesis by (force simp: filter_empty_conv)
  qed
  have "map (\<lambda>q. if p_id q = pid \<and> p_is_active q \<and> 1 \<le> p_stock q then q\<lparr>p_stock := p_stock q - 1\<rparr> else q)
      (products (w_db w)) = products (w_db w)"
    using none by (intro map_idI) (auto simp: filter_empty_conv)
  then have "checkout_body uuid toISO (one_of i pid) (locked (one_of i pid)) w = (Inl OutOfStockError, w)"
    using none r by (simp add: checkout_body_def bindE_def sqlE_def sql_take_stock_def racing_def
      pg_int4_def in_int4_def int4_max_def)
  then have "insertCheckout uuid toISO (one_of i pid) (locked (one_of i pid)) w = (Inl OutOfStockError, w)"
    by (simp add: insertCheckout_def transaction_empty [OF w] rollback_def)
  then have "withRetry (insertCheckout uuid toISO (one_of i pid) (locked (one_of i pid))) 5 w = (Inl OutOfStockError, w)"
    by (rule withRetry_permanent) (simp_all add: is_retryable_iff)
  then show ?thesis
    by (simp add: checkoutOne_def checkout_def bindE_def catchE_def lookupIntent_def intent_key_def)
qed

section \<open>All attempts\<close>

lemma racing_fewer: "racing pid c ids k (Suc m) d \<Longrightarrow> racing pid c ids k m d"
  by (simp add: racing_def)

lemma attempts_run:
  assumes "racing pid c (u_id ` set buyers) (int k) (length is) (w_db w)" and "w_sched w = []" and "buyers \<noteq> []"
  shows "\<exists>bs w'. all_attempts (race_attempt uuid toISO buyers (show_int pid)) is w = (Inr bs, w')
    \<and> length (filter (\<lambda>ok. ok) bs) = min k (length is)
    \<and> racing pid c (u_id ` set buyers) (int (k - length is)) 0 (w_db w') \<and> w_sched w' = []"
  using assms(1,2)
proof (induction "is" arbitrary: k w)
  case Nil
  then show ?case by simp
next
  case (Cons i "is")
  let ?b = "buyers ! (i mod length buyers)"
  have b: "u_id ?b \<in> u_id ` set buyers" using assms(3) by simp
  show ?case
  proof (cases k)
    case 0
    have "race_attempt uuid toISO buyers (show_int pid) i w = (Inr False, w)"
      using attempt_refused [of pid c "u_id ` set buyers" _ w uuid toISO "u_id ?b"] Cons.prems 0
      by (simp add: race_attempt_def catchE_def bindE_def)
    then show ?thesis using Cons.IH [of 0 w] racing_fewer Cons.prems 0 by auto
  next
    case (Suc k')
    obtain res w1 where w1: "checkoutOne uuid toISO (show_int (u_id ?b)) (show_int pid) (Whole 1) w = (Inr res, w1)"
      "racing pid c (u_id ` set buyers) (int k') (length is) (w_db w1)" "w_sched w1 = []"
      using attempt_sold [OF _ b, of pid c "int k" "length is" w uuid toISO] Cons.prems Suc by auto
    have "race_attempt uuid toISO buyers (show_int pid) i w = (Inr True, w1)"
      using w1(1) by (simp add: race_attempt_def catchE_def bindE_def)
    then show ?thesis using Cons.IH [OF w1(2,3)] Suc by auto
  qed
qed

lemma race_start:
  assumes ok: "db_ok d" and p: "p \<in> set (products d)" "p_is_active p" "fits_int8 (p_id p)"
    and b: "\<forall>u \<in> set (users d). u_role u = Buyer \<longrightarrow> fits_int8 (u_id u) \<and> n * p_price_cents p \<le> u_balance_cents u"
    and s: "- int8_max - 1 \<le> orders_seq d" "orders_seq d + int m \<le> int8_max + 1" and n: "0 \<le> n" "n \<le> int4_max"
  shows "racing (p_id p) (p_price_cents p) (u_id ` {u \<in> set (users d). u_role u = Buyer}) n m
    (snd (sql_set_stock (p_id p) n d))"
proof -
  let ?d = "snd (sql_set_stock (p_id p) n d)"
  have names: "map p_id (products ?d) = map p_id (products d)" "map p_name (products ?d) = map p_name (products d)"
    by (auto simp: sql_set_stock_def)
  have ids: "p_id ` set (products ?d) = p_id ` set (products d)" using names(1) by (metis list.set_map)
  have same: "users ?d = users d" "orders ?d = orders d" "order_items ?d = order_items d" "jobs ?d = jobs d"
    "outbox ?d = outbox d" "idempotency_keys ?d = idempotency_keys d" "orders_seq ?d = orders_seq d"
    "order_items_seq ?d = order_items_seq d" "jobs_seq ?d = jobs_seq d" "outbox_seq ?d = outbox_seq d"
    "order_placed_effects ?d = order_placed_effects d" "processed_messages ?d = processed_messages d"
    "order_placed_deliveries ?d = order_placed_deliveries d" "deliveries_seq ?d = deliveries_seq d"
    "categories ?d = categories d" "users_seq ?d = users_seq d" "categories_seq ?d = categories_seq d"
    "products_seq ?d = products_seq d"
    by (simp_all add: sql_set_stock_def)
  have "products_ok ?d"
    using ok n unfolding products_ok_def names same by (auto simp: schema_defs sql_set_stock_def)
  then have "db_ok ?d"
    using ok unfolding db_ok_def users_ok_def categories_ok_def orders_ok_def order_items_ok_def jobs_ok_def outbox_ok_def
      keys_ok_def inbox_ok_def same ids by blast
  moreover have "p\<lparr>p_stock := n\<rparr> \<in> set (products ?d)" using p(1) by (force simp: sql_set_stock_def)
  ultimately show ?thesis using p b s unfolding racing_def same by (auto intro!: bexI [of _ "p\<lparr>p_stock := n\<rparr>"])
qed


definition race_world :: world where
  "race_world = shop_world\<lparr>w_db := shop\<lparr>products := [\<lparr>p_id = 1, p_name = ''Linen Shirt'', p_description = [],
     p_price_cents = 100, p_stock = 0, p_is_active = True, p_seller_id = 1, p_category_id = None\<rparr>]\<rparr>\<rparr>"

lemma race_ok: "db_ok (w_db race_world)"
  by (simp add: race_world_def schema_defs shop_def int4_max_def email_ok_def name_ok_def)


end
