(* ===== verification/Seed.thy ===== *)
theory Seed
  imports Schema
begin

text \<open>
  \<open>src/seed.ts\<close>, the script that fills a migrated database with the demo catalog. A repository call is
  the statement it sends: \<open>upsert\<close> is \<open>INSERT \<dots> ON CONFLICT \<dots> DO UPDATE\<close> on the named unique key, which
  draws an id for every proposed row and overwrites the given columns of a row that is there; \<open>save\<close>
  writes the columns of the entity to its row. Times are in milliseconds since 1970.
\<close>

section \<open>The data\<close>

record user_seed =
  us_email :: string
  us_fullName :: string
  us_role :: user_role
  us_balanceCents :: int

record category_seed =
  gs_slug :: string
  gs_title :: string

record product_seed =
  ps_name :: string
  ps_description :: string
  ps_priceCents :: int
  ps_stock :: int
  ps_sellerEmail :: string
  ps_categorySlug :: string

record order_seed =
  bs_buyerEmail :: string
  bs_status :: string
  bs_createdAt :: int
  bs_items :: "(string \<times> int) list"

definition BUYER_BALANCE_CENTS :: int where
  "BUYER_BALANCE_CENTS = 100000000"

definition USERS :: "user_seed list" where
  "USERS =
    [\<lparr>us_email = ''seller1@shop.local'', us_fullName = ''Seller One'', us_role = Seller, us_balanceCents = 0\<rparr>,
     \<lparr>us_email = ''seller2@shop.local'', us_fullName = ''Seller Two'', us_role = Seller, us_balanceCents = 0\<rparr>,
     \<lparr>us_email = ''buyer1@shop.local'', us_fullName = ''Buyer One'', us_role = Buyer, us_balanceCents = BUYER_BALANCE_CENTS\<rparr>,
     \<lparr>us_email = ''buyer2@shop.local'', us_fullName = ''Buyer Two'', us_role = Buyer, us_balanceCents = BUYER_BALANCE_CENTS\<rparr>,
     \<lparr>us_email = ''buyer3@shop.local'', us_fullName = ''Buyer Three'', us_role = Buyer, us_balanceCents = BUYER_BALANCE_CENTS\<rparr>,
     \<lparr>us_email = ''buyer4@shop.local'', us_fullName = ''Buyer Four'', us_role = Buyer, us_balanceCents = BUYER_BALANCE_CENTS\<rparr>,
     \<lparr>us_email = ''buyer5@shop.local'', us_fullName = ''Buyer Five'', us_role = Buyer, us_balanceCents = BUYER_BALANCE_CENTS\<rparr>,
     \<lparr>us_email = ''admin@shop.local'', us_fullName = ''Shop Admin'', us_role = Admin, us_balanceCents = 0\<rparr>]"

definition CATEGORIES :: "category_seed list" where
  "CATEGORIES =
    [\<lparr>gs_slug = ''books'', gs_title = ''Books''\<rparr>, \<lparr>gs_slug = ''electronics'', gs_title = ''Electronics''\<rparr>,
     \<lparr>gs_slug = ''home'', gs_title = ''Home''\<rparr>, \<lparr>gs_slug = ''toys'', gs_title = ''Toys''\<rparr>,
     \<lparr>gs_slug = ''sports'', gs_title = ''Sports''\<rparr>, \<lparr>gs_slug = ''fashion'', gs_title = ''Fashion''\<rparr>]"

definition PRODUCTS :: "product_seed list" where
  "PRODUCTS =
    [\<lparr>ps_name = ''Vintage Lamp'', ps_description = ''Brass desk lamp'', ps_priceCents = 4599, ps_stock = 12,
      ps_sellerEmail = ''seller1@shop.local'', ps_categorySlug = ''home''\<rparr>,
     \<lparr>ps_name = ''Ceramic Mug'', ps_description = ''Matte ceramic mug'', ps_priceCents = 899, ps_stock = 40,
      ps_sellerEmail = ''seller1@shop.local'', ps_categorySlug = ''home''\<rparr>,
     \<lparr>ps_name = ''Wooden Chair'', ps_description = ''Oak dining chair'', ps_priceCents = 12900, ps_stock = 8,
      ps_sellerEmail = ''seller1@shop.local'', ps_categorySlug = ''home''\<rparr>,
     \<lparr>ps_name = ''USB-C Hub'', ps_description = ''7-in-1 hub'', ps_priceCents = 2599, ps_stock = 25,
      ps_sellerEmail = ''seller2@shop.local'', ps_categorySlug = ''electronics''\<rparr>,
     \<lparr>ps_name = ''Paperback Novel'', ps_description = ''Contemporary fiction'', ps_priceCents = 1499, ps_stock = 30,
      ps_sellerEmail = ''seller2@shop.local'', ps_categorySlug = ''books''\<rparr>,
     \<lparr>ps_name = ''Football'', ps_description = ''Size 5 match ball'', ps_priceCents = 3299, ps_stock = 15,
      ps_sellerEmail = ''seller2@shop.local'', ps_categorySlug = ''sports''\<rparr>,
     \<lparr>ps_name = ''Building Blocks'', ps_description = ''Wooden blocks set'', ps_priceCents = 2199, ps_stock = 18,
      ps_sellerEmail = ''seller1@shop.local'', ps_categorySlug = ''toys''\<rparr>,
     \<lparr>ps_name = ''Linen Shirt'', ps_description = ''Unisex linen shirt'', ps_priceCents = 5499, ps_stock = 10,
      ps_sellerEmail = ''seller2@shop.local'', ps_categorySlug = ''fashion''\<rparr>]"

definition ORDERS :: "order_seed list" where
  "ORDERS =
    [\<lparr>bs_buyerEmail = ''buyer1@shop.local'', bs_status = ''paid'', bs_createdAt = 1742032800000,
      bs_items = [(''Vintage Lamp'', 1), (''Ceramic Mug'', 2)]\<rparr>,
     \<lparr>bs_buyerEmail = ''buyer2@shop.local'', bs_status = ''shipped'', bs_createdAt = 1743595200000,
      bs_items = [(''USB-C Hub'', 1)]\<rparr>,
     \<lparr>bs_buyerEmail = ''buyer3@shop.local'', bs_status = ''delivered'', bs_createdAt = 1745141400000,
      bs_items = [(''Paperback Novel'', 3), (''Linen Shirt'', 1)]\<rparr>,
     \<lparr>bs_buyerEmail = ''buyer4@shop.local'', bs_status = ''pending'', bs_createdAt = 1746086400000,
      bs_items = [(''Wooden Chair'', 2)]\<rparr>,
     \<lparr>bs_buyerEmail = ''buyer5@shop.local'', bs_status = ''cancelled'', bs_createdAt = 1736532000000,
      bs_items = [(''Football'', 1)]\<rparr>,
     \<lparr>bs_buyerEmail = ''buyer1@shop.local'', bs_status = ''paid'', bs_createdAt = 1749651300000,
      bs_items = [(''Building Blocks'', 1)]\<rparr>]"

section \<open>The statements\<close>

definition check_violation :: thrown where
  "check_violation = PgError ''23514'' ''new row violates check constraint''"

definition fk_violation :: thrown where
  "fk_violation = PgError ''23503'' ''insert or update violates foreign key constraint''"

definition twice_in_command :: thrown where
  "twice_in_command = PgError ''21000'' ''ON CONFLICT DO UPDATE command cannot affect row a second time''"

text \<open>The rows of a table after an upsert: \<open>hit\<close> is equality of the conflict key.\<close>

definition upsert :: "('a \<Rightarrow> bool) \<Rightarrow> ('a \<Rightarrow> 'a) \<Rightarrow> 'a \<Rightarrow> 'a list \<Rightarrow> 'a list" where
  "upsert hit upd new xs = (if list_ex hit xs then map (\<lambda>x. if hit x then upd x else x) xs else xs @ [new])"

definition upsert_user :: "user_seed \<Rightarrow> db \<Rightarrow> db" where
  "upsert_user s d = d\<lparr>users_seq := users_seq d + 1,
     users := upsert (\<lambda>u. u_email u = us_email s)
       (\<lambda>u. u\<lparr>u_full_name := us_fullName s, u_role := us_role s, u_balance_cents := us_balanceCents s\<rparr>)
       \<lparr>u_id = users_seq d, u_email = us_email s, u_full_name = us_fullName s, u_role = us_role s,
        u_is_active = True, u_balance_cents = us_balanceCents s\<rparr> (users d)\<rparr>"

definition user_seed_ok :: "user_seed \<Rightarrow> bool" where
  "user_seed_ok s \<longleftrightarrow> email_ok (us_email s) \<and> 0 \<le> us_balanceCents s \<and> us_balanceCents s \<le> int4_max"

definition sql_upsert_users :: "user_seed list \<Rightarrow> db \<Rightarrow> (thrown + unit) \<times> db" where
  "sql_upsert_users rows d =
     (if \<not> list_all user_seed_ok rows then (Inl check_violation, d)
      else if \<not> distinct (map us_email rows) then (Inl twice_in_command, d)
      else (Inr (), fold upsert_user rows d))"

definition upsert_category :: "category_seed \<Rightarrow> db \<Rightarrow> db" where
  "upsert_category s d = d\<lparr>categories_seq := categories_seq d + 1,
     categories := upsert (\<lambda>g. g_slug g = gs_slug s) (\<lambda>g. g\<lparr>g_title := gs_title s\<rparr>)
       \<lparr>g_id = categories_seq d, g_slug = gs_slug s, g_title = gs_title s\<rparr> (categories d)\<rparr>"

definition sql_upsert_categories :: "category_seed list \<Rightarrow> db \<Rightarrow> (thrown + unit) \<times> db" where
  "sql_upsert_categories rows d =
     (if \<not> distinct (map gs_slug rows) then (Inl twice_in_command, d)
      else (Inr (), fold upsert_category rows d))"

definition sql_upsert_product :: "product_seed \<Rightarrow> int \<Rightarrow> int \<Rightarrow> db \<Rightarrow> (thrown + unit) \<times> db" where
  "sql_upsert_product s sellerId categoryId d =
     (if \<not> (name_ok (ps_name s) \<and> 0 < ps_priceCents s \<and> ps_priceCents s \<le> int4_max
          \<and> 0 \<le> ps_stock s \<and> ps_stock s \<le> int4_max) then (Inl check_violation, d)
      else if sellerId \<notin> u_id ` set (users d) \<or> categoryId \<notin> g_id ` set (categories d) then (Inl fk_violation, d)
      else (Inr (), d\<lparr>products_seq := products_seq d + 1,
        products := upsert (\<lambda>p. p_name p = ps_name s)
          (\<lambda>p. p\<lparr>p_description := ps_description s, p_price_cents := ps_priceCents s, p_stock := ps_stock s,
             p_seller_id := sellerId, p_category_id := Some categoryId\<rparr>)
          \<lparr>p_id = products_seq d, p_name = ps_name s, p_description = ps_description s,
           p_price_cents = ps_priceCents s, p_stock = ps_stock s, p_is_active = True,
           p_seller_id = sellerId, p_category_id = Some categoryId\<rparr> (products d)\<rparr>))"

definition sql_users :: "db \<Rightarrow> (thrown + user_row list) \<times> db" where
  "sql_users d = (Inr (users d), d)"

definition sql_categories :: "db \<Rightarrow> (thrown + category_row list) \<times> db" where
  "sql_categories d = (Inr (categories d), d)"

definition sql_products :: "db \<Rightarrow> (thrown + product_row list) \<times> db" where
  "sql_products d = (Inr (products d), d)"

definition sql_find_order :: "int \<Rightarrow> int \<Rightarrow> db \<Rightarrow> (thrown + order_row option) \<times> db" where
  "sql_find_order userId createdAt d =
     (Inr (find (\<lambda>r. o_user_id r = userId \<and> o_created_at r = createdAt) (orders d)), d)"

definition sql_create_order :: "int \<Rightarrow> string \<Rightarrow> int \<Rightarrow> db \<Rightarrow> (thrown + order_row) \<times> db" where
  "sql_create_order userId status createdAt d =
     (let r = \<lparr>o_id = orders_seq d, o_user_id = userId, o_status = status, o_total_cents = 0, o_created_at = createdAt\<rparr>
      in if status \<notin> set order_statuses then (Inl check_violation, d)
         else if userId \<notin> u_id ` set (users d) then (Inl fk_violation, d)
         else (Inr r, d\<lparr>orders_seq := orders_seq d + 1, orders := orders d @ [r]\<rparr>))"

definition sql_save_order :: "order_row \<Rightarrow> db \<Rightarrow> (thrown + unit) \<times> db" where
  "sql_save_order r d =
     (case pg_int4 (o_total_cents r) of
        Inl e \<Rightarrow> (Inl e, d)
      | Inr t \<Rightarrow>
          if t < 0 \<or> o_status r \<notin> set order_statuses then (Inl check_violation, d)
          else (Inr (), d\<lparr>orders := map (\<lambda>q. if o_id q = o_id r
            then q\<lparr>o_status := o_status r, o_total_cents := t\<rparr> else q) (orders d)\<rparr>))"

definition sql_upsert_item :: "int \<Rightarrow> int \<Rightarrow> int \<Rightarrow> int \<Rightarrow> db \<Rightarrow> (thrown + unit) \<times> db" where
  "sql_upsert_item orderId productId quantity unitPriceCents d =
     (if \<not> (0 < quantity \<and> 0 < unitPriceCents) then (Inl check_violation, d)
      else if orderId \<notin> o_id ` set (orders d) \<or> productId \<notin> p_id ` set (products d) then (Inl fk_violation, d)
      else (Inr (), d\<lparr>order_items_seq := order_items_seq d + 1,
        order_items := upsert (\<lambda>i. i_order_id i = orderId \<and> i_product_id i = productId)
          (\<lambda>i. i\<lparr>i_quantity := quantity, i_unit_price_cents := unitPriceCents\<rparr>)
          \<lparr>i_id = order_items_seq d, i_order_id = orderId, i_product_id = productId,
           i_quantity = quantity, i_unit_price_cents = unitPriceCents\<rparr> (order_items d)\<rparr>))"

text \<open>\<open>quantity * unit_price_cents\<close> is an \<open>integer\<close>, the sum a \<open>bigint\<close>.\<close>

definition sql_sum_lines :: "int \<Rightarrow> db \<Rightarrow> (thrown + int) \<times> db" where
  "sql_sum_lines orderId d =
     (if list_all (\<lambda>i. in_int4 (i_quantity i * i_unit_price_cents i)) (lines_of d orderId)
      then (Inr (line_total (lines_of d orderId)), d)
      else (Inl (PgError ''22003'' ''integer out of range''), d))"

record seed_counts =
  sc_users :: nat
  sc_categories :: nat
  sc_products :: nat
  sc_orders :: nat
  sc_order_items :: nat

section \<open>The script\<close>

text \<open>\<open>new Map(xs.map((x) => [key(x), x])).get(k)\<close>: the last entry of a key counts.\<close>

definition by_key :: "('a \<Rightarrow> string) \<Rightarrow> 'a list \<Rightarrow> string \<Rightarrow> 'a option" where
  "by_key key xs k = map_of (rev (map (\<lambda>x. (key x, x)) xs)) k"

definition seed_product :: "user_row list \<Rightarrow> category_row list \<Rightarrow> product_seed \<Rightarrow> (world, thrown, unit) exec" where
  "seed_product us gs row =
     (case (by_key u_email us (ps_sellerEmail row), by_key g_slug gs (ps_categorySlug row)) of
        (Some seller, Some category) \<Rightarrow> query (sql_upsert_product row (u_id seller) (g_id category))
      | _ \<Rightarrow> throwE (PlainError (''Missing seller or category for '' @ ps_name row)))"

definition seed_item :: "product_row list \<Rightarrow> int \<Rightarrow> string \<times> int \<Rightarrow> (world, thrown, unit) exec" where
  "seed_item prods orderId item =
     (case by_key p_name prods (fst item) of
        None \<Rightarrow> throwE (PlainError (''Missing product '' @ fst item))
      | Some product \<Rightarrow> query (sql_upsert_item orderId (p_id product) (snd item) (p_price_cents product)))"

definition seed_order :: "user_row list \<Rightarrow> product_row list \<Rightarrow> order_seed \<Rightarrow> (world, thrown, unit) exec" where
  "seed_order us prods row =
     (case by_key u_email us (bs_buyerEmail row) of
        None \<Rightarrow> throwE (PlainError (''Missing buyer '' @ bs_buyerEmail row))
      | Some buyer \<Rightarrow>
          bindE (query (sql_find_order (u_id buyer) (bs_createdAt row))) (\<lambda>found.
          bindE (case found of
              None \<Rightarrow> query (sql_create_order (u_id buyer) (bs_status row) (bs_createdAt row))
            | Some order \<Rightarrow>
                if o_status order \<noteq> bs_status row
                then let order' = order\<lparr>o_status := bs_status row\<rparr>
                     in bindE (query (sql_save_order order')) (\<lambda>_. returnE order')
                else returnE order) (\<lambda>order.
          bindE (forE (bs_items row) (seed_item prods (o_id order))) (\<lambda>_.
          bindE (query (sql_sum_lines (o_id order))) (\<lambda>totals.
          query (sql_save_order (order\<lparr>o_total_cents := totals\<rparr>)))))))"

definition count_rows :: "(world, thrown, seed_counts) exec" where
  "count_rows =
     bindE (query (\<lambda>d. (Inr (length (users d)), d))) (\<lambda>nu.
     bindE (query (\<lambda>d. (Inr (length (categories d)), d))) (\<lambda>ng.
     bindE (query (\<lambda>d. (Inr (length (products d)), d))) (\<lambda>np.
     bindE (query (\<lambda>d. (Inr (length (orders d)), d))) (\<lambda>no.
     bindE (query (\<lambda>d. (Inr (length (order_items d)), d))) (\<lambda>ni.
     returnE \<lparr>sc_users = nu, sc_categories = ng, sc_products = np, sc_orders = no, sc_order_items = ni\<rparr>)))))"

definition seed :: "(world, thrown, seed_counts) exec" where
  "seed =
     bindE (query (sql_upsert_users USERS)) (\<lambda>_.
     bindE (query (sql_upsert_categories CATEGORIES)) (\<lambda>_.
     bindE (query sql_users) (\<lambda>us.
     bindE (query sql_categories) (\<lambda>gs.
     bindE (forE PRODUCTS (seed_product us gs)) (\<lambda>_.
     bindE (query sql_products) (\<lambda>prods.
     bindE (forE ORDERS (seed_order us prods)) (\<lambda>_.
     count_rows)))))))"

end
