(* ===== verification/LoneRun.thy ===== *)
theory LoneRun
  imports Schema
begin

text \<open>
  Total correctness of scripts that are alone on the database: \<open>runs P m Q\<close> says that from every state
  whose tables satisfy \<open>P\<close> the computation returns, with a value and tables that satisfy \<open>Q\<close>.
\<close>

definition runs :: "(db \<Rightarrow> bool) \<Rightarrow> (world, thrown, 'a) exec \<Rightarrow> ('a \<Rightarrow> db \<Rightarrow> bool) \<Rightarrow> bool" where
  "runs P m Q \<longleftrightarrow> (\<forall>w. w_sched w = [] \<longrightarrow> P (w_db w) \<longrightarrow>
     (\<exists>a w'. m w = (Inr a, w') \<and> w_sched w' = [] \<and> Q a (w_db w')))"

named_theorems runs_intros \<open>rules for lone runs\<close>

lemma runsD:
  assumes "runs P m Q" and "w_sched w = []" and "P (w_db w)"
  obtains a w' where "m w = (Inr a, w')" "w_sched w' = []" "Q a (w_db w')"
  using assms unfolding runs_def by blast

lemma runs_returnE [runs_intros]: "(\<And>d. P d \<Longrightarrow> Q a d) \<Longrightarrow> runs P (returnE a) Q"
  by (simp add: runs_def)

lemma runs_bindE [runs_intros]: "runs P m R \<Longrightarrow> (\<And>a. runs (R a) (f a) Q) \<Longrightarrow> runs P (bindE m f) Q"
  unfolding runs_def by (metis bindE_Inr)

lemma runs_query [runs_intros]:
  assumes "\<And>d. P d \<Longrightarrow> \<exists>a d'. f d = (Inr a, d') \<and> Q a d'"
  shows "runs P (query f) Q"
  unfolding runs_def
proof (intro allI impI)
  fix w :: world assume w: "w_sched w = []" "P (w_db w)"
  obtain a d' where "f (w_db w) = (Inr a, d')" "Q a d'" using assms [OF w(2)] by blast
  then show "\<exists>a w'. query f w = (Inr a, w') \<and> w_sched w' = [] \<and> Q a (w_db w')"
    using query_run [where f = f, OF w(1)] w(1) by auto
qed

lemma runs_weaken: "runs P m Q \<Longrightarrow> (\<And>d. P' d \<Longrightarrow> P d) \<Longrightarrow> (\<And>a d. Q a d \<Longrightarrow> Q' a d) \<Longrightarrow> runs P' m Q'"
  unfolding runs_def by blast

lemma runs_fact: "(\<And>d. P d \<Longrightarrow> F) \<Longrightarrow> (F \<Longrightarrow> runs P m Q) \<Longrightarrow> runs P m Q"
  unfolding runs_def by blast

lemma runs_any: "(\<And>d0. P d0 \<Longrightarrow> runs (\<lambda>d. d = d0) m Q) \<Longrightarrow> runs P m Q"
  unfolding runs_def by blast

text \<open>A loop with an invariant on the elements processed so far.\<close>

lemma runs_forE:
  assumes "\<And>ys x zs. xs = ys @ x # zs \<Longrightarrow> runs (I ys) (f x) (\<lambda>_. I (ys @ [x]))"
  shows "runs (I []) (forE xs f) (\<lambda>_. I xs)"
proof -
  have "runs (I ys) (forE zs f) (\<lambda>_. I xs)" if "xs = ys @ zs" for ys zs
    using that
  proof (induction zs arbitrary: ys)
    case Nil
    then show ?case unfolding forE.simps by (intro runs_returnE) simp
  next
    case (Cons z zs)
    have "runs (I ys) (f z) (\<lambda>_. I (ys @ [z]))" using assms Cons.prems by blast
    moreover have "runs (I (ys @ [z])) (forE zs f) (\<lambda>_. I xs)" using Cons.IH [of "ys @ [z]"] Cons.prems by simp
    ultimately show ?case unfolding forE.simps by (intro runs_bindE runs_returnE)
  qed
  from this [of "[]" xs] show ?thesis by simp
qed

lemma runs_forE_each: "(\<And>x. x \<in> set xs \<Longrightarrow> runs P (f x) (\<lambda>_. P)) \<Longrightarrow> runs P (forE xs f) (\<lambda>_. P)"
  by (rule runs_forE) simp

end
