(* ===== verification/SeedFirst.thy ===== *)
theory SeedFirst
  imports Seed LoneRun
begin

text \<open>
  The first run of the seed script: on a database that satisfies its constraints and has no order placed
  at one of the times of the seed orders, the script runs through and leaves every seeded row.
\<close>

section \<open>Upserts on a unique key\<close>

lemma upsert_keys: "(\<And>x. key (upd x) = key x) \<Longrightarrow>
    map key (upsert hit upd new xs) = (if list_ex hit xs then map key xs else map key xs @ [key new])"
  by (auto simp: upsert_def)

lemma upsert_ball: "\<forall>x \<in> set xs. P x \<Longrightarrow> (\<And>x. x \<in> set xs \<Longrightarrow> P (upd x)) \<Longrightarrow> P new \<Longrightarrow> \<forall>x \<in> set (upsert hit upd new xs). P x"
  by (auto simp: upsert_def)

lemma upsert_fixed: "\<exists>x \<in> set xs. hit x \<Longrightarrow> (\<And>x. x \<in> set xs \<Longrightarrow> hit x \<Longrightarrow> upd x = x) \<Longrightarrow> upsert hit upd new xs = xs"
  by (auto simp: upsert_def list_ex_iff intro: map_idI)

lemma upsert_hit: "(\<And>x. hit x \<Longrightarrow> P (upd x)) \<Longrightarrow> P new \<Longrightarrow> \<exists>x \<in> set (upsert hit upd new xs). P x"
  by (auto simp: upsert_def list_ex_iff)

lemma upsert_keep: "\<exists>x \<in> set xs. P x \<and> \<not> hit x \<Longrightarrow> \<exists>x \<in> set (upsert hit upd new xs). P x"
  by (force simp: upsert_def)

lemma distinct_upsert:
  assumes "distinct (map key xs)" and "\<And>x. key (upd x) = key x" and "\<forall>x \<in> set xs. key x = key new \<longrightarrow> hit x"
  shows "distinct (map key (upsert hit upd new xs))"
  using assms by (auto simp: upsert_keys [of key upd, OF assms(2)] list_ex_iff)

lemma set_upsert_keys:
  assumes "\<And>x. key (upd x) = key x"
  shows "key ` set xs \<subseteq> key ` set (upsert hit upd new xs)"
  using arg_cong [OF upsert_keys [of key upd hit new xs, OF assms], of set] by (auto split: if_splits)

lemma by_key_iff:
  assumes "distinct (map key xs)"
  shows "by_key key xs k = Some x \<longleftrightarrow> x \<in> set xs \<and> key x = k"
proof -
  have "distinct (map fst (rev (map (\<lambda>x. (key x, x)) xs)))" using assms by (simp add: rev_map [symmetric] comp_def)
  from map_of_eq_Some_iff [OF this] show ?thesis by (auto simp: by_key_def)
qed

section \<open>Users and categories\<close>

definition seeded_user :: "user_seed \<Rightarrow> user_row list \<Rightarrow> bool" where
  "seeded_user s us \<longleftrightarrow> (\<exists>u \<in> set us. u_email u = us_email s \<and> u_full_name u = us_fullName s
     \<and> u_role u = us_role s \<and> u_balance_cents u = us_balanceCents s)"

definition seeded_category :: "category_seed \<Rightarrow> category_row list \<Rightarrow> bool" where
  "seeded_category s gs \<longleftrightarrow> (\<exists>g \<in> set gs. g_slug g = gs_slug s \<and> g_title g = gs_title s)"

lemma upsert_user_ok:
  assumes "db_ok d" and "user_seed_ok s"
  shows "db_ok (upsert_user s d)"
proof -
  let ?us = "users (upsert_user s d)"
  have us: "users_ok d" using assms(1) by (simp add: db_ok_def)
  have "distinct (map u_id ?us)" "distinct (map u_email ?us)"
    using us by (auto simp: upsert_user_def users_ok_def intro!: distinct_upsert)
  moreover have "\<forall>u \<in> set ?us. 0 \<le> u_balance_cents u \<and> u_balance_cents u \<le> int4_max
      \<and> email_ok (u_email u) \<and> u_id u < users_seq d + 1"
    unfolding upsert_user_def by (simp, rule upsert_ball) (use us assms(2) in \<open>auto simp: users_ok_def user_seed_ok_def less_imp_le\<close>)
  moreover have "u_id ` set (users d) \<subseteq> u_id ` set ?us"
    unfolding upsert_user_def by (simp add: set_upsert_keys)
  ultimately show ?thesis using assms(1) unfolding schema_defs by (auto simp: upsert_user_def)
qed


lemma upsert_user_seeded: "seeded_user s (users (upsert_user s d))"
  unfolding seeded_user_def upsert_user_def by (simp, rule upsert_hit) auto

lemma upsert_user_other:
  "us_email t \<noteq> us_email s \<Longrightarrow> seeded_user t (users d) \<Longrightarrow> seeded_user t (users (upsert_user s d))"
  unfolding seeded_user_def upsert_user_def by (simp, rule upsert_keep) auto

text \<open>Folding upserts of distinct keys over a table: every seed is there at the end.\<close>

lemma fold_settles:
  assumes "distinct (map key rows)" and "I d"
    and "\<And>s d. s \<in> set rows \<Longrightarrow> I d \<Longrightarrow> I (f s d) \<and> Q s (f s d)"
    and "\<And>s t d. key t \<noteq> key s \<Longrightarrow> Q t d \<Longrightarrow> Q t (f s d)"
  shows "I (fold f rows d) \<and> (\<forall>s \<in> set rows. Q s (fold f rows d))"
  using assms(1,3)
proof (induction rows rule: rev_induct)
  case Nil
  then show ?case using assms(2) by simp
next
  case (snoc s rows)
  then have ih: "I (fold f rows d)" "\<forall>t \<in> set rows. Q t (fold f rows d)" by auto
  have "key t \<noteq> key s" if "t \<in> set rows" for t using snoc.prems(1) imageI [OF that, of key] by auto
  then show ?case using ih snoc.prems(2) [of s] assms(4) by simp
qed

lemma seeds_valid:
  "list_all user_seed_ok USERS" "distinct (map us_email USERS)" "distinct (map gs_slug CATEGORIES)"
  "distinct (map ps_name PRODUCTS)"
  by (simp_all add: USERS_def CATEGORIES_def PRODUCTS_def user_seed_ok_def email_ok_def int4_max_def BUYER_BALANCE_CENTS_def)

lemma sql_upsert_users_run:
  assumes "db_ok d"
  shows "\<exists>us n. sql_upsert_users USERS d = (Inr (), d\<lparr>users_seq := n, users := us\<rparr>)
    \<and> db_ok (d\<lparr>users_seq := n, users := us\<rparr>) \<and> (\<forall>s \<in> set USERS. seeded_user s us)"
proof -
  let ?I = "\<lambda>d'. db_ok d' \<and> (\<exists>us n. d' = d\<lparr>users_seq := n, users := us\<rparr>)"
  have "d = d\<lparr>users_seq := users_seq d, users := users d\<rparr>" by simp
  then have "?I d" using assms by blast
  then have "?I (fold upsert_user USERS d) \<and> (\<forall>s \<in> set USERS. seeded_user s (users (fold upsert_user USERS d)))"
  proof (rule fold_settles [OF seeds_valid(2)])
    fix s d' assume s: "s \<in> set USERS" and i: "?I d'"
    then obtain us n where "d' = d\<lparr>users_seq := n, users := us\<rparr>" by blast
    then have "upsert_user s d' = d\<lparr>users_seq := n + 1, users := users (upsert_user s d')\<rparr>" by (simp add: upsert_user_def)
    moreover have "user_seed_ok s" using s seeds_valid(1) by (simp add: list_all_iff)
    ultimately show "?I (upsert_user s d') \<and> seeded_user s (users (upsert_user s d'))"
      using i upsert_user_ok upsert_user_seeded by blast
  qed (rule upsert_user_other)
  then obtain us n where "fold upsert_user USERS d = d\<lparr>users_seq := n, users := us\<rparr>"
    "db_ok (d\<lparr>users_seq := n, users := us\<rparr>)" "\<forall>s \<in> set USERS. seeded_user s us" by fastforce
  then show ?thesis using seeds_valid unfolding sql_upsert_users_def by (intro exI [of _ us] exI [of _ n]) simp
qed

lemma upsert_category_ok:
  assumes "db_ok d"
  shows "db_ok (upsert_category s d)"
proof -
  let ?gs = "categories (upsert_category s d)"
  have gs: "categories_ok d" using assms by (simp add: db_ok_def)
  have "distinct (map g_id ?gs)" "distinct (map g_slug ?gs)"
    using gs by (auto simp: upsert_category_def categories_ok_def intro!: distinct_upsert)
  moreover have "\<forall>g \<in> set ?gs. g_id g < categories_seq d + 1"
    unfolding upsert_category_def by (simp, rule upsert_ball) (use gs in \<open>auto simp: categories_ok_def less_imp_le\<close>)
  moreover have "g_id ` set (categories d) \<subseteq> g_id ` set ?gs"
    unfolding upsert_category_def by (simp add: set_upsert_keys)
  ultimately show ?thesis using assms unfolding schema_defs by (force simp: upsert_category_def)
qed

lemma upsert_category_seeded: "seeded_category s (categories (upsert_category s d))"
  unfolding seeded_category_def upsert_category_def by (simp, rule upsert_hit) auto

lemma upsert_category_other:
  "gs_slug t \<noteq> gs_slug s \<Longrightarrow> seeded_category t (categories d) \<Longrightarrow> seeded_category t (categories (upsert_category s d))"
  unfolding seeded_category_def upsert_category_def by (simp, rule upsert_keep) auto

lemma sql_upsert_categories_run:
  assumes "db_ok d"
  shows "\<exists>gs n. sql_upsert_categories CATEGORIES d = (Inr (), d\<lparr>categories_seq := n, categories := gs\<rparr>)
    \<and> db_ok (d\<lparr>categories_seq := n, categories := gs\<rparr>) \<and> (\<forall>s \<in> set CATEGORIES. seeded_category s gs)"
proof -
  let ?I = "\<lambda>d'. db_ok d' \<and> (\<exists>gs n. d' = d\<lparr>categories_seq := n, categories := gs\<rparr>)"
  have "d = d\<lparr>categories_seq := categories_seq d, categories := categories d\<rparr>" by simp
  then have "?I d" using assms by blast
  then have "?I (fold upsert_category CATEGORIES d)
      \<and> (\<forall>s \<in> set CATEGORIES. seeded_category s (categories (fold upsert_category CATEGORIES d)))"
  proof (rule fold_settles [OF seeds_valid(3)])
    fix s d' assume i: "?I d'"
    then obtain gs n where "d' = d\<lparr>categories_seq := n, categories := gs\<rparr>" by blast
    then have "upsert_category s d' = d\<lparr>categories_seq := n + 1, categories := categories (upsert_category s d')\<rparr>"
      by (simp add: upsert_category_def)
    then show "?I (upsert_category s d') \<and> seeded_category s (categories (upsert_category s d'))"
      using i upsert_category_ok upsert_category_seeded by blast
  qed (rule upsert_category_other)
  then obtain gs n where "fold upsert_category CATEGORIES d = d\<lparr>categories_seq := n, categories := gs\<rparr>"
    "db_ok (d\<lparr>categories_seq := n, categories := gs\<rparr>)" "\<forall>s \<in> set CATEGORIES. seeded_category s gs" by fastforce
  then show ?thesis using seeds_valid unfolding sql_upsert_categories_def by (intro exI [of _ gs] exI [of _ n]) simp
qed

section \<open>Products\<close>

definition seeded_product :: "user_row list \<Rightarrow> category_row list \<Rightarrow> product_seed \<Rightarrow> product_row list \<Rightarrow> bool" where
  "seeded_product us gs s ps \<longleftrightarrow> (\<exists>p \<in> set ps. p_name p = ps_name s \<and> p_description p = ps_description s
     \<and> p_price_cents p = ps_priceCents s \<and> p_stock p = ps_stock s
     \<and> by_key u_email us (ps_sellerEmail s) \<noteq> None \<and> p_seller_id p = u_id (the (by_key u_email us (ps_sellerEmail s)))
     \<and> by_key g_slug gs (ps_categorySlug s) \<noteq> None
     \<and> p_category_id p = Some (g_id (the (by_key g_slug gs (ps_categorySlug s)))))"

lemma sql_upsert_product_run:
  assumes ok: "db_ok d" and s: "s \<in> set PRODUCTS"
    and u: "by_key u_email (users d) (ps_sellerEmail s) = Some u" and g: "by_key g_slug (categories d) (ps_categorySlug s) = Some g"
  shows "\<exists>ps n. sql_upsert_product s (u_id u) (g_id g) d = (Inr (), d\<lparr>products_seq := n, products := ps\<rparr>)
    \<and> db_ok (d\<lparr>products_seq := n, products := ps\<rparr>) \<and> seeded_product (users d) (categories d) s ps
    \<and> (\<forall>t. ps_name t \<noteq> ps_name s \<and> seeded_product (users d) (categories d) t (products d)
         \<longrightarrow> seeded_product (users d) (categories d) t ps)"
proof -
  let ?upd = "\<lambda>p. p\<lparr>p_description := ps_description s, p_price_cents := ps_priceCents s, p_stock := ps_stock s,
     p_seller_id := u_id u, p_category_id := Some (g_id g)\<rparr>"
  let ?new = "\<lparr>p_id = products_seq d, p_name = ps_name s, p_description = ps_description s, p_price_cents = ps_priceCents s,
     p_stock = ps_stock s, p_is_active = True, p_seller_id = u_id u, p_category_id = Some (g_id g)\<rparr>"
  let ?ps = "upsert (\<lambda>p. p_name p = ps_name s) ?upd ?new (products d)"
  let ?d = "d\<lparr>products_seq := products_seq d + 1, products := ?ps\<rparr>"
  have p: "products_ok d" using ok by (simp add: db_ok_def)
  have fk: "u_id u \<in> u_id ` set (users d)" "g_id g \<in> g_id ` set (categories d)"
    using u g ok by (auto simp: by_key_iff schema_defs)
  have valid: "name_ok (ps_name s) \<and> 0 < ps_priceCents s \<and> ps_priceCents s \<le> int4_max \<and> 0 \<le> ps_stock s \<and> ps_stock s \<le> int4_max"
    using s by (auto simp: PRODUCTS_def name_ok_def int4_max_def)
  have "distinct (map p_id ?ps)" "distinct (map p_name ?ps)"
    using p by (auto simp: products_ok_def intro!: distinct_upsert)
  moreover have "\<forall>q \<in> set ?ps. 0 \<le> p_stock q \<and> p_stock q \<le> int4_max \<and> 0 < p_price_cents q \<and> p_price_cents q \<le> int4_max
      \<and> name_ok (p_name q) \<and> p_id q < products_seq d + 1 \<and> p_seller_id q \<in> u_id ` set (users d)
      \<and> set_option (p_category_id q) \<subseteq> g_id ` set (categories d)"
    by (rule upsert_ball) (use p valid fk in \<open>auto simp: products_ok_def less_imp_le\<close>)
  moreover have "p_id ` set (products d) \<subseteq> p_id ` set ?ps" by (simp add: set_upsert_keys)
  ultimately have "db_ok ?d" using ok unfolding schema_defs by auto
  moreover have "sql_upsert_product s (u_id u) (g_id g) d = (Inr (), ?d)"
    using valid fk by (simp add: sql_upsert_product_def)
  moreover have "seeded_product (users d) (categories d) s ?ps"
    unfolding seeded_product_def by (rule upsert_hit) (use u g in auto)
  moreover have "seeded_product (users d) (categories d) t ?ps"
    if "ps_name t \<noteq> ps_name s" "seeded_product (users d) (categories d) t (products d)" for t
    using that(2) unfolding seeded_product_def by (intro upsert_keep) (use that(1) in auto)
  ultimately show ?thesis by blast
qed

section \<open>Orders\<close>

text \<open>The rows of a seeded order: found by buyer and time, its lines there, its total their sum.\<close>

definition seeded_order :: "user_row list \<Rightarrow> product_row list \<Rightarrow> order_seed \<Rightarrow> db \<Rightarrow> bool" where
  "seeded_order us prods s d \<longleftrightarrow> (\<exists>u r. by_key u_email us (bs_buyerEmail s) = Some u
     \<and> find (\<lambda>r. o_user_id r = u_id u \<and> o_created_at r = bs_createdAt s) (orders d) = Some r
     \<and> o_status r = bs_status s \<and> o_total_cents r = line_total (lines_of d (o_id r))
     \<and> (\<forall>i \<in> set (lines_of d (o_id r)). in_int4 (i_quantity i * i_unit_price_cents i))
     \<and> (\<forall>it \<in> set (bs_items s). \<exists>p. by_key p_name prods (fst it) = Some p
          \<and> (\<exists>i \<in> set (lines_of d (o_id r)). i_product_id i = p_id p \<and> i_quantity i = snd it
               \<and> i_unit_price_cents i = p_price_cents p)))"

lemma lines_of_mem: "i \<in> set (lines_of d oid) \<longleftrightarrow> i \<in> set (order_items d) \<and> i_order_id i = oid"
  by (auto simp: lines_of_def)

lemma sql_upsert_item_run:
  assumes ok: "db_ok d" and fk: "oid \<in> o_id ` set (orders d)" "pid \<in> p_id ` set (products d)" and pos: "0 < q" "0 < c"
  shows "\<exists>is n. sql_upsert_item oid pid q c d = (Inr (), d\<lparr>order_items_seq := n, order_items := is\<rparr>)
    \<and> db_ok (d\<lparr>order_items_seq := n, order_items := is\<rparr>)
    \<and> (\<forall>oid'. oid' \<noteq> oid \<longrightarrow> lines_of (d\<lparr>order_items_seq := n, order_items := is\<rparr>) oid' = lines_of d oid')
    \<and> (\<exists>i \<in> set is. i_order_id i = oid \<and> i_product_id i = pid \<and> i_quantity i = q \<and> i_unit_price_cents i = c)
    \<and> (\<forall>i \<in> set (order_items d). i_order_id i = oid \<and> i_product_id i \<noteq> pid \<longrightarrow> i \<in> set is)
    \<and> (\<forall>i \<in> set is. i_order_id i = oid \<longrightarrow> i \<in> set (order_items d) \<or> i_quantity i = q \<and> i_unit_price_cents i = c)
    \<and> length (lines_of (d\<lparr>order_items_seq := n, order_items := is\<rparr>) oid) \<le> Suc (length (lines_of d oid))"
proof -
  let ?hit = "\<lambda>i. i_order_id i = oid \<and> i_product_id i = pid"
  let ?upd = "\<lambda>i. i\<lparr>i_quantity := q, i_unit_price_cents := c\<rparr>"
  let ?new = "\<lparr>i_id = order_items_seq d, i_order_id = oid, i_product_id = pid, i_quantity = q, i_unit_price_cents = c\<rparr>"
  let ?is = "upsert ?hit ?upd ?new (order_items d)"
  let ?d = "d\<lparr>order_items_seq := order_items_seq d + 1, order_items := ?is\<rparr>"
  have it: "order_items_ok d" using ok by (simp add: db_ok_def)
  have "distinct (map i_id ?is)" "distinct (map (\<lambda>i. (i_order_id i, i_product_id i)) ?is)"
    using it by (auto simp: order_items_ok_def intro!: distinct_upsert)
  moreover have "\<forall>i \<in> set ?is. 0 < i_quantity i \<and> 0 < i_unit_price_cents i \<and> i_order_id i \<in> o_id ` set (orders d)
      \<and> i_product_id i \<in> p_id ` set (products d) \<and> i_id i < order_items_seq d + 1"
    by (rule upsert_ball) (use it fk pos in \<open>auto simp: order_items_ok_def less_imp_le\<close>)
  ultimately have "db_ok ?d" using ok unfolding schema_defs by auto
  moreover have "sql_upsert_item oid pid q c d = (Inr (), ?d)" using fk pos by (simp add: sql_upsert_item_def)
  moreover have "lines_of ?d oid' = lines_of d oid'" if "oid' \<noteq> oid" for oid'
  proof -
    have "filter (\<lambda>i. i_order_id i = oid') (map (\<lambda>i. if ?hit i then ?upd i else i) is) = filter (\<lambda>i. i_order_id i = oid') is"
      for "is" :: "order_item_row list"
      using that by (induction "is") auto
    then show ?thesis using that by (simp add: lines_of_def upsert_def)
  qed
  moreover have "\<exists>i \<in> set ?is. i_order_id i = oid \<and> i_product_id i = pid \<and> i_quantity i = q \<and> i_unit_price_cents i = c"
    by (rule upsert_hit) auto
  moreover have "\<forall>i \<in> set (order_items d). i_order_id i = oid \<and> i_product_id i \<noteq> pid \<longrightarrow> i \<in> set ?is"
    by (auto simp: upsert_def intro!: rev_image_eqI)
  moreover have "\<forall>i \<in> set ?is. i_order_id i = oid \<longrightarrow> i \<in> set (order_items d) \<or> i_quantity i = q \<and> i_unit_price_cents i = c"
    by (rule upsert_ball) simp_all
  moreover have "length (lines_of ?d oid) \<le> Suc (length (lines_of d oid))"
  proof -
    have "length (filter (\<lambda>i. i_order_id i = oid) (map (\<lambda>i. if ?hit i then ?upd i else i) is)) = length (filter (\<lambda>i. i_order_id i = oid) is)"
      for "is" :: "order_item_row list"
      by (induction "is") auto
    then show ?thesis by (simp add: lines_of_def upsert_def)
  qed
  ultimately show ?thesis by (intro exI [of _ ?is] exI [of _ "order_items_seq d + 1"]) blast
qed

lemma sum_lines_bound:
  assumes "\<forall>i \<in> set is. 0 < i_quantity i \<and> i_quantity i \<le> a \<and> 0 < i_unit_price_cents i \<and> i_unit_price_cents i \<le> b"
    and "0 \<le> a" and "0 \<le> b"
  shows "0 \<le> line_total is \<and> line_total is \<le> int (length is) * (a * b)
    \<and> (\<forall>i \<in> set is. 0 \<le> i_quantity i * i_unit_price_cents i \<and> i_quantity i * i_unit_price_cents i \<le> a * b)"
  using assms(1)
proof (induction "is")
  case (Cons i "is")
  then have "0 \<le> i_quantity i * i_unit_price_cents i" "i_quantity i * i_unit_price_cents i \<le> a * b"
    using assms(2) by (auto intro: mult_mono)
  then show ?case using Cons by (auto simp: line_total_def algebra_simps)
qed (simp add: line_total_def)

text \<open>What the script relies on in its own data.\<close>

lemma orders_valid:
  assumes "s \<in> set ORDERS"
  shows "bs_status s \<in> set order_statuses" "length (bs_items s) \<le> 2" "distinct (map fst (bs_items s))"
    "\<forall>it \<in> set (bs_items s). 0 < snd it \<and> snd it \<le> 3 \<and> fst it \<in> ps_name ` set PRODUCTS"
    "bs_buyerEmail s \<in> us_email ` set USERS"
  using assms by (auto simp: ORDERS_def order_statuses_def PRODUCTS_def USERS_def)

lemma prices_valid: "\<forall>s \<in> set PRODUCTS. 0 < ps_priceCents s \<and> ps_priceCents s \<le> 12900
    \<and> ps_sellerEmail s \<in> us_email ` set USERS \<and> ps_categorySlug s \<in> gs_slug ` set CATEGORIES"
  by (simp add: PRODUCTS_def USERS_def CATEGORIES_def)

lemma times_distinct: "distinct (map bs_createdAt ORDERS)"
  by (simp add: ORDERS_def)

text \<open>The catalog a run of the script ends its second step with.\<close>

definition catalog :: "user_row list \<Rightarrow> category_row list \<Rightarrow> product_row list \<Rightarrow> bool" where
  "catalog us gs ps \<longleftrightarrow> (\<forall>s \<in> set USERS. seeded_user s us) \<and> (\<forall>s \<in> set CATEGORIES. seeded_category s gs)
     \<and> (\<forall>s \<in> set PRODUCTS. seeded_product us gs s ps)"

lemma catalog_buyer:
  assumes "\<forall>s \<in> set USERS. seeded_user s us" and "distinct (map u_email us)" and "e \<in> us_email ` set USERS"
  obtains u where "by_key u_email us e = Some u" "u \<in> set us" "u_email u = e"
  using assms by (fastforce simp: seeded_user_def by_key_iff)

lemma catalog_product:
  assumes "catalog us gs ps" and "distinct (map p_name ps)" and "n \<in> ps_name ` set PRODUCTS"
  obtains p where "by_key p_name ps n = Some p" "p \<in> set ps" "0 < p_price_cents p" "p_price_cents p \<le> 12900" "p_name p = n"
proof -
  obtain s where s: "s \<in> set PRODUCTS" "n = ps_name s" using assms(3) by auto
  then have "seeded_product us gs s ps" using assms(1) by (simp add: catalog_def)
  then obtain p where "p \<in> set ps" "p_name p = n" "p_price_cents p = ps_priceCents s" using s(2) by (auto simp: seeded_product_def)
  then show ?thesis using that assms(2) prices_valid s(1) by (simp add: by_key_iff)
qed

text \<open>The lines of a new order, one item after the other.\<close>

definition lines_state :: "order_seed \<Rightarrow> int \<Rightarrow> db \<Rightarrow> (string \<times> int) list \<Rightarrow> db \<Rightarrow> bool" where
  "lines_state s oid d0 ks d \<longleftrightarrow> db_ok d \<and> (\<exists>is n. d = d0\<lparr>order_items_seq := n, order_items := is\<rparr>)
     \<and> (\<forall>oid'. oid' \<noteq> oid \<longrightarrow> lines_of d oid' = lines_of d0 oid')
     \<and> (\<forall>it \<in> set ks. \<exists>p. by_key p_name (products d0) (fst it) = Some p
          \<and> (\<exists>i \<in> set (lines_of d oid). i_product_id i = p_id p \<and> i_quantity i = snd it \<and> i_unit_price_cents i = p_price_cents p))
     \<and> (\<forall>i \<in> set (lines_of d oid). i_quantity i \<le> 3 \<and> i_unit_price_cents i \<le> 12900)
     \<and> length (lines_of d oid) \<le> length ks"

lemma seed_item_run:
  assumes s: "s \<in> set ORDERS" and split: "bs_items s = ks @ it # rest"
    and cat: "catalog (users d0) (categories d0) (products d0)" and oid: "oid \<in> o_id ` set (orders d0)"
  shows "runs (lines_state s oid d0 ks) (seed_item (products d0) oid it) (\<lambda>_. lines_state s oid d0 (ks @ [it]))"
proof (rule runs_fact)
  fix d assume "lines_state s oid d0 ks d"
  then have "db_ok d" "products d = products d0" by (auto simp: lines_state_def)
  then show "distinct (map p_name (products d0)) \<and> distinct (map p_id (products d0))" by (simp add: schema_defs)
next
  assume dist: "distinct (map p_name (products d0)) \<and> distinct (map p_id (products d0))"
  have q: "0 < snd it" "snd it \<le> 3" "fst it \<in> ps_name ` set PRODUCTS" using orders_valid(4) [OF s] split by auto
  obtain p where p: "by_key p_name (products d0) (fst it) = Some p" "p \<in> set (products d0)" "0 < p_price_cents p"
    "p_price_cents p \<le> 12900" "p_name p = fst it"
    using catalog_product [OF cat _ q(3)] dist by blast
  have other: "p_id p' \<noteq> p_id p" if "it' \<in> set ks" "by_key p_name (products d0) (fst it') = Some p'" for it' p'
  proof -
    have "fst it \<notin> fst ` set ks" using orders_valid(3) [OF s] split by simp
    then have "fst it' \<noteq> fst it" using imageI [OF that(1), of fst] by metis
    then have "p' \<noteq> p" "p' \<in> set (products d0)" using that(2) p(5) dist by (auto simp: by_key_iff)
    then show ?thesis using dist p(2) by (auto simp: distinct_map inj_on_def)
  qed
  show "runs (lines_state s oid d0 ks) (seed_item (products d0) oid it) (\<lambda>_. lines_state s oid d0 (ks @ [it]))"
    unfolding seed_item_def p(1) option.case
  proof (rule runs_query)
    fix d assume d: "lines_state s oid d0 ks d"
    then obtain is0 n0 where d0: "d = d0\<lparr>order_items_seq := n0, order_items := is0\<rparr>" by (auto simp: lines_state_def)
    have "db_ok d" "oid \<in> o_id ` set (orders d)" "p_id p \<in> p_id ` set (products d)"
      using d d0 oid p(2) by (auto simp: lines_state_def)
    from sql_upsert_item_run [OF this q(1) p(3)] obtain "is" n where run:
      "sql_upsert_item oid (p_id p) (snd it) (p_price_cents p) d = (Inr (), d\<lparr>order_items_seq := n, order_items := is\<rparr>)"
      "db_ok (d\<lparr>order_items_seq := n, order_items := is\<rparr>)"
      "\<And>oid'. oid' \<noteq> oid \<Longrightarrow> lines_of (d\<lparr>order_items_seq := n, order_items := is\<rparr>) oid' = lines_of d oid'"
      "\<exists>i \<in> set is. i_order_id i = oid \<and> i_product_id i = p_id p \<and> i_quantity i = snd it \<and> i_unit_price_cents i = p_price_cents p"
      "\<And>i. i \<in> set (order_items d) \<Longrightarrow> i_order_id i = oid \<Longrightarrow> i_product_id i \<noteq> p_id p \<Longrightarrow> i \<in> set is"
      "\<And>i. i \<in> set is \<Longrightarrow> i_order_id i = oid \<Longrightarrow> i \<in> set (order_items d) \<or> i_quantity i = snd it \<and> i_unit_price_cents i = p_price_cents p"
      "length (lines_of (d\<lparr>order_items_seq := n, order_items := is\<rparr>) oid) \<le> Suc (length (lines_of d oid))"
      by blast
    let ?d = "d\<lparr>order_items_seq := n, order_items := is\<rparr>"
    have "\<exists>p. by_key p_name (products d0) (fst it') = Some p
        \<and> (\<exists>i \<in> set (lines_of ?d oid). i_product_id i = p_id p \<and> i_quantity i = snd it' \<and> i_unit_price_cents i = p_price_cents p)"
      if "it' \<in> set (ks @ [it])" for it'
    proof (cases "it' \<in> set ks")
      case True
      then obtain p' i where "by_key p_name (products d0) (fst it') = Some p'" "i \<in> set (lines_of d oid)"
        "i_product_id i = p_id p'" "i_quantity i = snd it'" "i_unit_price_cents i = p_price_cents p'"
        using d unfolding lines_state_def by blast
      moreover from this have "i \<in> set (lines_of ?d oid)" using run(5) other [OF True] by (simp add: lines_of_mem)
      ultimately show ?thesis by blast
    next
      case False
      then show ?thesis using that run(4) p(1) by (auto simp: lines_of_mem)
    qed
    moreover have "i_quantity i \<le> 3 \<and> i_unit_price_cents i \<le> 12900" if "i \<in> set (lines_of ?d oid)" for i
      using that run(6) [of i] d q(2) p(4) by (auto simp: lines_of_mem lines_state_def)
    moreover have "?d = d0\<lparr>order_items_seq := n, order_items := is\<rparr>" using d0 by simp
    moreover have "lines_of ?d oid' = lines_of d0 oid'" if "oid' \<noteq> oid" for oid'
      using run(3) [OF that] d that by (simp add: lines_state_def)
    moreover have "length (lines_of ?d oid) \<le> length (ks @ [it])" using run(7) d by (simp add: lines_state_def)
    ultimately have "lines_state s oid d0 (ks @ [it]) ?d"
      using run(2) unfolding lines_state_def by blast
    then show "\<exists>a d'. sql_upsert_item oid (p_id p) (snd it) (p_price_cents p) d = (Inr a, d') \<and> lines_state s oid d0 (ks @ [it]) d'"
      using run(1) by blast
  qed
qed

text \<open>A new order is one more row with lines of its own.\<close>

definition order_added :: "order_seed \<Rightarrow> db \<Rightarrow> db \<Rightarrow> bool" where
  "order_added s d d' \<longleftrightarrow> (\<exists>r is n. d' = d\<lparr>orders := orders d @ [r], orders_seq := orders_seq d + 1,
       order_items := is, order_items_seq := n\<rparr> \<and> o_id r = orders_seq d \<and> o_created_at r = bs_createdAt s
     \<and> (\<forall>oid. oid \<noteq> orders_seq d \<longrightarrow> lines_of d' oid = lines_of d oid))"

lemma find_prefix: "find P xs = Some x \<Longrightarrow> find P (xs @ ys) = Some x"
  by (induction xs) (auto split: if_splits)

lemma order_added_keeps:
  assumes "db_ok d" and "order_added s d d'" and "seeded_order us prods t d"
  shows "seeded_order us prods t d'"
proof -
  obtain u r where r: "by_key u_email us (bs_buyerEmail t) = Some u"
    "find (\<lambda>r. o_user_id r = u_id u \<and> o_created_at r = bs_createdAt t) (orders d) = Some r"
    using assms(3) by (auto simp: seeded_order_def)
  then have "r \<in> set (orders d)" by (metis find_Some_in)
  then have "lines_of d' (o_id r) = lines_of d (o_id r)"
    using assms(1,2) by (fastforce simp: order_added_def schema_defs)
  moreover have "find (\<lambda>r. o_user_id r = u_id u \<and> o_created_at r = bs_createdAt t) (orders d') = Some r"
    using find_prefix [OF r(2)] assms(2) by (auto simp: order_added_def)
  ultimately show ?thesis using assms(3) r unfolding seeded_order_def by fastforce
qed

lemma save_order_ok:
  assumes "db_ok d" and "0 \<le> t" and "t \<le> int4_max" and "st \<in> set order_statuses"
  shows "db_ok (d\<lparr>orders := map (\<lambda>q. if o_id q = oid then q\<lparr>o_status := st, o_total_cents := t\<rparr> else q) (orders d)\<rparr>)"
proof -
  let ?os = "map (\<lambda>q. if o_id q = oid then q\<lparr>o_status := st, o_total_cents := t\<rparr> else q) (orders d)"
  have ids: "map o_id ?os = map o_id (orders d)" by simp
  then have "o_id ` set ?os = o_id ` set (orders d)" by (metis list.set_map)
  moreover have "\<forall>r \<in> set ?os. 0 \<le> o_total_cents r \<and> o_total_cents r \<le> int4_max \<and> o_status r \<in> set order_statuses
      \<and> o_user_id r \<in> u_id ` set (users d) \<and> o_id r < orders_seq d"
    using assms by (auto simp: schema_defs)
  ultimately show ?thesis using assms(1) ids unfolding schema_defs by (simp del: set_map map_map)
qed

lemma create_order_ok:
  assumes "db_ok d" and "i \<in> u_id ` set (users d)" and "st \<in> set order_statuses"
  shows "db_ok (d\<lparr>orders_seq := orders_seq d + 1, orders := orders d @ [\<lparr>o_id = orders_seq d, o_user_id = i, o_status = st,
    o_total_cents = 0, o_created_at = c\<rparr>]\<rparr>)"
  using assms unfolding schema_defs by (auto simp: int4_max_def)

lemma find_snoc: "find P xs = None \<Longrightarrow> P x \<Longrightarrow> find P (xs @ [x]) = Some x"
  by (induction xs) (auto split: if_splits)

lemma new_lines_total:
  assumes s: "s \<in> set ORDERS" and l: "lines_state s oid d1 (bs_items s) d"
  shows "0 \<le> line_total (lines_of d oid) \<and> line_total (lines_of d oid) \<le> 77400
    \<and> (\<forall>i \<in> set (lines_of d oid). in_int4 (i_quantity i * i_unit_price_cents i))"
proof -
  let ?ls = "lines_of d oid"
  have "\<forall>i \<in> set ?ls. 0 < i_quantity i \<and> i_quantity i \<le> 3 \<and> 0 < i_unit_price_cents i \<and> i_unit_price_cents i \<le> 12900"
    using l by (auto simp: lines_state_def schema_defs lines_of_mem)
  note b = sum_lines_bound [OF this]
  have "int (length ?ls) \<le> 2" using l orders_valid(2) [OF s] by (simp add: lines_state_def)
  then have "int (length ?ls) * 38700 \<le> 2 * 38700" by (rule mult_right_mono) simp
  then show ?thesis using b by (force simp: in_int4_def int4_max_def)
qed

abbreviation new_order :: "user_row \<Rightarrow> order_seed \<Rightarrow> db \<Rightarrow> order_row" where
  "new_order u s d \<equiv> \<lparr>o_id = orders_seq d, o_user_id = u_id u, o_status = bs_status s, o_total_cents = 0,
     o_created_at = bs_createdAt s\<rparr>"

abbreviation with_new_order :: "user_row \<Rightarrow> order_seed \<Rightarrow> db \<Rightarrow> db" where
  "with_new_order u s d \<equiv> d\<lparr>orders_seq := orders_seq d + 1, orders := orders d @ [new_order u s d]\<rparr>"

lemma new_order_saved:
  assumes ok: "db_ok d" and s: "s \<in> set ORDERS" and u: "by_key u_email (users d) (bs_buyerEmail s) = Some u"
    and none: "find (\<lambda>r. o_user_id r = u_id u \<and> o_created_at r = bs_createdAt s) (orders d) = None"
    and l: "lines_state s (orders_seq d) (with_new_order u s d) (bs_items s) d'"
  shows "\<exists>d''. sql_save_order ((new_order u s d)\<lparr>o_total_cents := line_total (lines_of d' (orders_seq d))\<rparr>) d' = (Inr (), d'')
    \<and> db_ok d'' \<and> order_added s d d'' \<and> seeded_order (users d) (products d) s d''"
proof -
  let ?oid = "orders_seq d" and ?t = "line_total (lines_of d' (orders_seq d))"
  let ?r = "(new_order u s d)\<lparr>o_total_cents := ?t\<rparr>"
  let ?d = "d'\<lparr>orders := map (\<lambda>q. if o_id q = ?oid then q\<lparr>o_status := bs_status s, o_total_cents := ?t\<rparr> else q) (orders d')\<rparr>"
  obtain "is" n where d': "d' = (with_new_order u s d)\<lparr>order_items_seq := n, order_items := is\<rparr>"
    using l by (auto simp: lines_state_def)
  note t = new_lines_total [OF s l] and st = orders_valid(1) [OF s]
  have "\<forall>r \<in> set (orders d). o_id r \<noteq> ?oid" using ok by (fastforce simp: schema_defs)
  then have os: "orders ?d = orders d @ [?r]" using d' by (simp add: map_idI)
  have d: "?d = d\<lparr>orders := orders d @ [?r], orders_seq := orders_seq d + 1, order_items := is, order_items_seq := n\<rparr>"
    using d' os by simp
  have lines: "lines_of ?d = lines_of d'" by (simp add: lines_of_def fun_eq_iff)
  have "sql_save_order ?r d' = (Inr (), ?d)"
    using t st by (simp add: sql_save_order_def pg_int4_def in_int4_def int4_max_def)
  moreover have "db_ok ?d"
    by (rule save_order_ok) (use l t st in \<open>auto simp: lines_state_def int4_max_def\<close>)
  moreover have "order_added s d ?d"
    unfolding order_added_def lines
  proof (intro exI conjI allI impI)
    show "lines_of d' oid = lines_of d oid" if "oid \<noteq> ?oid" for oid
      using l that by (simp add: lines_state_def) (simp add: lines_of_def)
  qed (rule d, simp_all)
  moreover have "find (\<lambda>r. o_user_id r = u_id u \<and> o_created_at r = bs_createdAt s) (orders ?d) = Some ?r"
    unfolding os by (rule find_snoc [OF none]) simp
  then have "seeded_order (users d) (products d) s ?d"
    unfolding seeded_order_def lines using u t l by (intro exI [of _ u] exI [of _ ?r]) (simp add: lines_state_def d')
  ultimately show ?thesis by blast
qed

lemma seed_order_new:
  assumes ok: "db_ok d" and s: "s \<in> set ORDERS" and cat: "catalog (users d) (categories d) (products d)"
    and new: "\<forall>r \<in> set (orders d). o_created_at r \<noteq> bs_createdAt s"
  shows "runs (\<lambda>d'. d' = d) (seed_order (users d) (products d) s)
    (\<lambda>_ d'. db_ok d' \<and> order_added s d d' \<and> seeded_order (users d) (products d) s d')"
proof -
  have "distinct (map u_email (users d))" using ok by (simp add: schema_defs)
  then obtain u where u: "by_key u_email (users d) (bs_buyerEmail s) = Some u" "u \<in> set (users d)"
    using catalog_buyer [of "users d"] cat orders_valid(5) [OF s] by (metis catalog_def)
  let ?oid = "orders_seq d" and ?d1 = "with_new_order u s d"
  have none: "find (\<lambda>r. o_user_id r = u_id u \<and> o_created_at r = bs_createdAt s) (orders d) = None"
    using new by (auto simp: find_None_iff)
  have ok1: "db_ok ?d1" by (rule create_order_ok [OF ok]) (use u orders_valid(1) [OF s] in auto)
  have start: "lines_state s ?oid ?d1 [] ?d1"
  proof -
    have "?d1 = ?d1\<lparr>order_items_seq := order_items_seq ?d1, order_items := order_items ?d1\<rparr>" by simp
    moreover have "lines_of ?d1 ?oid = []" using ok by (fastforce simp: lines_of_def schema_defs filter_empty_conv)
    ultimately show ?thesis using ok1 unfolding lines_state_def by (metis empty_iff empty_set le_refl list.size(3))
  qed
  have loop: "runs (lines_state s ?oid ?d1 []) (forE (bs_items s) (seed_item (products d) ?oid)) (\<lambda>_. lines_state s ?oid ?d1 (bs_items s))"
    by (rule runs_forE) (use seed_item_run [OF s, of _ _ _ ?d1] cat in simp)
  show ?thesis
    unfolding seed_order_def u(1) option.case
  proof (intro runs_bindE)
    show "runs (\<lambda>d'. d' = d) (query (sql_find_order (u_id u) (bs_createdAt s))) (\<lambda>f d'. f = None \<and> d' = d)"
      by (rule runs_query) (use none in \<open>simp add: sql_find_order_def\<close>)
    show "runs (\<lambda>d'. f = None \<and> d' = d)
        (case f of None \<Rightarrow> query (sql_create_order (u_id u) (bs_status s) (bs_createdAt s))
         | Some order \<Rightarrow> if o_status order \<noteq> bs_status s
             then let order' = order\<lparr>o_status := bs_status s\<rparr> in bindE (query (sql_save_order order')) (\<lambda>_. returnE order')
             else returnE order)
        (\<lambda>r d'. r = new_order u s d \<and> lines_state s ?oid ?d1 [] d')" for f
      by (rule runs_fact [where F = "f = None"])
        (use u(2) orders_valid(1) [OF s] start in \<open>auto simp: sql_create_order_def Let_def intro!: runs_query\<close>)
    show "runs (\<lambda>d'. r = new_order u s d \<and> lines_state s ?oid ?d1 [] d') (forE (bs_items s) (seed_item (products d) (o_id r)))
        (\<lambda>_ d'. r = new_order u s d \<and> lines_state s ?oid ?d1 (bs_items s) d')" for r
      by (rule runs_fact [where F = "r = new_order u s d"]) (use loop in \<open>auto elim: runs_weaken\<close>)
    show "runs (\<lambda>d'. r = new_order u s d \<and> lines_state s ?oid ?d1 (bs_items s) d') (query (sql_sum_lines (o_id r)))
        (\<lambda>t d'. r = new_order u s d \<and> t = line_total (lines_of d' ?oid) \<and> lines_state s ?oid ?d1 (bs_items s) d')" for r
      by (rule runs_query) (use new_lines_total [OF s] in \<open>auto simp: sql_sum_lines_def list_all_iff\<close>)
    show "runs (\<lambda>d'. r = new_order u s d \<and> t = line_total (lines_of d' ?oid) \<and> lines_state s ?oid ?d1 (bs_items s) d')
        (query (sql_save_order (r\<lparr>o_total_cents := t\<rparr>)))
        (\<lambda>_ d'. db_ok d' \<and> order_added s d d' \<and> seeded_order (users d) (products d) s d')" for r t
      by (rule runs_query) (use new_order_saved [OF ok s u(1) none] in blast)
  qed
qed

section \<open>The first run\<close>

definition counts_of :: "db \<Rightarrow> seed_counts" where
  "counts_of d = \<lparr>sc_users = length (users d), sc_categories = length (categories d), sc_products = length (products d),
     sc_orders = length (orders d), sc_order_items = length (order_items d)\<rparr>"

definition seeded :: "db \<Rightarrow> bool" where
  "seeded d \<longleftrightarrow> catalog (users d) (categories d) (products d)
     \<and> (\<forall>s \<in> set ORDERS. seeded_order (users d) (products d) s d)"

definition seed_times :: "int set" where
  "seed_times = bs_createdAt ` set ORDERS"

lemma runs_counts: "runs P count_rows (\<lambda>c d. c = counts_of d \<and> P d)"
proof (rule runs_any)
  fix d0 assume "P d0"
  then show "runs (\<lambda>d. d = d0) count_rows (\<lambda>c d. c = counts_of d \<and> P d)"
    unfolding runs_def count_rows_def by (auto simp: bindE_def query_run counts_of_def)
qed

lemma products_run:
  "runs (\<lambda>d. db_ok d \<and> users d = us \<and> categories d = gs \<and> orders d = os \<and> (\<forall>s \<in> set USERS. seeded_user s us)
      \<and> (\<forall>s \<in> set CATEGORIES. seeded_category s gs))
    (forE PRODUCTS (seed_product us gs))
    (\<lambda>_ d. db_ok d \<and> users d = us \<and> categories d = gs \<and> orders d = os \<and> catalog us gs (products d))"
  (is "runs ?P _ _")
proof -
  let ?I = "\<lambda>ys d. ?P d \<and> (\<forall>s \<in> set ys. seeded_product us gs s (products d))"
  have "runs (?I []) (forE PRODUCTS (seed_product us gs)) (\<lambda>_. ?I PRODUCTS)"
  proof (rule runs_forE)
    fix ys s zs assume split: "PRODUCTS = ys @ s # zs"
    have s: "s \<in> set PRODUCTS" unfolding split by simp
    have new: "ps_name t \<noteq> ps_name s" if "t \<in> set ys" for t
      using seeds_valid(4) imageI [OF that, of ps_name] unfolding split by auto
    show "runs (?I ys) (seed_product us gs s) (\<lambda>_. ?I (ys @ [s]))"
    proof (rule runs_fact)
      fix d assume d: "?I ys d"
      then have dist: "distinct (map u_email us)" "distinct (map g_slug gs)" by (auto simp: schema_defs)
      have "ps_sellerEmail s \<in> us_email ` set USERS" "ps_categorySlug s \<in> gs_slug ` set CATEGORIES"
        using prices_valid s by auto
      then show "\<exists>u g. by_key u_email us (ps_sellerEmail s) = Some u \<and> by_key g_slug gs (ps_categorySlug s) = Some g"
        using d dist by (fastforce simp: by_key_iff seeded_user_def seeded_category_def)
    next
      assume "\<exists>u g. by_key u_email us (ps_sellerEmail s) = Some u \<and> by_key g_slug gs (ps_categorySlug s) = Some g"
      then obtain u g where ug: "by_key u_email us (ps_sellerEmail s) = Some u" "by_key g_slug gs (ps_categorySlug s) = Some g" by blast
      show "runs (?I ys) (seed_product us gs s) (\<lambda>_. ?I (ys @ [s]))"
        unfolding seed_product_def ug prod.case option.case
      proof (rule runs_query)
        fix d assume d: "?I ys d"
        then obtain ps n where ps: "sql_upsert_product s (u_id u) (g_id g) d = (Inr (), d\<lparr>products_seq := n, products := ps\<rparr>)"
          "db_ok (d\<lparr>products_seq := n, products := ps\<rparr>)" "seeded_product us gs s ps"
          "\<And>t. ps_name t \<noteq> ps_name s \<Longrightarrow> seeded_product us gs t (products d) \<Longrightarrow> seeded_product us gs t ps"
          using sql_upsert_product_run [of d s u g] s ug by auto
        then show "\<exists>a d'. sql_upsert_product s (u_id u) (g_id g) d = (Inr a, d') \<and> ?I (ys @ [s]) d'"
          using d new by auto
      qed
    qed
  qed
  then show ?thesis by (rule runs_weaken) (auto simp: catalog_def)
qed

lemma orders_run:
  "runs (\<lambda>d. db_ok d \<and> users d = us \<and> categories d = gs \<and> products d = ps \<and> catalog us gs ps
      \<and> (\<forall>r \<in> set (orders d). o_created_at r \<notin> seed_times))
    (forE ORDERS (seed_order us ps)) (\<lambda>_ d. db_ok d \<and> seeded d)"
proof -
  let ?I = "\<lambda>ys d. db_ok d \<and> users d = us \<and> categories d = gs \<and> products d = ps \<and> catalog us gs ps
     \<and> (\<forall>s \<in> set ys. seeded_order us ps s d) \<and> (\<forall>r \<in> set (orders d). o_created_at r \<in> seed_times \<longrightarrow> o_created_at r \<in> bs_createdAt ` set ys)"
  have "runs (?I []) (forE ORDERS (seed_order us ps)) (\<lambda>_. ?I ORDERS)"
  proof (rule runs_forE, rule runs_any)
    fix ys s zs d assume split: "ORDERS = ys @ s # zs" and d: "?I ys d"
    have s: "s \<in> set ORDERS" unfolding split by simp
    have "bs_createdAt s \<notin> bs_createdAt ` set ys" using times_distinct unfolding split by auto
    then have "\<forall>r \<in> set (orders d). o_created_at r \<noteq> bs_createdAt s" using d s unfolding seed_times_def by (metis imageI)
    then have "runs (\<lambda>d'. d' = d) (seed_order (users d) (products d) s)
        (\<lambda>_ d'. db_ok d' \<and> order_added s d d' \<and> seeded_order (users d) (products d) s d')"
      using seed_order_new [OF _ s, of d] d by simp
    moreover have "?I (ys @ [s]) d'" if d': "db_ok d'" "order_added s d d'" "seeded_order us ps s d'" for d'
    proof -
      have "\<forall>t \<in> set ys. seeded_order us ps t d'" using order_added_keeps d d'(2) by blast
      then show ?thesis using d d' by (auto simp: order_added_def)
    qed
    ultimately show "runs (\<lambda>d'. d' = d) (seed_order us ps s) (\<lambda>_. ?I (ys @ [s]))"
      using d by (auto elim!: runs_weaken)
  qed
  then show ?thesis by (rule runs_weaken) (auto simp: seeded_def)
qed

lemma seed_first:
  "runs (\<lambda>d. db_ok d \<and> (\<forall>r \<in> set (orders d). o_created_at r \<notin> seed_times)) seed
    (\<lambda>c d. c = counts_of d \<and> db_ok d \<and> seeded d)"
  unfolding seed_def
proof (intro runs_bindE)
  let ?T = "\<lambda>d. \<forall>r \<in> set (orders d). o_created_at r \<notin> seed_times"
  let ?U = "\<lambda>d. db_ok d \<and> ?T d \<and> (\<forall>s \<in> set USERS. seeded_user s (users d))"
  let ?C = "\<lambda>d. ?U d \<and> (\<forall>s \<in> set CATEGORIES. seeded_category s (categories d))"
  let ?P = "\<lambda>us gs d. db_ok d \<and> users d = us \<and> categories d = gs \<and> ?T d \<and> catalog us gs (products d)"
  show "runs (\<lambda>d. db_ok d \<and> ?T d) (query (sql_upsert_users USERS)) (\<lambda>_. ?U)"
    by (rule runs_query) (use sql_upsert_users_run in fastforce)
  show "runs ?U (query (sql_upsert_categories CATEGORIES)) (\<lambda>_. ?C)"
    by (rule runs_query) (use sql_upsert_categories_run in fastforce)
  show "runs ?C (query sql_users) (\<lambda>us d. ?C d \<and> users d = us)"
    by (rule runs_query) (simp add: sql_users_def)
  show "runs (\<lambda>d. ?C d \<and> users d = us) (query sql_categories) (\<lambda>gs d. ?C d \<and> users d = us \<and> categories d = gs)" for us
    by (rule runs_query) (auto simp: sql_categories_def)
  show "runs (\<lambda>d. ?C d \<and> users d = us \<and> categories d = gs) (forE PRODUCTS (seed_product us gs)) (\<lambda>_. ?P us gs)" for us gs
    by (rule runs_any, rule runs_weaken [OF products_run]) auto
  show "runs (?P us gs) (query sql_products) (\<lambda>ps d. ?P us gs d \<and> products d = ps)" for us gs
    by (rule runs_query) (simp add: sql_products_def)
  show "runs (\<lambda>d. ?P us gs d \<and> products d = ps) (forE ORDERS (seed_order us ps)) (\<lambda>_ d. db_ok d \<and> seeded d)" for us gs ps
    by (rule runs_weaken [OF orders_run [of us gs]]) auto
qed (rule runs_counts)

end
