(* ===== verification/SeedAgain.thy ===== *)
theory SeedAgain
  imports SeedFirst
begin

text \<open>
  The second run of the seed script, and both runs together.
\<close>

section \<open>The second run\<close>

text \<open>On a seeded database every statement of the script only draws from the sequences.\<close>

definition unmoved :: "db \<Rightarrow> db \<Rightarrow> bool" where
  "unmoved d0 d \<longleftrightarrow> tables d = tables d0 \<and> db_ok d"

lemma unmoved_step: "unmoved d0 d \<Longrightarrow> tables d' = tables d \<Longrightarrow> seqs_le d d' \<Longrightarrow> unmoved d0 d'"
  using table_pred_db_ok unfolding unmoved_def table_pred_def by metis

lemma unmoved_tables:
  "unmoved d0 d \<Longrightarrow> users d = users d0 \<and> categories d = categories d0 \<and> products d = products d0
     \<and> orders d = orders d0 \<and> order_items d = order_items d0 \<and> lines_of d = lines_of d0 \<and> counts_of d = counts_of d0"
  by (auto simp: unmoved_def tables_eq_iff lines_of_def counts_of_def fun_eq_iff)

lemma upsert_user_again:
  assumes "db_ok d" and "seeded_user s (users d)"
  shows "upsert_user s d = d\<lparr>users_seq := users_seq d + 1\<rparr>"
proof -
  obtain u where u: "u \<in> set (users d)" "u_email u = us_email s" "u_full_name u = us_fullName s" "u_role u = us_role s"
    "u_balance_cents u = us_balanceCents s" using assms(2) by (auto simp: seeded_user_def)
  have "v\<lparr>u_full_name := us_fullName s, u_role := us_role s, u_balance_cents := us_balanceCents s\<rparr> = v"
    if "v \<in> set (users d)" "u_email v = us_email s" for v
  proof -
    have "v = u" using assms(1) u(1,2) that by (auto simp: schema_defs distinct_map inj_on_def)
    then show ?thesis by (simp add: u(3-5) [symmetric])
  qed
  with u(1,2) have "upsert (\<lambda>u. u_email u = us_email s)
      (\<lambda>u. u\<lparr>u_full_name := us_fullName s, u_role := us_role s, u_balance_cents := us_balanceCents s\<rparr>) new (users d) = users d" for new
    by (intro upsert_fixed) blast+
  then show ?thesis by (simp add: upsert_user_def)
qed

lemma upsert_users_again:
  assumes "unmoved d0 d" and "\<forall>s \<in> set rows. seeded_user s (users d0)"
  shows "unmoved d0 (fold upsert_user rows d)"
  using assms
proof (induction rows arbitrary: d)
  case (Cons s rows)
  have "upsert_user s d = d\<lparr>users_seq := users_seq d + 1\<rparr>"
    using upsert_user_again Cons.prems unmoved_tables [OF Cons.prems(1)] by (auto simp: unmoved_def)
  then have "unmoved d0 (upsert_user s d)" by (intro unmoved_step [OF Cons.prems(1)]) (simp_all add: tables_def seqs_le_def)
  then show ?case using Cons by simp
qed simp

lemma upsert_category_again:
  assumes "db_ok d" and "seeded_category s (categories d)"
  shows "upsert_category s d = d\<lparr>categories_seq := categories_seq d + 1\<rparr>"
proof -
  obtain g where g: "g \<in> set (categories d)" "g_slug g = gs_slug s" "g_title g = gs_title s"
    using assms(2) by (auto simp: seeded_category_def)
  have "h\<lparr>g_title := gs_title s\<rparr> = h" if "h \<in> set (categories d)" "g_slug h = gs_slug s" for h
  proof -
    have "h = g" using assms(1) g(1,2) that by (auto simp: schema_defs distinct_map inj_on_def)
    then show ?thesis by (simp add: g(3) [symmetric])
  qed
  with g(1,2) have "upsert (\<lambda>g. g_slug g = gs_slug s) (\<lambda>g. g\<lparr>g_title := gs_title s\<rparr>) new (categories d) = categories d" for new
    by (intro upsert_fixed) blast+
  then show ?thesis by (simp add: upsert_category_def)
qed

lemma upsert_categories_again:
  assumes "unmoved d0 d" and "\<forall>s \<in> set rows. seeded_category s (categories d0)"
  shows "unmoved d0 (fold upsert_category rows d)"
  using assms
proof (induction rows arbitrary: d)
  case (Cons s rows)
  have "upsert_category s d = d\<lparr>categories_seq := categories_seq d + 1\<rparr>"
    using upsert_category_again Cons.prems unmoved_tables [OF Cons.prems(1)] by (auto simp: unmoved_def)
  then have "unmoved d0 (upsert_category s d)" by (intro unmoved_step [OF Cons.prems(1)]) (simp_all add: tables_def seqs_le_def)
  then show ?case using Cons by simp
qed simp

lemma seed_product_again:
  assumes s: "s \<in> set PRODUCTS" and seeded: "seeded_product (users d0) (categories d0) s (products d0)"
  shows "runs (unmoved d0) (seed_product (users d0) (categories d0) s) (\<lambda>_. unmoved d0)"
proof -
  obtain u g p where ug: "by_key u_email (users d0) (ps_sellerEmail s) = Some u" "by_key g_slug (categories d0) (ps_categorySlug s) = Some g"
    and p: "p \<in> set (products d0)" "p_name p = ps_name s" "p_description p = ps_description s" "p_price_cents p = ps_priceCents s"
      "p_stock p = ps_stock s" "p_seller_id p = u_id u" "p_category_id p = Some (g_id g)"
    using seeded by (auto simp: seeded_product_def)
  show ?thesis unfolding seed_product_def ug prod.case option.case
  proof (rule runs_query)
    fix d assume d: "unmoved d0 d"
    note t = unmoved_tables [OF d]
    have ok: "db_ok d" using d by (simp add: unmoved_def)
    have "q\<lparr>p_description := ps_description s, p_price_cents := ps_priceCents s, p_stock := ps_stock s,
        p_seller_id := u_id u, p_category_id := Some (g_id g)\<rparr> = q" if "q \<in> set (products d)" "p_name q = ps_name s" for q
    proof -
      have "p \<in> set (products d)" using p(1) t by simp
      then have "q = p" using ok p(2) that by (auto simp: schema_defs distinct_map inj_on_def)
      then show ?thesis by (simp add: p(3-7) [symmetric])
    qed
    moreover have "\<exists>q \<in> set (products d). p_name q = ps_name s" using p(1,2) t by auto
    ultimately have "upsert (\<lambda>p. p_name p = ps_name s) (\<lambda>p. p\<lparr>p_description := ps_description s, p_price_cents := ps_priceCents s,
        p_stock := ps_stock s, p_seller_id := u_id u, p_category_id := Some (g_id g)\<rparr>) new (products d) = products d" for new
      by (intro upsert_fixed) blast+
    moreover have "\<exists>ps n. sql_upsert_product s (u_id u) (g_id g) d = (Inr (), d\<lparr>products_seq := n, products := ps\<rparr>)"
      using sql_upsert_product_run [OF ok s] ug t by (metis (no_types))
    ultimately have "sql_upsert_product s (u_id u) (g_id g) d = (Inr (), d\<lparr>products_seq := products_seq d + 1\<rparr>)"
      by (auto simp: sql_upsert_product_def split: if_splits)
    moreover have "unmoved d0 (d\<lparr>products_seq := products_seq d + 1\<rparr>)"
      by (rule unmoved_step [OF d]) (simp_all add: tables_def seqs_le_def)
    ultimately show "\<exists>a d'. sql_upsert_product s (u_id u) (g_id g) d = (Inr a, d') \<and> unmoved d0 d'" by blast
  qed
qed

lemma upsert_item_again:
  assumes d: "unmoved d0 d" and i: "i \<in> set (lines_of d0 oid)"
  shows "sql_upsert_item oid (i_product_id i) (i_quantity i) (i_unit_price_cents i) d
    = (Inr (), d\<lparr>order_items_seq := order_items_seq d + 1\<rparr>)"
proof -
  have ok: "db_ok d" and i': "i \<in> set (order_items d)" "i_order_id i = oid"
    using d i unmoved_tables [OF d] by (auto simp: unmoved_def lines_of_mem)
  have "j\<lparr>i_quantity := i_quantity i, i_unit_price_cents := i_unit_price_cents i\<rparr> = j"
    if "j \<in> set (order_items d)" "i_order_id j = oid \<and> i_product_id j = i_product_id i" for j
  proof -
    have "inj_on (\<lambda>i. (i_order_id i, i_product_id i)) (set (order_items d))" using ok by (simp add: schema_defs distinct_map)
    then have "j = i" by (rule inj_onD) (use that i' in auto)
    then show ?thesis by simp
  qed
  with i' have "upsert (\<lambda>j. i_order_id j = oid \<and> i_product_id j = i_product_id i)
      (\<lambda>j. j\<lparr>i_quantity := i_quantity i, i_unit_price_cents := i_unit_price_cents i\<rparr>) new (order_items d) = order_items d" for new
    by (intro upsert_fixed) blast+
  moreover have "0 < i_quantity i \<and> 0 < i_unit_price_cents i \<and> oid \<in> o_id ` set (orders d) \<and> i_product_id i \<in> p_id ` set (products d)"
    using ok i' by (auto simp: schema_defs)
  ultimately show ?thesis by (simp add: sql_upsert_item_def)
qed

lemma save_order_again:
  assumes ok: "db_ok d" and r: "r \<in> set (orders d)"
  shows "sql_save_order r d = (Inr (), d)"
proof -
  have "0 \<le> o_total_cents r \<and> o_total_cents r \<le> int4_max \<and> o_status r \<in> set order_statuses" using ok r by (auto simp: schema_defs)
  moreover have "map (\<lambda>q. if o_id q = o_id r then q\<lparr>o_status := o_status r, o_total_cents := o_total_cents r\<rparr> else q) (orders d) = orders d"
  proof (rule map_idI)
    fix q assume q: "q \<in> set (orders d)"
    have "inj_on o_id (set (orders d))" using ok by (simp add: schema_defs distinct_map)
    then have "o_id q = o_id r \<Longrightarrow> q = r" by (rule inj_onD) (use q r in auto)
    then show "(if o_id q = o_id r then q\<lparr>o_status := o_status r, o_total_cents := o_total_cents r\<rparr> else q) = q" by auto
  qed
  ultimately show ?thesis by (simp add: sql_save_order_def pg_int4_def in_int4_def int4_max_def)
qed

lemma seed_order_again:
  assumes "seeded_order (users d0) (products d0) s d0"
  shows "runs (unmoved d0) (seed_order (users d0) (products d0) s) (\<lambda>_. unmoved d0)"
proof -
  obtain u r where u: "by_key u_email (users d0) (bs_buyerEmail s) = Some u"
    and r: "find (\<lambda>r. o_user_id r = u_id u \<and> o_created_at r = bs_createdAt s) (orders d0) = Some r"
      "o_status r = bs_status s" "o_total_cents r = line_total (lines_of d0 (o_id r))"
      "\<forall>i \<in> set (lines_of d0 (o_id r)). in_int4 (i_quantity i * i_unit_price_cents i)"
    and items: "\<forall>it \<in> set (bs_items s). \<exists>p. by_key p_name (products d0) (fst it) = Some p
      \<and> (\<exists>i \<in> set (lines_of d0 (o_id r)). i_product_id i = p_id p \<and> i_quantity i = snd it \<and> i_unit_price_cents i = p_price_cents p)"
    using assms unfolding seeded_order_def by blast
  have r_in: "r \<in> set (orders d0)" using find_Some_in [OF r(1)] by simp
  have item: "runs (unmoved d0) (seed_item (products d0) (o_id r) it) (\<lambda>_. unmoved d0)" if "it \<in> set (bs_items s)" for it
  proof -
    obtain p i where p: "by_key p_name (products d0) (fst it) = Some p" and i: "i \<in> set (lines_of d0 (o_id r))"
      "i_product_id i = p_id p" "i_quantity i = snd it" "i_unit_price_cents i = p_price_cents p" using items \<open>it \<in> _\<close> by blast
    show ?thesis unfolding seed_item_def p option.case i(2-4) [symmetric]
    proof (rule runs_query)
      fix d assume d: "unmoved d0 d"
      have "unmoved d0 (d\<lparr>order_items_seq := order_items_seq d + 1\<rparr>)"
        by (rule unmoved_step [OF d]) (simp_all add: tables_def seqs_le_def)
      then show "\<exists>a d'. sql_upsert_item (o_id r) (i_product_id i) (i_quantity i) (i_unit_price_cents i) d = (Inr a, d') \<and> unmoved d0 d'"
        using upsert_item_again [OF d i(1)] by blast
    qed
  qed
  show ?thesis unfolding seed_order_def u option.case
  proof (intro runs_bindE)
    show "runs (unmoved d0) (query (sql_find_order (u_id u) (bs_createdAt s))) (\<lambda>f d. f = Some r \<and> unmoved d0 d)"
      by (rule runs_query) (use r(1) unmoved_tables in \<open>simp add: sql_find_order_def\<close>)
    show "runs (\<lambda>d. f = Some r \<and> unmoved d0 d)
        (case f of None \<Rightarrow> query (sql_create_order (u_id u) (bs_status s) (bs_createdAt s))
         | Some order \<Rightarrow> if o_status order \<noteq> bs_status s
             then let order' = order\<lparr>o_status := bs_status s\<rparr> in bindE (query (sql_save_order order')) (\<lambda>_. returnE order')
             else returnE order)
        (\<lambda>q d. q = r \<and> unmoved d0 d)" for f
      by (rule runs_fact [where F = "f = Some r"]) (use r(2) in \<open>auto intro!: runs_returnE\<close>)
    show "runs (\<lambda>d. q = r \<and> unmoved d0 d) (forE (bs_items s) (seed_item (products d0) (o_id q))) (\<lambda>_ d. q = r \<and> unmoved d0 d)" for q
    proof (rule runs_fact [where F = "q = r"])
      assume q: "q = r"
      show "runs (\<lambda>d. q = r \<and> unmoved d0 d) (forE (bs_items s) (seed_item (products d0) (o_id q))) (\<lambda>_ d. q = r \<and> unmoved d0 d)"
        unfolding q by (simp, rule runs_forE_each, rule item)
    qed simp
    show "runs (\<lambda>d. q = r \<and> unmoved d0 d) (query (sql_sum_lines (o_id q)))
        (\<lambda>t d. q = r \<and> t = o_total_cents r \<and> unmoved d0 d)" for q
    proof (rule runs_query)
      fix d assume d: "q = r \<and> unmoved d0 d"
      then have "lines_of d = lines_of d0" using unmoved_tables by blast
      then show "\<exists>t d'. sql_sum_lines (o_id q) d = (Inr t, d') \<and> q = r \<and> t = o_total_cents r \<and> unmoved d0 d'"
        using d r(3,4) by (simp add: sql_sum_lines_def list_all_iff)
    qed
    show "runs (\<lambda>d. q = r \<and> t = o_total_cents r \<and> unmoved d0 d) (query (sql_save_order (q\<lparr>o_total_cents := t\<rparr>))) (\<lambda>_. unmoved d0)" for q t
    proof (rule runs_query)
      fix d assume d: "q = r \<and> t = o_total_cents r \<and> unmoved d0 d"
      then have "orders d = orders d0" "db_ok d" using unmoved_tables [of d0 d] by (simp_all add: unmoved_def)
      then have "sql_save_order r d = (Inr (), d)" using save_order_again r_in by simp
      then show "\<exists>a d'. sql_save_order (q\<lparr>o_total_cents := t\<rparr>) d = (Inr a, d') \<and> unmoved d0 d'" using d by simp
    qed
  qed
qed

lemma seed_second:
  assumes s: "seeded d0" and ok: "db_ok d0"
  shows "runs (unmoved d0) seed (\<lambda>c d. c = counts_of d0 \<and> unmoved d0 d)"
proof -
  note cat = s [unfolded seeded_def catalog_def]
  let ?U = "\<lambda>us d. us = users d0 \<and> unmoved d0 d"
  let ?G = "\<lambda>us gs d. us = users d0 \<and> gs = categories d0 \<and> unmoved d0 d"
  let ?P = "\<lambda>us ps d. us = users d0 \<and> ps = products d0 \<and> unmoved d0 d"
  have "runs (unmoved d0) seed (\<lambda>c d. c = counts_of d \<and> unmoved d0 d)"
    unfolding seed_def
  proof (intro runs_bindE)
    show "runs (unmoved d0) (query (sql_upsert_users USERS)) (\<lambda>_. unmoved d0)"
      by (rule runs_query) (use seeds_valid upsert_users_again cat in \<open>auto simp: sql_upsert_users_def\<close>)
    show "runs (unmoved d0) (query (sql_upsert_categories CATEGORIES)) (\<lambda>_. unmoved d0)"
      by (rule runs_query) (use seeds_valid upsert_categories_again cat in \<open>auto simp: sql_upsert_categories_def\<close>)
    show "runs (unmoved d0) (query sql_users) ?U"
      by (rule runs_query) (use unmoved_tables in \<open>auto simp: sql_users_def\<close>)
    show "runs (?U us) (query sql_categories) (?G us)" for us
      by (rule runs_query) (use unmoved_tables in \<open>auto simp: sql_categories_def\<close>)
    show "runs (?G us gs) (forE PRODUCTS (seed_product us gs)) (\<lambda>_. ?U us)" for us gs
    proof (rule runs_fact [where F = "us = users d0 \<and> gs = categories d0"])
      assume us: "us = users d0 \<and> gs = categories d0"
      have "runs (unmoved d0) (forE PRODUCTS (seed_product (users d0) (categories d0))) (\<lambda>_. unmoved d0)"
        by (rule runs_forE_each, rule seed_product_again) (use cat in blast)+
      then show "runs (?G us gs) (forE PRODUCTS (seed_product us gs)) (\<lambda>_. ?U us)" using us by simp
    qed simp
    show "runs (?U us) (query sql_products) (?P us)" for us
      by (rule runs_query) (use unmoved_tables in \<open>auto simp: sql_products_def\<close>)
    show "runs (?P us ps) (forE ORDERS (seed_order us ps)) (\<lambda>_. unmoved d0)" for us ps
    proof (rule runs_fact [where F = "us = users d0 \<and> ps = products d0"])
      assume us: "us = users d0 \<and> ps = products d0"
      have "runs (unmoved d0) (forE ORDERS (seed_order (users d0) (products d0))) (\<lambda>_. unmoved d0)"
        by (rule runs_forE_each, rule seed_order_again) (use cat in blast)
      then show "runs (?P us ps) (forE ORDERS (seed_order us ps)) (\<lambda>_. unmoved d0)" using us by simp
    qed simp
  qed (rule runs_counts)
  then show ?thesis by (rule runs_weaken) (use unmoved_tables in auto)
qed


definition migrated :: world where
  "migrated = \<lparr>w_db = \<lparr>users = [], categories = [], products = [], orders = [], order_items = [], jobs = [], outbox = [],
     idempotency_keys = [], order_placed_effects = [], order_placed_deliveries = [], processed_messages = [],
     users_seq = 1, categories_seq = 1, products_seq = 1, orders_seq = 1, order_items_seq = 1, jobs_seq = 1,
     outbox_seq = 1, deliveries_seq = 1, now = 0\<rparr>, w_rng = 0, w_sched = []\<rparr>"


end
