(* ===== verification/Report.thy ===== *)
theory Report
  imports LoneRun
begin

text \<open>
  \<open>src/report.ts\<close>: the revenue by category over the paid, shipped and delivered orders. The statement is
  the nested loop of its joins, then the groups in the order of their first row, then a stable sort; rows
  of equal revenue come in no order the statement fixes. \<open>quantity * unit_price_cents\<close> is an \<open>integer\<close> and
  overflows with 22003, the sum is a \<open>bigint\<close>. The amount in hryvnias is exact below \<open>2^52\<close> cents, where
  \<open>toFixed(2)\<close> of the nearest double is the decimal notation of the quotient.
\<close>

record revenue_row =
  v_slug :: string
  v_title :: string
  v_revenue_cents :: int

definition report_statuses :: "string list" where
  "report_statuses = [''paid'', ''shipped'', ''delivered'']"

definition left_join_category :: "category_row list \<Rightarrow> product_row \<Rightarrow> category_row option list" where
  "left_join_category gs p =
     (case filter (\<lambda>g. p_category_id p = Some (g_id g)) gs of [] \<Rightarrow> [None] | gs' \<Rightarrow> map Some gs')"

definition report_joins :: "db \<Rightarrow> order_item_row \<Rightarrow> (category_row option \<times> order_item_row) list" where
  "report_joins d i =
     concat (map (\<lambda>p. concat (map (\<lambda>g.
        map (\<lambda>r. (g, i)) (filter (\<lambda>r. o_id r = i_order_id i \<and> o_status r \<in> set report_statuses) (orders d)))
       (left_join_category (categories d) p)))
      (filter (\<lambda>p. p_id p = i_product_id i) (products d)))"

definition coalesce_slug :: "category_row option \<Rightarrow> string" where
  "coalesce_slug g = (case g of None \<Rightarrow> ''uncategorized'' | Some c \<Rightarrow> g_slug c)"

definition coalesce_title :: "category_row option \<Rightarrow> string" where
  "coalesce_title g = (case g of None \<Rightarrow> ''Uncategorized'' | Some c \<Rightarrow> g_title c)"

definition group_key :: "category_row option \<times> order_item_row \<Rightarrow> string \<times> string" where
  "group_key j = (coalesce_slug (fst j), coalesce_title (fst j))"

definition line_cents :: "order_item_row \<Rightarrow> int" where
  "line_cents i = i_quantity i * i_unit_price_cents i"

definition revenue_group :: "(category_row option \<times> order_item_row) list \<Rightarrow> string \<times> string \<Rightarrow> revenue_row" where
  "revenue_group js k = \<lparr>v_slug = fst k, v_title = snd k,
     v_revenue_cents = (\<Sum>j\<leftarrow>filter (\<lambda>j. group_key j = k) js. line_cents (snd j))\<rparr>"

definition sql_revenue :: "db \<Rightarrow> (thrown + revenue_row list) \<times> db" where
  "sql_revenue d =
     (let js = concat (map (report_joins d) (order_items d))
      in if list_all (\<lambda>j. in_int4 (line_cents (snd j))) js
         then (Inr (sort_key (\<lambda>r. - v_revenue_cents r) (map (revenue_group js) (remdups (map group_key js)))), d)
         else (Inl (PgError ''22003'' ''integer out of range''), d))"

definition toFixed2 :: "nat \<Rightarrow> string" where
  "toFixed2 cents = show_nat (cents div 100) @ ''.'' @ show_nat (cents mod 100 div 10) @ show_nat (cents mod 10)"

definition revenue_line :: "revenue_row \<Rightarrow> string" where
  "revenue_line r = (let cents = nat (v_revenue_cents r) in
     v_slug r @ [CHR 0x09] @ v_title r @ [CHR 0x09] @ show_nat cents @ '' cents ('' @ toFixed2 cents @ '' UAH)'')"

definition report :: "(world, thrown, string list) exec" where
  "report =
     bindE (query sql_revenue) (\<lambda>rows.
     returnE ([''revenue by category (paid|shipped|delivered)'',
       ''uncategorized = products.category_id IS NULL (ON DELETE SET NULL)''] @ map revenue_line rows))"

section \<open>What the rows add up to\<close>

lemma left_join_single: "distinct (map g_id gs) \<Longrightarrow> length (left_join_category gs p) = 1"
proof -
  assume "distinct (map g_id gs)"
  then have "length (filter (\<lambda>g. p_category_id p = Some (g_id g)) gs) \<le> 1"
    by (induction gs) (auto simp: filter_empty_conv rev_image_eqI)
  then show ?thesis by (auto simp: left_join_category_def split: list.splits)
qed

text \<open>A line is joined once when its order counts, with the category of its product, and not at all otherwise.\<close>

definition counted :: "order_row \<Rightarrow> bool" where
  "counted r \<longleftrightarrow> o_status r \<in> set report_statuses"

lemma report_joins_line:
  assumes ok: "db_ok d" and i: "i \<in> set (order_items d)" and r: "r \<in> set (orders d)" "o_id r = i_order_id i"
  obtains p g where "p \<in> set (products d)" "p_id p = i_product_id i" "left_join_category (categories d) p = [g]"
    "report_joins d i = (if counted r then [(g, i)] else [])"
proof -
  obtain p where p: "p \<in> set (products d)" "p_id p = i_product_id i" using ok i by (fastforce simp: schema_defs)
  then have fp: "filter (\<lambda>p. p_id p = i_product_id i) (products d) = [p]"
    using filter_key_unique [of p_id "products d" p] ok by (simp add: schema_defs)
  have "filter (\<lambda>q. o_id q = i_order_id i) (orders d) = [r]"
    using filter_key_unique [of o_id "orders d" r] ok r by (simp add: schema_defs)
  then have fr: "filter (\<lambda>q. o_id q = i_order_id i \<and> o_status q \<in> set report_statuses) (orders d) = (if counted r then [r] else [])"
    by (simp add: filter_filter [symmetric] conj_commute counted_def)
  have "length (left_join_category (categories d) p) = 1" using ok by (intro left_join_single) (simp add: schema_defs)
  then obtain g where "left_join_category (categories d) p = [g]" by (metis One_nat_def length_0_conv length_Suc_conv)
  then show ?thesis using that p by (simp add: report_joins_def fp fr)
qed

lemma joined_sum:
  assumes ok: "db_ok d"
  shows "(\<Sum>j\<leftarrow>concat (map (report_joins d) (order_items d)). line_cents (snd j))
    = (\<Sum>r\<leftarrow>filter counted (orders d). line_total (lines_of d (o_id r)))"
proof -
  let ?c = "\<lambda>i r. if o_id r = i_order_id i then (if counted r then line_cents i else 0) else 0"
  have "(\<Sum>j\<leftarrow>report_joins d i. line_cents (snd j)) = (\<Sum>r\<leftarrow>orders d. ?c i r)" if i: "i \<in> set (order_items d)" for i
  proof -
    obtain r where r: "r \<in> set (orders d)" "o_id r = i_order_id i" using ok i by (fastforce simp: schema_defs)
    have dist: "distinct (orders d)" and "inj_on o_id (set (orders d))" using ok by (simp_all add: schema_defs distinct_map)
    then have inj: "o_id q = o_id r \<longleftrightarrow> q = r" if "q \<in> set (orders d)" for q using that r(1) by (rule_tac inj_on_eq_iff)
    have "(\<Sum>q\<leftarrow>orders d. ?c i q) = (\<Sum>q\<leftarrow>orders d. if q = r then (if counted r then line_cents i else 0) else 0)"
      by (rule arg_cong [of _ _ sum_list], rule map_cong) (use r(2) inj in \<open>simp_all add: r(2) [symmetric]\<close>)
    also have "\<dots> = (if counted r then line_cents i else 0)" using sum_list_pick [OF dist r(1)] by simp
    also have "\<dots> = (\<Sum>j\<leftarrow>report_joins d i. line_cents (snd j))" by (rule report_joins_line [OF ok i r]) simp
    finally show ?thesis ..
  qed
  then have "(\<Sum>i\<leftarrow>order_items d. \<Sum>j\<leftarrow>report_joins d i. line_cents (snd j)) = (\<Sum>i\<leftarrow>order_items d. \<Sum>r\<leftarrow>orders d. ?c i r)"
    by (simp cong: map_cong)
  also have "\<dots> = (\<Sum>r\<leftarrow>orders d. \<Sum>i\<leftarrow>order_items d. ?c i r)" by (rule sum_list_swap)
  also have "\<dots> = (\<Sum>r\<leftarrow>orders d. if counted r then line_total (lines_of d (o_id r)) else 0)"
  proof (intro arg_cong [of _ _ sum_list] map_cong refl)
    fix r :: order_row
    show "(\<Sum>i\<leftarrow>order_items d. ?c i r) = (if counted r then line_total (lines_of d (o_id r)) else 0)"
      by (cases "counted r") (simp_all add: line_total_def lines_of_def line_cents_def sum_list_map_filter' eq_commute [of "o_id r"] cong: if_cong)
  qed
  also have "\<dots> = (\<Sum>r\<leftarrow>filter counted (orders d). line_total (lines_of d (o_id r)))" by (simp add: sum_list_map_filter')
  finally show ?thesis by (simp add: sum_list_concat_map comp_def)
qed

text \<open>The rows as a reader of the report takes them: a counted line belongs to the category of its product.\<close>

definition line_category :: "db \<Rightarrow> order_item_row \<Rightarrow> category_row option" where
  "line_category d i = Option.bind (find (\<lambda>p. p_id p = i_product_id i) (products d)) (\<lambda>p.
     Option.bind (p_category_id p) (\<lambda>c. find (\<lambda>g. g_id g = c) (categories d)))"

definition line_group :: "db \<Rightarrow> order_item_row \<Rightarrow> string \<times> string" where
  "line_group d i = (case line_category d i of None \<Rightarrow> (''uncategorized'', ''Uncategorized'') | Some g \<Rightarrow> (g_slug g, g_title g))"

definition counted_lines :: "db \<Rightarrow> order_item_row list" where
  "counted_lines d = filter (\<lambda>i. list_ex (\<lambda>r. o_id r = i_order_id i \<and> counted r) (orders d)) (order_items d)"

lemma left_join_find:
  assumes "distinct (map g_id gs)" and "left_join_category gs p = [g]"
  shows "g = Option.bind (p_category_id p) (\<lambda>c. find (\<lambda>g. g_id g = c) gs)"
proof (cases "filter (\<lambda>g. p_category_id p = Some (g_id g)) gs")
  case Nil
  then have "g = None" using assms(2) by (simp add: left_join_category_def)
  moreover have "Option.bind (p_category_id p) (\<lambda>c. find (\<lambda>g. g_id g = c) gs) = None"
    using Nil by (cases "p_category_id p") (auto simp: find_None_iff filter_empty_conv)
  ultimately show ?thesis by simp
next
  case (Cons h hs)
  then have "h \<in> set gs" "p_category_id p = Some (g_id h)" using filter_eq_ConsD [OF Cons] by auto
  then have "find (\<lambda>g. g_id g = g_id h) gs = Some h" using find_unique [OF assms(1), of "\<lambda>g. g_id g = g_id h" "g_id h" h] by simp
  then show ?thesis using assms(2) Cons \<open>p_category_id p = _\<close> by (simp add: left_join_category_def)
qed

lemma joins_counted:
  assumes ok: "db_ok d" and "set is \<subseteq> set (order_items d)"
  shows "concat (map (report_joins d) is)
    = map (\<lambda>i. (line_category d i, i)) (filter (\<lambda>i. list_ex (\<lambda>r. o_id r = i_order_id i \<and> counted r) (orders d)) is)"
  using assms(2)
proof (induction "is")
  case (Cons i "is")
  then have i: "i \<in> set (order_items d)" by simp
  obtain r where r: "r \<in> set (orders d)" "o_id r = i_order_id i" using ok i by (fastforce simp: schema_defs)
  obtain p g where p: "p \<in> set (products d)" "p_id p = i_product_id i" and g: "left_join_category (categories d) p = [g]"
    and j: "report_joins d i = (if counted r then [(g, i)] else [])" by (rule report_joins_line [OF ok i r])
  have "find (\<lambda>p. p_id p = i_product_id i) (products d) = Some p"
    using find_unique [of p_id "products d" "\<lambda>p. p_id p = i_product_id i" "i_product_id i" p] ok p by (simp add: schema_defs)
  moreover have "distinct (map g_id (categories d))" using ok by (simp add: schema_defs)
  ultimately have "line_category d i = g" using left_join_find [OF _ g] by (simp add: line_category_def)
  moreover have "list_ex (\<lambda>r. o_id r = i_order_id i \<and> counted r) (orders d) = counted r"
  proof -
    have "distinct (map o_id (orders d))" using ok by (simp add: schema_defs)
    then show ?thesis unfolding list_ex_iff using r distinct_keyD by metis
  qed
  ultimately show ?case using j Cons by simp
qed simp

lemma counted_in_int4:
  assumes ok: "db_ok d" and t: "totals_ok d" and i: "i \<in> set (order_items d)"
  shows "0 < line_cents i \<and> in_int4 (line_cents i)"
proof -
  obtain r where r: "r \<in> set (orders d)" "o_id r = i_order_id i" using ok i by (fastforce simp: schema_defs)
  have pos: "0 < line_cents j" if "j \<in> set (order_items d)" for j using ok that by (auto simp: schema_defs line_cents_def)
  have "line_cents i \<le> (\<Sum>j\<leftarrow>lines_of d (o_id r). line_cents j)"
    by (rule member_le_sum_list) (use i r pos in \<open>auto simp: lines_of_def less_imp_le\<close>)
  also have "\<dots> = o_total_cents r" using t r(1) by (simp add: totals_ok_def line_total_def line_cents_def)
  also have "\<dots> \<le> int4_max" using ok r(1) by (auto simp: schema_defs)
  finally show ?thesis using pos [OF i] by (simp add: in_int4_def int4_max_def)
qed

definition joined_lines :: "db \<Rightarrow> (category_row option \<times> order_item_row) list" where
  "joined_lines d = concat (map (report_joins d) (order_items d))"

definition revenue_rows :: "db \<Rightarrow> revenue_row list" where
  "revenue_rows d = sort_key (\<lambda>r. - v_revenue_cents r) (map (revenue_group (joined_lines d)) (remdups (map group_key (joined_lines d))))"

lemma joined_counted: "db_ok d \<Longrightarrow> joined_lines d = map (\<lambda>i. (line_category d i, i)) (counted_lines d)"
  unfolding joined_lines_def counted_lines_def by (rule joins_counted) simp_all

lemma group_key_line: "group_key (line_category d i, i) = line_group d i"
  by (simp add: group_key_def coalesce_slug_def coalesce_title_def line_group_def split: option.split)

lemma revenue_rows_names: "mset (map (\<lambda>v. (v_slug v, v_title v)) (revenue_rows d)) = mset (remdups (map group_key (joined_lines d)))"
proof -
  have "map (\<lambda>v. (v_slug v, v_title v)) (map (revenue_group js) ks) = ks" for js ks by (simp add: comp_def revenue_group_def)
  then show ?thesis unfolding revenue_rows_def mset_map mset_sort by (simp only: mset_map [symmetric])
qed

lemma revenue_rows_distinct: "distinct (map (\<lambda>v. (v_slug v, v_title v)) (revenue_rows d))"
  using mset_eq_imp_distinct_iff [OF revenue_rows_names] by simp

lemma revenue_rows_keys:
  assumes "db_ok d"
  shows "(\<lambda>v. (v_slug v, v_title v)) ` set (revenue_rows d) = line_group d ` set (counted_lines d)"
  using arg_cong [OF revenue_rows_names [of d], of set_mset] by (simp add: joined_counted [OF assms] group_key_line image_image)

lemma revenue_rows_sum:
  assumes ok: "db_ok d" and t: "totals_ok d" and v: "v \<in> set (revenue_rows d)"
  shows "0 < v_revenue_cents v \<and> v_revenue_cents v
    = (\<Sum>i\<leftarrow>filter (\<lambda>i. line_group d i = (v_slug v, v_title v)) (counted_lines d). line_cents i)"
proof -
  let ?is = "filter (\<lambda>i. line_group d i = (v_slug v, v_title v)) (counted_lines d)"
  have pos: "0 < line_cents i" if "i \<in> set (counted_lines d)" for i
    using counted_in_int4 [OF ok t] that by (simp add: counted_lines_def)
  have sum: "v_revenue_cents v = (\<Sum>i\<leftarrow>?is. line_cents i)"
    using v by (auto simp: revenue_rows_def revenue_group_def joined_counted [OF ok] filter_map comp_def group_key_line)
  have "(v_slug v, v_title v) \<in> line_group d ` set (counted_lines d)" using revenue_rows_keys [OF ok] v by blast
  then obtain i where i: "i \<in> set ?is" by fastforce
  have "line_cents i \<le> (\<Sum>i\<leftarrow>?is. line_cents i)" by (rule member_le_sum_list) (use i pos in \<open>auto simp: less_imp_le\<close>)
  then show ?thesis using sum pos i by fastforce
qed

lemma revenue_rows_total:
  assumes ok: "db_ok d" and t: "totals_ok d"
  shows "(\<Sum>v\<leftarrow>revenue_rows d. v_revenue_cents v) = (\<Sum>r\<leftarrow>filter counted (orders d). o_total_cents r)"
proof -
  let ?js = "joined_lines d"
  have "(\<Sum>v\<leftarrow>revenue_rows d. v_revenue_cents v) = (\<Sum>v\<leftarrow>map (revenue_group ?js) (remdups (map group_key ?js)). v_revenue_cents v)"
    unfolding revenue_rows_def sum_mset_sum_list [symmetric] mset_map mset_sort ..
  also have "\<dots> = (\<Sum>j\<leftarrow>?js. line_cents (snd j))"
    using sum_list_groups [of "remdups (map group_key ?js)" group_key ?js "\<lambda>j. line_cents (snd j)"]
    by (simp add: revenue_group_def comp_def)
  also have "\<dots> = (\<Sum>r\<leftarrow>filter counted (orders d). o_total_cents r)"
    unfolding joined_lines_def joined_sum [OF ok] using t by (intro arg_cong [of _ _ sum_list] map_cong) (auto simp: totals_ok_def)
  finally show ?thesis .
qed

lemma report_run:
  assumes "w_sched w = []" and ok: "db_ok (w_db w)" and t: "totals_ok (w_db w)"
  shows "report w = (Inr ([''revenue by category (paid|shipped|delivered)'',
      ''uncategorized = products.category_id IS NULL (ON DELETE SET NULL)''] @ map revenue_line (revenue_rows (w_db w))), snd (query sql_revenue w))
    \<and> w_db (snd (query sql_revenue w)) = w_db w"
proof -
  have "list_all (\<lambda>j. in_int4 (line_cents (snd j))) (joined_lines (w_db w))"
    using counted_in_int4 [OF ok t] by (auto simp: joined_counted [OF ok] list_all_iff counted_lines_def)
  then show ?thesis
    by (simp add: report_def bindE_def query_run [where f = sql_revenue, OF assms(1)] sql_revenue_def Let_def revenue_rows_def joined_lines_def)
qed

text \<open>
  (C39) On a database that satisfies its constraints and whose orders carry the sum of their lines, the
  report runs without an overflow and changes nothing. Its rows are one per category with a line in a
  paid, shipped or delivered order, lines of products without a category in a row of their own; each row
  has the positive sum of those lines, the rows are in descending order, and together they amount to the
  totals of the paid, shipped and delivered orders.
\<close>

theorem report_complete:
  assumes "w_sched w = []" and ok: "db_ok (w_db w)" and t: "totals_ok (w_db w)"
  shows "\<exists>rows w'. report w = (Inr ([''revenue by category (paid|shipped|delivered)'',
        ''uncategorized = products.category_id IS NULL (ON DELETE SET NULL)''] @ map revenue_line rows), w') \<and> w_db w' = w_db w
    \<and> distinct (map (\<lambda>v. (v_slug v, v_title v)) rows)
    \<and> (\<lambda>v. (v_slug v, v_title v)) ` set rows = line_group (w_db w) ` set (counted_lines (w_db w))
    \<and> (\<forall>v \<in> set rows. 0 < v_revenue_cents v \<and> v_revenue_cents v
         = (\<Sum>i\<leftarrow>filter (\<lambda>i. line_group (w_db w) i = (v_slug v, v_title v)) (counted_lines (w_db w)). line_cents i))
    \<and> sorted_wrt (\<lambda>a b. v_revenue_cents b \<le> v_revenue_cents a) rows
    \<and> (\<Sum>v\<leftarrow>rows. v_revenue_cents v) = (\<Sum>r\<leftarrow>filter counted (orders (w_db w)). o_total_cents r)"
proof -
  have "sorted_wrt (\<lambda>a b. v_revenue_cents b \<le> v_revenue_cents a) (revenue_rows (w_db w))"
    using sorted_sort_key [of "\<lambda>r. - v_revenue_cents r"] by (simp add: revenue_rows_def sorted_map)
  then show ?thesis
    using report_run [OF assms] revenue_rows_distinct revenue_rows_keys [OF ok] revenue_rows_sum [OF ok t] revenue_rows_total [OF ok t] by blast
qed

text \<open>A paid order of a lamp and two mugs and a pending order; mugs have no category.\<close>

definition sold_world :: world where
  "sold_world = \<lparr>w_db = \<lparr>
     users = [\<lparr>u_id = 1, u_email = ''seller@example.com'', u_full_name = ''Seller'', u_role = Seller,
                u_is_active = True, u_balance_cents = 0\<rparr>],
     categories = [\<lparr>g_id = 1, g_slug = ''home'', g_title = ''Home''\<rparr>],
     products = [\<lparr>p_id = 1, p_name = ''Lamp'', p_description = [], p_price_cents = 100, p_stock = 5,
                   p_is_active = True, p_seller_id = 1, p_category_id = Some 1\<rparr>,
                 \<lparr>p_id = 2, p_name = ''Mug'', p_description = [], p_price_cents = 30, p_stock = 2,
                   p_is_active = True, p_seller_id = 1, p_category_id = None\<rparr>],
     orders = [\<lparr>o_id = 1, o_user_id = 1, o_status = ''paid'', o_total_cents = 160, o_created_at = 0\<rparr>,
               \<lparr>o_id = 2, o_user_id = 1, o_status = ''pending'', o_total_cents = 30, o_created_at = 0\<rparr>],
     order_items = [\<lparr>i_id = 1, i_order_id = 1, i_product_id = 2, i_quantity = 2, i_unit_price_cents = 30\<rparr>,
                    \<lparr>i_id = 2, i_order_id = 1, i_product_id = 1, i_quantity = 1, i_unit_price_cents = 100\<rparr>,
                    \<lparr>i_id = 3, i_order_id = 2, i_product_id = 2, i_quantity = 1, i_unit_price_cents = 30\<rparr>],
     jobs = [], outbox = [], idempotency_keys = [],
     order_placed_effects = [], order_placed_deliveries = [], processed_messages = [],
     users_seq = 2, categories_seq = 2, products_seq = 3, orders_seq = 3, order_items_seq = 4, jobs_seq = 1,
     outbox_seq = 1, deliveries_seq = 1, now = 0\<rparr>, w_rng = 0, w_sched = []\<rparr>"

theorem report_complete_witness:
  "fst (report sold_world) = Inr [''revenue by category (paid|shipped|delivered)'',
      ''uncategorized = products.category_id IS NULL (ON DELETE SET NULL)'',
      ''home'' @ [CHR 0x09] @ ''Home'' @ [CHR 0x09] @ ''100 cents (1.00 UAH)'',
      ''uncategorized'' @ [CHR 0x09] @ ''Uncategorized'' @ [CHR 0x09] @ ''60 cents (0.60 UAH)'']
   \<and> (\<exists>rows w'. report sold_world = (Inr ([''revenue by category (paid|shipped|delivered)'',
        ''uncategorized = products.category_id IS NULL (ON DELETE SET NULL)''] @ map revenue_line rows), w')
      \<and> (\<Sum>v\<leftarrow>rows. v_revenue_cents v) = 160)"
proof
  show "\<exists>rows w'. report sold_world = (Inr ([''revenue by category (paid|shipped|delivered)'',
        ''uncategorized = products.category_id IS NULL (ON DELETE SET NULL)''] @ map revenue_line rows), w')
      \<and> (\<Sum>v\<leftarrow>rows. v_revenue_cents v) = 160"
  proof -
    have "(\<Sum>r\<leftarrow>filter counted (orders (w_db sold_world)). o_total_cents r) = 160"
      by (simp add: sold_world_def counted_def report_statuses_def)
    moreover have "w_sched sold_world = []" "db_ok (w_db sold_world)" "totals_ok (w_db sold_world)"
      by (simp_all add: sold_world_def schema_defs order_statuses_def int4_max_def email_ok_def name_ok_def
        totals_ok_def line_total_def lines_of_def)
    ultimately show ?thesis using report_complete [of sold_world] by auto
  qed
qed code_simp

end
