(* ===== verification/Outbox.thy ===== *)
theory Outbox
  imports CheckoutCorrect
begin

text \<open>
  The relay: \<open>src/messaging/outbox-relay.ts\<close>, \<open>src/messaging/order-placed.publisher.ts\<close> and
  the connection helpers of \<open>src/messaging/broker.ts\<close>. The AMQP client is a parameter: a
  record of the operations the publisher calls on a broker state of any type. What the
  relay relies on of it is the locale \<open>broker_laws\<close>.
\<close>

section \<open>The broker\<close>

record broker_message =
  bm_exchange :: string
  bm_key :: string
  bm_body :: json
  bm_messageId :: string

record 'b broker_ops =
  connect_op :: "'b \<Rightarrow> (thrown + unit) \<times> 'b"
  createConfirmChannel_op :: "'b \<Rightarrow> (thrown + unit) \<times> 'b"
  publish_op :: "broker_message \<Rightarrow> 'b \<Rightarrow> (thrown + unit) \<times> 'b"
  waitForConfirms_op :: "'b \<Rightarrow> (thrown + unit) \<times> 'b"
  closeChannel_op :: "'b \<Rightarrow> (thrown + unit) \<times> 'b"
  closeConnection_op :: "'b \<Rightarrow> (thrown + unit) \<times> 'b"

text \<open>
  The state of a relay run: the database, the broker and the captured variable
  \<open>failedAttemptId\<close>, which outlives the transaction.
\<close>

record 'b relay_state =
  rl_world :: world
  rl_broker :: 'b
  rl_failed :: "int option"

definition brokerE :: "('b \<Rightarrow> (thrown + 'a) \<times> 'b) \<Rightarrow> ('b relay_state, thrown, 'a) exec" where
  "brokerE f s = (case f (rl_broker s) of (r, b) \<Rightarrow> (r, s\<lparr>rl_broker := b\<rparr>))"

definition worldE :: "(world, thrown, 'a) exec \<Rightarrow> ('b relay_state, thrown, 'a) exec" where
  "worldE m s = (case m (rl_world s) of (r, w) \<Rightarrow> (r, s\<lparr>rl_world := w\<rparr>))"

section \<open>Publisher\<close>

definition EVENTS_EXCHANGE :: string where "EVENTS_EXCHANGE = ''shop.events''"

definition ORDER_PLACED_KEY :: string where "ORDER_PLACED_KEY = ''order.placed''"

definition requireBrokerUrl :: "string option \<Rightarrow> thrown + string" where
  "requireBrokerUrl env_url =
     (let url = (case env_url of None \<Rightarrow> [] | Some u \<Rightarrow> js_trim u)
      in if url = [] then Inl (PlainError ''BROKER_URL is required (Infisical or SKIP_VAULT=1 export)'')
         else Inr url)"

definition order_message :: "json \<Rightarrow> broker_message" where
  "order_message event = \<lparr>bm_exchange = EVENTS_EXCHANGE, bm_key = ORDER_PLACED_KEY, bm_body = event,
     bm_messageId = (case json_field event ''eventId'' of Some (JsString i) \<Rightarrow> i | _ \<Rightarrow> [])\<rparr>"

definition publishOrderPlaced :: "'b broker_ops \<Rightarrow> json \<Rightarrow> ('b relay_state, thrown, unit) exec" where
  "publishOrderPlaced ops event =
     bindE (brokerE (publish_op ops (order_message event))) (\<lambda>_. brokerE (waitForConfirms_op ops))"

definition withOrderPlacedChannel ::
  "'b broker_ops \<Rightarrow> string option \<Rightarrow> ('b relay_state, thrown, 'a) exec \<Rightarrow> ('b relay_state, thrown, 'a) exec"
where
  "withOrderPlacedChannel ops env_url run =
     bindE (liftE (requireBrokerUrl env_url)) (\<lambda>_.
     bindE (brokerE (connect_op ops)) (\<lambda>_.
     bindE (catchE (brokerE (createConfirmChannel_op ops))
         (\<lambda>err. bindE (brokerE (closeConnection_op ops)) (\<lambda>_. throwE err))) (\<lambda>_.
       finallyE run
         (finallyE (brokerE (closeChannel_op ops)) (brokerE (closeConnection_op ops))))))"

section \<open>Relay\<close>

definition is_order_event :: "json \<Rightarrow> bool" where
  "is_order_event event \<longleftrightarrow> (case json_field event ''eventId'' of Some (JsString i) \<Rightarrow> True | _ \<Rightarrow> False)
     \<and> json_field event ''type'' = Some (JsString event_type)"

text \<open>\<open>json_parse\<close> is \<open>JSON.parse\<close>: the document of a text, or the error it throws.\<close>

definition asOrderPlacedEvent :: "(string \<Rightarrow> thrown + json) \<Rightarrow> json \<Rightarrow> thrown + json" where
  "asOrderPlacedEvent json_parse payload =
     (case (case payload of JsString t \<Rightarrow> json_parse t | _ \<Rightarrow> Inr payload) of
        Inl e \<Rightarrow> Inl e
      | Inr event \<Rightarrow>
          if is_order_event event then Inr event
          else Inl (PlainError ''outbox payload is not an order.placed event''))"

record relay_options =
  ro_limit :: "int option"
  ro_crashAfterPublish :: bool
  ro_userId :: "string option"

text \<open>
  What other sessions decide during a run: the rows they hold, which \<open>SKIP LOCKED\<close> passes
  over, and whether the server refuses the final \<open>COMMIT\<close>.
\<close>

record relay_env =
  re_locked :: "int \<Rightarrow> bool"
  re_commit :: "thrown option"

definition sql_pending ::
  "int \<Rightarrow> string option \<Rightarrow> (int \<Rightarrow> bool) \<Rightarrow> db \<Rightarrow> (thrown + outbox_row list) \<times> db" where
  "sql_pending limit userId locked_row d =
     (if limit < 0 then (Inl (PgError ''2201W'' ''LIMIT must not be negative''), d)
      else (Inr (take (nat limit) (filter (\<lambda>x. \<not> locked_row (x_id x))
        (sort_key (\<lambda>x. (x_created_at x, x_id x))
          (filter (\<lambda>x. x_published_at x = None
             \<and> (case userId of None \<Rightarrow> True | Some u \<Rightarrow> json_text (x_payload x) ''userId'' = Some u))
            (outbox d))))), d))"

definition sql_mark_published :: "int \<Rightarrow> db \<Rightarrow> (thrown + unit) \<times> db" where
  "sql_mark_published i d =
     (Inr (), d\<lparr>outbox := map (\<lambda>x. if x_id x = i
        then x\<lparr>x_published_at := Some (now d), x_attempts := x_attempts x + 1\<rparr> else x) (outbox d)\<rparr>)"

definition sql_count_attempt :: "int \<Rightarrow> db \<Rightarrow> (thrown + unit) \<times> db" where
  "sql_count_attempt i d =
     (Inr (), d\<lparr>outbox := map (\<lambda>x. if x_id x = i then x\<lparr>x_attempts := x_attempts x + 1\<rparr> else x)
        (outbox d)\<rparr>)"

fun publish_rows ::
  "'b broker_ops \<Rightarrow> (string \<Rightarrow> thrown + json) \<Rightarrow> bool \<Rightarrow> outbox_row list \<Rightarrow> int
    \<Rightarrow> ('b relay_state, thrown, int) exec"
where
  "publish_rows ops json_parse crash [] published = returnE published"
| "publish_rows ops json_parse crash (row # rows) published =
     bindE (liftE (asOrderPlacedEvent json_parse (x_payload row))) (\<lambda>event.
     bindE (catchE (publishOrderPlaced ops event)
         (\<lambda>err s. (Inl err, s\<lparr>rl_failed := Some (x_id row)\<rparr>))) (\<lambda>_.
     if crash then throwE RelayCrashedError else
     bindE (worldE (sqlE (sql_mark_published (x_id row)))) (\<lambda>_.
     publish_rows ops json_parse crash rows (published + 1))))"

text \<open>
  The relay's transaction: a rollback undoes the tables and nothing else, the broker keeps
  what it accepted.
\<close>

definition relay_transaction ::
  "thrown option \<Rightarrow> ('b relay_state, thrown, 'a) exec \<Rightarrow> ('b relay_state, thrown, 'a) exec" where
  "relay_transaction commit_fails body s =
     (case next_env (rl_world s) of
        (Some e, w1) \<Rightarrow> (Inl e, s\<lparr>rl_world := w1\<rparr>)
      | (None, w1) \<Rightarrow>
          (case bindE body (\<lambda>a. case commit_fails of None \<Rightarrow> returnE a | Some e \<Rightarrow> throwE e)
              (s\<lparr>rl_world := w1\<rparr>) of
             (Inr a, s2) \<Rightarrow> (Inr a, s2)
           | (Inl e, s2) \<Rightarrow>
               (Inl e, s2\<lparr>rl_world := (rl_world s2)\<lparr>w_db := rollback (w_db w1) (w_db (rl_world s2))\<rparr>\<rparr>)))"

definition publishPending ::
  "'b broker_ops \<Rightarrow> (string \<Rightarrow> thrown + json) \<Rightarrow> string option \<Rightarrow> relay_env \<Rightarrow> relay_options
    \<Rightarrow> ('b relay_state, thrown, int) exec"
where
  "publishPending ops json_parse env_url env options s =
     (let limit = (case ro_limit options of Some n \<Rightarrow> n | None \<Rightarrow> 20)
      in catchE
          (relay_transaction (re_commit env)
            (bindE (worldE (sqlE (sql_pending limit (ro_userId options) (re_locked env)))) (\<lambda>rows.
              if rows = [] then returnE 0
              else withOrderPlacedChannel ops env_url
                (publish_rows ops json_parse (ro_crashAfterPublish options) rows 0))))
          (\<lambda>err s. case rl_failed s of
             None \<Rightarrow> (Inl err, s)
           | Some i \<Rightarrow> bindE (worldE (query (sql_count_attempt i))) (\<lambda>_. throwE err) s)
        (s\<lparr>rl_failed := None\<rparr>))"

section \<open>What the relay relies on\<close>

text \<open>
  \<open>accepted\<close> is the history of messages the broker has taken over (or one of its queues). A positive confirm means
  that exactly the published message was added to it; when the confirm fails or is lost the
  message may or may not have been; opening and closing adds nothing.
\<close>

locale broker_laws =
  fixes ops :: "'b broker_ops" and accepted :: "'b \<Rightarrow> broker_message list"
  assumes confirmed: "publish_op ops (order_message ev) b = (Inr (), b1) \<Longrightarrow>
      waitForConfirms_op ops b1 = (Inr (), b2) \<Longrightarrow> accepted b2 = accepted b @ [order_message ev]"
    and unconfirmed: "publish_op ops (order_message ev) b = (Inr (), b1) \<Longrightarrow>
      waitForConfirms_op ops b1 = (Inl e, b2) \<Longrightarrow>
      accepted b2 = accepted b \<or> accepted b2 = accepted b @ [order_message ev]"
    and refused: "publish_op ops (order_message ev) b = (Inl e, b1) \<Longrightarrow> accepted b1 = accepted b"
    and connect_quiet: "accepted (snd (connect_op ops b)) = accepted b"
    and channel_quiet: "accepted (snd (createConfirmChannel_op ops b)) = accepted b"
    and closeChannel_quiet: "accepted (snd (closeChannel_op ops b)) = accepted b"
    and closeConnection_quiet: "accepted (snd (closeConnection_op ops b)) = accepted b"

definition row_message :: "(string \<Rightarrow> thrown + json) \<Rightarrow> outbox_row \<Rightarrow> broker_message" where
  "row_message json_parse row =
     order_message (case asOrderPlacedEvent json_parse (x_payload row) of Inr ev \<Rightarrow> ev | Inl _ \<Rightarrow> x_payload row)"

definition mark_all :: "int list \<Rightarrow> db \<Rightarrow> db" where
  "mark_all ids d = fold (\<lambda>i d. snd (sql_mark_published i d)) ids d"

text \<open>
  A run of the loop over \<open>rows\<close>: the first \<open>k\<close> rows are marked, the messages of the first \<open>j\<close>
  rows are with the broker, where \<open>j\<close> is \<open>k\<close> or one more.
\<close>

definition loop_outcome ::
  "('b \<Rightarrow> broker_message list) \<Rightarrow> (string \<Rightarrow> thrown + json) \<Rightarrow> outbox_row list \<Rightarrow> int \<Rightarrow> 'b relay_state
    \<Rightarrow> (thrown + int) \<times> 'b relay_state \<Rightarrow> nat \<Rightarrow> nat \<Rightarrow> bool"
where
  "loop_outcome accepted jp rows n s res k j \<longleftrightarrow>
     k \<le> j \<and> j \<le> Suc k \<and> j \<le> length rows
     \<and> rl_world (snd res) = (rl_world s)\<lparr>w_db := mark_all (map x_id (take k rows)) (w_db (rl_world s))\<rparr>
     \<and> accepted (rl_broker (snd res)) = accepted (rl_broker s) @ map (row_message jp) (take j rows)
     \<and> (case fst res of
          Inr m \<Rightarrow> k = length rows \<and> m = n + int (length rows) \<and> rl_failed (snd res) = rl_failed s
            \<and> (\<forall>row \<in> set rows. \<exists>ev. asOrderPlacedEvent jp (x_payload row) = Inr ev)
        | Inl e \<Rightarrow> k < length rows
            \<and> (rl_failed (snd res) = rl_failed s \<or> rl_failed (snd res) = Some (x_id (rows ! k))))"

lemma loop_outcome_Cons:
  assumes "loop_outcome accepted jp rows (n + 1) s1 res k j"
    and "rl_world s1 = (rl_world s)\<lparr>w_db := snd (sql_mark_published (x_id row) (w_db (rl_world s)))\<rparr>"
    and "accepted (rl_broker s1) = accepted (rl_broker s) @ [row_message jp row]"
    and "rl_failed s1 = rl_failed s" and "asOrderPlacedEvent jp (x_payload row) = Inr ev"
  shows "loop_outcome accepted jp (row # rows) n s res (Suc k) (Suc j)"
  using assms by (auto simp: loop_outcome_def mark_all_def split: sum.splits)

context broker_laws
begin

lemma publish_cases:
  assumes "publishOrderPlaced ops ev s = (r, s')"
  obtains (ok) b where "r = Inr ()" "s' = s\<lparr>rl_broker := b\<rparr>"
      "accepted b = accepted (rl_broker s) @ [order_message ev]"
    | (bad) e b where "r = Inl e" "s' = s\<lparr>rl_broker := b\<rparr>"
      "accepted b = accepted (rl_broker s) \<or> accepted b = accepted (rl_broker s) @ [order_message ev]"
proof -
  obtain r1 b1 where p: "publish_op ops (order_message ev) (rl_broker s) = (r1, b1)" by fastforce
  obtain r2 b2 where c: "waitForConfirms_op ops b1 = (r2, b2)" by fastforce
  show ?thesis using assms p c confirmed [of ev "rl_broker s" b1 b2]
      unconfirmed [of ev "rl_broker s" b1 _ b2] refused [of ev "rl_broker s" _ b1]
      ok bad
    by (cases r1; cases r2) (auto simp: publishOrderPlaced_def brokerE_def bindE_def)
qed

lemma publish_rows_outcome:
  "\<exists>k j. loop_outcome accepted jp rows n s (publish_rows ops jp crash rows n s) k j"
proof (induction rows arbitrary: n s)
  case Nil
  show ?case by (auto simp: loop_outcome_def mark_all_def)
next
  case (Cons row rows)
  show ?case
  proof (cases "asOrderPlacedEvent jp (x_payload row)")
    case (Inl e)
    then have "loop_outcome accepted jp (row # rows) n s (publish_rows ops jp crash (row # rows) n s) 0 0"
      by (simp add: loop_outcome_def bindE_def liftE_def mark_all_def)
    then show ?thesis by blast
  next
    case (Inr ev)
    have msg: "row_message jp row = order_message ev" by (simp add: row_message_def Inr)
    obtain r1 s1 where p: "publishOrderPlaced ops ev s = (r1, s1)" by fastforce
    from p show ?thesis
    proof (cases rule: publish_cases)
      case (bad e b)
      have "publish_rows ops jp crash (row # rows) n s = (Inl e, s1\<lparr>rl_failed := Some (x_id row)\<rparr>)"
        using p bad(1) Inr by (simp add: bindE_def liftE_def catchE_def)
      then have "loop_outcome accepted jp (row # rows) n s (publish_rows ops jp crash (row # rows) n s) 0
          (if accepted b = accepted (rl_broker s) then 0 else 1)"
        using bad msg by (auto simp: loop_outcome_def mark_all_def)
      then show ?thesis by blast
    next
      case (ok b)
      let ?s2 = "s1\<lparr>rl_world := (rl_world s1)\<lparr>w_db := snd (sql_mark_published (x_id row) (w_db (rl_world s1)))\<rparr>\<rparr>"
      show ?thesis
      proof (cases crash)
        case True
        then have "publish_rows ops jp crash (row # rows) n s = (Inl RelayCrashedError, s1)"
          using p ok(1) Inr by (simp add: bindE_def liftE_def catchE_def)
        then have "loop_outcome accepted jp (row # rows) n s (publish_rows ops jp crash (row # rows) n s) 0 1"
          using ok msg by (simp add: loop_outcome_def mark_all_def)
        then show ?thesis by blast
      next
        case False
        then have eq: "publish_rows ops jp crash (row # rows) n s = publish_rows ops jp crash rows (n + 1) ?s2"
          using p ok(1) Inr
          by (simp add: bindE_def liftE_def catchE_def worldE_def sqlE_def sql_mark_published_def)
        obtain k j where "loop_outcome accepted jp rows (n + 1) ?s2 (publish_rows ops jp crash rows (n + 1) ?s2) k j"
          using Cons.IH by blast
        from loop_outcome_Cons [OF this, where s = s and row = row and ev = ev] show ?thesis
          unfolding eq using ok Inr msg by auto
      qed
    qed
  qed
qed

lemma brokerE_quiet:
  assumes "\<And>b. accepted (snd (f b)) = accepted b" and "brokerE f s = (r, s')"
  shows "accepted (rl_broker s') = accepted (rl_broker s) \<and> rl_world s' = rl_world s \<and> rl_failed s' = rl_failed s"
  using assms(2) assms(1) [of "rl_broker s"] by (auto simp: brokerE_def split: prod.splits)

lemma cleanup_quiet:
  assumes "finallyE (brokerE (closeChannel_op ops)) (brokerE (closeConnection_op ops)) s = (r, s')"
  shows "accepted (rl_broker s') = accepted (rl_broker s) \<and> rl_world s' = rl_world s \<and> rl_failed s' = rl_failed s"
proof -
  obtain r1 s1 r2 where 1: "brokerE (closeChannel_op ops) s = (r1, s1)" and 2: "brokerE (closeConnection_op ops) s1 = (r2, s')"
    using assms by (auto simp: finallyE_def split: prod.splits sum.splits)
  show ?thesis using brokerE_quiet [OF closeChannel_quiet 1] brokerE_quiet [OF closeConnection_quiet 2] by simp
qed

text \<open>With the connection around it, the loop may also not start, or end with a failed close.\<close>

lemma channel_outcome:
  assumes "withOrderPlacedChannel ops url (publish_rows ops jp crash rows n) s = (r, s')" and "rows \<noteq> []"
  shows "\<exists>k j. (r = Inr m \<longrightarrow> loop_outcome accepted jp rows n s (Inr m, s') k j)
    \<and> k \<le> j \<and> j \<le> length rows
    \<and> rl_world s' = (rl_world s)\<lparr>w_db := mark_all (map x_id (take k rows)) (w_db (rl_world s))\<rparr>
    \<and> accepted (rl_broker s') = accepted (rl_broker s) @ map (row_message jp) (take j rows)
    \<and> (rl_failed s' = rl_failed s \<or> (k < length rows \<and> rl_failed s' = Some (x_id (rows ! k))))"
proof -
  let ?run = "publish_rows ops jp crash rows n"
  consider (early) e where "r = Inl e" "accepted (rl_broker s') = accepted (rl_broker s)" "rl_world s' = rl_world s"
      "rl_failed s' = rl_failed s"
    | (ran) s1 r2 s2 q where "accepted (rl_broker s1) = accepted (rl_broker s)" "rl_world s1 = rl_world s"
      "rl_failed s1 = rl_failed s" "?run s1 = (r2, s2)"
      "finallyE (brokerE (closeChannel_op ops)) (brokerE (closeConnection_op ops)) s2 = (q, s')"
      "r = (case q of Inl e \<Rightarrow> Inl e | Inr _ \<Rightarrow> r2)"
  proof (cases "requireBrokerUrl url")
    case (Inl e)
    then show ?thesis using assms(1) early by (auto simp: withOrderPlacedChannel_def bindE_def liftE_def)
  next
    case (Inr u)
    obtain r1 s1 where c1: "brokerE (connect_op ops) s = (r1, s1)" by fastforce
    note q1 = brokerE_quiet [OF connect_quiet c1]
    obtain r2 s2 where c2: "brokerE (createConfirmChannel_op ops) s1 = (r2, s2)" by fastforce
    note q2 = brokerE_quiet [OF channel_quiet c2]
    obtain r3 s3 where c3: "brokerE (closeConnection_op ops) s2 = (r3, s3)" by fastforce
    note q3 = brokerE_quiet [OF closeConnection_quiet c3]
    show ?thesis
    proof (cases "\<exists>a b. r1 = Inr a \<and> r2 = Inr b")
      case True
      then show ?thesis using assms(1) c1 c2 Inr q1 q2 ran [of s2]
        by (auto simp: withOrderPlacedChannel_def bindE_def liftE_def catchE_def finallyE_def [of ?run]
            split: prod.splits sum.splits)
    next
      case False
      then show ?thesis using assms(1) c1 c2 c3 Inr q1 q2 q3 early
        by (cases r1; cases r2; cases r3) (auto simp: withOrderPlacedChannel_def bindE_def liftE_def catchE_def)
    qed
  qed
  then show ?thesis
  proof cases
    case early
    then show ?thesis by (intro exI [of _ 0]) (simp add: mark_all_def)
  next
    case ran
    obtain k j where lo: "loop_outcome accepted jp rows n s1 (r2, s2) k j"
      using publish_rows_outcome [of jp rows n s1 crash] ran(4) by auto
    note cq = cleanup_quiet [OF ran(5)]
    have "loop_outcome accepted jp rows n s (r2, s') k j"
      using lo cq ran(1-3) by (cases r2) (simp_all add: loop_outcome_def)
    then show ?thesis using ran(6) 
      by (intro exI [of _ k] exI [of _ j]) (auto simp: loop_outcome_def split: sum.splits)
  qed
qed

end

section \<open>A whole run\<close>

definition pending_rows :: "relay_options \<Rightarrow> relay_env \<Rightarrow> db \<Rightarrow> outbox_row list" where
  "pending_rows options env d =
     (case fst (sql_pending (case ro_limit options of Some n \<Rightarrow> n | None \<Rightarrow> 20) (ro_userId options)
        (re_locked env) d) of Inr rows \<Rightarrow> rows | Inl _ \<Rightarrow> [])"

lemma mark_all_other:
  "orders_seq (mark_all ids d) = orders_seq d" "order_items_seq (mark_all ids d) = order_items_seq d"
  "jobs_seq (mark_all ids d) = jobs_seq d" "outbox_seq (mark_all ids d) = outbox_seq d"
  "deliveries_seq (mark_all ids d) = deliveries_seq d" "now (mark_all ids d) = now d"
  "users_seq (mark_all ids d) = users_seq d" "categories_seq (mark_all ids d) = categories_seq d"
  "products_seq (mark_all ids d) = products_seq d"
  by (induction ids arbitrary: d) (simp_all add: mark_all_def sql_mark_published_def)

lemma rollback_marks: "w\<lparr>w_db := rollback (w_db w) (mark_all ids (w_db w))\<rparr> = w"
  by (simp add: rollback_def mark_all_other)

context broker_laws
begin

lemma transaction_outcome:
  assumes "relay_transaction cf (bindE (worldE (sqlE (sql_pending limit user skip))) (\<lambda>rows.
      if rows = [] then returnE 0 else withOrderPlacedChannel ops url (publish_rows ops jp crash rows 0))) s = (r, s')"
    and "next_env (rl_world s) = (ab, w1)" and "rl_failed s = None"
    and rows: "rows = (case fst (sql_pending limit user skip (w_db w1)) of Inr rows \<Rightarrow> rows | Inl _ \<Rightarrow> [])"
  shows "case r of
      Inr n \<Rightarrow> n = int (length rows)
        \<and> rl_world s' = w1\<lparr>w_db := mark_all (map x_id rows) (w_db w1)\<rparr>
        \<and> accepted (rl_broker s') = accepted (rl_broker s) @ map (row_message jp) rows
        \<and> (\<forall>row \<in> set rows. \<exists>ev. asOrderPlacedEvent jp (x_payload row) = Inr ev)
    | Inl e \<Rightarrow> rl_world s' = w1 \<and> (\<exists>j \<le> length rows.
        accepted (rl_broker s') = accepted (rl_broker s) @ map (row_message jp) (take j rows)
        \<and> (\<forall>i. rl_failed s' = Some i \<longrightarrow> i \<in> x_id ` set rows))"
proof (cases ab)
  case (Some e)
  then show ?thesis using assms(1-3) by (auto simp: relay_transaction_def intro: exI [of _ 0])
next
  case None
  show ?thesis
  proof (cases "limit < 0")
    case True
    then have "sql_pending limit user skip (w_db w1) = (Inl (PgError ''2201W'' ''LIMIT must not be negative''), w_db w1)"
      by (simp add: sql_pending_def)
    then show ?thesis using assms(1-3) None rows
      by (auto simp: relay_transaction_def bindE_def worldE_def sqlE_def rollback_def)
  next
    case False
    then have sel: "sql_pending limit user skip (w_db w1) = (Inr rows, w_db w1)"
      using rows by (simp add: sql_pending_def)
    let ?s1 = "s\<lparr>rl_world := w1\<rparr>"
    show ?thesis
    proof (cases "rows = []")
      case True
      then show ?thesis using assms(1-3) None sel
        by (cases cf) (auto simp: relay_transaction_def bindE_def worldE_def sqlE_def mark_all_def rollback_def)
    next
      case ne: False
      obtain rc sc where ch: "withOrderPlacedChannel ops url (publish_rows ops jp crash rows 0) ?s1 = (rc, sc)"
        by fastforce
      have res: "(r, s') = (case (case rc of Inl e \<Rightarrow> (Inl e, sc) | Inr a \<Rightarrow>
            (case cf of None \<Rightarrow> (Inr a, sc) | Some e \<Rightarrow> (Inl e, sc))) of
          (Inr a, s2) \<Rightarrow> (Inr a, s2)
        | (Inl e, s2) \<Rightarrow> (Inl e, s2\<lparr>rl_world := (rl_world s2)\<lparr>w_db := rollback (w_db w1) (w_db (rl_world s2))\<rparr>\<rparr>))"
        using assms(1,2) None sel ne ch
        by (auto simp: relay_transaction_def bindE_def worldE_def sqlE_def split: sum.splits option.splits)
      obtain k j where kj: "\<forall>m. rc = Inr m \<longrightarrow> loop_outcome accepted jp rows 0 ?s1 (Inr m, sc) k j"
        "k \<le> j" "j \<le> length rows" "rl_world sc = w1\<lparr>w_db := mark_all (map x_id (take k rows)) (w_db w1)\<rparr>"
        "accepted (rl_broker sc) = accepted (rl_broker s) @ map (row_message jp) (take j rows)"
        "rl_failed sc = None \<or> (k < length rows \<and> rl_failed sc = Some (x_id (rows ! k)))"
        using channel_outcome [OF ch ne] assms(3) by (cases rc) (auto, blast)
      have failed: "\<forall>i. rl_failed sc = Some i \<longrightarrow> i \<in> x_id ` set rows"
        using kj(2,6) by auto
      show ?thesis
      proof (cases r)
        case (Inr n)
        then have "rc = Inr n" "s' = sc" using res by (auto split: sum.splits option.splits)
        then show ?thesis using kj(1) Inr by (auto simp: loop_outcome_def)
      next
        case (Inl e)
        then have "s' = sc\<lparr>rl_world := (rl_world sc)\<lparr>w_db := rollback (w_db w1) (w_db (rl_world sc))\<rparr>\<rparr>"
          using res by (auto split: sum.splits option.splits)
        then show ?thesis using Inl kj(3,4,5) failed rollback_marks [of w1] by auto
      qed
    qed
  qed
qed

lemma publishPending_outcome:
  assumes "publishPending ops jp url env opts s = (r, s')" and "next_env (rl_world s) = (ab, w1)"
  shows "case r of
      Inr n \<Rightarrow> n = int (length (pending_rows opts env (w_db w1)))
        \<and> rl_world s' = w1\<lparr>w_db := mark_all (map x_id (pending_rows opts env (w_db w1))) (w_db w1)\<rparr>
        \<and> accepted (rl_broker s') = accepted (rl_broker s) @ map (row_message jp) (pending_rows opts env (w_db w1))
        \<and> (\<forall>row \<in> set (pending_rows opts env (w_db w1)). \<exists>ev. asOrderPlacedEvent jp (x_payload row) = Inr ev)
    | Inl e \<Rightarrow> (\<exists>j \<le> length (pending_rows opts env (w_db w1)). 
          accepted (rl_broker s') = accepted (rl_broker s) @ map (row_message jp) (take j (pending_rows opts env (w_db w1))))
        \<and> (rl_world s' = w1 \<or> (\<exists>i \<in> x_id ` set (pending_rows opts env (w_db w1)). \<exists>q.
             query (sql_count_attempt i) w1 = (q, rl_world s')))"
proof -
  let ?limit = "case ro_limit opts of Some n \<Rightarrow> n | None \<Rightarrow> 20"
  let ?body = "bindE (worldE (sqlE (sql_pending ?limit (ro_userId opts) (re_locked env)))) (\<lambda>rows.
      if rows = [] then returnE 0 else withOrderPlacedChannel ops url
        (publish_rows ops jp (ro_crashAfterPublish opts) rows 0))"
  obtain r1 s1 where t: "relay_transaction (re_commit env) ?body (s\<lparr>rl_failed := None\<rparr>) = (r1, s1)" by fastforce
  note out = transaction_outcome [OF t _ _ refl, of ab w1, folded pending_rows_def]
  show ?thesis
  proof (cases r1)
    case (Inr n)
    then show ?thesis using out assms t by (auto simp: publishPending_def catchE_def Let_def)
  next
    case (Inl e)
    show ?thesis
    proof (cases "rl_failed s1")
      case None
      then show ?thesis using out assms t Inl by (auto simp: publishPending_def catchE_def Let_def)
    next
      case (Some i)
      obtain q w2 where q: "query (sql_count_attempt i) w1 = (q, w2)" by fastforce
      have r: "s' = s1\<lparr>rl_world := w2\<rparr>" "\<exists>e. r = Inl e" if "rl_world s1 = w1"
        using assms t Inl Some q that
        by (cases q; auto simp: publishPending_def catchE_def Let_def
            bindE_def [of "worldE (query (sql_count_attempt i))"] worldE_def [of "query (sql_count_attempt i)"])+
      obtain j where "rl_world s1 = w1" "j \<le> length (pending_rows opts env (w_db w1))"
        "accepted (rl_broker s1) = accepted (rl_broker s) @ map (row_message jp) (take j (pending_rows opts env (w_db w1)))"
        "i \<in> x_id ` set (pending_rows opts env (w_db w1))"
        using out assms(2) Inl Some by auto
      then show ?thesis using r q by auto
    qed
  qed
qed

end

section \<open>Marked rows\<close>

lemma outbox_mark_all:
  "distinct ids \<Longrightarrow> outbox (mark_all ids d) = map (\<lambda>x. if x_id x \<in> set ids
     then x\<lparr>x_published_at := Some (now d), x_attempts := x_attempts x + 1\<rparr> else x) (outbox d)"
proof (induction ids arbitrary: d)
  case (Cons i ids)
  let ?d = "snd (sql_mark_published i d)"
  have "mark_all (i # ids) d = mark_all ids ?d" by (simp add: mark_all_def)
  moreover have "now ?d = now d" by (simp add: sql_mark_published_def)
  ultimately show ?case using Cons.IH [of ?d] Cons.prems
    by (auto simp: sql_mark_published_def)
qed (simp add: mark_all_def)

lemma pending_rows_mem:
  "x \<in> set (pending_rows opts env d) \<Longrightarrow> x \<in> set (outbox d) \<and> x_published_at x = None"
  by (auto simp: pending_rows_def sql_pending_def dest!: in_set_takeD split: if_splits)

lemma distinct_pending_rows:
  assumes "outbox_ok d" shows "distinct (map x_id (pending_rows opts env d))"
proof -
  have "distinct (map x_id (filter Q (sort_key f (filter P (outbox d)))))" for P Q and f :: "outbox_row \<Rightarrow> nat \<times> int"
    using assms by (auto simp: outbox_ok_def distinct_map intro: inj_on_subset)
  then show ?thesis
    by (simp add: pending_rows_def sql_pending_def take_map [symmetric] distinct_take)
qed

text \<open>How a run may have changed a row of the outbox.\<close>

definition row_relayed :: "(outbox_row \<Rightarrow> bool) \<Rightarrow> outbox_row \<Rightarrow> outbox_row \<Rightarrow> bool" where
  "row_relayed sent x x' \<longleftrightarrow> x_id x' = x_id x \<and> x_payload x' = x_payload x
     \<and> x_attempts x \<le> x_attempts x' \<and> x_attempts x' \<le> x_attempts x + 1
     \<and> (x_published_at x' = x_published_at x
        \<or> (x_published_at x = None \<and> x_published_at x' \<noteq> None \<and> sent x))"

lemma relayed_marks:
  assumes "outbox_ok d" and "\<forall>x \<in> set (pending_rows opts env d). sent x"
  shows "list_all2 (row_relayed sent) (outbox d) (outbox (mark_all (map x_id (pending_rows opts env d)) d))"
proof -
  have "x \<in> set (pending_rows opts env d)"
    if x: "x \<in> set (outbox d)" "x_id x \<in> x_id ` set (pending_rows opts env d)" for x
  proof -
    obtain y where y: "y \<in> set (pending_rows opts env d)" "x_id y = x_id x" using x(2) by auto
    then have "y \<in> set (outbox d)" using pending_rows_mem by blast
    then have "y = x" using x(1) y(2) assms(1) by (simp add: outbox_ok_def distinct_map inj_on_def)
    then show ?thesis using y(1) by simp
  qed
  then have "row_relayed sent x (if x_id x \<in> set (map x_id (pending_rows opts env d))
      then x\<lparr>x_published_at := Some (now d), x_attempts := x_attempts x + 1\<rparr> else x)"
    if "x \<in> set (outbox d)" for x
    using that assms(2) pending_rows_mem [of x opts env d] by (auto simp: row_relayed_def)
  then show ?thesis
    unfolding outbox_mark_all [OF distinct_pending_rows [OF assms(1)]] list_all2_map2 list_all2_same
    by blast
qed

lemma relayed_attempt:
  "list_all2 (row_relayed sent) (outbox d) (outbox (snd (sql_count_attempt i d)))"
  by (auto simp: list_all2_conv_all_nth row_relayed_def sql_count_attempt_def)

lemma query_attempt_calm:
  assumes "calm w" and "query (sql_count_attempt i) w = (q, w')"
  shows "calm w' \<and> w_rng w' = w_rng w \<and> (w_db w' = w_db w \<or> w_db w' = snd (sql_count_attempt i (w_db w)))"
proof -
  obtain ab w1 where n: "next_env w = (ab, w1)" by fastforce
  have "calm w1" "w_db w1 = w_db w" "w_rng w1 = w_rng w" using calm_next [OF assms(1), of ab w1] n by auto
  then show ?thesis using assms(2) n
    by (cases ab) (auto simp: query_def transaction_def sqlE_def sql_count_attempt_def calm_def)
qed

lemma relayed_refl: "list_all2 (row_relayed sent) xs xs"
  by (auto simp: list_all2_conv_all_nth row_relayed_def)

text \<open>What a run leaves in the tables when the other sessions change none.\<close>

lemma mark_all_outbox: "mark_all ids d = d\<lparr>outbox := outbox (mark_all ids d)\<rparr>"
proof -
  have "\<exists>ob. mark_all ids d = d\<lparr>outbox := ob\<rparr>"
  proof (induction ids arbitrary: d)
    case Nil
    show ?case by (intro exI [of _ "outbox d"]) (simp add: mark_all_def)
  next
    case (Cons i ids)
    obtain ob where "mark_all ids (snd (sql_mark_published i d)) = (snd (sql_mark_published i d))\<lparr>outbox := ob\<rparr>"
      using Cons.IH by blast
    then show ?case by (auto simp: mark_all_def sql_mark_published_def)
  qed
  then show ?thesis by auto
qed

lemma relay_calm:
  assumes "broker_laws ops accepted" and "outbox_ok (w_db (rl_world s))" and "calm (rl_world s)"
    and "publishPending ops json_parse url env opts s = (r, s')"
  shows "\<exists>ob. w_db (rl_world s') = (w_db (rl_world s))\<lparr>outbox := ob\<rparr> \<and> w_rng (rl_world s') = w_rng (rl_world s)
    \<and> list_all2 (row_relayed (\<lambda>x. row_message json_parse x \<in> set (accepted (rl_broker s')) \<and> \<not> isl r))
        (outbox (w_db (rl_world s))) ob"
proof -
  let ?d = "w_db (rl_world s)"
  obtain ab w1 where n: "next_env (rl_world s) = (ab, w1)" by fastforce
  have w1: "calm w1" "w_db w1 = ?d" "w_rng w1 = w_rng (rl_world s)" using calm_next [OF assms(3), of ab w1] n by auto
  note out = broker_laws.publishPending_outcome [OF assms(1,4) n, unfolded w1(2)]
  show ?thesis
  proof (cases r)
    case (Inr m)
    let ?ob = "outbox (mark_all (map x_id (pending_rows opts env ?d)) ?d)"
    have "\<forall>x \<in> set (pending_rows opts env ?d). row_message json_parse x \<in> set (accepted (rl_broker s')) \<and> \<not> isl r"
      and "rl_world s' = w1\<lparr>w_db := mark_all (map x_id (pending_rows opts env ?d)) ?d\<rparr>"
      using out Inr by auto
    then show ?thesis using relayed_marks [OF assms(2)] w1(3) mark_all_outbox [of _ ?d]
      by (intro exI [of _ ?ob]) auto
  next
    case (Inl e)
    then have "rl_world s' = w1 \<or> (\<exists>i q. query (sql_count_attempt i) w1 = (q, rl_world s'))" using out by auto
    then have "w_rng (rl_world s') = w_rng (rl_world s)
        \<and> (w_db (rl_world s') = ?d \<or> (\<exists>i. w_db (rl_world s') = snd (sql_count_attempt i ?d)))"
      using w1 query_attempt_calm [OF w1(1)] by metis
    then show ?thesis using relayed_refl relayed_attempt [of _ ?d]
      by (elim conjE disjE exE) (rule exI [of _ "outbox (w_db (rl_world s'))"], simp add: sql_count_attempt_def)+
  qed
qed

section \<open>A broker with a queue and a dead-letter queue\<close>

text \<open>
  The topology of \<open>src/messaging/topology.ts\<close> in memory: messages with the bound key go to
  the work queue; \<open>am_faults\<close> says for each confirm whether it arrives, is lost after the
  message was taken over, or whether the message itself is lost.
\<close>

datatype confirm_fault = Confirms | LosesConfirm | LosesMessage

record amqp =
  am_log :: "broker_message list"
  am_work :: "broker_message list"
  am_dlq :: "broker_message list"
  am_unacked :: "(nat \<times> broker_message) list"
  am_tag :: nat
  am_inflight :: "broker_message option"
  am_faults :: "confirm_fault list"

definition amqp_publish :: "broker_message \<Rightarrow> amqp \<Rightarrow> (thrown + unit) \<times> amqp" where
  "amqp_publish m b = (Inr (), b\<lparr>am_inflight := Some m\<rparr>)"

definition amqp_route :: "broker_message \<Rightarrow> amqp \<Rightarrow> amqp" where
  "amqp_route m b = b\<lparr>am_log := am_log b @ [m], am_inflight := None,
     am_work := am_work b @ (if bm_exchange m = EVENTS_EXCHANGE \<and> bm_key m = ORDER_PLACED_KEY then [m] else [])\<rparr>"

definition amqp_confirm :: "amqp \<Rightarrow> (thrown + unit) \<times> amqp" where
  "amqp_confirm b =
     (case am_inflight b of
        None \<Rightarrow> (Inr (), b)
      | Some m \<Rightarrow>
          (case am_faults b of
             [] \<Rightarrow> (Inr (), amqp_route m b)
           | Confirms # fs \<Rightarrow> (Inr (), amqp_route m (b\<lparr>am_faults := fs\<rparr>))
           | LosesConfirm # fs \<Rightarrow> (Inl (NodeError ''ECONNRESET'' ''read ECONNRESET''),
               amqp_route m (b\<lparr>am_faults := fs\<rparr>))
           | LosesMessage # fs \<Rightarrow> (Inl (NodeError ''ECONNRESET'' ''read ECONNRESET''),
               b\<lparr>am_faults := fs, am_inflight := None\<rparr>)))"

definition amqp_ops :: "amqp broker_ops" where
  "amqp_ops = \<lparr>connect_op = \<lambda>b. (Inr (), b), createConfirmChannel_op = \<lambda>b. (Inr (), b),
     publish_op = amqp_publish, waitForConfirms_op = amqp_confirm,
     closeChannel_op = \<lambda>b. (Inr (), b), closeConnection_op = \<lambda>b. (Inr (), b)\<rparr>"

interpretation amqp: broker_laws amqp_ops am_log
  by unfold_locales (auto simp: amqp_ops_def amqp_publish_def amqp_confirm_def amqp_route_def
      split: list.splits confirm_fault.splits)

text \<open>Its work queue, too, receives every accepted message of the relay.\<close>

interpretation amqp_queue: broker_laws amqp_ops am_work
  by unfold_locales (auto simp: amqp_ops_def amqp_publish_def amqp_confirm_def amqp_route_def order_message_def
      split: list.splits confirm_fault.splits)

section \<open>A healthy broker\<close>

definition healthy :: "'b broker_ops \<Rightarrow> bool" where
  "healthy ops \<longleftrightarrow> (\<forall>b. fst (connect_op ops b) = Inr () \<and> fst (createConfirmChannel_op ops b) = Inr ()
     \<and> (\<forall>m. fst (publish_op ops m b) = Inr ()) \<and> fst (waitForConfirms_op ops b) = Inr ()
     \<and> fst (closeChannel_op ops b) = Inr () \<and> fst (closeConnection_op ops b) = Inr ())"

lemma brokerE_healthy:
  "fst (f (rl_broker s)) = Inr () \<Longrightarrow> brokerE f s = (Inr (), s\<lparr>rl_broker := snd (f (rl_broker s))\<rparr>)"
  by (cases "f (rl_broker s)") (simp add: brokerE_def)

lemma publish_rows_healthy:
  assumes "healthy ops" and "\<forall>row \<in> set rows. \<exists>ev. asOrderPlacedEvent jp (x_payload row) = Inr ev"
  shows "\<exists>b. publish_rows ops jp False rows n s = (Inr (n + int (length rows)),
    s\<lparr>rl_broker := b, rl_world := (rl_world s)\<lparr>w_db := mark_all (map x_id rows) (w_db (rl_world s))\<rparr>\<rparr>)"
  using assms(2)
proof (induction rows arbitrary: n s)
  case Nil
  show ?case by (rule exI [of _ "rl_broker s"]) (simp add: mark_all_def)
next
  case (Cons row rows)
  obtain ev where ev: "asOrderPlacedEvent jp (x_payload row) = Inr ev" using Cons.prems by auto
  obtain b where p: "publishOrderPlaced ops ev s = (Inr (), s\<lparr>rl_broker := b\<rparr>)"
    using assms(1) by (simp add: publishOrderPlaced_def bindE_def brokerE_healthy healthy_def)
  let ?d = "snd (sql_mark_published (x_id row) (w_db (rl_world s)))"
  let ?s1 = "s\<lparr>rl_broker := b, rl_world := (rl_world s)\<lparr>w_db := ?d\<rparr>\<rparr>"
  have "publish_rows ops jp False (row # rows) n s = publish_rows ops jp False rows (n + 1) ?s1"
    using ev p by (simp add: bindE_def liftE_def catchE_def worldE_def sqlE_def sql_mark_published_def cong: if_cong)
  moreover obtain b' where "publish_rows ops jp False rows (n + 1) ?s1 = (Inr (n + 1 + int (length rows)),
     ?s1\<lparr>rl_broker := b', rl_world := (rl_world ?s1)\<lparr>w_db := mark_all (map x_id rows) (w_db (rl_world ?s1))\<rparr>\<rparr>)"
    using Cons.IH [of "n + 1" ?s1] Cons.prems by auto
  ultimately show ?case by (auto simp: mark_all_def)
qed

lemma publishPending_healthy:
  fixes ops :: "'a broker_ops"
  assumes "healthy ops" and "requireBrokerUrl url = Inr u" and "re_commit env = None"
    and "\<not> ro_crashAfterPublish opts" and "\<forall>n. ro_limit opts = Some n \<longrightarrow> 0 \<le> n"
    and "w_sched (rl_world s) = []"
    and valid: "\<forall>row \<in> set (pending_rows opts env (w_db (rl_world s))).
      \<exists>ev. asOrderPlacedEvent jp (x_payload row) = Inr ev"
  shows "\<exists>s'. publishPending ops jp url env opts s = (Inr (int (length (pending_rows opts env (w_db (rl_world s))))), s')
    \<and> w_db (rl_world s') = mark_all (map x_id (pending_rows opts env (w_db (rl_world s)))) (w_db (rl_world s))"
proof -
  let ?limit = "case ro_limit opts of Some n \<Rightarrow> n | None \<Rightarrow> 20" and ?d = "w_db (rl_world s)"
  let ?rows = "pending_rows opts env ?d" and ?s = "s\<lparr>rl_failed := None\<rparr>"
  have "0 \<le> ?limit" using assms(5) by (auto split: option.split)
  then have sel: "sql_pending ?limit (ro_userId opts) (re_locked env) ?d = (Inr ?rows, ?d)"
    by (simp add: pending_rows_def sql_pending_def)
  obtain b2 where b2: "\<And>r :: ('a relay_state, thrown, int) exec. withOrderPlacedChannel ops url r ?s =
      finallyE r (finallyE (brokerE (closeChannel_op ops)) (brokerE (closeConnection_op ops))) (?s\<lparr>rl_broker := b2\<rparr>)"
    using assms(1,2) by (simp add: withOrderPlacedChannel_def bindE_def liftE_def catchE_def brokerE_healthy healthy_def)
  obtain b3 where b3: "publish_rows ops jp False ?rows 0 (?s\<lparr>rl_broker := b2\<rparr>) = (Inr (int (length ?rows)),
      ?s\<lparr>rl_broker := b3, rl_world := (rl_world s)\<lparr>w_db := mark_all (map x_id ?rows) ?d\<rparr>\<rparr>)"
    using publish_rows_healthy [OF assms(1) valid, of 0 "?s\<lparr>rl_broker := b2\<rparr>"] by auto
  have "\<exists>b4. withOrderPlacedChannel ops url (publish_rows ops jp False ?rows 0) ?s = (Inr (int (length ?rows)),
      ?s\<lparr>rl_world := (rl_world s)\<lparr>w_db := mark_all (map x_id ?rows) ?d\<rparr>, rl_broker := b4\<rparr>)"
    using assms(1) by (auto simp: b2 b3 finallyE_def brokerE_healthy healthy_def)
  then obtain b4 where b4: "withOrderPlacedChannel ops url (publish_rows ops jp False ?rows 0) ?s = (Inr (int (length ?rows)),
      ?s\<lparr>rl_world := (rl_world s)\<lparr>w_db := mark_all (map x_id ?rows) ?d\<rparr>, rl_broker := b4\<rparr>)" by blast
  let ?body = "bindE (worldE (sqlE (sql_pending ?limit (ro_userId opts) (re_locked env)))) (\<lambda>rows.
      if rows = [] then returnE 0 else withOrderPlacedChannel ops url
        (publish_rows ops jp (ro_crashAfterPublish opts) rows 0))"
  have "worldE (sqlE (sql_pending ?limit (ro_userId opts) (re_locked env))) ?s = (Inr ?rows, ?s)"
    using sel by (simp add: worldE_def sqlE_def)
  then have "\<exists>s2. ?body ?s = (Inr (int (length ?rows)), s2) \<and> w_db (rl_world s2) = mark_all (map x_id ?rows) ?d"
    using b4 assms(4) by (cases "?rows = []") (auto simp: bindE_def mark_all_def)
  then obtain s2 where s2: "?body ?s = (Inr (int (length ?rows)), s2)" "w_db (rl_world s2) = mark_all (map x_id ?rows) ?d"
    by blast
  have "relay_transaction (re_commit env) ?body ?s = (Inr (int (length ?rows)), s2)"
    using s2(1) assms(3,6) by (simp add: relay_transaction_def bindE_Inr)
  then show ?thesis using s2(2) by (simp add: publishPending_def catchE_def)
qed

section \<open>Fixtures\<close>

definition no_parse :: "string \<Rightarrow> thrown + json" where
  "no_parse t = Inl (PlainError ''Unexpected token'')"

definition relay_defaults :: relay_options where
  "relay_defaults = \<lparr>ro_limit = None, ro_crashAfterPublish = False, ro_userId = None\<rparr>"

definition alone_env :: relay_env where
  "alone_env = \<lparr>re_locked = \<lambda>_. False, re_commit = None\<rparr>"

definition fresh_broker :: "confirm_fault list \<Rightarrow> amqp" where
  "fresh_broker fs = \<lparr>am_log = [], am_work = [], am_dlq = [], am_unacked = [], am_tag = 0, am_inflight = None, am_faults = fs\<rparr>"

text \<open>The shop after one checkout, with a broker beside it.\<close>

definition after_checkout :: "confirm_fault list \<Rightarrow> amqp relay_state" where
  "after_checkout fs = \<lparr>rl_world = \<lparr>w_db = paid_shop, w_rng = 1, w_sched = []\<rparr>,
     rl_broker = fresh_broker fs, rl_failed = None\<rparr>"

lemma after_checkout_simps [simp]:
  "w_db (rl_world (after_checkout fs)) = paid_shop" "w_sched (rl_world (after_checkout fs)) = []"
  "am_log (rl_broker (after_checkout fs)) = []"
  by (simp_all add: after_checkout_def fresh_broker_def)

lemma after_checkout_calm: "calm (rl_world (after_checkout fs))"
  by (simp add: calm_def)

lemma paid_outbox_ok: "outbox_ok paid_shop"
  by (simp add: outbox_ok_def paid_shop_def)

section \<open>Properties\<close>



text \<open>
  (C15) The relay never loses an event, however it ends: a row changes from unpublished to
  published only if the broker accepted its message; a run that throws (refused or lost
  publish, crash before the mark, failed close or commit, aborted transaction) sets no mark at
  all, so the rows are claimed again, and at most counts one attempt.
\<close>

theorem publishPending_no_loss:
  assumes "broker_laws ops accepted" and "outbox_ok (w_db (rl_world s))" and "calm (rl_world s)"
    and "publishPending ops json_parse url env opts s = (r, s')"
  shows "list_all2 (row_relayed (\<lambda>x. row_message json_parse x \<in> set (accepted (rl_broker s')) \<and> \<not> isl r))
    (outbox (w_db (rl_world s))) (outbox (w_db (rl_world s')))"
  using relay_calm [OF assms] by auto

theorem publishPending_no_loss_witness:
  "\<exists>e s'. publishPending amqp_ops no_parse (Some ''amqp://b'') alone_env relay_defaults
       (after_checkout [LosesConfirm]) = (Inl e, s')
     \<and> map x_published_at (outbox (w_db (rl_world s'))) = [None]
     \<and> map x_attempts (outbox (w_db (rl_world s'))) = [1] \<and> length (am_work (rl_broker s')) = 1"
proof -
  let ?p = "publishPending amqp_ops no_parse (Some ''amqp://b'') alone_env relay_defaults (after_checkout [LosesConfirm])"
  have f: "isl (fst ?p)" "map x_attempts (outbox (w_db (rl_world (snd ?p)))) = [1]"
    "length (am_work (rl_broker (snd ?p))) = 1"
    by code_simp+
  then obtain e s' where eq: "?p = (Inl e, s')" by (metis isl_def prod.collapse)
  have "list_all2 (\<lambda>x x'. x_published_at x' = x_published_at x) (outbox paid_shop) (outbox (w_db (rl_world s')))"
    by (rule list_all2_mono [OF publishPending_no_loss [OF amqp.broker_laws_axioms _ _ eq, simplified after_checkout_simps,
          OF paid_outbox_ok after_checkout_calm]]) (simp add: row_relayed_def)
  then have "map x_published_at (outbox (w_db (rl_world s'))) = [None]"
    by (auto simp: paid_shop_def list_all2_Cons1)
  then show ?thesis using eq f by auto
qed

text \<open>
  The relay drains the outbox: with a broker that accepts everything, valid payloads, no row
  held by another worker and a limit that covers them, one run publishes every pending row
  and no unpublished row is left.
\<close>

theorem publishPending_drains:
  assumes "healthy ops" and "requireBrokerUrl url = Inr u" and "outbox_ok (w_db (rl_world s))"
    and "w_sched (rl_world s) = []" and "int (length (outbox (w_db (rl_world s)))) \<le> limit"
    and "\<forall>row \<in> set (outbox (w_db (rl_world s))). \<exists>ev. asOrderPlacedEvent json_parse (x_payload row) = Inr ev"
  shows "\<exists>n s'. publishPending ops json_parse url \<lparr>re_locked = \<lambda>_. False, re_commit = None\<rparr>
      \<lparr>ro_limit = Some limit, ro_crashAfterPublish = False, ro_userId = None\<rparr> s = (Inr n, s')
    \<and> n = int (length (filter (\<lambda>x. x_published_at x = None) (outbox (w_db (rl_world s)))))
    \<and> (\<forall>x \<in> set (outbox (w_db (rl_world s'))). x_published_at x \<noteq> None)"
proof -
  let ?env = "\<lparr>re_locked = \<lambda>_. False, re_commit = None\<rparr>"
  let ?opts = "\<lparr>ro_limit = Some limit, ro_crashAfterPublish = False, ro_userId = None\<rparr>"
  let ?d = "w_db (rl_world s)"
  let ?open = "filter (\<lambda>x. x_published_at x = None) (outbox ?d)"
  have "length ?open \<le> nat limit" using assms(5) length_filter_le [of _ "outbox ?d"]
    by (metis le_trans nat_int nat_mono)
  then have rows: "pending_rows ?opts ?env ?d = sort_key (\<lambda>x. (x_created_at x, x_id x)) ?open"
    using assms(5) by (simp add: pending_rows_def sql_pending_def)
  obtain s' where s': "publishPending ops json_parse url ?env ?opts s = (Inr (int (length (pending_rows ?opts ?env ?d))), s')"
    "w_db (rl_world s') = mark_all (map x_id (pending_rows ?opts ?env ?d)) ?d"
    using publishPending_healthy [OF assms(1,2), of ?env ?opts s json_parse] assms(4-6) pending_rows_mem
    by fastforce
  have "x_published_at x \<noteq> None" if "x \<in> set (outbox (w_db (rl_world s')))" for x
    using that unfolding s'(2) outbox_mark_all [OF distinct_pending_rows [OF assms(3)]]
    by (auto simp: rows split: if_splits)
  then show ?thesis using s'(1) rows by auto
qed

theorem publishPending_drains_witness:
  "\<exists>s'. publishPending (amqp_ops\<lparr>waitForConfirms_op := \<lambda>b. (Inr (), snd (amqp_confirm b))\<rparr>) no_parse (Some ''amqp://b'')
      \<lparr>re_locked = \<lambda>_. False, re_commit = None\<rparr>
      \<lparr>ro_limit = Some 10, ro_crashAfterPublish = False, ro_userId = None\<rparr> (after_checkout []) = (Inr 1, s')
    \<and> (\<forall>x \<in> set (outbox (w_db (rl_world s'))). x_published_at x \<noteq> None)"
proof -
  let ?ops = "amqp_ops\<lparr>waitForConfirms_op := \<lambda>b. (Inr (), snd (amqp_confirm b))\<rparr>"
  have h: "healthy ?ops" by (simp add: healthy_def amqp_ops_def amqp_publish_def)
  have u: "requireBrokerUrl (Some ''amqp://b'') = Inr ''amqp://b''" by code_simp
  have "\<exists>n s'. publishPending ?ops no_parse (Some ''amqp://b'') \<lparr>re_locked = \<lambda>_. False, re_commit = None\<rparr>
      \<lparr>ro_limit = Some 10, ro_crashAfterPublish = False, ro_userId = None\<rparr> (after_checkout []) = (Inr n, s')
      \<and> n = int (length (filter (\<lambda>x. x_published_at x = None) (outbox paid_shop)))
      \<and> (\<forall>x \<in> set (outbox (w_db (rl_world s'))). x_published_at x \<noteq> None)"
    using publishPending_drains [OF h u, of "after_checkout []" 10 no_parse] paid_outbox_ok
    by (simp add: paid_shop_def asOrderPlacedEvent_def is_order_event_def event_json_def json_field_def)
  then show ?thesis by (simp add: paid_shop_def)
qed

end
