(* ===== verification/EffectStore.thy ===== *)
theory EffectStore
  imports CheckoutCorrect
begin

text \<open>
  \<open>src/messaging/effect-store.ts\<close>: the durable, idempotent effect of \<open>order.placed\<close>. The
  parser of timestamps of the database server is a parameter.
\<close>

section \<open>The type uuid of the database\<close>

definition hex_value :: "char \<Rightarrow> nat option" where
  "hex_value c =
     (let n = of_char c :: nat
      in if 48 \<le> n \<and> n \<le> 57 then Some (n - 48)
         else if 97 \<le> n \<and> n \<le> 102 then Some (n - 87)
         else if 65 \<le> n \<and> n \<le> 70 then Some (n - 55) else None)"

text \<open>
  Sixteen pairs of hexadecimal digits, a hyphen allowed after every second pair but the
  last; \<open>n\<close> pairs are still to come.
\<close>

fun uuid_scan :: "nat \<Rightarrow> string \<Rightarrow> (nat list \<times> string) option" where
  "uuid_scan 0 s = Some ([], s)"
| "uuid_scan (Suc n) (a # b # s) =
     (case (hex_value a, hex_value b) of
        (Some x, Some y) \<Rightarrow>
          (let s' = (if even n \<and> 0 < n \<and> s \<noteq> [] \<and> hd s = CHR ''-'' then tl s else s)
           in map_option (\<lambda>(xs, rest). (x # y # xs, rest)) (uuid_scan n s'))
      | _ \<Rightarrow> None)"
| "uuid_scan (Suc n) s = None"

definition uuid_text :: "string \<Rightarrow> nat list option" where
  "uuid_text s =
     (let braces = (s \<noteq> [] \<and> hd s = CHR ''{'')
      in case uuid_scan 16 (if braces then tl s else s) of
           None \<Rightarrow> None
         | Some (u, rest) \<Rightarrow> if rest = (if braces then ''}'' else []) then Some u else None)"

text \<open>The value of a \<open>uuid\<close>, written with its 32 digits.\<close>

definition hex_digit :: "nat \<Rightarrow> char" where
  "hex_digit n = (if n < 10 then char_of (48 + n) else char_of (87 + n))"

definition pg_uuid :: "string \<Rightarrow> thrown + string" where
  "pg_uuid s =
     (case uuid_text s of
        None \<Rightarrow> Inl (PgError ''22P02'' ''invalid input syntax for type uuid'')
      | Some u \<Rightarrow> Inr (map hex_digit u))"

section \<open>Statements\<close>

definition ORDER_PLACED_CONSUMER :: string where
  "ORDER_PLACED_CONSUMER = ''order-placed''"

definition sql_insert_delivery :: "string \<Rightarrow> db \<Rightarrow> (thrown + unit) \<times> db" where
  "sql_insert_delivery eventId d =
     (case pg_uuid eventId of
        Inl e \<Rightarrow> (Inl e, d)
      | Inr u \<Rightarrow> (Inr (), d\<lparr>order_placed_deliveries := order_placed_deliveries d @ [(deliveries_seq d, u)],
          deliveries_seq := deliveries_seq d + 1\<rparr>))"

definition sql_insert_processed :: "string \<Rightarrow> string \<Rightarrow> db \<Rightarrow> (thrown + unit) \<times> db" where
  "sql_insert_processed messageId consumer d =
     (case pg_uuid messageId of
        Inl e \<Rightarrow> (Inl e, d)
      | Inr u \<Rightarrow>
          (Inr (), if (u, consumer) \<in> (\<lambda>m. (m_message_id m, m_consumer m)) ` set (processed_messages d) then d
             else d\<lparr>processed_messages := processed_messages d @ [\<lparr>m_message_id = u, m_consumer = consumer\<rparr>]\<rparr>))"

text \<open>
  A value bound where a timestamp is expected: a missing value is \<open>NULL\<close>, a structured one
  is no timestamp.
\<close>

definition pg_timestamptz :: "(string \<Rightarrow> thrown + string) \<Rightarrow> json option \<Rightarrow> thrown + string" where
  "pg_timestamptz timestamptz v =
     (case v of
        None \<Rightarrow> Inl (PgError ''23502'' ''null value in column occurred_at'')
      | Some JsNull \<Rightarrow> Inl (PgError ''23502'' ''null value in column occurred_at'')
      | Some (JsString s) \<Rightarrow> timestamptz s
      | Some (JsNum n) \<Rightarrow> timestamptz (show_int n)
      | Some (JsBool b) \<Rightarrow> timestamptz (if b then ''true'' else ''false'')
      | Some _ \<Rightarrow> Inl (PgError ''22007'' ''invalid input syntax for type timestamp with time zone''))"

definition sql_insert_effect ::
  "(string \<Rightarrow> thrown + string) \<Rightarrow> string \<Rightarrow> string \<Rightarrow> json option \<Rightarrow> db \<Rightarrow> (thrown + string list) \<times> db" where
  "sql_insert_effect timestamptz eventId orderId occurredAt d =
     (case pg_uuid eventId of
        Inl e \<Rightarrow> (Inl e, d)
      | Inr u \<Rightarrow>
          (case pg_timestamptz timestamptz occurredAt of
             Inl e \<Rightarrow> (Inl e, d)
           | Inr t \<Rightarrow>
               if u \<in> e_event_id ` set (order_placed_effects d) then (Inr [], d)
               else (Inr [u], d\<lparr>order_placed_effects := order_placed_effects d @
                 [\<lparr>e_event_id = u, e_order_id = orderId, e_occurred_at = t, e_acked_at = None\<rparr>]\<rparr>)))"

definition sql_mark_acked :: "string \<Rightarrow> db \<Rightarrow> (thrown + unit) \<times> db" where
  "sql_mark_acked eventId d =
     (case pg_uuid eventId of
        Inl e \<Rightarrow> (Inl e, d)
      | Inr u \<Rightarrow> (Inr (), d\<lparr>order_placed_effects := map (\<lambda>r. if e_event_id r = u \<and> e_acked_at r = None
          then r\<lparr>e_acked_at := Some (now d)\<rparr> else r) (order_placed_effects d)\<rparr>))"

definition sql_truncate_effects :: "db \<Rightarrow> (thrown + unit) \<times> db" where
  "sql_truncate_effects d =
     (Inr (), d\<lparr>order_placed_deliveries := [], order_placed_effects := [], processed_messages := []\<rparr>)"

section \<open>The store\<close>

record effect_counts =
  ec_deliveries :: int
  ec_effect :: int
  ec_acked :: int
  ec_skipped :: int

record effect_store =
  st_world :: world
  st_successfulApplies :: int

definition storeW :: "(world, thrown, 'a) exec \<Rightarrow> (effect_store, thrown, 'a) exec" where
  "storeW m s = (case m (st_world s) of (r, w) \<Rightarrow> (r, s\<lparr>st_world := w\<rparr>))"

definition reset_store :: "(effect_store, thrown, unit) exec" where
  "reset_store = bindE (storeW (query sql_truncate_effects)) (\<lambda>_ s. (Inr (), s\<lparr>st_successfulApplies := 0\<rparr>))"

definition recordDelivery :: "string \<Rightarrow> (effect_store, thrown, unit) exec" where
  "recordDelivery eventId = storeW (query (sql_insert_delivery eventId))"

definition effect_body ::
  "(string \<Rightarrow> thrown + string) \<Rightarrow> string \<Rightarrow> string \<Rightarrow> json option \<Rightarrow> (world, thrown, bool) exec" where
  "effect_body timestamptz eventId orderId occurredAt =
     bindE (sqlE (sql_insert_processed eventId ORDER_PLACED_CONSUMER)) (\<lambda>_.
     bindE (sqlE (sql_insert_effect timestamptz eventId orderId occurredAt)) (\<lambda>rows.
       returnE (rows \<noteq> [])))"

definition applyEffect ::
  "(string \<Rightarrow> thrown + string) \<Rightarrow> string \<Rightarrow> string \<Rightarrow> json option \<Rightarrow> (effect_store, thrown, bool) exec" where
  "applyEffect timestamptz eventId orderId occurredAt =
     bindE (storeW (transaction (effect_body timestamptz eventId orderId occurredAt))) (\<lambda>applied s.
       (Inr applied, if applied then s\<lparr>st_successfulApplies := st_successfulApplies s + 1\<rparr> else s))"

definition appliedCount :: "effect_store \<Rightarrow> int" where
  "appliedCount s = st_successfulApplies s"

definition markAcked :: "string \<Rightarrow> (effect_store, thrown, unit) exec" where
  "markAcked eventId = storeW (query (sql_mark_acked eventId))"

definition sql_count :: "(db \<Rightarrow> 'r list) \<Rightarrow> db \<Rightarrow> (thrown + int) \<times> db" where
  "sql_count rows d = (Inr (int (length (rows d))), d)"

definition counts :: "(effect_store, thrown, effect_counts) exec" where
  "counts =
     bindE (storeW (query (sql_count order_placed_deliveries))) (\<lambda>deliveries.
     bindE (storeW (query (sql_count order_placed_effects))) (\<lambda>effect.
     bindE (storeW (query (sql_count (\<lambda>d. filter (\<lambda>r. e_acked_at r \<noteq> None) (order_placed_effects d))))) (\<lambda>acked.
       returnE \<lparr>ec_deliveries = deliveries, ec_effect = effect, ec_acked = acked,
         ec_skipped = max 0 (deliveries - effect)\<rparr>)))"

section \<open>The contract of an idempotent effect\<close>

text \<open>
  What a consumer of an at-least-once queue needs of its store: applying under a key tells
  whether the key was new, and changes the effect of that key only if it was. Then any
  sequence of deliveries has the effect of the first delivery of each key.
\<close>

locale idempotent_effect =
  fixes apply_once :: "'k \<Rightarrow> 'v \<Rightarrow> 's \<Rightarrow> bool \<times> 's" and effect :: "'s \<Rightarrow> 'k \<rightharpoonup> 'v"
  assumes told: "fst (apply_once k v s) \<longleftrightarrow> effect s k = None"
    and changed: "effect (snd (apply_once k v s)) = (if effect s k = None then (effect s)(k \<mapsto> v) else effect s)"
begin

primrec deliver_all :: "('k \<times> 'v) list \<Rightarrow> 's \<Rightarrow> bool list \<times> 's" where
  "deliver_all [] s = ([], s)"
| "deliver_all (kv # kvs) s =
     (let (b, s1) = apply_once (fst kv) (snd kv) s; (bs, s2) = deliver_all kvs s1 in (b # bs, s2))"

lemma deliver_all_effect:
  "effect (snd (deliver_all kvs s)) = map_of kvs ++ effect s"
proof (induction kvs arbitrary: s)
  case (Cons kv kvs)
  show ?case
    by (auto simp: Cons.IH changed fun_eq_iff map_add_def split_beta Let_def split: option.split)
qed simp

lemma deliver_all_told:
  "length (filter (\<lambda>b. b) (fst (deliver_all kvs s))) = card (fst ` set kvs - dom (effect s))"
proof (induction kvs arbitrary: s)
  case (Cons kv kvs)
  let ?s = "snd (apply_once (fst kv) (snd kv) s)"
  have IH: "length (filter (\<lambda>b. b) (fst (deliver_all kvs ?s))) = card (fst ` set kvs - dom (effect ?s))" by (rule Cons.IH)
  show ?case
  proof (cases "effect s (fst kv) = None")
    case True
    then have "fst ` set (kv # kvs) - dom (effect s) = insert (fst kv) (fst ` set kvs - dom (effect ?s))"
      by (auto simp: changed)
    moreover have "fst kv \<notin> fst ` set kvs - dom (effect ?s)" using True by (simp add: changed)
    ultimately have "card (fst ` set (kv # kvs) - dom (effect s)) = Suc (card (fst ` set kvs - dom (effect ?s)))"
      by simp
    then show ?thesis using IH True by (simp add: split_beta Let_def told)
  next
    case False
    then have "fst ` set (kv # kvs) - dom (effect s) = fst ` set kvs - dom (effect ?s)" by (auto simp: changed)
    then show ?thesis using IH False by (simp add: split_beta Let_def told)
  qed
qed simp

end

section \<open>The tables as an effect\<close>

definition effect_of :: "db \<Rightarrow> string \<rightharpoonup> string \<times> string" where
  "effect_of d = map_of (map (\<lambda>r. (e_event_id r, e_order_id r, e_occurred_at r)) (order_placed_effects d))"

definition apply_rows :: "string \<Rightarrow> string \<times> string \<Rightarrow> db \<Rightarrow> bool \<times> db" where
  "apply_rows u v d =
     (u \<notin> e_event_id ` set (order_placed_effects d),
      d\<lparr>processed_messages := processed_messages d @
          (if (u, ORDER_PLACED_CONSUMER) \<in> (\<lambda>m. (m_message_id m, m_consumer m)) ` set (processed_messages d) then []
           else [\<lparr>m_message_id = u, m_consumer = ORDER_PLACED_CONSUMER\<rparr>]),
        order_placed_effects := order_placed_effects d @
          (if u \<in> e_event_id ` set (order_placed_effects d) then []
           else [\<lparr>e_event_id = u, e_order_id = fst v, e_occurred_at = snd v, e_acked_at = None\<rparr>])\<rparr>)"

lemma effect_of_None: "effect_of d u = None \<longleftrightarrow> u \<notin> e_event_id ` set (order_placed_effects d)"
  by (auto simp: effect_of_def map_of_eq_None_iff image_iff)

interpretation eff: idempotent_effect apply_rows effect_of
proof unfold_locales
  fix u v d
  show "fst (apply_rows u v d) \<longleftrightarrow> effect_of d u = None" by (simp add: apply_rows_def effect_of_None)
  have "map_of (xs @ [(u, v)]) = (map_of xs)(u \<mapsto> v)" if "map_of xs u = None" for xs :: "(string \<times> string \<times> string) list"
    using that by (auto simp: fun_eq_iff map_add_def split: option.split)
  then show "effect_of (snd (apply_rows u v d)) = (if effect_of d u = None then (effect_of d)(u \<mapsto> v) else effect_of d)"
    using effect_of_None [of d u] by (auto simp: apply_rows_def effect_of_def)
qed

lemma effect_body_run:
  assumes "pg_uuid eventId = Inr u" and "pg_timestamptz ts occ = Inr t"
  shows "effect_body ts eventId orderId occ w =
    (Inr (fst (apply_rows u (orderId, t) (w_db w))), w\<lparr>w_db := snd (apply_rows u (orderId, t) (w_db w))\<rparr>)"
  using assms
  by (auto simp: effect_body_def bindE_def sqlE_def sql_insert_processed_def sql_insert_effect_def apply_rows_def)

lemma effect_body_Inr:
  assumes "effect_body ts eventId orderId occ w = (Inr b, w')"
  obtains u t where "pg_uuid eventId = Inr u" "pg_timestamptz ts occ = Inr t"
    "b = fst (apply_rows u (orderId, t) (w_db w))" "w' = w\<lparr>w_db := snd (apply_rows u (orderId, t) (w_db w))\<rparr>"
proof -
  from assms obtain u where u: "pg_uuid eventId = Inr u"
    by (auto simp: effect_body_def sqlE_def sql_insert_processed_def elim!: bindE_InrE split: sum.splits)
  with assms obtain t where "pg_timestamptz ts occ = Inr t"
    by (auto simp: effect_body_def sqlE_def sql_insert_effect_def elim!: bindE_InrE split: sum.splits)
  then show ?thesis using that u assms effect_body_run by auto
qed

lemma tame_effect_body: "tame (effect_body ts eventId orderId occ)"
  unfolding effect_body_def
  by (intro tame_intros; simp add: sql_insert_processed_def sql_insert_effect_def seqs_le_def split: sum.split)

section \<open>The inbox invariant\<close>

text \<open>The inbox mark of an event and its effect are there together or not at all.\<close>

definition inbox_sync :: "db \<Rightarrow> bool" where
  "inbox_sync d \<longleftrightarrow> (\<forall>u. (u, ORDER_PLACED_CONSUMER) \<in> (\<lambda>m. (m_message_id m, m_consumer m)) ` set (processed_messages d)
     \<longleftrightarrow> u \<in> e_event_id ` set (order_placed_effects d))"

lemma apply_rows_inbox:
  assumes "inbox_ok d" and "inbox_sync d"
  shows "inbox_ok (snd (apply_rows u v d)) \<and> inbox_sync (snd (apply_rows u v d))"
  using assms by (auto simp: apply_rows_def inbox_ok_def inbox_sync_def)

lemma table_pred_inbox: "table_pred (\<lambda>d. inbox_ok d \<and> inbox_sync d)"
  unfolding table_pred_def tables_eq_iff seqs_le_def
  by (auto simp: inbox_ok_def inbox_sync_def intro: order_less_le_trans)

section \<open>Deliveries in sequence\<close>

type_synonym effect_call = "string \<times> string \<times> json option"

definition apply_all :: "(string \<Rightarrow> thrown + string) \<Rightarrow> effect_call list \<Rightarrow> (effect_store, thrown, bool list) exec" where
  "apply_all ts calls = forE calls (\<lambda>(eventId, orderId, occurredAt). applyEffect ts eventId orderId occurredAt)"

text \<open>The key and the value a valid call stands for.\<close>

definition call_key :: "effect_call \<Rightarrow> string" where
  "call_key c = (case pg_uuid (fst c) of Inr u \<Rightarrow> u | Inl _ \<Rightarrow> [])"

definition call_value :: "(string \<Rightarrow> thrown + string) \<Rightarrow> effect_call \<Rightarrow> string \<times> string" where
  "call_value ts c = (fst (snd c), case pg_timestamptz ts (snd (snd c)) of Inr t \<Rightarrow> t | Inl _ \<Rightarrow> [])"

definition valid_call :: "(string \<Rightarrow> thrown + string) \<Rightarrow> effect_call \<Rightarrow> bool" where
  "valid_call ts c \<longleftrightarrow> \<not> isl (pg_uuid (fst c)) \<and> \<not> isl (pg_timestamptz ts (snd (snd c)))"

lemma applyEffect_alone:
  assumes "w_sched (st_world s) = []" and "valid_call ts (i, j, c)"
  shows "applyEffect ts i j c s =
    (let (b, d) = apply_rows (call_key (i, j, c)) (call_value ts (i, j, c)) (w_db (st_world s))
     in (Inr b, s\<lparr>st_world := (st_world s)\<lparr>w_db := d\<rparr>,
           st_successfulApplies := st_successfulApplies s + (if b then 1 else 0)\<rparr>))"
proof -
  obtain u t where ut: "pg_uuid i = Inr u" "pg_timestamptz ts c = Inr t"
    using assms(2) by (auto simp: valid_call_def isl_def) (metis obj_sumE)
  obtain b d where bd: "apply_rows u (j, t) (w_db (st_world s)) = (b, d)" by fastforce
  have "transaction (effect_body ts i j c) (st_world s) = (Inr b, (st_world s)\<lparr>w_db := d\<rparr>)"
    using effect_body_run [OF ut, of j "st_world s"] bd by (simp add: transaction_empty [OF assms(1)])
  then show ?thesis using bd ut
    by (simp add: applyEffect_def storeW_def bindE_def call_key_def call_value_def)
qed

lemma apply_all_alone:
  assumes "w_sched (st_world s) = []" and "\<forall>c \<in> set calls. valid_call ts c"
  shows "apply_all ts calls s =
    (let (bs, d) = eff.deliver_all (map (\<lambda>c. (call_key c, call_value ts c)) calls) (w_db (st_world s))
     in (Inr bs, s\<lparr>st_world := (st_world s)\<lparr>w_db := d\<rparr>,
           st_successfulApplies := st_successfulApplies s + int (length (filter (\<lambda>b. b) bs))\<rparr>))"
  using assms
proof (induction calls arbitrary: s)
  case (Cons c calls)
  obtain i j o' where c: "c = (i, j, o')" by (metis prod.collapse)
  let ?d = "w_db (st_world s)"
  obtain b d1 where 1: "apply_rows (call_key c) (call_value ts c) ?d = (b, d1)" by fastforce
  let ?s1 = "s\<lparr>st_world := (st_world s)\<lparr>w_db := d1\<rparr>, st_successfulApplies := st_successfulApplies s + (if b then 1 else 0)\<rparr>"
  obtain bs d2 where 2: "eff.deliver_all (map (\<lambda>c. (call_key c, call_value ts c)) calls) d1 = (bs, d2)" by fastforce
  have "applyEffect ts i j o' s = (Inr b, ?s1)"
    using applyEffect_alone [of s ts i j o'] Cons.prems 1 by (simp add: c)
  moreover have "apply_all ts calls ?s1 = (Inr bs, s\<lparr>st_world := (st_world s)\<lparr>w_db := d2\<rparr>,
      st_successfulApplies := st_successfulApplies ?s1 + int (length (filter (\<lambda>b. b) bs))\<rparr>)"
    using Cons.IH [of ?s1] Cons.prems 2 by simp
  ultimately show ?case using 1 2 by (simp add: apply_all_def c bindE_def)
qed (simp add: apply_all_def)

section \<open>Properties\<close>

text \<open>
  (C17) Any sequence of deliveries, with any duplicates among them, has exactly the effect of the
  first delivery of each event: every event of the sequence has one effect, effects that were
  there are untouched, \<open>applyEffect\<close> answers true as often as there are new events, and
  \<open>appliedCount\<close> grows by that number.
\<close>

theorem applyEffect_exactly_once:
  assumes "w_sched (st_world s) = []" and "\<forall>c \<in> set calls. valid_call ts c"
  shows "\<exists>bs s'. apply_all ts calls s = (Inr bs, s')
    \<and> effect_of (w_db (st_world s'))
        = map_of (map (\<lambda>c. (call_key c, call_value ts c)) calls) ++ effect_of (w_db (st_world s))
    \<and> length (filter (\<lambda>b. b) bs) = card (call_key ` set calls - dom (effect_of (w_db (st_world s))))
    \<and> appliedCount s' = appliedCount s + int (length (filter (\<lambda>b. b) bs))"
proof -
  let ?kvs = "map (\<lambda>c. (call_key c, call_value ts c)) calls" and ?d = "w_db (st_world s)"
  obtain bs d' where bs: "eff.deliver_all ?kvs ?d = (bs, d')" by fastforce
  have "effect_of d' = map_of ?kvs ++ effect_of ?d" using eff.deliver_all_effect [of ?kvs ?d] bs by simp
  moreover have "length (filter (\<lambda>b. b) bs) = card (call_key ` set calls - dom (effect_of ?d))"
    using eff.deliver_all_told [of ?kvs ?d] bs by (simp add: image_image)
  ultimately show ?thesis using apply_all_alone [OF assms] bs by (simp add: appliedCount_def)
qed

definition test_ts :: "string \<Rightarrow> thrown + string" where
  "test_ts s = (if s = [] then Inl (PgError ''22007'' ''invalid input syntax'') else Inr s)"

text \<open>Two spellings of one event id, and another event.\<close>

definition three_calls :: "effect_call list" where
  "three_calls = [(''11111111-1111-4111-8111-11111111111a'', ''order-9'', Some (JsString ''t'')),
     (''{11111111-1111-4111-8111-11111111111A}'', ''order-9'', Some (JsString ''t'')),
     (''22222222-2222-4222-8222-222222222222'', ''order-8'', Some (JsString ''t''))]"

theorem applyEffect_exactly_once_witness:
  "\<exists>bs s'. apply_all test_ts three_calls \<lparr>st_world = shop_world, st_successfulApplies = 0\<rparr> = (Inr bs, s')
    \<and> appliedCount s' = 2"
proof -
  have v: "\<forall>c \<in> set three_calls. valid_call test_ts c" by code_simp
  have k: "card (call_key ` set three_calls) = 2" by code_simp
  have "dom (effect_of shop) = {}" by (simp add: effect_of_def shop_def)
  then show ?thesis using applyEffect_exactly_once [of "\<lparr>st_world = shop_world, st_successfulApplies = 0\<rparr>", OF _ v] k
    by (auto simp: shop_world_def appliedCount_def)
qed

text \<open>
  (C18) In any interleaving with processes that keep it, and whether the call succeeds, conflicts,
  is refused or aborted, \<open>applyEffect\<close> keeps the inbox mark and the effect of every event
  together, and at most one of each.
\<close>

theorem applyEffect_inbox:
  assumes "inbox_ok (w_db (st_world s))" and "inbox_sync (w_db (st_world s))"
    and "env_keeps (\<lambda>d. inbox_ok d \<and> inbox_sync d) (st_world s)"
    and "applyEffect ts eventId orderId occurredAt s = (r, s')"
  shows "inbox_ok (w_db (st_world s')) \<and> inbox_sync (w_db (st_world s'))"
proof -
  let ?tx = "transaction (effect_body ts eventId orderId occurredAt)" and ?P = "\<lambda>d. inbox_ok d \<and> inbox_sync d"
  obtain r1 w1 where t: "?tx (st_world s) = (r1, w1)" by fastforce
  have w1: "st_world s' = w1"
    using assms(4) t by (auto simp: applyEffect_def storeW_def bindE_def split: sum.splits)
  show ?thesis
  proof (cases r1)
    case (Inl e)
    then have "unaffected (st_world s) w1" using t tx.abort [OF tame_effect_body] by blast
    then show ?thesis using unaffected_keeps [OF _ table_pred_inbox assms(3)] assms(1,2) w1 by blast
  next
    case (Inr b)
    let ?w = "snd (next_env (st_world s))"
    have "effect_body ts eventId orderId occurredAt ?w = (Inr b, w1)"
      by (rule tx.commit) (use t Inr in simp)
    moreover have "?P (w_db ?w)"
      using unaffected_keeps [OF tx.quiet_start table_pred_inbox assms(3)] assms(1,2) by blast
    ultimately show ?thesis using apply_rows_inbox w1 by (auto elim!: effect_body_Inr)
  qed
qed

theorem applyEffect_inbox_witness:
  "inbox_sync (w_db (st_world (snd (applyEffect test_ts (test_uuid 0) ''order-1'' (Some (JsString ''t''))
      \<lparr>st_world = shop_world, st_successfulApplies = 0\<rparr>))))"
proof -
  let ?s = "\<lparr>st_world = shop_world, st_successfulApplies = 0\<rparr>"
  have 1: "inbox_ok (w_db (st_world ?s))" by (simp add: shop_world_def shop_def inbox_ok_def)
  have 2: "inbox_sync (w_db (st_world ?s))" by (simp add: shop_world_def shop_def inbox_sync_def)
  have 3: "env_keeps (\<lambda>d. inbox_ok d \<and> inbox_sync d) (st_world ?s)" by (simp add: env_keeps_def shop_world_def)
  from applyEffect_inbox [OF 1 2 3 prod.collapse [symmetric]] show ?thesis by (rule conjunct2)
qed

end
