(* ===== verification/Consumer.thy ===== *)
theory Consumer
  imports EffectStore
begin

text \<open>
  \<open>src/messaging/order-placed.consumer.ts\<close>: the manual-ack consumer. The AMQP channel is a
  parameter, a function that performs one settling call on a channel state of any type.
\<close>

section \<open>Messages\<close>

text \<open>A delivered message: its tag, and its content as JSON (\<open>None\<close> when it is not JSON).\<close>

record consume_message =
  cm_tag :: nat
  cm_content :: "json option"

datatype settle = Ack | NackRequeue | Reject

type_synonym 'c channel_op = "settle \<Rightarrow> consume_message \<Rightarrow> 'c \<Rightarrow> (thrown + unit) \<times> 'c"

record 'c consumer_state =
  cs_store :: effect_store
  cs_channel :: 'c
  cs_rejected :: int
  cs_killed :: bool

definition storeE :: "(effect_store, thrown, 'a) exec \<Rightarrow> ('c consumer_state, thrown, 'a) exec" where
  "storeE m s = (case m (cs_store s) of (r, st) \<Rightarrow> (r, s\<lparr>cs_store := st\<rparr>))"

definition channelE :: "('c \<Rightarrow> (thrown + unit) \<times> 'c) \<Rightarrow> ('c consumer_state, thrown, unit) exec" where
  "channelE f s = (case f (cs_channel s) of (r, c) \<Rightarrow> (r, s\<lparr>cs_channel := c\<rparr>))"

section \<open>The handler\<close>

definition text_field :: "json \<Rightarrow> string \<Rightarrow> string option" where
  "text_field j k = (case json_field j k of Some (JsString s) \<Rightarrow> Some s | _ \<Rightarrow> None)"

definition parseEvent :: "consume_message \<Rightarrow> thrown + json" where
  "parseEvent msg =
     (case cm_content msg of
        None \<Rightarrow> Inl (PlainError ''Unexpected token in JSON'')
      | Some JsNull \<Rightarrow> Inl (PlainError ''Cannot read properties of null (reading 'eventId')'')
      | Some raw \<Rightarrow>
          if text_field raw ''eventId'' = None \<or> json_field raw ''type'' \<noteq> Some (JsString event_type)
             \<or> text_field raw ''orderId'' = None
          then Inl (PlainError ''Invalid order.placed payload'')
          else Inr raw)"

definition js_truthy :: "json option \<Rightarrow> bool" where
  "js_truthy v =
     (case v of
        None \<Rightarrow> False
      | Some JsNull \<Rightarrow> False
      | Some (JsBool b) \<Rightarrow> b
      | Some (JsNum n) \<Rightarrow> n \<noteq> 0
      | Some (JsString t) \<Rightarrow> t \<noteq> []
      | Some _ \<Rightarrow> True)"

definition rejectPermanent :: "'c channel_op \<Rightarrow> consume_message \<Rightarrow> ('c consumer_state, thrown, unit) exec" where
  "rejectPermanent chan msg =
     bindE (channelE (chan Reject msg)) (\<lambda>_ s. (Inr (), s\<lparr>cs_rejected := cs_rejected s + 1\<rparr>))"

definition event_text :: "json \<Rightarrow> string \<Rightarrow> string" where
  "event_text event k = (case text_field event k of Some t \<Rightarrow> t | None \<Rightarrow> [])"

definition process_message ::
  "(string \<Rightarrow> thrown + string) \<Rightarrow> 'c channel_op \<Rightarrow> bool \<Rightarrow> consume_message
    \<Rightarrow> ('c consumer_state, thrown, unit) exec"
where
  "process_message timestamptz chan crashBeforeAck msg =
     bindE (liftE (parseEvent msg)) (\<lambda>event.
     bindE (storeE (recordDelivery (event_text event ''eventId''))) (\<lambda>_.
     if js_truthy (json_field event ''poison'') then rejectPermanent chan msg else
     bindE (storeE (applyEffect timestamptz (event_text event ''eventId'') (event_text event ''orderId'')
       (json_field event ''occurredAt''))) (\<lambda>applied.
     if crashBeforeAck \<and> applied then (\<lambda>s. (Inr (), s\<lparr>cs_killed := True\<rparr>)) else
     bindE (channelE (chan Ack msg)) (\<lambda>_.
     storeE (markAcked (event_text event ''eventId''))))))"

definition handle_message ::
  "(string \<Rightarrow> thrown + string) \<Rightarrow> 'c channel_op \<Rightarrow> bool \<Rightarrow> consume_message option
    \<Rightarrow> ('c consumer_state, thrown, unit) exec"
where
  "handle_message timestamptz chan crashBeforeAck msg =
     (case msg of
        None \<Rightarrow> returnE ()
      | Some m \<Rightarrow>
          catchE (process_message timestamptz chan crashBeforeAck m) (\<lambda>err.
            if isTransientConsumerError (thrown_heap err) (JRef 0) then channelE (chan NackRequeue m)
            else rejectPermanent chan m))"

section \<open>What the handler keeps\<close>

lemma keeps_storeW: "keeps Q m \<Longrightarrow> keeps (\<lambda>s. Q (st_world s)) (storeW m)"
  by (rule keepsI) (auto simp: storeW_def dest: keepsD split: prod.splits)

lemma keeps_storeE: "keeps Q m \<Longrightarrow> keeps (\<lambda>s. Q (cs_store s)) (storeE m)"
  by (rule keepsI) (auto simp: storeE_def dest: keepsD split: prod.splits)

lemma keeps_channelE: "keeps (\<lambda>s. Q (cs_store s)) (channelE f)"
  by (rule keepsI) (auto simp: channelE_def split: prod.splits)

lemma keeps_liftE: "keeps Q (liftE r)"
  by (simp add: keeps_def liftE_def)

lemma keeps_rejectPermanent: "keeps (\<lambda>s. Q (cs_store s)) (rejectPermanent chan m)"
  unfolding rejectPermanent_def by (intro keeps_bindE keeps_channelE) (simp add: keeps_def)

text \<open>What the three units of work of the store keep, the handler keeps.\<close>

lemma keeps_process:
  assumes "\<And>i. keeps Q (query (sql_insert_delivery i))" and "\<And>i. keeps Q (query (sql_mark_acked i))"
    and "\<And>ev j c. parseEvent m = Inr ev \<Longrightarrow> keeps Q (transaction (effect_body ts (event_text ev ''eventId'') j c))"
  shows "keeps (\<lambda>s. Q (st_world (cs_store s))) (process_message ts chan crash m)"
proof (cases "parseEvent m")
  case (Inl e)
  then show ?thesis by (simp add: process_message_def keeps_def bindE_def liftE_def)
next
  case (Inr ev)
  let ?Q = "\<lambda>st. Q (st_world st)" and ?id = "event_text ev ''eventId''"
  have "keeps (\<lambda>s. ?Q (cs_store s)) (storeE (recordDelivery i))"
    "keeps (\<lambda>s. ?Q (cs_store s)) (storeE (markAcked i))" for i
    unfolding recordDelivery_def markAcked_def by (intro keeps_storeE keeps_storeW assms)+
  moreover have "keeps (\<lambda>s. ?Q (cs_store s)) (storeE (applyEffect ts ?id j c))" for j c
    unfolding applyEffect_def
    by (intro keeps_storeE keeps_bindE keeps_storeW assms Inr) (simp add: keeps_def)
  moreover have "process_message ts chan crash m = bindE (storeE (recordDelivery ?id)) (\<lambda>_.
     if js_truthy (json_field ev ''poison'') then rejectPermanent chan m else
     bindE (storeE (applyEffect ts ?id (event_text ev ''orderId'') (json_field ev ''occurredAt''))) (\<lambda>applied.
     if crash \<and> applied then (\<lambda>s. (Inr (), s\<lparr>cs_killed := True\<rparr>)) else
     bindE (channelE (chan Ack m)) (\<lambda>_. storeE (markAcked ?id))))"
    by (simp add: process_message_def Inr liftE_def bindE_def fun_eq_iff)
  ultimately show ?thesis
    by (auto intro!: keeps_bindE keeps_if keeps_rejectPermanent [where Q = ?Q] keeps_channelE [where Q = ?Q]
        simp: keeps_def [of _ "\<lambda>s. (Inr (), s\<lparr>cs_killed := True\<rparr>)"])
qed

lemma keeps_handle:
  assumes "\<And>i. keeps Q (query (sql_insert_delivery i))" and "\<And>i. keeps Q (query (sql_mark_acked i))"
    and "\<And>ev j c. parseEvent m = Inr ev \<Longrightarrow> keeps Q (transaction (effect_body ts (event_text ev ''eventId'') j c))"
  shows "keeps (\<lambda>s. Q (st_world (cs_store s))) (handle_message ts chan crash (Some m))"
  unfolding handle_message_def using keeps_process [OF assms, where chan = chan and crash = crash]
  by (auto intro!: keeps_catchE keeps_if keeps_rejectPermanent [where Q = "\<lambda>st. Q (st_world st)"]
      keeps_channelE [where Q = "\<lambda>st. Q (st_world st)"])

definition event_key :: "consume_message \<Rightarrow> string option" where
  "event_key m =
     (case parseEvent m of
        Inl _ \<Rightarrow> None
      | Inr ev \<Rightarrow> (case pg_uuid (event_text ev ''eventId'') of Inr u \<Rightarrow> Some u | Inl _ \<Rightarrow> None))"

text \<open>A predicate on the tables that handling the events with keys in \<open>K\<close> keeps.\<close>

definition kept_by_consumer :: "string set \<Rightarrow> (db \<Rightarrow> bool) \<Rightarrow> bool" where
  "kept_by_consumer K P \<longleftrightarrow> table_pred P
     \<and> (\<forall>d i. P d \<longrightarrow> P (snd (sql_insert_delivery i d)))
     \<and> (\<forall>d v. \<forall>u \<in> K. P d \<longrightarrow> P (snd (apply_rows u v d)))
     \<and> (\<forall>d i. P d \<longrightarrow> P (snd (sql_mark_acked i d)))"

lemma tame_store_statements:
  "tame (sqlE (sql_insert_delivery i))" "tame (sqlE (sql_mark_acked i))"
  by (auto intro!: tame_sqlE simp: sql_insert_delivery_def sql_mark_acked_def seqs_le_def split: sum.split)

lemma keeps_deliveries:
  "kept_by_consumer K P \<Longrightarrow> keeps (safe P) (query (sql_insert_delivery i))"
  "kept_by_consumer K P \<Longrightarrow> keeps (safe P) (query (sql_mark_acked i))"
  unfolding kept_by_consumer_def query_def
  by (auto intro!: keeps_transaction keeps_sqlE tame_store_statements)

lemma keeps_effect_transaction:
  assumes "kept_by_consumer K P" and "\<And>u. pg_uuid i = Inr u \<Longrightarrow> u \<in> K"
  shows "keeps (safe P) (transaction (effect_body ts i j c))"
proof (rule keepsI)
  fix w r w' assume w: "safe P w" and t: "transaction (effect_body ts i j c) w = (r, w')"
  have tp: "table_pred P" using assms(1) by (simp add: kept_by_consumer_def)
  from t tame_effect_body show "safe P w'"
  proof (cases rule: transaction_cases)
    case (aborted e)
    then show ?thesis using safe_unaffected [OF tp _ w] by blast
  next
    case (completed a)
    have "safe P (snd (next_env w))" by (rule safe_unaffected [OF tp tx.quiet_start w])
    then show ?thesis using completed(2) assms
      by (auto simp: safe_def kept_by_consumer_def env_keeps_def elim!: effect_body_Inr)
  qed
qed

lemma handle_keeps_tables:
  assumes "kept_by_consumer {u. event_key m = Some u} P"
  shows "keeps (\<lambda>s. safe P (st_world (cs_store s))) (handle_message ts chan crash (Some m))"
  by (rule keeps_handle)
    (auto intro: keeps_deliveries [OF assms] keeps_effect_transaction [OF assms] simp: event_key_def)

lemma handle_keeps_rng:
  "keeps (\<lambda>s. n \<le> w_rng (st_world (cs_store s))) (handle_message ts chan crash (Some m))"
  by (rule keeps_handle) (auto simp: query_def intro!: keeps_rng tame_store_statements tame_effect_body)

section \<open>How the handler settles\<close>

text \<open>A channel that is open takes every call.\<close>

definition open_channel :: "'c channel_op \<Rightarrow> bool" where
  "open_channel chan \<longleftrightarrow> (\<forall>x m c. fst (chan x m c) = Inr ())"

definition settle_all :: "'c channel_op \<Rightarrow> consume_message \<Rightarrow> settle list \<Rightarrow> 'c \<Rightarrow> 'c" where
  "settle_all chan m xs c = fold (\<lambda>x c. snd (chan x m c)) xs c"

text \<open>
  What the body may have done: \<open>xs\<close> are its settling calls, \<open>k\<close> tells whether it killed the
  process; an acknowledged or killed run has the effect of its event in the tables.
\<close>

definition body_outcome ::
  "'c channel_op \<Rightarrow> consume_message \<Rightarrow> 'c consumer_state \<Rightarrow> (thrown + unit) \<times> 'c consumer_state
    \<Rightarrow> settle list \<Rightarrow> bool \<Rightarrow> bool"
where
  "body_outcome chan m s res xs k \<longleftrightarrow>
     cs_channel (snd res) = settle_all chan m xs (cs_channel s)
     \<and> cs_killed (snd res) = (cs_killed s \<or> k)
     \<and> (case fst res of
          Inr _ \<Rightarrow> if k then xs = [] else xs = [Ack] \<or> xs = [Reject]
        | Inl _ \<Rightarrow> \<not> k \<and> (xs = [] \<or> xs = [Ack]))
     \<and> (k \<or> Ack \<in> set xs \<longrightarrow> (\<exists>u. event_key m = Some u
          \<and> (env_keeps (\<lambda>d. effect_of d u \<noteq> None) (st_world (cs_store s))
             \<longrightarrow> effect_of (w_db (st_world (cs_store (snd res)))) u \<noteq> None)))"

lemma has_effect_kept: "kept_by_consumer K (\<lambda>d. effect_of d u \<noteq> None)"
proof -
  have "effect_of (snd (sql_mark_acked i d)) = effect_of d" for i d
    by (auto simp: sql_mark_acked_def effect_of_def split: sum.split intro!: arg_cong [where f = map_of])
  moreover have "effect_of (snd (sql_insert_delivery i d)) = effect_of d" for i d
    by (simp add: sql_insert_delivery_def effect_of_def split: sum.split)
  moreover have "table_pred (\<lambda>d. effect_of d u \<noteq> None)"
    by (simp add: table_pred_def tables_eq_iff effect_of_def)
  ultimately show ?thesis by (simp add: kept_by_consumer_def eff.changed)
qed

lemma applyEffect_has_effect:
  assumes "storeE (applyEffect ts i j c) s = (Inr b, s')"
  obtains u where "pg_uuid i = Inr u" "effect_of (w_db (st_world (cs_store s'))) u \<noteq> None"
proof -
  from assms obtain w' where t: "transaction (effect_body ts i j c) (st_world (cs_store s)) = (Inr b, w')"
    and w': "st_world (cs_store s') = w'"
    by (auto simp: storeE_def applyEffect_def storeW_def elim!: bindE_InrE split: prod.splits if_splits)
  from t have "effect_body ts i j c (snd (next_env (st_world (cs_store s)))) = (Inr b, w')"
    by (rule transaction_commit)
  then show ?thesis using that w' by (auto simp: eff.changed elim!: effect_body_Inr split: if_splits)
qed

lemma env_keeps_storeE:
  "tame body \<Longrightarrow> storeE (storeW (transaction body)) s = (r, s') \<Longrightarrow> env_keeps P (st_world (cs_store s))
    \<Longrightarrow> env_keeps P (st_world (cs_store s'))"
  by (auto simp: storeE_def storeW_def dest: env_keeps_transaction split: prod.splits)

lemma env_keeps_recordDelivery:
  "storeE (recordDelivery i) s = (r, s') \<Longrightarrow> env_keeps P (st_world (cs_store s))
    \<Longrightarrow> env_keeps P (st_world (cs_store s'))"
  unfolding recordDelivery_def query_def
  by (erule env_keeps_storeE [rotated]) (auto intro!: tame_sqlE simp: sql_insert_delivery_def seqs_le_def split: sum.split)

lemma env_keeps_applyEffect:
  assumes "storeE (applyEffect ts i j c) s = (r, s')" and "env_keeps P (st_world (cs_store s))"
  shows "env_keeps P (st_world (cs_store s'))"
proof -
  obtain r1 w1 where t: "transaction (effect_body ts i j c) (st_world (cs_store s)) = (r1, w1)" by fastforce
  have "st_world (cs_store s') = w1"
    using assms(1) t by (auto simp: storeE_def applyEffect_def storeW_def bindE_def split: sum.splits prod.splits)
  then show ?thesis using env_keeps_transaction [OF t tame_effect_body assms(2)] by simp
qed

lemma storeE_frame:
  "storeE m s = (r, s') \<Longrightarrow> cs_channel s' = cs_channel s \<and> cs_killed s' = cs_killed s \<and> cs_rejected s' = cs_rejected s"
  by (auto simp: storeE_def split: prod.splits)

lemma channelE_open:
  assumes "open_channel chan"
  shows "channelE (chan x m) s = (Inr (), s\<lparr>cs_channel := snd (chan x m (cs_channel s))\<rparr>)"
proof -
  have "fst (chan x m (cs_channel s)) = Inr ()" using assms by (simp add: open_channel_def)
  then show ?thesis by (cases "chan x m (cs_channel s)") (simp add: channelE_def)
qed

lemma process_outcome:
  assumes op: "open_channel chan" and r: "process_message ts chan crash m s = (r, s')"
  shows "\<exists>xs k. body_outcome chan m s (r, s') xs k"
proof (cases "parseEvent m")
  case (Inl e)
  then have "body_outcome chan m s (r, s') [] False"
    using r by (auto simp: process_message_def liftE_def bindE_def body_outcome_def settle_all_def)
  then show ?thesis by blast
next
  case (Inr ev)
  let ?id = "event_text ev ''eventId''"
  obtain r1 s1 where rd: "storeE (recordDelivery ?id) s = (r1, s1)" by fastforce
  note f1 = storeE_frame [OF rd]
  obtain r2 s2 where ap: "storeE (applyEffect ts ?id (event_text ev ''orderId'') (json_field ev ''occurredAt'')) s1 = (r2, s2)"
    by fastforce
  note f2 = storeE_frame [OF ap]
  let ?s3 = "s2\<lparr>cs_channel := snd (chan Ack m (cs_channel s2))\<rparr>"
  obtain r4 s4 where ma: "storeE (markAcked ?id) ?s3 = (r4, s4)" by fastforce
  note f4 = storeE_frame [OF ma]
  consider e where "r1 = Inl e" | "r1 = Inr ()" "js_truthy (json_field ev ''poison'')"
    | e where "r1 = Inr ()" "\<not> js_truthy (json_field ev ''poison'')" "r2 = Inl e"
    | b where "r1 = Inr ()" "\<not> js_truthy (json_field ev ''poison'')" "r2 = Inr b" "crash \<and> b"
    | b where "r1 = Inr ()" "\<not> js_truthy (json_field ev ''poison'')" "r2 = Inr b" "\<not> (crash \<and> b)"
    by (cases r1; cases r2) auto
  then show ?thesis
  proof cases
    case 1
    then have "body_outcome chan m s (r, s') [] False"
      using r Inr rd f1
      by (auto simp: process_message_def liftE_def bindE_def body_outcome_def settle_all_def)
    then show ?thesis by blast
  next
    case 2
    then have "body_outcome chan m s (r, s') [Reject] False"
      using r Inr rd f1
      by (auto simp: process_message_def liftE_def bindE_def body_outcome_def settle_all_def
          rejectPermanent_def channelE_open [OF op])
    then show ?thesis by blast
  next
    case 3
    then have "body_outcome chan m s (r, s') [] False"
      using r Inr rd ap f1 f2
      by (auto simp: process_message_def liftE_def bindE_def body_outcome_def settle_all_def)
    then show ?thesis by blast
  next
    case (4 b)
    then obtain u where u: "pg_uuid ?id = Inr u" "effect_of (w_db (st_world (cs_store s2))) u \<noteq> None"
      using applyEffect_has_effect ap by metis
    with 4 have "body_outcome chan m s (r, s') [] True"
      using r Inr rd ap f1 f2
      by (auto simp: process_message_def liftE_def bindE_def body_outcome_def settle_all_def event_key_def)
    then show ?thesis by blast
  next
    case (5 b)
    then obtain u where u: "pg_uuid ?id = Inr u" "effect_of (w_db (st_world (cs_store s2))) u \<noteq> None"
      using applyEffect_has_effect ap by metis
    let ?P = "\<lambda>d. effect_of d u \<noteq> None"
    have "effect_of (w_db (st_world (cs_store s4))) u \<noteq> None" if "env_keeps ?P (st_world (cs_store s))"
    proof -
      have "safe ?P (st_world (cs_store ?s3))"
        using that u(2) env_keeps_recordDelivery [OF rd] env_keeps_applyEffect [OF ap] by (simp add: safe_def)
      then show ?thesis
        using keepsD [OF keeps_storeE [OF keeps_storeW [OF keeps_deliveries(2) [OF has_effect_kept]]] _
            ma [unfolded markAcked_def]] by (simp add: safe_def)
    qed
    with 5 u have "body_outcome chan m s (r, s') [Ack] False"
      using r Inr rd ap ma f1 f2 f4
      by (auto simp: process_message_def liftE_def bindE_def body_outcome_def settle_all_def
          channelE_open [OF op] event_key_def split: sum.splits)
    then show ?thesis by blast
  qed
qed

lemma handle_outcome:
  assumes op: "open_channel chan" and r: "handle_message ts chan crash (Some m) s = (r, s')" and al: "\<not> cs_killed s"
  shows "r = Inr () \<and> (\<exists>xs. cs_channel s' = settle_all chan m xs (cs_channel s)
    \<and> (if cs_killed s' then xs = [] else xs \<in> {[Ack], [Reject], [NackRequeue], [Ack, NackRequeue], [Ack, Reject]})
    \<and> (cs_killed s' \<or> Ack \<in> set xs \<longrightarrow> (\<exists>u. event_key m = Some u
         \<and> (env_keeps (\<lambda>d. effect_of d u \<noteq> None) (st_world (cs_store s))
            \<longrightarrow> effect_of (w_db (st_world (cs_store s'))) u \<noteq> None))))"
proof -
  obtain r1 s1 where p: "process_message ts chan crash m s = (r1, s1)" by fastforce
  obtain xs k where b: "body_outcome chan m s (r1, s1) xs k" using process_outcome [OF op p] by blast
  show ?thesis
  proof (cases r1)
    case (Inr a)
    then have "r = Inr ()" "s' = s1" using r p by (auto simp: handle_message_def catchE_def)
    then show ?thesis using b Inr al by (auto simp: body_outcome_def intro!: exI [of _ xs])
  next
    case (Inl e)
    define x where "x = (if isTransientConsumerError (thrown_heap e) (JRef 0) then NackRequeue else Reject)"
    have s': "r = Inr ()" "cs_channel s' = snd (chan x m (cs_channel s1))" "cs_store s' = cs_store s1"
      "cs_killed s' = cs_killed s1"
      using r p Inl by (auto simp: handle_message_def catchE_def rejectPermanent_def bindE_def
          channelE_open [OF op] x_def split: if_splits)
    have "cs_channel s' = settle_all chan m (xs @ [x]) (cs_channel s)"
      using s'(2) b by (simp add: body_outcome_def settle_all_def)
    moreover have "x = NackRequeue \<or> x = Reject" by (simp add: x_def)
    ultimately show ?thesis using s' b Inl al
      by (intro conjI exI [of _ "xs @ [x]"]) (auto simp: body_outcome_def)
  qed
qed

section \<open>Fixtures\<close>

definition log_channel :: "(settle \<times> nat) list channel_op" where
  "log_channel x m c = (Inr (), c @ [(x, cm_tag m)])"

lemma log_channel_open: "open_channel log_channel"
  by (simp add: open_channel_def log_channel_def)

definition steady :: env_step where
  "steady = \<lparr>interfere = \<lambda>d. d, aborts = None\<rparr>"

definition blip :: env_step where
  "blip = \<lparr>interfere = \<lambda>d. d, aborts = Some (PgError ''08006'' ''connection failure'')\<rparr>"

definition consumer_at :: "env_step list \<Rightarrow> (settle \<times> nat) list consumer_state" where
  "consumer_at sched = \<lparr>cs_store = \<lparr>st_world = \<lparr>w_db = paid_shop, w_rng = 1, w_sched = sched\<rparr>,
     st_successfulApplies = 0\<rparr>, cs_channel = [], cs_rejected = 0, cs_killed = False\<rparr>"

definition paid_message :: consume_message where
  "paid_message = \<lparr>cm_tag = 1, cm_content = Some (event_json \<lparr>ev_eventId = test_uuid 0, ev_occurredAt = test_iso 0,
     ev_orderId = ''order-1'', ev_userId = ''2'', ev_totalCents = 160, ev_poison = False\<rparr>)\<rparr>"

section \<open>Properties\<close>

text \<open>
  (C19) On an open channel the handler always returns and settles every message it is not killed
  in: with an ack, a reject or a requeue. It acknowledges, or is killed before the ack, only
  when the effect of the event is in the tables (and stays there if the other processes keep
  effects), so an acknowledged event is never lost.
\<close>

theorem consumer_settles:
  assumes "open_channel chan" and "\<not> cs_killed s"
    and "handle_message timestamptz chan crashBeforeAck (Some m) s = (r, s')"
  shows "r = Inr () \<and> (\<exists>xs. cs_channel s' = settle_all chan m xs (cs_channel s)
    \<and> (if cs_killed s' then xs = [] else xs \<in> {[Ack], [Reject], [NackRequeue], [Ack, NackRequeue], [Ack, Reject]})
    \<and> (cs_killed s' \<or> Ack \<in> set xs \<longrightarrow> (\<exists>u. event_key m = Some u
         \<and> (env_keeps (\<lambda>d. effect_of d u \<noteq> None) (st_world (cs_store s))
            \<longrightarrow> effect_of (w_db (st_world (cs_store s'))) u \<noteq> None))))"
  using handle_outcome [OF assms(1,3,2)] .

theorem consumer_settles_witness:
  "\<exists>s'. handle_message test_ts log_channel False (Some paid_message) (consumer_at []) = (Inr (), s')
     \<and> cs_channel s' = [(Ack, 1)] \<and> (\<exists>u. effect_of (w_db (st_world (cs_store s'))) u \<noteq> None)"
proof -
  let ?h = "handle_message test_ts log_channel False (Some paid_message) (consumer_at [])"
  have f: "cs_channel (snd ?h) = [(Ack, 1)]" "\<not> cs_killed (snd ?h)" by code_simp+
  obtain r s' where h: "?h = (r, s')" by fastforce
  have k: "\<not> cs_killed (consumer_at [])" "\<And>P. env_keeps P (st_world (cs_store (consumer_at [])))"
    by (simp_all add: consumer_at_def env_keeps_def)
  have "r = Inr () \<and> (\<exists>u. effect_of (w_db (st_world (cs_store s'))) u \<noteq> None)"
    using consumer_settles [OF log_channel_open k(1) h] f h k(2)
    by (auto simp: settle_all_def log_channel_def consumer_at_def split: if_splits)
  then show ?thesis using f h by simp
qed

text \<open>
  The acknowledgement is not the last step: when the connection drops between the ack and
  the mark of the acknowledged effect, the error handler settles the same delivery a second
  time and requeues it, which the broker answers by closing the channel.
\<close>

theorem consumer_settles_twice:
  "cs_channel (snd (handle_message test_ts log_channel False (Some paid_message)
     (consumer_at [steady, steady, blip]))) = [(Ack, 1), (NackRequeue, 1)]"
  by code_simp

end
