(* ===== verification/Pipeline.thy ===== *)
theory Pipeline
  imports Outbox Consumer
begin

text \<open>
  The path of an event: the checkout writes it to the outbox, the relay publishes it, the
  broker queues and redelivers it, the consumer applies its effect. The parts are the
  definitions of the component theories; this theory puts them into one transition system
  with crashes, lost confirms, aborted database calls and redeliveries, and proves its
  invariant.
\<close>

section \<open>The channel of the broker\<close>

text \<open>
  Settling a delivery: an ack forgets it, a requeue puts it back, a reject dead-letters it. A
  tag that is not outstanding is a channel error: the channel closes and its unsettled
  deliveries return to the queue.
\<close>

definition amqp_channel :: "amqp channel_op" where
  "amqp_channel x m b =
     (Inr (),
      case map_of (am_unacked b) (cm_tag m) of
        None \<Rightarrow> b\<lparr>am_work := map snd (am_unacked b) @ am_work b, am_unacked := []\<rparr>
      | Some q \<Rightarrow>
          (let b1 = b\<lparr>am_unacked := filter (\<lambda>p. fst p \<noteq> cm_tag m) (am_unacked b)\<rparr>
           in case x of
                Ack \<Rightarrow> b1
              | NackRequeue \<Rightarrow> b1\<lparr>am_work := q # am_work b\<rparr>
              | Reject \<Rightarrow> b1\<lparr>am_dlq := am_dlq b @ [q]\<rparr>))"

definition amqp_deliver :: "broker_message \<Rightarrow> broker_message list \<Rightarrow> amqp \<Rightarrow> amqp" where
  "amqp_deliver m rest b = b\<lparr>am_work := rest, am_unacked := (am_tag b, m) # am_unacked b, am_tag := Suc (am_tag b)\<rparr>"

definition amqp_requeue :: "amqp \<Rightarrow> amqp" where
  "amqp_requeue b = b\<lparr>am_work := map snd (am_unacked b) @ am_work b, am_unacked := []\<rparr>"

definition stored :: "amqp \<Rightarrow> broker_message set" where
  "stored b = set (am_work b) \<union> snd ` set (am_unacked b) \<union> set (am_dlq b)"

definition tags_ok :: "amqp \<Rightarrow> bool" where
  "tags_ok b \<longleftrightarrow> distinct (map fst (am_unacked b)) \<and> (\<forall>p \<in> set (am_unacked b). fst p < am_tag b)"

lemma amqp_channel_open: "open_channel amqp_channel"
  by (simp add: open_channel_def amqp_channel_def)

lemma distinct_filter_fst: "distinct (map fst xs) \<Longrightarrow> distinct (map fst (filter P xs))"
  by (induction xs) auto

lemma settle_tags: "tags_ok b \<Longrightarrow> tags_ok (snd (amqp_channel x m b))"
  by (auto simp: tags_ok_def amqp_channel_def Let_def distinct_filter_fst split: option.split settle.split)

lemma settle_stored_subset: "stored (snd (amqp_channel x m b)) \<subseteq> stored b"
  by (auto simp: stored_def amqp_channel_def Let_def split: option.split settle.split)
    (metis image_eqI map_of_SomeD snd_conv)+

lemma settle_keeps_others:
  assumes "tags_ok b" and "map_of (am_unacked b) (cm_tag m) = Some q"
  shows "stored b - {q} \<subseteq> stored (snd (amqp_channel x m b))"
    and "x \<noteq> Ack \<Longrightarrow> stored b \<subseteq> stored (snd (amqp_channel x m b))"
proof -
  have q: "p \<in> set (am_unacked b) \<Longrightarrow> fst p = cm_tag m \<Longrightarrow> snd p = q" for p
    using assms by (metis map_of_eq_Some_iff option.inject prod.collapse tags_ok_def)
  then show "stored b - {q} \<subseteq> stored (snd (amqp_channel x m b))"
    "x \<noteq> Ack \<Longrightarrow> stored b \<subseteq> stored (snd (amqp_channel x m b))"
    using assms(2) by (cases x; auto simp: stored_def amqp_channel_def)+
qed

lemma settle_unknown:
  assumes "map_of (am_unacked b) (cm_tag m) = None"
  shows "stored (snd (amqp_channel x m b)) = stored b"
  using assms by (auto simp: stored_def amqp_channel_def)

lemma ack_forgets:
  "map_of (am_unacked (snd (amqp_channel Ack m b))) (cm_tag m) = None"
proof -
  have "map_of (filter (\<lambda>p. fst p \<noteq> t) xs) t = None" for t and xs :: "(nat \<times> broker_message) list"
    by (auto simp: map_of_eq_None_iff)
  then show ?thesis by (simp add: amqp_channel_def Let_def split: option.split)
qed

text \<open>The calls of the handler lose at most an acknowledged delivery.\<close>

lemma settle_all_stored:
  assumes b: "tags_ok b" "map_of (am_unacked b) (cm_tag m) = Some q"
    and xs: "xs = [] \<or> xs \<in> {[Ack], [Reject], [NackRequeue], [Ack, NackRequeue], [Ack, Reject]}"
  shows "tags_ok (settle_all amqp_channel m xs b)"
    and "stored (settle_all amqp_channel m xs b) \<subseteq> stored b"
    and "stored b - (if Ack \<in> set xs then {q} else {}) \<subseteq> stored (settle_all amqp_channel m xs b)"
proof -
  have "tags_ok (fold (\<lambda>x c. snd (amqp_channel x m c)) ys c) \<and>
      stored (fold (\<lambda>x c. snd (amqp_channel x m c)) ys c) \<subseteq> stored c" if "tags_ok c" for ys c
    using that
  proof (induction ys arbitrary: c)
    case (Cons y ys)
    then show ?case using settle_tags [of c y m] settle_stored_subset [of y m c] by fastforce
  qed simp
  then show "tags_ok (settle_all amqp_channel m xs b)" "stored (settle_all amqp_channel m xs b) \<subseteq> stored b"
    using b(1) by (auto simp: settle_all_def)
  let ?a = "snd (amqp_channel Ack m b)"
  have a: "stored b - {q} \<subseteq> stored ?a" using settle_keeps_others(1) [OF b] .
  have "stored (snd (amqp_channel x m ?a)) = stored ?a" for x
    by (rule settle_unknown [OF ack_forgets])
  then show "stored b - (if Ack \<in> set xs then {q} else {}) \<subseteq> stored (settle_all amqp_channel m xs b)"
    using xs a settle_keeps_others(2) [OF b, of Reject] settle_keeps_others(2) [OF b, of NackRequeue]
    by (auto simp: settle_all_def)
qed

lemma deliver_facts:
  assumes "tags_ok b" and "am_work b = m # rest"
  shows "tags_ok (amqp_deliver m rest b)" and "stored (amqp_deliver m rest b) = stored b"
    and "map_of (am_unacked (amqp_deliver m rest b)) (am_tag b) = Some m"
  using assms by (auto simp: amqp_deliver_def tags_ok_def stored_def less_Suc_eq image_iff)

section \<open>The pipeline\<close>

record pipeline =
  pp_world :: world
  pp_applies :: int
  pp_rejected :: int
  pp_broker :: amqp

text \<open>
  One step is a checkout, a run of the relay, the handling of one delivery, or the loss of
  the consumer's connection. Before a step the database server decides which calls it
  aborts; every kind of failure the code simulates or handles can happen in every step.
\<close>

inductive pipe_step ::
  "(nat \<Rightarrow> string) \<Rightarrow> (nat \<Rightarrow> string) \<Rightarrow> (string \<Rightarrow> thrown + string) \<Rightarrow> pipeline \<Rightarrow> pipeline \<Rightarrow> bool"
  for uuid toISO timestamptz
where
  place: "calm w \<Longrightarrow> w_db w = w_db (pp_world p) \<Longrightarrow> w_rng w = w_rng (pp_world p) \<Longrightarrow>
     checkout uuid toISO inp w = (r, w') \<Longrightarrow>
     pipe_step uuid toISO timestamptz p (p\<lparr>pp_world := w'\<rparr>)"
| relay: "calm w \<Longrightarrow> w_db w = w_db (pp_world p) \<Longrightarrow> w_rng w = w_rng (pp_world p) \<Longrightarrow>
     publishPending amqp_ops json_parse url env opts \<lparr>rl_world = w, rl_broker = pp_broker p, rl_failed = None\<rparr> = (r, s') \<Longrightarrow>
     pipe_step uuid toISO timestamptz p (p\<lparr>pp_world := rl_world s', pp_broker := rl_broker s'\<rparr>)"
| deliver: "calm w \<Longrightarrow> w_db w = w_db (pp_world p) \<Longrightarrow> w_rng w = w_rng (pp_world p) \<Longrightarrow>
     am_work (pp_broker p) = m # rest \<Longrightarrow>
     handle_message timestamptz amqp_channel crash
       (Some \<lparr>cm_tag = am_tag (pp_broker p), cm_content = Some (bm_body m)\<rparr>)
       \<lparr>cs_store = \<lparr>st_world = w, st_successfulApplies = pp_applies p\<rparr>,
        cs_channel = amqp_deliver m rest (pp_broker p), cs_rejected = pp_rejected p, cs_killed = False\<rparr> = (r, s') \<Longrightarrow>
     pipe_step uuid toISO timestamptz p
       (p\<lparr>pp_world := st_world (cs_store s'), pp_applies := st_successfulApplies (cs_store s'),
          pp_rejected := cs_rejected s', pp_broker := cs_channel s'\<rparr>)"
| disconnect: "pipe_step uuid toISO timestamptz p (p\<lparr>pp_broker := amqp_requeue (pp_broker p)\<rparr>)"

section \<open>The invariant\<close>

text \<open>The event of an outbox row, and the key the consumer stores its effect under.\<close>

definition row_key :: "outbox_row \<Rightarrow> string option" where
  "row_key x = event_key \<lparr>cm_tag = 0, cm_content = Some (x_payload x)\<rparr>"

definition from_checkout :: "(nat \<Rightarrow> string) \<Rightarrow> world \<Rightarrow> outbox_row \<Rightarrow> nat \<Rightarrow> bool" where
  "from_checkout uuid w x n \<longleftrightarrow> n < w_rng w \<and>
     (\<exists>ev. x_payload x = event_json ev \<and> ev_eventId ev = uuid n \<and> \<not> ev_poison ev)"

definition outbox_events :: "(nat \<Rightarrow> string) \<Rightarrow> world \<Rightarrow> bool" where
  "outbox_events uuid w \<longleftrightarrow>
     (\<exists>ns. list_all2 (from_checkout uuid w) (outbox (w_db w)) ns \<and> distinct ns)"

definition no_event_lost :: "db \<Rightarrow> amqp \<Rightarrow> bool" where
  "no_event_lost d b \<longleftrightarrow> (\<forall>x \<in> set (outbox d). x_published_at x \<noteq> None \<longrightarrow>
     order_message (x_payload x) \<in> stored b \<or> (\<exists>u. row_key x = Some u \<and> effect_of d u \<noteq> None))"

definition no_event_invented :: "db \<Rightarrow> amqp \<Rightarrow> bool" where
  "no_event_invented d b \<longleftrightarrow> stored b \<subseteq> (\<lambda>x. order_message (x_payload x)) ` set (outbox d)
     \<and> Some ` dom (effect_of d) \<subseteq> row_key ` set (outbox d)"

definition pipe_ok :: "(nat \<Rightarrow> string) \<Rightarrow> pipeline \<Rightarrow> bool" where
  "pipe_ok uuid p \<longleftrightarrow> db_ok (w_db (pp_world p)) \<and> outbox_events uuid (pp_world p) \<and> tags_ok (pp_broker p)
     \<and> no_event_lost (w_db (pp_world p)) (pp_broker p) \<and> no_event_invented (w_db (pp_world p)) (pp_broker p)"

section \<open>Steps that leave the events alone\<close>

lemma from_checkout_mono: "from_checkout uuid w x n \<Longrightarrow> w_rng w \<le> w_rng w' \<Longrightarrow> from_checkout uuid w' x n"
  by (auto simp: from_checkout_def)

lemma outbox_events_mono:
  assumes "outbox_events uuid w" and "map x_payload (outbox (w_db w')) = map x_payload (outbox (w_db w))"
    and "w_rng w \<le> w_rng w'"
  shows "outbox_events uuid w'"
proof -
  obtain ns where ns: "list_all2 (from_checkout uuid w) (outbox (w_db w)) ns" "distinct ns"
    using assms(1) by (auto simp: outbox_events_def)
  have len: "length (outbox (w_db w')) = length (outbox (w_db w))" using assms(2) by (metis length_map)
  have "x_payload (outbox (w_db w') ! i) = x_payload (outbox (w_db w) ! i)" if "i < length (outbox (w_db w))" for i
    using assms(2) len that by (metis nth_map)
  then have "list_all2 (from_checkout uuid w') (outbox (w_db w')) ns"
    using ns(1) len assms(3) by (auto simp: list_all2_conv_all_nth from_checkout_def)
  then show ?thesis using ns(2) by (auto simp: outbox_events_def)
qed

lemma row_event:
  assumes "outbox_events uuid w" and "x \<in> set (outbox (w_db w))"
  obtains ev n where "x_payload x = event_json ev" "ev_eventId ev = uuid n" "\<not> ev_poison ev"
proof -
  obtain n where "from_checkout uuid w x n"
    using assms by (auto simp: outbox_events_def in_set_conv_nth list_all2_conv_all_nth)
  then show ?thesis using that by (auto simp: from_checkout_def)
qed

text \<open>Equal outbox and effects, constraints kept: the invariant is kept.\<close>

lemma pipe_ok_same:
  assumes "pipe_ok uuid p" and "db_ok (w_db w')" and "outbox (w_db w') = outbox (w_db (pp_world p))"
    and "order_placed_effects (w_db w') = order_placed_effects (w_db (pp_world p))"
    and "w_rng (pp_world p) \<le> w_rng w'"
  shows "pipe_ok uuid (p\<lparr>pp_world := w'\<rparr>)"
proof -
  have "effect_of (w_db w') = effect_of (w_db (pp_world p))" using assms(4) by (simp add: effect_of_def)
  moreover have "outbox_events uuid w'"
    using outbox_events_mono [of uuid "pp_world p" w'] assms(1,3,5) by (simp add: pipe_ok_def)
  ultimately show ?thesis using assms by (auto simp: pipe_ok_def no_event_lost_def no_event_invented_def)
qed

section \<open>Checkouts\<close>

lemma outbox_events_add:
  assumes "outbox_events uuid w" and "outbox (w_db w') = outbox (w_db w) @ [x]" and "w_rng w' = Suc (w_rng w)"
    and "x_payload x = event_json ev" "ev_eventId ev = uuid (w_rng w)" "\<not> ev_poison ev"
  shows "outbox_events uuid w'"
proof -
  obtain ns where ns: "list_all2 (from_checkout uuid w) (outbox (w_db w)) ns" "distinct ns"
    using assms(1) by (auto simp: outbox_events_def)
  have old: "list_all2 (from_checkout uuid w') (outbox (w_db w)) ns"
    by (rule list_all2_mono [OF ns(1)]) (simp add: from_checkout_def assms(3))
  have "w_rng w \<notin> set ns" using ns(1) by (auto simp: list_all2_conv_all_nth from_checkout_def in_set_conv_nth)
  moreover have "from_checkout uuid w' x (w_rng w)" using assms(3-6) by (auto simp: from_checkout_def)
  ultimately have "list_all2 (from_checkout uuid w') (outbox (w_db w')) (ns @ [w_rng w]) \<and> distinct (ns @ [w_rng w])"
    using old ns(2) assms(2) by (simp add: list_all2_appendI)
  then show ?thesis unfolding outbox_events_def by blast
qed

lemma pipe_ok_place:
  assumes ok: "pipe_ok uuid p" and w: "calm w" "w_db w = w_db (pp_world p)" "w_rng w = w_rng (pp_world p)"
    and c: "checkout uuid toISO inp w = (r, w')"
  shows "pipe_ok uuid (p\<lparr>pp_world := w'\<rparr>)"
proof -
  have dok: "db_ok (w_db w)" and env: "env_keeps db_ok w"
    using ok w calm_env_keeps by (auto simp: pipe_ok_def)
  show ?thesis
  proof (cases "\<exists>res. r = Inr res \<and> \<not> cr_replay res")
    case False
    then have "unaffected w w'" using checkout_no_order [OF c _ dok env] by blast
    then have u: "tables (w_db w') = tables (w_db w)" "seqs_le (w_db w) (w_db w')" "w_rng w \<le> w_rng w'"
      using unaffected_calm w(1) by blast+
    have "db_ok (w_db w')" using table_pred_db_ok dok u by (simp add: table_pred_def)
    then show ?thesis using pipe_ok_same [OF ok] u w by (simp add: tables_eq_iff)
  next
    case True
    then obtain res where res: "checkout uuid toISO inp w = (Inr res, w')" "\<not> cr_replay res" using c by auto
    from checkout_success [OF dok env res] obtain w1 where w1: "unaffected w w1" "admissible inp (w_db w1)" "db_ok (w_db w1)"
      "w' = committed uuid toISO inp w1" "\<forall>it \<in> set (ci_items inp). validQuantity (ci_quantity it)" by metis
    have u: "tables (w_db w1) = tables (w_db w)" "w_rng w \<le> w_rng w1"
      using unaffected_calm [OF w1(1) w(1)] by blast+
    have ok1: "pipe_ok uuid (p\<lparr>pp_world := w1\<rparr>)"
      using pipe_ok_same [OF ok w1(3)] u w by (simp add: tables_eq_iff)
    let ?ev = "placed_event uuid toISO inp w1"
    have ob: "outbox (w_db w') = outbox (w_db w1) @ [placed_outbox ?ev (w_db w1)]"
      and eff: "effect_of (w_db w') = effect_of (w_db w1)"
      by (simp_all add: w1(4) committed_def effect_of_def)
    have "outbox_events uuid w'"
    proof (rule outbox_events_add [OF _ ob, where ev = ?ev])
      show "outbox_events uuid w1" using ok1 by (simp add: pipe_ok_def)
      show "w_rng w' = Suc (w_rng w1)" by (simp add: w1(4) committed_def)
    qed (simp_all add: placed_outbox_def placed_event_def)
    moreover have "db_ok (w_db w')" using committed_db_ok [OF w1(3,5,2)] by (simp add: w1(4) committed_def)
    moreover have "no_event_lost (w_db w') (pp_broker p)"
      using ok1 ob eff by (auto simp: pipe_ok_def no_event_lost_def placed_outbox_def)
    moreover have "no_event_invented (w_db w') (pp_broker p)"
      using ok1 ob eff by (simp add: pipe_ok_def no_event_invented_def) blast
    ultimately show ?thesis using ok1 by (simp add: pipe_ok_def)
  qed
qed

section \<open>Relay runs\<close>

lemma keeps_finallyE: "keeps P m \<Longrightarrow> keeps P c \<Longrightarrow> keeps P (finallyE m c)"
  by (fastforce simp: keeps_def finallyE_def split: prod.splits sum.splits)

lemma keeps_brokerE: "(\<And>b. Q b \<Longrightarrow> Q (snd (f b))) \<Longrightarrow> keeps (\<lambda>s. Q (rl_broker s)) (brokerE f)"
  by (rule keepsI) (auto simp: brokerE_def split: prod.splits, metis snd_conv)

lemma keeps_worldE: "keeps (\<lambda>s. Q (rl_broker s)) (worldE m)"
  by (rule keepsI) (auto simp: worldE_def split: prod.splits)

lemma keeps_relay_transaction:
  assumes "keeps (\<lambda>s. Q (rl_broker s)) body" shows "keeps (\<lambda>s. Q (rl_broker s)) (relay_transaction cf body)"
proof (rule keepsI)
  fix s r s' assume s: "Q (rl_broker s)" and t: "relay_transaction cf body s = (r, s')"
  obtain ab w1 where n: "next_env (rl_world s) = (ab, w1)" by fastforce
  obtain rb sb where b: "body (s\<lparr>rl_world := w1\<rparr>) = (rb, sb)" by fastforce
  have "Q (rl_broker sb)" using keepsD [OF assms _ b] s by simp
  then show "Q (rl_broker s')" using t n b s
    by (auto simp: relay_transaction_def bindE_def split: option.splits sum.splits)
qed

lemma relay_frame:
  assumes "publishPending amqp_ops jp url env opts s = (r, s')"
  shows "am_unacked (rl_broker s') = am_unacked (rl_broker s) \<and> am_dlq (rl_broker s') = am_dlq (rl_broker s)
    \<and> am_tag (rl_broker s') = am_tag (rl_broker s)"
proof -
  let ?Q = "\<lambda>b. am_unacked b = am_unacked (rl_broker s) \<and> am_dlq b = am_dlq (rl_broker s) \<and> am_tag b = am_tag (rl_broker s)"
  let ?K = "\<lambda>s. ?Q (rl_broker s)"
  have ops: "\<And>b. ?Q b \<Longrightarrow> ?Q (snd (connect_op amqp_ops b))" "\<And>b. ?Q b \<Longrightarrow> ?Q (snd (createConfirmChannel_op amqp_ops b))"
    "\<And>m b. ?Q b \<Longrightarrow> ?Q (snd (publish_op amqp_ops m b))" "\<And>b. ?Q b \<Longrightarrow> ?Q (snd (waitForConfirms_op amqp_ops b))"
    "\<And>b. ?Q b \<Longrightarrow> ?Q (snd (closeChannel_op amqp_ops b))" "\<And>b. ?Q b \<Longrightarrow> ?Q (snd (closeConnection_op amqp_ops b))"
    by (auto simp: amqp_ops_def amqp_publish_def amqp_confirm_def amqp_route_def
        split: option.split list.split confirm_fault.split)
  have pub: "keeps ?K (publishOrderPlaced amqp_ops ev)" for ev
    unfolding publishOrderPlaced_def by (intro keeps_bindE keeps_brokerE [where Q = ?Q] ops)
  have fail: "keeps ?K (\<lambda>s. (Inl err, s\<lparr>rl_failed := i\<rparr>))" for err i by (simp add: keeps_def)
  have rows: "keeps ?K (publish_rows amqp_ops jp crash rows n)" for crash rows n
    by (induction rows arbitrary: n)
      (auto intro!: keeps_returnE keeps_bindE keeps_liftE keeps_catchE pub fail keeps_throwE keeps_worldE [where Q = ?Q])
  have chan: "keeps ?K (withOrderPlacedChannel amqp_ops url (publish_rows amqp_ops jp crash rows n))" for crash rows n
    unfolding withOrderPlacedChannel_def
    by (intro keeps_bindE keeps_catchE keeps_finallyE keeps_liftE keeps_throwE keeps_brokerE [where Q = ?Q] ops rows)
  have "keeps ?K (relay_transaction (re_commit env)
      (bindE (worldE (sqlE (sql_pending l (ro_userId opts) (re_locked env)))) (\<lambda>rows. if rows = [] then returnE 0
        else withOrderPlacedChannel amqp_ops url (publish_rows amqp_ops jp (ro_crashAfterPublish opts) rows 0))))" for l
    by (intro keeps_relay_transaction [where Q = ?Q] keeps_bindE keeps_if keeps_returnE chan keeps_worldE [where Q = ?Q])
  moreover have "keeps ?K (\<lambda>s. case rl_failed s of None \<Rightarrow> (Inl err, s)
      | Some i \<Rightarrow> bindE (worldE (query (sql_count_attempt i))) (\<lambda>_. throwE err) s)" for err :: thrown
    by (rule keepsI) (auto simp: bindE_def worldE_def split: option.splits prod.splits sum.splits)
  ultimately have k: "keeps ?K (catchE (relay_transaction (re_commit env)
      (bindE (worldE (sqlE (sql_pending l (ro_userId opts) (re_locked env)))) (\<lambda>rows. if rows = [] then returnE 0
        else withOrderPlacedChannel amqp_ops url (publish_rows amqp_ops jp (ro_crashAfterPublish opts) rows 0))))
      (\<lambda>err s. case rl_failed s of None \<Rightarrow> (Inl err, s)
      | Some i \<Rightarrow> bindE (worldE (query (sql_count_attempt i))) (\<lambda>_. throwE err) s))" for l
    by (rule keeps_catchE)
  show ?thesis
    using keepsD [OF k [of "case ro_limit opts of Some n \<Rightarrow> n | None \<Rightarrow> 20"], of "s\<lparr>rl_failed := None\<rparr>" r s'] assms
    by (simp add: publishPending_def)
qed

lemma list_all2_source: "list_all2 P xs ys \<Longrightarrow> y \<in> set ys \<Longrightarrow> \<exists>x \<in> set xs. P x y"
  by (induction rule: list_all2_induct) auto

lemma relayed_same:
  assumes "list_all2 (row_relayed sent) xs ys"
  shows "map x_payload ys = map x_payload xs \<and> map x_id ys = map x_id xs"
  using assms by (induction rule: list_all2_induct) (auto simp: row_relayed_def)

lemma outbox_ok_relayed:
  assumes "outbox_ok d" and "list_all2 (row_relayed sent) (outbox d) ob"
  shows "outbox_ok (d\<lparr>outbox := ob\<rparr>)"
proof -
  have "0 \<le> x_attempts y \<and> x_id y < outbox_seq d" if y: "y \<in> set ob" for y
  proof -
    obtain x where "x \<in> set (outbox d)" "row_relayed sent x y"
      using list_all2_source [OF assms(2) y] by blast
    then show ?thesis using assms(1) by (force simp: outbox_ok_def row_relayed_def)
  qed
  then show ?thesis using assms(1) relayed_same [OF assms(2)] by (simp add: outbox_ok_def)
qed

lemma db_ok_outbox: "db_ok d \<Longrightarrow> outbox_ok (d\<lparr>outbox := ob\<rparr>) \<Longrightarrow> db_ok (d\<lparr>outbox := ob\<rparr>)"
  by (simp add: schema_defs)

lemma event_message: "asOrderPlacedEvent jp (event_json ev) = Inr (event_json ev)"
proof -
  have "is_order_event (event_json ev)" by (simp add: is_order_event_def)
  moreover obtain fs where "event_json ev = JsObj fs" by (simp add: event_json_def)
  ultimately show ?thesis by (simp add: asOrderPlacedEvent_def)
qed

lemma row_message_event:
  "outbox_events uuid w \<Longrightarrow> x \<in> set (outbox (w_db w)) \<Longrightarrow> row_message jp x = order_message (x_payload x)"
  by (erule (1) row_event) (simp add: row_message_def event_message)

lemma relay_work:
  assumes "calm (rl_world s)" and "publishPending amqp_ops jp url env opts s = (r, s')"
  shows "set (am_work (rl_broker s)) \<subseteq> set (am_work (rl_broker s'))
    \<and> set (am_work (rl_broker s')) \<subseteq> set (am_work (rl_broker s)) \<union> row_message jp ` set (outbox (w_db (rl_world s)))"
proof -
  obtain ab w1 where n: "next_env (rl_world s) = (ab, w1)" by fastforce
  have "w_db w1 = w_db (rl_world s)" using calm_next [OF assms(1) n] by simp
  then obtain j where "am_work (rl_broker s') = am_work (rl_broker s) @
      map (row_message jp) (take j (pending_rows opts env (w_db (rl_world s))))"
    using amqp_queue.publishPending_outcome [OF assms(2) n] by (cases r) (auto, metis take_all_iff order_refl)
  then show ?thesis using pending_rows_mem set_take_subset by fastforce
qed

lemma pipe_ok_relay:
  assumes ok: "pipe_ok uuid p" and w: "calm w" "w_db w = w_db (pp_world p)" "w_rng w = w_rng (pp_world p)"
    and r: "publishPending amqp_ops jp url env opts \<lparr>rl_world = w, rl_broker = pp_broker p, rl_failed = None\<rparr> = (r, s')"
  shows "pipe_ok uuid (p\<lparr>pp_world := rl_world s', pp_broker := rl_broker s'\<rparr>)"
proof -
  let ?d = "w_db w" and ?b = "pp_broker p" and ?b' = "rl_broker s'"
  have ev: "outbox_events uuid w" using outbox_events_mono [of uuid "pp_world p" w] ok w by (simp add: pipe_ok_def)
  have "outbox_ok ?d" using ok w by (simp add: pipe_ok_def db_ok_def)
  then obtain ob where ob: "w_db (rl_world s') = ?d\<lparr>outbox := ob\<rparr>" "w_rng (rl_world s') = w_rng w"
    "list_all2 (row_relayed (\<lambda>x. row_message jp x \<in> set (am_work ?b') \<and> \<not> isl r)) (outbox ?d) ob"
    using relay_calm [OF amqp_queue.broker_laws_axioms _ _ r] w(1) by auto
  note same = relayed_same [OF ob(3)]
  have fr: "am_unacked ?b' = am_unacked ?b" "am_dlq ?b' = am_dlq ?b" "am_tag ?b' = am_tag ?b"
    using relay_frame [OF r] by auto
  have work: "set (am_work ?b) \<subseteq> set (am_work ?b')"
    "set (am_work ?b') \<subseteq> set (am_work ?b) \<union> (\<lambda>x. order_message (x_payload x)) ` set (outbox ?d)"
    using relay_work [OF _ r] w(1) row_message_event [OF ev, of _ jp] by fastforce+
  have payloads: "f ` x_payload ` set ob = f ` x_payload ` set (outbox ?d)" for f :: "json \<Rightarrow> 'z"
    using same by (metis list.set_map)
  have eff: "effect_of (?d\<lparr>outbox := ob\<rparr>) = effect_of ?d" by (simp add: effect_of_def)
  have "no_event_lost (?d\<lparr>outbox := ob\<rparr>) ?b'"
    unfolding no_event_lost_def
  proof (intro ballI impI)
    fix x' assume "x' \<in> set (outbox (?d\<lparr>outbox := ob\<rparr>))" and pub: "x_published_at x' \<noteq> None"
    then obtain x where x: "x \<in> set (outbox ?d)" "row_relayed (\<lambda>x. row_message jp x \<in> set (am_work ?b') \<and> \<not> isl r) x x'"
      using list_all2_source [OF ob(3)] by auto
    then have pl: "x_payload x' = x_payload x" by (simp add: row_relayed_def)
    consider "x_published_at x \<noteq> None" | "row_message jp x \<in> set (am_work ?b')"
      using x(2) pub by (auto simp: row_relayed_def)
    then show "order_message (x_payload x') \<in> stored ?b' \<or> (\<exists>u. row_key x' = Some u \<and> effect_of (?d\<lparr>outbox := ob\<rparr>) u \<noteq> None)"
    proof cases
      case 1
      then have "order_message (x_payload x) \<in> stored ?b \<or> (\<exists>u. row_key x = Some u \<and> effect_of ?d u \<noteq> None)"
        using ok w x(1) by (auto simp: pipe_ok_def no_event_lost_def)
      then show ?thesis using work(1) fr pl eff by (auto simp: stored_def row_key_def)
    next
      case 2
      then show ?thesis using row_message_event [OF ev x(1), of jp] pl by (auto simp: stored_def)
    qed
  qed
  moreover have "no_event_invented (?d\<lparr>outbox := ob\<rparr>) ?b'"
    using ok w work(2) fr eff payloads [of order_message] payloads [of "\<lambda>j. event_key \<lparr>cm_tag = 0, cm_content = Some j\<rparr>"]
    by (auto simp: pipe_ok_def no_event_invented_def stored_def row_key_def image_image)
  moreover have "db_ok (?d\<lparr>outbox := ob\<rparr>)"
    using ok w db_ok_outbox outbox_ok_relayed [OF _ ob(3)] by (simp add: pipe_ok_def db_ok_def)
  moreover have "outbox_events uuid (rl_world s')"
    using outbox_events_mono [OF ev] ob(1,2) same by simp
  ultimately show ?thesis using ok ob(1) fr by (simp add: pipe_ok_def tags_ok_def)
qed

section \<open>Deliveries\<close>

lemma db_ok_consumer: "kept_by_consumer K db_ok"
proof -
  have "db_ok (snd (sql_insert_delivery i d))" if "db_ok d" for i d
    using that by (auto simp: sql_insert_delivery_def schema_defs less_Suc_eq_le split: sum.split)
  moreover have "db_ok (snd (apply_rows u v d))" if "db_ok d" for u v d
    using that by (auto simp: apply_rows_def schema_defs)
  moreover have "db_ok (snd (sql_mark_acked i d))" if "db_ok d" for i d
  proof -
    have "map e_event_id (order_placed_effects (snd (sql_mark_acked i d))) = map e_event_id (order_placed_effects d)"
      by (auto simp: sql_mark_acked_def split: sum.split)
    then show ?thesis using that by (simp add: schema_defs sql_mark_acked_def split: sum.splits)
  qed
  ultimately show ?thesis by (simp add: kept_by_consumer_def table_pred_db_ok)
qed

lemma outbox_consumer: "kept_by_consumer K (\<lambda>d. outbox d = ob)"
  by (simp add: kept_by_consumer_def table_pred_def tables_eq_iff sql_insert_delivery_def apply_rows_def
      sql_mark_acked_def split: sum.split)

lemma effect_of_consumer:
  "effect_of (snd (sql_mark_acked i d)) = effect_of d" "effect_of (snd (sql_insert_delivery i d)) = effect_of d"
  by (auto simp: sql_mark_acked_def sql_insert_delivery_def effect_of_def split: sum.split intro!: arg_cong [where f = map_of])

lemma effects_consumer: "kept_by_consumer K (\<lambda>d. dom (effect_of d) \<subseteq> D \<union> K)"
proof -
  have "table_pred (\<lambda>d. dom (effect_of d) \<subseteq> D \<union> K)" by (simp add: table_pred_def tables_eq_iff effect_of_def)
  then show ?thesis by (auto simp: kept_by_consumer_def effect_of_consumer eff.changed)
qed

lemma event_key_content: "event_key \<lparr>cm_tag = t, cm_content = c\<rparr> = event_key \<lparr>cm_tag = 0, cm_content = c\<rparr>"
  by (simp add: event_key_def parseEvent_def)

lemma pipe_ok_deliver:
  assumes ok: "pipe_ok uuid p" and w: "calm w" "w_db w = w_db (pp_world p)" "w_rng w = w_rng (pp_world p)"
    and q: "am_work (pp_broker p) = m # rest"
    and r: "handle_message ts amqp_channel crash (Some \<lparr>cm_tag = am_tag (pp_broker p), cm_content = Some (bm_body m)\<rparr>)
       \<lparr>cs_store = \<lparr>st_world = w, st_successfulApplies = pp_applies p\<rparr>,
        cs_channel = amqp_deliver m rest (pp_broker p), cs_rejected = pp_rejected p, cs_killed = False\<rparr> = (r, s')"
  shows "pipe_ok uuid (p\<lparr>pp_world := st_world (cs_store s'), pp_applies := st_successfulApplies (cs_store s'),
          pp_rejected := cs_rejected s', pp_broker := cs_channel s'\<rparr>)"
proof -
  let ?d = "w_db w" and ?b = "pp_broker p" and ?m = "\<lparr>cm_tag = am_tag (pp_broker p), cm_content = Some (bm_body m)\<rparr>"
  let ?d' = "w_db (st_world (cs_store s'))" and ?b' = "cs_channel s'" and ?K = "{u. event_key ?m = Some u}"
  have tags: "tags_ok ?b" using ok by (simp add: pipe_ok_def)
  note dl = deliver_facts [OF tags q]
  have kept: "P ?d'" if "kept_by_consumer ?K P" "P ?d" for P
    using keepsD [OF handle_keeps_tables [OF that(1)] _ r] that(2) calm_env_keeps [OF w(1)] by (simp add: safe_def)
  obtain xs where xs: "?b' = settle_all amqp_channel ?m xs (amqp_deliver m rest ?b)"
    "xs = [] \<or> xs \<in> {[Ack], [Reject], [NackRequeue], [Ack, NackRequeue], [Ack, Reject]}"
    "Ack \<in> set xs \<longrightarrow> (\<exists>u. event_key ?m = Some u \<and> effect_of ?d' u \<noteq> None)"
    using handle_outcome [OF amqp_channel_open r] calm_env_keeps [OF w(1)] by (auto split: if_splits)
  have st: "tags_ok ?b'" "stored ?b' \<subseteq> stored ?b" "stored ?b - (if Ack \<in> set xs then {m} else {}) \<subseteq> stored ?b'"
    using settle_all_stored [OF dl(1), of ?m m xs] dl(2,3) xs(1,2) by auto
  have ob: "outbox ?d' = outbox ?d" by (rule kept [OF outbox_consumer refl])
  have mem: "m \<in> stored ?b" using q by (simp add: stored_def)
  have key: "row_key x = event_key ?m" if "m = order_message (x_payload x)" for x
    using that event_key_content [of "am_tag ?b"] by (simp add: row_key_def order_message_def)
  have eff: "effect_of ?d u \<noteq> None \<Longrightarrow> effect_of ?d' u \<noteq> None" for u by (rule kept [OF has_effect_kept])
  have dom: "dom (effect_of ?d') \<subseteq> dom (effect_of ?d) \<union> ?K" by (rule kept [OF effects_consumer]) blast
  have "no_event_lost ?d' ?b'" unfolding no_event_lost_def ob
  proof (intro ballI impI)
    fix x assume x: "x \<in> set (outbox ?d)" "x_published_at x \<noteq> None"
    then consider "order_message (x_payload x) \<in> stored ?b" | u where "row_key x = Some u" "effect_of ?d u \<noteq> None"
      using ok w by (auto simp: pipe_ok_def no_event_lost_def)
    then show "order_message (x_payload x) \<in> stored ?b' \<or> (\<exists>u. row_key x = Some u \<and> effect_of ?d' u \<noteq> None)"
      by cases (use st(3) xs(3) key [of x] eff in \<open>auto split: if_splits\<close>)
  qed
  moreover have "no_event_invented ?d' ?b'"
  proof -
    obtain x where "x \<in> set (outbox ?d)" "m = order_message (x_payload x)"
      using ok w mem by (auto simp: pipe_ok_def no_event_invented_def)
    then have "Some ` ?K \<subseteq> row_key ` set (outbox ?d)" using key by force
    moreover have "Some ` dom (effect_of ?d') \<subseteq> Some ` dom (effect_of ?d) \<union> Some ` ?K"
      using image_mono [OF dom, of Some] by (simp add: image_Un)
    moreover have "Some ` dom (effect_of ?d) \<subseteq> row_key ` set (outbox ?d)"
      "stored ?b \<subseteq> (\<lambda>x. order_message (x_payload x)) ` set (outbox ?d)"
      using ok w by (simp_all add: pipe_ok_def no_event_invented_def)
    ultimately show ?thesis using st(2) unfolding no_event_invented_def ob by (meson Un_least subset_trans)
  qed
  moreover have "db_ok ?d'" by (rule kept [OF db_ok_consumer]) (use ok w in \<open>simp add: pipe_ok_def\<close>)
  moreover have "w_rng w \<le> w_rng (st_world (cs_store s'))"
    using keepsD [OF handle_keeps_rng _ r, of "w_rng w"] by simp
  then have "outbox_events uuid (st_world (cs_store s'))"
    using outbox_events_mono [of uuid "pp_world p"] ok w ob by (simp add: pipe_ok_def)
  ultimately show ?thesis using st(1) by (simp add: pipe_ok_def)
qed

lemma pipe_ok_step: "pipe_step uuid toISO ts p p' \<Longrightarrow> pipe_ok uuid p \<Longrightarrow> pipe_ok uuid p'"
proof (induction rule: pipe_step.induct)
  case (place w p inp r w')
  then show ?case using pipe_ok_place by blast
next
  case (relay w p jp url env opts r s')
  then show ?case using pipe_ok_relay by blast
next
  case (deliver w p m rest crash r s')
  then show ?case using pipe_ok_deliver by blast
next
  case (disconnect p)
  have "stored (amqp_requeue b) = stored b" for b by (auto simp: stored_def amqp_requeue_def)
  then show ?case using disconnect
    by (auto simp: pipe_ok_def no_event_lost_def no_event_invented_def tags_ok_def amqp_requeue_def)
qed

section \<open>Reachable states\<close>

definition pipe_start :: "pipeline \<Rightarrow> bool" where
  "pipe_start p \<longleftrightarrow> db_ok (w_db (pp_world p)) \<and> outbox (w_db (pp_world p)) = []
     \<and> order_placed_effects (w_db (pp_world p)) = [] \<and> stored (pp_broker p) = {}"

lemma pipe_ok_reachable:
  assumes "pipe_start p0" and "(pipe_step uuid toISO ts)\<^sup>*\<^sup>* p0 p"
  shows "pipe_ok uuid p"
  using assms(2)
proof (induction rule: rtranclp_induct)
  case base
  show ?case using assms(1)
    by (simp add: pipe_start_def pipe_ok_def outbox_events_def no_event_lost_def no_event_invented_def
        tags_ok_def effect_of_def stored_def)
qed (rule pipe_ok_step)

lemma row_key_event:
  "x_payload x = event_json ev \<Longrightarrow>
     row_key x = (case pg_uuid (ev_eventId ev) of Inr u \<Rightarrow> Some u | Inl _ \<Rightarrow> None)"
proof -
  assume pl: "x_payload x = event_json ev"
  obtain fs where fs: "event_json ev = JsObj fs" by (simp add: event_json_def)
  have "parseEvent \<lparr>cm_tag = 0, cm_content = Some (event_json ev)\<rparr> = Inr (event_json ev)"
    using event_json_fields [of ev] unfolding fs by (simp add: parseEvent_def text_field_def)
  then show ?thesis by (simp add: row_key_def event_key_def pl event_text_def text_field_def)
qed

text \<open>Event ids drawn so far name different values.\<close>

definition fresh_uuids :: "(nat \<Rightarrow> string) \<Rightarrow> nat \<Rightarrow> bool" where
  "fresh_uuids uuid k \<longleftrightarrow> (\<forall>m < k. \<forall>n < k. pg_uuid (uuid m) = pg_uuid (uuid n) \<longrightarrow> m = n)"

lemma distinct_row_keys:
  assumes "outbox_events uuid w" and "fresh_uuids uuid (w_rng w)"
    and keys: "\<forall>x \<in> set (outbox (w_db w)). row_key x \<noteq> None"
  shows "distinct (map row_key (outbox (w_db w)))"
proof -
  obtain ns where ns: "list_all2 (from_checkout uuid w) (outbox (w_db w)) ns" "distinct ns"
    using assms(1) by (auto simp: outbox_events_def)
  have row: "ns ! i < w_rng w" "\<exists>u. row_key (outbox (w_db w) ! i) = Some u \<and> pg_uuid (uuid (ns ! i)) = Inr u"
    if i: "i < length ns" for i
  proof -
    obtain ev where ev: "x_payload (outbox (w_db w) ! i) = event_json ev" "ev_eventId ev = uuid (ns ! i)"
      and "ns ! i < w_rng w" using ns(1) i by (auto simp: list_all2_conv_all_nth from_checkout_def)
    then show "ns ! i < w_rng w" by simp
    have "row_key (outbox (w_db w) ! i) \<noteq> None"
      using keys ns(1) i by (simp add: list_all2_lengthD)
    then show "\<exists>u. row_key (outbox (w_db w) ! i) = Some u \<and> pg_uuid (uuid (ns ! i)) = Inr u"
      using row_key_event [OF ev(1)] ev(2) by (auto split: sum.splits)
  qed
  have "i = j" if ij: "i < length ns" "j < length ns" "row_key (outbox (w_db w) ! i) = row_key (outbox (w_db w) ! j)" for i j
  proof -
    have "pg_uuid (uuid (ns ! i)) = pg_uuid (uuid (ns ! j))" using row(2) [OF ij(1)] row(2) [OF ij(2)] ij(3) by auto
    then have "ns ! i = ns ! j" using assms(2) row(1) [OF ij(1)] row(1) [OF ij(2)] by (simp add: fresh_uuids_def)
    then show ?thesis using ns(2) ij nth_eq_iff_index_eq by blast
  qed
  then show ?thesis using ns(1) by (auto simp: distinct_conv_nth list_all2_lengthD)
qed

lemma drained_effects:
  assumes ok: "pipe_ok uuid p" and pub: "\<forall>x \<in> set (outbox (w_db (pp_world p))). x_published_at x \<noteq> None"
    and empty: "stored (pp_broker p) = {}" and fresh: "fresh_uuids uuid (w_rng (pp_world p))"
  shows "mset (map row_key (outbox (w_db (pp_world p))))
    = mset (map (\<lambda>r. Some (e_event_id r)) (order_placed_effects (w_db (pp_world p))))"
proof -
  let ?d = "w_db (pp_world p)"
  have lost: "\<exists>u. row_key x = Some u \<and> effect_of ?d u \<noteq> None" if "x \<in> set (outbox ?d)" for x
    using ok pub empty that by (auto simp: pipe_ok_def no_event_lost_def)
  have dom: "dom (effect_of ?d) = e_event_id ` set (order_placed_effects ?d)" by (simp add: effect_of_def dom_map_of_conv_image_fst image_image)
  have inv: "Some ` dom (effect_of ?d) \<subseteq> row_key ` set (outbox ?d)" using ok by (simp add: pipe_ok_def no_event_invented_def)
  have "row_key x \<in> Some ` dom (effect_of ?d)" if "x \<in> set (outbox ?d)" for x using lost [OF that] by auto
  then have "row_key ` set (outbox ?d) = Some ` dom (effect_of ?d)" using inv by blast
  then have sets: "set (map row_key (outbox ?d)) = set (map (\<lambda>r. Some (e_event_id r)) (order_placed_effects ?d))"
    unfolding dom by (auto simp: image_iff)
  have "distinct (map e_event_id (order_placed_effects ?d))" using ok by (simp add: pipe_ok_def schema_defs)
  then have "distinct (map (\<lambda>r. Some (e_event_id r)) (order_placed_effects ?d))" by (simp add: distinct_map inj_on_def)
  moreover have "distinct (map row_key (outbox ?d))"
    using distinct_row_keys [of uuid "pp_world p"] ok fresh lost by (force simp: pipe_ok_def)
  ultimately show ?thesis using sets set_eq_iff_mset_eq_distinct by blast
qed

section \<open>A run, for the witnesses\<close>

definition idle_pipe :: pipeline where
  "idle_pipe = \<lparr>pp_world = shop_world, pp_applies = 0, pp_rejected = 0, pp_broker = fresh_broker []\<rparr>"

definition paid_event :: json where
  "paid_event = event_json \<lparr>ev_eventId = test_uuid 0, ev_occurredAt = test_iso 0,
     ev_orderId = ''order-1'', ev_userId = ''2'', ev_totalCents = 160, ev_poison = False\<rparr>"

definition published_shop :: db where
  "published_shop = paid_shop\<lparr>outbox := [\<lparr>x_id = 1, x_aggregate_type = ''order'', x_aggregate_id = ''1'',
     x_type = ''order.placed'', x_payload = paid_event, x_created_at = 0, x_published_at = Some 0, x_attempts = 1\<rparr>]\<rparr>"

definition queued_broker :: amqp where
  "queued_broker = (fresh_broker [])\<lparr>am_log := [order_message paid_event], am_work := [order_message paid_event]\<rparr>"

definition paid_pipe :: pipeline where
  "paid_pipe = idle_pipe\<lparr>pp_world := \<lparr>w_db = paid_shop, w_rng = 1, w_sched = []\<rparr>\<rparr>"

definition queued_pipe :: pipeline where
  "queued_pipe = \<lparr>pp_world = \<lparr>w_db = published_shop, w_rng = 1, w_sched = []\<rparr>, pp_applies = 0, pp_rejected = 0,
     pp_broker = queued_broker\<rparr>"

definition consumed :: "amqp consumer_state" where
  "consumed = snd (handle_message test_ts amqp_channel False
     (Some \<lparr>cm_tag = am_tag (pp_broker queued_pipe), cm_content = Some (bm_body (order_message paid_event))\<rparr>)
     \<lparr>cs_store = \<lparr>st_world = pp_world queued_pipe, st_successfulApplies = pp_applies queued_pipe\<rparr>,
      cs_channel = amqp_deliver (order_message paid_event) [] (pp_broker queued_pipe),
      cs_rejected = pp_rejected queued_pipe, cs_killed = False\<rparr>)"

definition done_pipe :: pipeline where
  "done_pipe = queued_pipe\<lparr>pp_world := st_world (cs_store consumed), pp_applies := st_successfulApplies (cs_store consumed),
     pp_rejected := cs_rejected consumed, pp_broker := cs_channel consumed\<rparr>"

text \<open>What the witnesses read of a world and of a consumer, evaluated once per run.\<close>

definition world_view :: "world \<Rightarrow> db \<times> nat \<times> bool" where
  "world_view w = (w_db w, w_rng w, w_sched w = [])"

definition consumer_view :: "amqp consumer_state
    \<Rightarrow> db \<times> nat \<times> broker_message list \<times> broker_message list \<times> broker_message list" where
  "consumer_view c = (w_db (st_world (cs_store c)), w_rng (st_world (cs_store c)), am_work (cs_channel c),
     map snd (am_unacked (cs_channel c)), am_dlq (cs_channel c))"

lemma shop_paid_world: "world_view (snd (checkout test_uuid test_iso basket shop_world)) = (paid_shop, 1, True)"
  by code_simp

lemma run_place: "pipe_step test_uuid test_iso test_ts idle_pipe paid_pipe"
proof -
  let ?c = "checkout test_uuid test_iso basket shop_world"
  obtain r w' where c: "?c = (r, w')" by fastforce
  have w: "w_db (snd ?c) = paid_shop" "w_rng (snd ?c) = 1" "w_sched (snd ?c) = []"
    using shop_paid_world by (simp_all add: world_view_def)
  have "w' = \<lparr>w_db = paid_shop, w_rng = 1, w_sched = []\<rparr>" using w c by (cases w') simp
  then show ?thesis using pipe_step.place [of shop_world idle_pipe test_uuid test_iso basket r w'] c
    by (simp add: idle_pipe_def paid_pipe_def calm_def shop_world_def)
qed

lemma run_relay: "pipe_step test_uuid test_iso test_ts paid_pipe queued_pipe"
proof -
  let ?p = "publishPending amqp_ops no_parse (Some ''amqp://b'') alone_env relay_defaults (after_checkout [])"
  have w: "w_db (rl_world (snd ?p)) = published_shop" "w_rng (rl_world (snd ?p)) = 1"
    "w_sched (rl_world (snd ?p)) = []" "rl_broker (snd ?p) = queued_broker" by code_simp+
  obtain r s' where p: "?p = (r, s')" by fastforce
  have "rl_world s' = \<lparr>w_db = published_shop, w_rng = 1, w_sched = []\<rparr>" using w p by (cases "rl_world s'") auto
  moreover have "rl_broker s' = queued_broker" using w p by simp
  ultimately show ?thesis
    using pipe_step.relay [of "pp_world paid_pipe" paid_pipe no_parse "Some ''amqp://b''" alone_env relay_defaults r s'] p
    by (simp add: idle_pipe_def paid_pipe_def queued_pipe_def after_checkout_def calm_def)
qed

lemma run_deliver: "pipe_step test_uuid test_iso test_ts queued_pipe done_pipe"
  unfolding done_pipe_def
proof (rule pipe_step.deliver [where w = "pp_world queued_pipe" and r = "Inr ()" and m = "order_message paid_event"
      and rest = "[]" and crash = False])
  show "am_work (pp_broker queued_pipe) = [order_message paid_event]" by (simp add: queued_pipe_def queued_broker_def)
  show "calm (pp_world queued_pipe)" by (simp add: queued_pipe_def calm_def)
  have "handle_message test_ts amqp_channel False (Some m) s = (Inr (), snd (handle_message test_ts amqp_channel False (Some m) s))"
    if "\<not> cs_killed s" for m s
    using handle_outcome [OF amqp_channel_open _ that] by (metis prod.collapse)
  then show "handle_message test_ts amqp_channel False
     (Some \<lparr>cm_tag = am_tag (pp_broker queued_pipe), cm_content = Some (bm_body (order_message paid_event))\<rparr>)
     \<lparr>cs_store = \<lparr>st_world = pp_world queued_pipe, st_successfulApplies = pp_applies queued_pipe\<rparr>,
      cs_channel = amqp_deliver (order_message paid_event) [] (pp_broker queued_pipe),
      cs_rejected = pp_rejected queued_pipe, cs_killed = False\<rparr> = (Inr (), consumed)"
    by (simp add: consumed_def)
qed simp_all

lemma run_done: "(pipe_step test_uuid test_iso test_ts)\<^sup>*\<^sup>* idle_pipe done_pipe"
  using run_place run_relay run_deliver by (meson converse_rtranclp_into_rtranclp rtranclp.rtrancl_refl)

lemma idle_start: "pipe_start idle_pipe"
  using shop_ok by (simp add: pipe_start_def idle_pipe_def shop_world_def stored_def fresh_broker_def) (simp add: shop_def)

lemma consumed_run:
  "consumer_view consumed = (published_shop\<lparr>
     order_placed_deliveries := [(1, ''00000000000040008000000000000000'')], deliveries_seq := 2,
     processed_messages := [\<lparr>m_message_id = ''00000000000040008000000000000000'', m_consumer = ''order-placed''\<rparr>],
     order_placed_effects := [\<lparr>e_event_id = ''00000000000040008000000000000000'', e_order_id = ''order-1'',
       e_occurred_at = ''0'', e_acked_at = Some 0\<rparr>]\<rparr>, 1, [], [], [])"
  by code_simp

lemmas consumed_facts = consumed_run [unfolded consumer_view_def prod.inject map_is_Nil_conv]

end
