(* ===== verification/Topology.thy ===== *)
theory Topology
  imports Outbox
begin

text \<open>
  \<open>src/messaging/topology.ts\<close>: the exchanges, queues and bindings the producers and consumers declare. The
  channel of the AMQP client is a parameter, a record of the calls the source makes; what the source relies
  on of the broker behind it is the locale \<open>topology_laws\<close>: declarations that agree with what is there
  change nothing, a queue is deleted with its bindings and its messages, deleting a queue that is not
  there is answered like any other deletion.
\<close>

section \<open>The calls\<close>

record queue_args =
  qa_durable :: bool
  qa_type :: "string option"
  qa_deadLetterExchange :: "string option"

record 't topology_ops =
  createChannel_op :: "'t \<Rightarrow> (thrown + unit) \<times> 't"
  cancel_op :: "'t \<Rightarrow> (thrown + unit) \<times> 't"
  assertExchange_op :: "string \<Rightarrow> string \<Rightarrow> 't \<Rightarrow> (thrown + unit) \<times> 't"
  assertQueue_op :: "string \<Rightarrow> queue_args \<Rightarrow> 't \<Rightarrow> (thrown + unit) \<times> 't"
  bindQueue_op :: "string \<Rightarrow> string \<Rightarrow> string \<Rightarrow> 't \<Rightarrow> (thrown + unit) \<times> 't"
  prefetch_op :: "nat \<Rightarrow> 't \<Rightarrow> (thrown + unit) \<times> 't"
  deleteQueue_op :: "string \<Rightarrow> 't \<Rightarrow> (thrown + unit) \<times> 't"
  checkQueue_op :: "string \<Rightarrow> 't \<Rightarrow> (thrown + nat) \<times> 't"

definition PREFETCH :: nat where "PREFETCH = 20"

definition DLX_EXCHANGE :: string where "DLX_EXCHANGE = ''shop.events.dlx''"

definition ORDER_PLACED_QUEUE :: string where "ORDER_PLACED_QUEUE = ''shop.order.placed''"

definition ORDER_PLACED_DLQ :: string where "ORDER_PLACED_DLQ = ''shop.order.placed.dlq''"

definition dlq_args :: queue_args where
  "dlq_args = \<lparr>qa_durable = True, qa_type = None, qa_deadLetterExchange = None\<rparr>"

definition work_args :: queue_args where
  "work_args = \<lparr>qa_durable = True, qa_type = Some ''quorum'', qa_deadLetterExchange = Some DLX_EXCHANGE\<rparr>"

definition assertTopology :: "'t topology_ops \<Rightarrow> ('t, thrown, unit) exec" where
  "assertTopology ch =
     bindE (assertExchange_op ch EVENTS_EXCHANGE ''topic'') (\<lambda>_.
     bindE (assertExchange_op ch DLX_EXCHANGE ''fanout'') (\<lambda>_.
     bindE (assertQueue_op ch ORDER_PLACED_DLQ dlq_args) (\<lambda>_.
     bindE (bindQueue_op ch ORDER_PLACED_DLQ DLX_EXCHANGE []) (\<lambda>_.
     bindE (assertQueue_op ch ORDER_PLACED_QUEUE work_args) (\<lambda>_.
     bindE (bindQueue_op ch ORDER_PLACED_QUEUE EVENTS_EXCHANGE ORDER_PLACED_KEY) (\<lambda>_.
     prefetch_op ch PREFETCH))))))"

definition resetQueues :: "'t topology_ops \<Rightarrow> ('t, thrown, unit) exec" where
  "resetQueues ch =
     bindE (catchE (deleteQueue_op ch ORDER_PLACED_QUEUE) (\<lambda>_. returnE ())) (\<lambda>_.
     catchE (deleteQueue_op ch ORDER_PLACED_DLQ) (\<lambda>_. returnE ()))"

lemma topology_names [simp]:
  "ORDER_PLACED_QUEUE \<noteq> ORDER_PLACED_DLQ" "ORDER_PLACED_DLQ \<noteq> ORDER_PLACED_QUEUE"
  "EVENTS_EXCHANGE \<noteq> DLX_EXCHANGE" "DLX_EXCHANGE \<noteq> EVENTS_EXCHANGE"
  by (simp_all add: EVENTS_EXCHANGE_def DLX_EXCHANGE_def ORDER_PLACED_QUEUE_def ORDER_PLACED_DLQ_def)

section \<open>Routing\<close>

text \<open>Routing keys of a topic exchange: words between dots, \<open>*\<close> for one word, \<open>#\<close> for any number of words.\<close>

fun words_of :: "string \<Rightarrow> string list" where
  "words_of [] = [[]]"
| "words_of (c # cs) = (if c = CHR ''.'' then [] # words_of cs
     else (case words_of cs of [] \<Rightarrow> [[c]] | w # ws \<Rightarrow> (c # w) # ws))"

fun words_match :: "string list \<Rightarrow> string list \<Rightarrow> bool" where
  "words_match [] ws = (ws = [])"
| "words_match (p # ps) [] = (p = ''#'' \<and> words_match ps [])"
| "words_match (p # ps) (w # ws) =
     (if p = ''#'' then words_match ps (w # ws) \<or> words_match (p # ps) ws
      else (p = ''*'' \<or> p = w) \<and> words_match ps ws)"

definition binding_matches :: "string \<Rightarrow> string \<Rightarrow> string \<Rightarrow> bool" where
  "binding_matches exchange_type key routing_key =
     (if exchange_type = ''fanout'' then True
      else if exchange_type = ''topic'' then words_match (words_of key) (words_of routing_key)
      else key = routing_key)"

definition routed ::
  "(string \<rightharpoonup> string) \<Rightarrow> (string \<times> string \<times> string) set \<Rightarrow> string \<Rightarrow> string \<Rightarrow> string set" where
  "routed exchanges bindings x k =
     {q. \<exists>t b. exchanges x = Some t \<and> (x, b, q) \<in> bindings \<and> binding_matches t b k}"

section \<open>What the declarations rely on\<close>

text \<open>
  \<open>ready\<close> is an open channel, \<open>exchanges\<close> the types of the declared exchanges, \<open>queues\<close> the arguments and
  the number of messages of the declared queues, \<open>bindings\<close> the triples of exchange, key and queue.
\<close>

locale topology_laws =
  fixes ch :: "'t topology_ops" and ready :: "'t \<Rightarrow> bool" and exchanges :: "'t \<Rightarrow> string \<rightharpoonup> string"
    and queues :: "'t \<Rightarrow> string \<rightharpoonup> queue_args \<times> nat" and bindings :: "'t \<Rightarrow> (string \<times> string \<times> string) set"
  assumes assertExchange: "ready s \<Longrightarrow> exchanges s x = None \<or> exchanges s x = Some t \<Longrightarrow>
      \<exists>s'. assertExchange_op ch x t s = (Inr (), s') \<and> ready s' \<and> exchanges s' = (exchanges s)(x \<mapsto> t)
        \<and> queues s' = queues s \<and> bindings s' = bindings s"
    and assertQueue: "ready s \<Longrightarrow> queues s q = None \<or> queues s q = Some (a, n) \<Longrightarrow>
      \<exists>s'. assertQueue_op ch q a s = (Inr (), s') \<and> ready s' \<and> exchanges s' = exchanges s
        \<and> queues s' = (queues s)(q \<mapsto> (a, if queues s q = None then 0 else n)) \<and> bindings s' = bindings s"
    and bindQueue: "ready s \<Longrightarrow> exchanges s x \<noteq> None \<Longrightarrow> queues s q \<noteq> None \<Longrightarrow>
      \<exists>s'. bindQueue_op ch q x k s = (Inr (), s') \<and> ready s' \<and> exchanges s' = exchanges s
        \<and> queues s' = queues s \<and> bindings s' = insert (x, k, q) (bindings s)"
    and prefetch: "ready s \<Longrightarrow> \<exists>s'. prefetch_op ch c s = (Inr (), s') \<and> ready s' \<and> exchanges s' = exchanges s
        \<and> queues s' = queues s \<and> bindings s' = bindings s"
    and deleteQueue: "ready s \<Longrightarrow> \<exists>s'. deleteQueue_op ch q s = (Inr (), s') \<and> ready s' \<and> exchanges s' = exchanges s
        \<and> queues s' = (queues s)(q := None) \<and> bindings s' = {b \<in> bindings s. snd (snd b) \<noteq> q}"
begin

lemma resetQueues_run:
  assumes "ready s"
  obtains s' where "resetQueues ch s = (Inr (), s')" "ready s'" "exchanges s' = exchanges s"
    "queues s' = (queues s)(ORDER_PLACED_QUEUE := None, ORDER_PLACED_DLQ := None)"
    "bindings s' = {b \<in> bindings s. snd (snd b) \<noteq> ORDER_PLACED_QUEUE \<and> snd (snd b) \<noteq> ORDER_PLACED_DLQ}"
proof -
  obtain s1 where 1: "deleteQueue_op ch ORDER_PLACED_QUEUE s = (Inr (), s1)" "ready s1" "exchanges s1 = exchanges s"
    "queues s1 = (queues s)(ORDER_PLACED_QUEUE := None)" "bindings s1 = {b \<in> bindings s. snd (snd b) \<noteq> ORDER_PLACED_QUEUE}"
    using deleteQueue [OF assms] by metis
  obtain s2 where 2: "deleteQueue_op ch ORDER_PLACED_DLQ s1 = (Inr (), s2)" "ready s2" "exchanges s2 = exchanges s1"
    "queues s2 = (queues s1)(ORDER_PLACED_DLQ := None)" "bindings s2 = {b \<in> bindings s1. snd (snd b) \<noteq> ORDER_PLACED_DLQ}"
    using deleteQueue [OF 1(2)] by metis
  show ?thesis by (rule that [of s2]) (use 1 2 in \<open>auto simp: resetQueues_def bindE_def catchE_def\<close>)
qed

lemma assertTopology_run:
  assumes a: "ready s" "exchanges s EVENTS_EXCHANGE = None \<or> exchanges s EVENTS_EXCHANGE = Some ''topic''"
    "exchanges s DLX_EXCHANGE = None \<or> exchanges s DLX_EXCHANGE = Some ''fanout''"
    "queues s ORDER_PLACED_QUEUE = None \<and> n = 0 \<or> queues s ORDER_PLACED_QUEUE = Some (work_args, n)"
    "queues s ORDER_PLACED_DLQ = None \<and> m = 0 \<or> queues s ORDER_PLACED_DLQ = Some (dlq_args, m)"
  obtains s' where "assertTopology ch s = (Inr (), s')" "ready s'"
    "exchanges s' = (exchanges s)(EVENTS_EXCHANGE \<mapsto> ''topic'', DLX_EXCHANGE \<mapsto> ''fanout'')"
    "queues s' = (queues s)(ORDER_PLACED_DLQ \<mapsto> (dlq_args, m), ORDER_PLACED_QUEUE \<mapsto> (work_args, n))"
    "bindings s' = insert (EVENTS_EXCHANGE, ORDER_PLACED_KEY, ORDER_PLACED_QUEUE)
       (insert (DLX_EXCHANGE, [], ORDER_PLACED_DLQ) (bindings s))"
proof -
  obtain s1 where 1: "assertExchange_op ch EVENTS_EXCHANGE ''topic'' s = (Inr (), s1)" "ready s1"
    "exchanges s1 = (exchanges s)(EVENTS_EXCHANGE \<mapsto> ''topic'')" "queues s1 = queues s" "bindings s1 = bindings s"
    using assertExchange [of s EVENTS_EXCHANGE] a by metis
  have "exchanges s1 DLX_EXCHANGE = None \<or> exchanges s1 DLX_EXCHANGE = Some ''fanout''" using a 1(3) by auto
  then obtain s2 where 2: "assertExchange_op ch DLX_EXCHANGE ''fanout'' s1 = (Inr (), s2)" "ready s2"
    "exchanges s2 = (exchanges s1)(DLX_EXCHANGE \<mapsto> ''fanout'')" "queues s2 = queues s1" "bindings s2 = bindings s1"
    using assertExchange [OF 1(2)] by metis
  have "queues s2 ORDER_PLACED_DLQ = None \<or> queues s2 ORDER_PLACED_DLQ = Some (dlq_args, m)" using a 1(4) 2(4) by auto
  from assertQueue [OF 2(2) this] obtain s3 where 3: "assertQueue_op ch ORDER_PLACED_DLQ dlq_args s2 = (Inr (), s3)" "ready s3"
    "exchanges s3 = exchanges s2" "queues s3 = (queues s)(ORDER_PLACED_DLQ \<mapsto> (dlq_args, m))" "bindings s3 = bindings s"
    using a 1(4,5) 2(4,5) by (auto split: if_splits)
  obtain s4 where 4: "bindQueue_op ch ORDER_PLACED_DLQ DLX_EXCHANGE [] s3 = (Inr (), s4)" "ready s4" "exchanges s4 = exchanges s3"
    "queues s4 = queues s3" "bindings s4 = insert (DLX_EXCHANGE, [], ORDER_PLACED_DLQ) (bindings s3)"
    using bindQueue [OF 3(2), of DLX_EXCHANGE ORDER_PLACED_DLQ] 2(3) 3(3,4) by auto
  have "queues s4 ORDER_PLACED_QUEUE = None \<or> queues s4 ORDER_PLACED_QUEUE = Some (work_args, n)"
    using a(4) 3(4) 4(4) by auto
  from assertQueue [OF 4(2) this] obtain s5 where 5: "assertQueue_op ch ORDER_PLACED_QUEUE work_args s4 = (Inr (), s5)" "ready s5"
    "exchanges s5 = exchanges s4" "queues s5 = (queues s)(ORDER_PLACED_DLQ \<mapsto> (dlq_args, m), ORDER_PLACED_QUEUE \<mapsto> (work_args, n))"
    "bindings s5 = bindings s4"
    using a 3(4) 4(4) by (auto split: if_splits)
  obtain s6 where 6: "bindQueue_op ch ORDER_PLACED_QUEUE EVENTS_EXCHANGE ORDER_PLACED_KEY s5 = (Inr (), s6)" "ready s6"
    "exchanges s6 = exchanges s5" "queues s6 = queues s5"
    "bindings s6 = insert (EVENTS_EXCHANGE, ORDER_PLACED_KEY, ORDER_PLACED_QUEUE) (bindings s5)"
    using bindQueue [OF 5(2), of EVENTS_EXCHANGE ORDER_PLACED_QUEUE] 1(3) 2(3) 3(3) 4(3) 5(3,4) by auto
  obtain s7 where 7: "prefetch_op ch PREFETCH s6 = (Inr (), s7)" "ready s7" "exchanges s7 = exchanges s6"
    "queues s7 = queues s6" "bindings s7 = bindings s6" using prefetch [OF 6(2)] by metis
  show ?thesis
  proof (rule that [of s7])
    show "assertTopology ch s = (Inr (), s7)" by (simp add: assertTopology_def bindE_def 1 2 3 4 5 6 7)
  qed (simp_all add: 1 2 3 4 5 6 7)
qed

end

section \<open>A broker in memory\<close>

record vhost =
  vh_open :: bool
  vh_exchanges :: "(string \<times> string) list"
  vh_queues :: "(string \<times> queue_args \<times> broker_message list) list"
  vh_bindings :: "(string \<times> string \<times> string) list"
  vh_prefetch :: nat

text \<open>A refused call closes the channel.\<close>

definition vh_refuse :: "string \<Rightarrow> vhost \<Rightarrow> (thrown + 'a) \<times> vhost" where
  "vh_refuse msg v = (Inl (PlainError msg), v\<lparr>vh_open := False\<rparr>)"

definition vh_assertExchange :: "string \<Rightarrow> string \<Rightarrow> vhost \<Rightarrow> (thrown + unit) \<times> vhost" where
  "vh_assertExchange x t v =
     (if \<not> vh_open v then (Inl (PlainError ''Channel closed''), v)
      else case map_of (vh_exchanges v) x of
        None \<Rightarrow> (Inr (), v\<lparr>vh_exchanges := (x, t) # vh_exchanges v\<rparr>)
      | Some t' \<Rightarrow> if t' = t then (Inr (), v) else vh_refuse ''PRECONDITION_FAILED'' v)"

definition vh_assertQueue :: "string \<Rightarrow> queue_args \<Rightarrow> vhost \<Rightarrow> (thrown + unit) \<times> vhost" where
  "vh_assertQueue q a v =
     (if \<not> vh_open v then (Inl (PlainError ''Channel closed''), v)
      else case map_of (vh_queues v) q of
        None \<Rightarrow> (Inr (), v\<lparr>vh_queues := (q, a, []) # vh_queues v\<rparr>)
      | Some (a', _) \<Rightarrow> if a' = a then (Inr (), v) else vh_refuse ''PRECONDITION_FAILED'' v)"

definition vh_bindQueue :: "string \<Rightarrow> string \<Rightarrow> string \<Rightarrow> vhost \<Rightarrow> (thrown + unit) \<times> vhost" where
  "vh_bindQueue q x k v =
     (if \<not> vh_open v then (Inl (PlainError ''Channel closed''), v)
      else if map_of (vh_exchanges v) x = None \<or> map_of (vh_queues v) q = None then vh_refuse ''NOT_FOUND'' v
      else (Inr (), v\<lparr>vh_bindings := List.insert (x, k, q) (vh_bindings v)\<rparr>))"

definition vh_deleteQueue :: "string \<Rightarrow> vhost \<Rightarrow> (thrown + unit) \<times> vhost" where
  "vh_deleteQueue q v =
     (if \<not> vh_open v then (Inl (PlainError ''Channel closed''), v)
      else (Inr (), v\<lparr>vh_queues := filter (\<lambda>e. fst e \<noteq> q) (vh_queues v),
        vh_bindings := filter (\<lambda>b. snd (snd b) \<noteq> q) (vh_bindings v)\<rparr>))"

definition vh_checkQueue :: "string \<Rightarrow> vhost \<Rightarrow> (thrown + nat) \<times> vhost" where
  "vh_checkQueue q v =
     (if \<not> vh_open v then (Inl (PlainError ''Channel closed''), v)
      else case map_of (vh_queues v) q of None \<Rightarrow> vh_refuse ''NOT_FOUND'' v | Some (_, ms) \<Rightarrow> (Inr (length ms), v))"

definition vhost_ops :: "vhost topology_ops" where
  "vhost_ops = \<lparr>createChannel_op = \<lambda>v. (Inr (), v\<lparr>vh_open := True\<rparr>), cancel_op = \<lambda>v. (Inr (), v), assertExchange_op = vh_assertExchange, assertQueue_op = vh_assertQueue, bindQueue_op = vh_bindQueue,
     prefetch_op = \<lambda>n v. if vh_open v then (Inr (), v\<lparr>vh_prefetch := n\<rparr>) else (Inl (PlainError ''Channel closed''), v),
     deleteQueue_op = vh_deleteQueue, checkQueue_op = vh_checkQueue\<rparr>"

definition vh_depths :: "vhost \<Rightarrow> string \<rightharpoonup> queue_args \<times> nat" where
  "vh_depths v q = map_option (\<lambda>(a, ms). (a, length ms)) (map_of (vh_queues v) q)"

lemma map_of_remove: "map_of (filter (\<lambda>e. fst e \<noteq> q) xs) = (map_of xs)(q := None)"
  by (induction xs) (auto simp: fun_eq_iff)

interpretation vhost: topology_laws vhost_ops vh_open "\<lambda>v. map_of (vh_exchanges v)" vh_depths "\<lambda>v. set (vh_bindings v)"
proof
  fix v :: vhost and x t assume "vh_open v" "map_of (vh_exchanges v) x = None \<or> map_of (vh_exchanges v) x = Some t"
  then show "\<exists>s'. assertExchange_op vhost_ops x t v = (Inr (), s') \<and> vh_open s'
      \<and> map_of (vh_exchanges s') = (map_of (vh_exchanges v))(x \<mapsto> t) \<and> vh_depths s' = vh_depths v
      \<and> set (vh_bindings s') = set (vh_bindings v)"
    by (auto simp: vhost_ops_def vh_assertExchange_def vh_depths_def fun_eq_iff)
next
  fix v :: vhost and q a n assume "vh_open v" "vh_depths v q = None \<or> vh_depths v q = Some (a, n)"
  then show "\<exists>s'. assertQueue_op vhost_ops q a v = (Inr (), s') \<and> vh_open s'
      \<and> map_of (vh_exchanges s') = map_of (vh_exchanges v)
      \<and> vh_depths s' = (vh_depths v)(q \<mapsto> (a, if vh_depths v q = None then 0 else n)) \<and> set (vh_bindings s') = set (vh_bindings v)"
    by (auto simp: vhost_ops_def vh_assertQueue_def vh_depths_def fun_eq_iff)
next
  fix v :: vhost and x q k assume "vh_open v" "map_of (vh_exchanges v) x \<noteq> None" "vh_depths v q \<noteq> None"
  then show "\<exists>s'. bindQueue_op vhost_ops q x k v = (Inr (), s') \<and> vh_open s'
      \<and> map_of (vh_exchanges s') = map_of (vh_exchanges v) \<and> vh_depths s' = vh_depths v
      \<and> set (vh_bindings s') = insert (x, k, q) (set (vh_bindings v))"
    by (auto simp: vhost_ops_def vh_bindQueue_def vh_depths_def fun_eq_iff)
next
  fix v :: vhost and q assume "vh_open v"
  then show "\<exists>s'. deleteQueue_op vhost_ops q v = (Inr (), s') \<and> vh_open s'
      \<and> map_of (vh_exchanges s') = map_of (vh_exchanges v) \<and> vh_depths s' = (vh_depths v)(q := None)
      \<and> set (vh_bindings s') = {b \<in> set (vh_bindings v). snd (snd b) \<noteq> q}"
    by (auto simp: vhost_ops_def vh_deleteQueue_def vh_depths_def fun_eq_iff map_of_remove)
qed (auto simp: vhost_ops_def vh_depths_def fun_eq_iff)

section \<open>The topology\<close>

lemma order_key_match: "words_match (words_of ORDER_PLACED_KEY) ws \<longleftrightarrow> ws = words_of ORDER_PLACED_KEY"
proof -
  have w: "words_of ORDER_PLACED_KEY = [''order'', ''placed'']" by (simp add: ORDER_PLACED_KEY_def)
  have "words_match [''placed''] vs \<longleftrightarrow> vs = [''placed'']" for vs by (cases vs) auto
  then show ?thesis unfolding w by (cases ws) auto
qed

lemma words_of_ne: "words_of s \<noteq> []"
  by (cases s) (auto split: list.split)

fun unwords :: "string list \<Rightarrow> string" where
  "unwords [] = []"
| "unwords [w] = w"
| "unwords (w # ws) = w @ CHR ''.'' # unwords ws"

lemma unwords_words_of: "unwords (words_of s) = s"
proof (induction s)
  case (Cons c s)
  obtain w ws where "words_of s = w # ws" using words_of_ne by (cases "words_of s") auto
  then show ?case using Cons by (cases ws) auto
qed simp

lemma words_of_inject: "words_of s = words_of t \<longleftrightarrow> s = t"
  by (metis unwords_words_of)

text \<open>
  (C20) On a broker that keeps the documented laws, whatever queues and bindings it had, resetting and declaring the
  topology runs through: afterwards both queues are empty and have the arguments of the source, the work
  queue receives exactly the messages published to the events exchange under the key of the order event,
  and what it rejects goes by its dead-letter exchange to the dead-letter queue, which receives nothing
  else. Declaring the topology again, as every process does that connects, succeeds and changes none of it.
\<close>

theorem assertTopology_routes:
  assumes laws: "topology_laws ch ready exchanges queues bindings" and s: "ready s"
    "exchanges s EVENTS_EXCHANGE = None \<or> exchanges s EVENTS_EXCHANGE = Some ''topic''"
    "exchanges s DLX_EXCHANGE = None \<or> exchanges s DLX_EXCHANGE = Some ''fanout''"
  shows "\<exists>s1 s2. bindE (resetQueues ch) (\<lambda>_. assertTopology ch) s = (Inr (), s1) \<and> ready s1
    \<and> queues s1 ORDER_PLACED_QUEUE = Some (work_args, 0) \<and> queues s1 ORDER_PLACED_DLQ = Some (dlq_args, 0)
    \<and> (\<forall>x k. ORDER_PLACED_QUEUE \<in> routed (exchanges s1) (bindings s1) x k \<longleftrightarrow> x = EVENTS_EXCHANGE \<and> k = ORDER_PLACED_KEY)
    \<and> (\<forall>x k. ORDER_PLACED_DLQ \<in> routed (exchanges s1) (bindings s1) x k \<longleftrightarrow> Some x = qa_deadLetterExchange work_args)
    \<and> assertTopology ch s1 = (Inr (), s2) \<and> ready s2 \<and> exchanges s2 = exchanges s1 \<and> queues s2 = queues s1
    \<and> bindings s2 = bindings s1"
proof -
  note run = topology_laws.assertTopology_run [OF laws]
  obtain s0 where 0: "resetQueues ch s = (Inr (), s0)" "ready s0" "exchanges s0 = exchanges s"
    "queues s0 = (queues s)(ORDER_PLACED_QUEUE := None, ORDER_PLACED_DLQ := None)"
    "bindings s0 = {b \<in> bindings s. snd (snd b) \<noteq> ORDER_PLACED_QUEUE \<and> snd (snd b) \<noteq> ORDER_PLACED_DLQ}"
    by (rule topology_laws.resetQueues_run [OF laws s(1)])
  have none: "queues s0 ORDER_PLACED_QUEUE = None" "queues s0 ORDER_PLACED_DLQ = None" using 0(4) by simp_all
  obtain s1 where 1: "assertTopology ch s0 = (Inr (), s1)" "ready s1"
    "exchanges s1 = (exchanges s0)(EVENTS_EXCHANGE \<mapsto> ''topic'', DLX_EXCHANGE \<mapsto> ''fanout'')"
    "queues s1 = (queues s0)(ORDER_PLACED_DLQ \<mapsto> (dlq_args, 0), ORDER_PLACED_QUEUE \<mapsto> (work_args, 0))"
    "bindings s1 = insert (EVENTS_EXCHANGE, ORDER_PLACED_KEY, ORDER_PLACED_QUEUE)
       (insert (DLX_EXCHANGE, [], ORDER_PLACED_DLQ) (bindings s0))"
    by (rule run [of s0 0 0]) (use 0 s none in auto)
  have x: "exchanges s1 EVENTS_EXCHANGE = Some ''topic''" "exchanges s1 DLX_EXCHANGE = Some ''fanout''" using 1(3) by auto
  have q: "queues s1 ORDER_PLACED_QUEUE = Some (work_args, 0)" "queues s1 ORDER_PLACED_DLQ = Some (dlq_args, 0)"
    using 1(4) by auto
  obtain s2 where 2: "assertTopology ch s1 = (Inr (), s2)" "ready s2"
    "exchanges s2 = (exchanges s1)(EVENTS_EXCHANGE \<mapsto> ''topic'', DLX_EXCHANGE \<mapsto> ''fanout'')"
    "queues s2 = (queues s1)(ORDER_PLACED_DLQ \<mapsto> (dlq_args, 0), ORDER_PLACED_QUEUE \<mapsto> (work_args, 0))"
    "bindings s2 = insert (EVENTS_EXCHANGE, ORDER_PLACED_KEY, ORDER_PLACED_QUEUE)
       (insert (DLX_EXCHANGE, [], ORDER_PLACED_DLQ) (bindings s1))"
    by (rule run [of s1 0 0]) (use 1(2) x q in auto)
  have same: "exchanges s2 = exchanges s1" "queues s2 = queues s1" "bindings s2 = bindings s1"
    by (simp_all add: 2(3-5) fun_upd_idem x q) (simp add: 1(5) insert_commute)
  have b: "(x, k, ORDER_PLACED_QUEUE) \<in> bindings s1 \<longleftrightarrow> x = EVENTS_EXCHANGE \<and> k = ORDER_PLACED_KEY"
    "(x, k, ORDER_PLACED_DLQ) \<in> bindings s1 \<longleftrightarrow> x = DLX_EXCHANGE \<and> k = []" for x k
    using 0(5) 1(5) by auto
  have "ORDER_PLACED_QUEUE \<in> routed (exchanges s1) (bindings s1) x k \<longleftrightarrow> x = EVENTS_EXCHANGE \<and> k = ORDER_PLACED_KEY" for x k
    using \<open>exchanges s1 EVENTS_EXCHANGE = _\<close> by (auto simp: routed_def b binding_matches_def order_key_match words_of_inject)
  moreover have "ORDER_PLACED_DLQ \<in> routed (exchanges s1) (bindings s1) x k \<longleftrightarrow> Some x = qa_deadLetterExchange work_args" for x k
    by (cases "x = DLX_EXCHANGE") (simp_all add: routed_def b binding_matches_def work_args_def \<open>exchanges s1 DLX_EXCHANGE = _\<close>)
  moreover have "bindE (resetQueues ch) (\<lambda>_. assertTopology ch) s = (Inr (), s1)" by (simp add: bindE_def 0(1) 1(1))
  ultimately show ?thesis using 1(2) 2(1,2) same q by blast
qed

text \<open>A broker on which the work queue was declared without a dead-letter exchange and holds a message.\<close>

definition old_vhost :: vhost where
  "old_vhost = \<lparr>vh_open = True, vh_exchanges = [(EVENTS_EXCHANGE, ''topic'')],
     vh_queues = [(ORDER_PLACED_QUEUE, \<lparr>qa_durable = True, qa_type = None, qa_deadLetterExchange = None\<rparr>,
       [\<lparr>bm_exchange = EVENTS_EXCHANGE, bm_key = ''order.paid'', bm_body = JsNull, bm_messageId = []\<rparr>])],
     vh_bindings = [(EVENTS_EXCHANGE, ''order.*'', ORDER_PLACED_QUEUE)], vh_prefetch = 0\<rparr>"

theorem assertTopology_routes_witness:
  "isl (fst (assertTopology vhost_ops old_vhost)) \<and>
   (\<exists>v. bindE (resetQueues vhost_ops) (\<lambda>_. assertTopology vhost_ops) old_vhost = (Inr (), v)
     \<and> vh_depths v ORDER_PLACED_QUEUE = Some (work_args, 0)
     \<and> (\<forall>x k. ORDER_PLACED_QUEUE \<in> routed (map_of (vh_exchanges v)) (set (vh_bindings v)) x k
          \<longleftrightarrow> x = EVENTS_EXCHANGE \<and> k = ORDER_PLACED_KEY))"
proof
  show "isl (fst (assertTopology vhost_ops old_vhost))" by code_simp
  have "vh_open old_vhost" "map_of (vh_exchanges old_vhost) EVENTS_EXCHANGE = Some ''topic''"
    "map_of (vh_exchanges old_vhost) DLX_EXCHANGE = None"
    by (simp_all add: old_vhost_def EVENTS_EXCHANGE_def DLX_EXCHANGE_def)
  then show "\<exists>v. bindE (resetQueues vhost_ops) (\<lambda>_. assertTopology vhost_ops) old_vhost = (Inr (), v)
     \<and> vh_depths v ORDER_PLACED_QUEUE = Some (work_args, 0)
     \<and> (\<forall>x k. ORDER_PLACED_QUEUE \<in> routed (map_of (vh_exchanges v)) (set (vh_bindings v)) x k
          \<longleftrightarrow> x = EVENTS_EXCHANGE \<and> k = ORDER_PLACED_KEY)"
    using assertTopology_routes [OF vhost.topology_laws_axioms, of old_vhost] by blast
qed

end
