(* ===== verification/OutboxDemo.thy ===== *)
theory OutboxDemo
  imports Pipeline Topology CheckoutRace SeedFirst
begin

text \<open>
  The programs that show the outbox at work: \<open>src/demo/outbox-demo-kit.ts\<close>, which prepares a buyer, a
  product and empty telemetry tables, and \<open>demo-crash-write.ts\<close>, \<open>demo-outbox.ts\<close> and \<open>demo-crash-relay.ts\<close>,
  which run the checkout, the relay and the consumer on them. They run on the state of the pipeline: the
  database, the counter of the effect store and the broker. While a program sleeps, its consumer takes
  turns; how many, is an argument.
\<close>

section \<open>The kit\<close>

definition BUYER_EMAIL :: string where "BUYER_EMAIL = ''outbox-demo-buyer@shop.local''"
definition SELLER_EMAIL :: string where "SELLER_EMAIL = ''outbox-demo-seller@shop.local''"
definition PRODUCT_NAME :: string where "PRODUCT_NAME = ''Outbox Demo Item''"

record outbox_demo_counts =
  dc_orders :: int
  dc_outbox :: int
  dc_published :: int
  dc_deliveries :: int
  dc_effect :: int
  dc_processed :: int
  dc_applied :: int

definition worldP :: "(world, thrown, 'a) exec \<Rightarrow> (pipeline, thrown, 'a) exec" where
  "worldP m p = (case m (pp_world p) of (r, w) \<Rightarrow> (r, p\<lparr>pp_world := w\<rparr>))"

definition brokerP :: "(amqp, thrown, 'a) exec \<Rightarrow> (pipeline, thrown, 'a) exec" where
  "brokerP m p = (case m (pp_broker p) of (r, b) \<Rightarrow> (r, p\<lparr>pp_broker := b\<rparr>))"

text \<open>\<open>INSERT INTO users \<dots> ON CONFLICT (email) DO UPDATE \<dots> RETURNING id\<close>.\<close>

definition sql_demo_user ::
  "string \<Rightarrow> string \<Rightarrow> user_role \<Rightarrow> int \<Rightarrow> (user_row \<Rightarrow> user_row) \<Rightarrow> db \<Rightarrow> (thrown + int list) \<times> db" where
  "sql_demo_user email fullName role cents upd d =
     (let us = upsert (\<lambda>u. u_email u = email) upd
        \<lparr>u_id = users_seq d, u_email = email, u_full_name = fullName, u_role = role, u_is_active = True,
         u_balance_cents = cents\<rparr> (users d)
      in (Inr (map u_id (filter (\<lambda>u. u_email u = email) us)), d\<lparr>users_seq := users_seq d + 1, users := us\<rparr>))"

definition sql_demo_seller :: "db \<Rightarrow> (thrown + int list) \<times> db" where
  "sql_demo_seller = sql_demo_user SELLER_EMAIL ''Outbox Demo Seller'' Seller 0 (\<lambda>u. u\<lparr>u_is_active := True\<rparr>)"

definition sql_demo_buyer :: "db \<Rightarrow> (thrown + int list) \<times> db" where
  "sql_demo_buyer = sql_demo_user BUYER_EMAIL ''Outbox Demo Buyer'' Buyer 100000000
     (\<lambda>u. u\<lparr>u_balance_cents := 100000000, u_is_active := True\<rparr>)"

definition order_ids_of :: "int \<Rightarrow> db \<Rightarrow> int list" where
  "order_ids_of i d = map o_id (filter (\<lambda>r. o_user_id r = i) (orders d))"

definition sql_delete_jobs_of :: "string \<Rightarrow> db \<Rightarrow> (thrown + unit) \<times> db" where
  "sql_delete_jobs_of userId d =
     (case pg_bigint userId of
        Inl e \<Rightarrow> (Inl e, d)
      | Inr i \<Rightarrow> (Inr (), d\<lparr>jobs := filter (\<lambda>j.
          case json_text (j_payload j) ''orderId'' of None \<Rightarrow> True | Some t \<Rightarrow> t \<notin> set (map show_int (order_ids_of i d))) (jobs d)\<rparr>))"

definition sql_delete_outbox_of :: "string \<Rightarrow> db \<Rightarrow> (thrown + unit) \<times> db" where
  "sql_delete_outbox_of userId d =
     (Inr (), d\<lparr>outbox := filter (\<lambda>x. json_text (x_payload x) ''userId'' \<noteq> Some userId) (outbox d)\<rparr>)"

text \<open>The lines and the intent keys of a deleted order go with it.\<close>

definition sql_delete_orders_of :: "string \<Rightarrow> db \<Rightarrow> (thrown + unit) \<times> db" where
  "sql_delete_orders_of userId d =
     (case pg_bigint userId of
        Inl e \<Rightarrow> (Inl e, d)
      | Inr i \<Rightarrow> (Inr (), d\<lparr>orders := filter (\<lambda>r. o_user_id r \<noteq> i) (orders d),
          order_items := filter (\<lambda>l. i_order_id l \<notin> set (order_ids_of i d)) (order_items d),
          idempotency_keys := filter (\<lambda>k. k_order_id k \<notin> set (order_ids_of i d)) (idempotency_keys d)\<rparr>))"

definition sql_demo_product :: "string \<Rightarrow> db \<Rightarrow> (thrown + int list) \<times> db" where
  "sql_demo_product sellerId d =
     (case pg_bigint sellerId of
        Inl e \<Rightarrow> (Inl e, d)
      | Inr i \<Rightarrow>
          if i \<notin> u_id ` set (users d) then (Inl fk_violation, d)
          else let ps = upsert (\<lambda>p. p_name p = PRODUCT_NAME)
                 (\<lambda>p. p\<lparr>p_stock := 1000, p_is_active := True, p_price_cents := 1000\<rparr>)
                 \<lparr>p_id = products_seq d, p_name = PRODUCT_NAME, p_description = [], p_price_cents = 1000,
                  p_stock = 1000, p_is_active = True, p_seller_id = i, p_category_id = None\<rparr> (products d)
               in (Inr (map p_id (filter (\<lambda>p. p_name p = PRODUCT_NAME) ps)),
                   d\<lparr>products_seq := products_seq d + 1, products := ps\<rparr>))"

text \<open>\<open>String(rows[0].id)\<close>.\<close>

definition first_id :: "int list \<Rightarrow> (world, thrown, string) exec" where
  "first_id rows = (case rows of [] \<Rightarrow> throwE (PlainError ''Cannot read properties of undefined (reading 'id')'')
     | i # _ \<Rightarrow> returnE (show_int i))"

definition demo_rows :: "(world, thrown, string \<times> string) exec" where
  "demo_rows =
     bindE (query sql_demo_seller) (\<lambda>sellerRows.
     bindE (query sql_demo_buyer) (\<lambda>buyerRows.
     bindE (first_id buyerRows) (\<lambda>userId.
     bindE (first_id sellerRows) (\<lambda>sellerId.
     bindE (query (sql_delete_jobs_of userId)) (\<lambda>_.
     bindE (query (sql_delete_outbox_of userId)) (\<lambda>_.
     bindE (query (sql_delete_orders_of userId)) (\<lambda>_.
     bindE (query (sql_demo_product sellerId)) (\<lambda>productRows.
     bindE (query sql_truncate_effects) (\<lambda>_.
     bindE (first_id productRows) (\<lambda>productId.
     returnE (userId, productId)))))))))))"

text \<open>The effect store of a demo is a new object; its counter starts at zero.\<close>

definition prepareOutboxDemo :: "(pipeline, thrown, string \<times> string) exec" where
  "prepareOutboxDemo = bindE (worldP demo_rows) (\<lambda>ids p. (Inr ids, p\<lparr>pp_applies := 0, pp_rejected := 0\<rparr>))"

definition sql_orders_of :: "string \<Rightarrow> db \<Rightarrow> (thrown + int) \<times> db" where
  "sql_orders_of userId d =
     (case pg_bigint userId of Inl e \<Rightarrow> (Inl e, d) | Inr i \<Rightarrow> (Inr (int (length (order_ids_of i d))), d))"

definition user_outbox :: "string \<Rightarrow> db \<Rightarrow> outbox_row list" where
  "user_outbox userId d = filter (\<lambda>x. json_text (x_payload x) ''userId'' = Some userId) (outbox d)"

definition demo_counts :: "string \<Rightarrow> (pipeline, thrown, outbox_demo_counts) exec" where
  "demo_counts userId =
     bindE (worldP (query (sql_orders_of userId))) (\<lambda>os.
     bindE (worldP (query (sql_count (user_outbox userId)))) (\<lambda>xs.
     bindE (worldP (query (sql_count (\<lambda>d. filter (\<lambda>x. x_published_at x \<noteq> None) (user_outbox userId d))))) (\<lambda>published.
     bindE (worldP (query (sql_count order_placed_deliveries))) (\<lambda>deliveries.
     bindE (worldP (query (sql_count order_placed_effects))) (\<lambda>effect.
     bindE (worldP (query (sql_count processed_messages))) (\<lambda>processed p.
     (Inr \<lparr>dc_orders = os, dc_outbox = xs, dc_published = published, dc_deliveries = deliveries, dc_effect = effect,
        dc_processed = processed, dc_applied = pp_applies p\<rparr>, p)))))))"

section \<open>The broker of the demos\<close>

text \<open>The topology calls on the broker of the pipeline, on which the topology of the source is fixed.\<close>

definition amqp_topology :: "amqp topology_ops" where
  "amqp_topology = \<lparr>createChannel_op = \<lambda>b. (Inr (), b), cancel_op = \<lambda>b. (Inr (), b), assertExchange_op = \<lambda>_ _ b. (Inr (), b),
     assertQueue_op = \<lambda>_ _ b. (Inr (), b), bindQueue_op = \<lambda>_ _ _ b. (Inr (), b), prefetch_op = \<lambda>_ b. (Inr (), b),
     deleteQueue_op = \<lambda>q b. (Inr (), if q = ORDER_PLACED_QUEUE then b\<lparr>am_work := [], am_unacked := []\<rparr>
       else if q = ORDER_PLACED_DLQ then b\<lparr>am_dlq := []\<rparr> else b),
     checkQueue_op = \<lambda>q b. if q = ORDER_PLACED_QUEUE then (Inr (length (am_work b)), b)
       else if q = ORDER_PLACED_DLQ then (Inr (length (am_dlq b)), b) else (Inl (PlainError ''NOT_FOUND''), b)\<rparr>"

definition prepareBroker ::
  "'b broker_ops \<Rightarrow> 'b topology_ops \<Rightarrow> string option \<Rightarrow> ('b, thrown, unit) exec" where
  "prepareBroker ops ch env_url =
     bindE (liftE (requireBrokerUrl env_url)) (\<lambda>_.
     bindE (connect_op ops) (\<lambda>_.
     bindE (createChannel_op ch) (\<lambda>_.
     bindE (resetQueues ch) (\<lambda>_.
     assertTopology ch))))"

definition queueDepth :: "'b topology_ops \<Rightarrow> string \<Rightarrow> ('b, thrown, nat) exec" where
  "queueDepth ch q = checkQueue_op ch q"

definition relayP ::
  "(string \<Rightarrow> thrown + json) \<Rightarrow> string option \<Rightarrow> relay_env \<Rightarrow> relay_options \<Rightarrow> (pipeline, thrown, int) exec" where
  "relayP jp url env opts p =
     (case publishPending amqp_ops jp url env opts \<lparr>rl_world = pp_world p, rl_broker = pp_broker p, rl_failed = None\<rparr> of
        (r, s) \<Rightarrow> (r, p\<lparr>pp_world := rl_world s, pp_broker := rl_broker s\<rparr>))"

definition user_relay :: "bool \<Rightarrow> string \<Rightarrow> relay_options" where
  "user_relay crash userId = \<lparr>ro_limit = None, ro_crashAfterPublish = crash, ro_userId = Some userId\<rparr>"

section \<open>demo-crash-write\<close>

definition closing :: "(pipeline, thrown, unit) exec" where
  "closing = bindE (brokerP (closeChannel_op amqp_ops)) (\<lambda>_. brokerP (closeConnection_op amqp_ops))"

definition demo_item :: "string \<Rightarrow> string \<Rightarrow> string option \<Rightarrow> bool \<Rightarrow> checkout_input" where
  "demo_item userId productId key fails = \<lparr>ci_userId = userId,
     ci_items = [\<lparr>ci_productId = productId, ci_quantity = Whole 1\<rparr>],
     ci_idempotencyKey = key, ci_requestHash = None, ci_failAfterOutbox = fails\<rparr>"

definition demo_crash_write ::
  "(nat \<Rightarrow> string) \<Rightarrow> (nat \<Rightarrow> string) \<Rightarrow> (string \<Rightarrow> thrown + json) \<Rightarrow> string option \<Rightarrow> relay_env
    \<Rightarrow> (pipeline, thrown, outbox_demo_counts \<times> nat) exec" where
  "demo_crash_write uuid toISO jp url env =
     bindE prepareOutboxDemo (\<lambda>(userId, productId).
     bindE (brokerP (prepareBroker amqp_ops amqp_topology url)) (\<lambda>_.
     finallyE
       (bindE (catchE (bindE (worldP (checkout uuid toISO (demo_item userId productId None True))) (\<lambda>_. returnE 0))
           (\<lambda>err. if err \<noteq> OutboxWriteAbortedError then throwE err else returnE 1)) (\<lambda>writeFailed.
        bindE (brokerP (queueDepth amqp_topology ORDER_PLACED_QUEUE)) (\<lambda>before.
        bindE (relayP jp url env (user_relay False userId)) (\<lambda>_.
        bindE (brokerP (queueDepth amqp_topology ORDER_PLACED_QUEUE)) (\<lambda>after.
        bindE (demo_counts userId) (\<lambda>c.
        returnE (c, if writeFailed = (1 :: nat) \<and> dc_orders c = 0 \<and> dc_outbox c = 0 \<and> dc_published c = 0
          \<and> dc_deliveries c = 0 \<and> dc_effect c = 0 \<and> before = 0 \<and> after = 0 then 0 else 1)))))))
       closing))"

section \<open>demo-outbox and demo-crash-relay\<close>

text \<open>The consumer takes the next message of the work queue, if there is one.\<close>

definition consumer_turn :: "(string \<Rightarrow> thrown + string) \<Rightarrow> pipeline \<Rightarrow> pipeline" where
  "consumer_turn ts p =
     (case am_work (pp_broker p) of
        [] \<Rightarrow> p
      | m # rest \<Rightarrow>
          (case handle_message ts amqp_channel False
              (Some \<lparr>cm_tag = am_tag (pp_broker p), cm_content = Some (bm_body m)\<rparr>)
              \<lparr>cs_store = \<lparr>st_world = pp_world p, st_successfulApplies = pp_applies p\<rparr>,
               cs_channel = amqp_deliver m rest (pp_broker p), cs_rejected = pp_rejected p, cs_killed = False\<rparr> of
             (_, s) \<Rightarrow> p\<lparr>pp_world := st_world (cs_store s), pp_applies := st_successfulApplies (cs_store s),
               pp_rejected := cs_rejected s, pp_broker := cs_channel s\<rparr>))"

definition turns :: "(string \<Rightarrow> thrown + string) \<Rightarrow> nat \<Rightarrow> (pipeline, thrown, unit) exec" where
  "turns ts n p = (Inr (), (consumer_turn ts ^^ n) p)"

text \<open>
  \<open>waitUntil\<close> of \<open>demo-messaging-shared.ts\<close>: one list element per poll before the deadline, the computation
  of the others while the program sleeps after it.
\<close>

fun waitUntil :: "('s, thrown, bool) exec \<Rightarrow> string \<Rightarrow> ('s, thrown, unit) exec list \<Rightarrow> ('s, thrown, unit) exec" where
  "waitUntil predicate label [] = throwE (PlainError (''Timeout waiting for '' @ label))"
| "waitUntil predicate label (sleep # sleeps) =
     bindE predicate (\<lambda>ok. if ok then returnE () else bindE sleep (\<lambda>_. waitUntil predicate label sleeps))"

definition stopConsumer :: "'b broker_ops \<Rightarrow> 'b topology_ops \<Rightarrow> ('b, thrown, unit) exec" where
  "stopConsumer ops ch =
     bindE (catchE (cancel_op ch) (\<lambda>_. returnE ())) (\<lambda>_.
     bindE (catchE (closeChannel_op ops) (\<lambda>_. returnE ())) (\<lambda>_.
     catchE (closeConnection_op ops) (\<lambda>_. returnE ())))"

definition demo_outbox ::
  "(nat \<Rightarrow> string) \<Rightarrow> (nat \<Rightarrow> string) \<Rightarrow> (string \<Rightarrow> thrown + string) \<Rightarrow> (string \<Rightarrow> thrown + json) \<Rightarrow> string option
    \<Rightarrow> relay_env \<Rightarrow> nat list \<Rightarrow> (pipeline, thrown, outbox_demo_counts \<times> nat) exec" where
  "demo_outbox uuid toISO ts jp url env sleeps =
     bindE prepareOutboxDemo (\<lambda>(userId, productId).
     bindE (brokerP (prepareBroker amqp_ops amqp_topology url)) (\<lambda>_.
     let input = demo_item userId productId (Some ''hw22-demo-outbox'') False in
     finallyE
       (bindE (worldP (checkout uuid toISO input)) (\<lambda>_.
        bindE (worldP (checkout uuid toISO input)) (\<lambda>_.
        bindE (relayP jp url env (user_relay False userId)) (\<lambda>_.
        bindE (waitUntil (bindE (demo_counts userId) (\<lambda>c.
            returnE (dc_published c = 1 \<and> dc_deliveries c = 1 \<and> dc_effect c = 1 \<and> dc_processed c = 1)))
          ''outbox happy path'' (map (turns ts) sleeps)) (\<lambda>_.
        bindE (demo_counts userId) (\<lambda>c.
        returnE (c, if dc_orders c = 1 \<and> dc_outbox c = 1 \<and> dc_published c = 1 \<and> dc_deliveries c = 1
          \<and> dc_effect c = 1 \<and> dc_processed c = 1 then 0 else 1)))))))
       (brokerP (stopConsumer amqp_ops amqp_topology))))"

definition demo_crash_relay ::
  "(nat \<Rightarrow> string) \<Rightarrow> (nat \<Rightarrow> string) \<Rightarrow> (string \<Rightarrow> thrown + string) \<Rightarrow> (string \<Rightarrow> thrown + json) \<Rightarrow> string option
    \<Rightarrow> relay_env \<Rightarrow> nat \<Rightarrow> nat list \<Rightarrow> (pipeline, thrown, outbox_demo_counts \<times> nat) exec" where
  "demo_crash_relay uuid toISO ts jp url env between sleeps =
     bindE prepareOutboxDemo (\<lambda>(userId, productId).
     bindE (brokerP (prepareBroker amqp_ops amqp_topology url)) (\<lambda>_.
     finallyE
       (bindE (worldP (checkout uuid toISO (demo_item userId productId None False))) (\<lambda>_.
        bindE (catchE
            (bindE (relayP jp url env (user_relay True userId)) (\<lambda>_.
              throwE (PlainError ''expected relay to crash after publish'')))
            (\<lambda>err. if err \<noteq> RelayCrashedError then throwE err else returnE ())) (\<lambda>_.
        bindE (turns ts between) (\<lambda>_.
        bindE (relayP jp url env (user_relay False userId)) (\<lambda>_.
        bindE (waitUntil (bindE (demo_counts userId) (\<lambda>c.
            returnE (2 \<le> dc_deliveries c \<and> dc_applied c = 1 \<and> dc_effect c = 1 \<and> dc_processed c = 1)))
          ''duplicate delivery collapsed to one effect'' (map (turns ts) sleeps)) (\<lambda>_.
        bindE (demo_counts userId) (\<lambda>c.
        returnE (c, if dc_published c = 1 \<and> 2 \<le> dc_deliveries c \<and> dc_applied c = 1 \<and> dc_effect c = 1
          \<and> dc_processed c = 1 then 0 else 1))))))))
       (brokerP (stopConsumer amqp_ops amqp_topology))))"

end
