(* ===== verification/OutboxDemoPrep.thy ===== *)
theory OutboxDemoPrep
  imports OutboxDemo
begin

text \<open>
  What \<open>prepareOutboxDemo\<close> leaves: a buyer who can pay, a product in stock, no order, event or intent key of
  the buyer, and empty telemetry tables.
\<close>

section \<open>Identifiers that fit\<close>

text \<open>The sequences last for \<open>n\<close> more users, one product and one order; every id is a \<open>bigint\<close>.\<close>

definition room :: "nat \<Rightarrow> db \<Rightarrow> bool" where
  "room n d \<longleftrightarrow> db_ok d \<and> (\<forall>u \<in> set (users d). fits_int8 (u_id u)) \<and> (\<forall>p \<in> set (products d). fits_int8 (p_id p))
     \<and> - int8_max - 1 \<le> users_seq d \<and> users_seq d + int n \<le> int8_max + 1
     \<and> fits_int8 (products_seq d) \<and> fits_int8 (orders_seq d)"

text \<open>An intent key belongs to the buyer of its order.\<close>

definition keys_owned :: "db \<Rightarrow> bool" where
  "keys_owned d \<longleftrightarrow> (\<forall>k \<in> set (idempotency_keys d). \<exists>r \<in> set (orders d). o_id r = k_order_id k \<and> o_user_id r = k_user_id k)"

section \<open>The statements of the kit\<close>

lemma users_upsert_ok:
  assumes ok: "db_ok d" and upd: "\<And>u. u_id (upd u) = u_id u" "\<And>u. u_email (upd u) = u_email u"
      "\<And>u. 0 \<le> u_balance_cents u \<and> u_balance_cents u \<le> int4_max \<Longrightarrow> 0 \<le> u_balance_cents (upd u) \<and> u_balance_cents (upd u) \<le> int4_max"
    and new: "u_id v = users_seq d" "email_ok (u_email v)" "0 \<le> u_balance_cents v" "u_balance_cents v \<le> int4_max"
  shows "db_ok (d\<lparr>users_seq := users_seq d + 1, users := upsert (\<lambda>u. u_email u = u_email v) upd v (users d)\<rparr>)"
proof -
  let ?us = "upsert (\<lambda>u. u_email u = u_email v) upd v (users d)"
  have us: "users_ok d" using ok by (simp add: db_ok_def)
  have "distinct (map u_id ?us)" "distinct (map u_email ?us)"
    by (rule distinct_upsert; use us upd new in \<open>auto simp: users_ok_def\<close>)+
  moreover have "\<forall>u \<in> set ?us. 0 \<le> u_balance_cents u \<and> u_balance_cents u \<le> int4_max \<and> email_ok (u_email u) \<and> u_id u < users_seq d + 1"
    by (rule upsert_ball) (use us upd new in \<open>auto simp: users_ok_def less_imp_le\<close>)
  moreover have "u_id ` set (users d) \<subseteq> u_id ` set ?us" by (simp add: set_upsert_keys upd)
  ultimately show ?thesis using ok unfolding schema_defs by auto
qed

lemma demo_user_run:
  assumes d: "room (Suc n) d" and email: "email_ok email" and cents: "0 \<le> cents" "cents \<le> int4_max"
    and upd: "\<And>u. u_id (upd u) = u_id u" "\<And>u. u_email (upd u) = u_email u"
      "\<And>u. 0 \<le> u_balance_cents u \<and> u_balance_cents u \<le> int4_max \<Longrightarrow> 0 \<le> u_balance_cents (upd u) \<and> u_balance_cents (upd u) \<le> int4_max"
    and P: "\<And>u. P (upd u)" "\<And>i. P \<lparr>u_id = i, u_email = email, u_full_name = nm, u_role = rl, u_is_active = True, u_balance_cents = cents\<rparr>"
  shows "\<exists>i us. sql_demo_user email nm rl cents upd d = (Inr [i], d\<lparr>users_seq := users_seq d + 1, users := us\<rparr>)
    \<and> room n (d\<lparr>users_seq := users_seq d + 1, users := us\<rparr>) \<and> (\<exists>u \<in> set us. u_id u = i \<and> P u) \<and> u_id ` set (users d) \<subseteq> u_id ` set us"
proof -
  let ?v = "\<lparr>u_id = users_seq d, u_email = email, u_full_name = nm, u_role = rl, u_is_active = True, u_balance_cents = cents\<rparr>"
  let ?us = "upsert (\<lambda>u. u_email u = email) upd ?v (users d)"
  let ?d = "d\<lparr>users_seq := users_seq d + 1, users := ?us\<rparr>"
  have ok: "db_ok d" using d by (simp add: room_def)
  have ok': "db_ok ?d" using users_upsert_ok [OF ok upd, of ?v] email cents by simp
  have "\<exists>u \<in> set ?us. u_email u = email \<and> P u"
    by (rule upsert_hit) (use upd P in auto)
  then obtain u where u: "u \<in> set ?us" "u_email u = email" "P u" by blast
  have "distinct (map u_email ?us)" using ok' by (simp add: schema_defs)
  then have "filter (\<lambda>u. u_email u = email) ?us = [u]" using filter_key_unique [of u_email ?us u] u by simp
  then have "sql_demo_user email nm rl cents upd d = (Inr [u_id u], ?d)" by (simp add: sql_demo_user_def)
  moreover have "\<forall>u \<in> set ?us. fits_int8 (u_id u)"
    by (rule upsert_ball) (use d upd in \<open>auto simp: room_def fits_int8_def\<close>)
  then have "room n ?d" using d ok' by (simp add: room_def)
  moreover have "u_id ` set (users d) \<subseteq> u_id ` set ?us" by (simp add: set_upsert_keys upd)
  ultimately show ?thesis using u by blast
qed

lemma delete_jobs_ok: "db_ok d \<Longrightarrow> db_ok (d\<lparr>jobs := filter P (jobs d)\<rparr>)"
  unfolding schema_defs by (auto simp: distinct_map_filter)

lemma delete_outbox_ok: "db_ok d \<Longrightarrow> db_ok (d\<lparr>outbox := filter P (outbox d)\<rparr>)"
  unfolding schema_defs by (auto simp: distinct_map_filter)

lemma order_ids_of_mem: "j \<in> set (order_ids_of i d) \<longleftrightarrow> (\<exists>r \<in> set (orders d). o_id r = j \<and> o_user_id r = i)"
  by (auto simp: order_ids_of_def)

lemma delete_orders_ok:
  assumes ok: "db_ok d"
  shows "db_ok (d\<lparr>orders := filter (\<lambda>r. o_user_id r \<noteq> i) (orders d),
      order_items := filter (\<lambda>l. i_order_id l \<notin> set (order_ids_of i d)) (order_items d),
      idempotency_keys := filter (\<lambda>k. k_order_id k \<notin> set (order_ids_of i d)) (idempotency_keys d)\<rparr>)"
proof -
  have "j \<in> o_id ` set (filter (\<lambda>r. o_user_id r \<noteq> i) (orders d))"
    if "j \<in> o_id ` set (orders d)" "j \<notin> set (order_ids_of i d)" for j
    using that by (auto simp: order_ids_of_mem)
  then show ?thesis using ok unfolding schema_defs by (auto simp: distinct_map_filter)
qed

lemma truncate_ok: "db_ok d \<Longrightarrow> db_ok (snd (sql_truncate_effects d))"
  unfolding schema_defs by (auto simp: sql_truncate_effects_def)

lemma demo_product_run:
  assumes d: "room n d" and s: "s \<in> u_id ` set (users d)" "fits_int8 s"
  shows "\<exists>i ps. sql_demo_product (show_int s) d = (Inr [i], d\<lparr>products_seq := products_seq d + 1, products := ps\<rparr>)
    \<and> db_ok (d\<lparr>products_seq := products_seq d + 1, products := ps\<rparr>) \<and> fits_int8 i
    \<and> (\<exists>p \<in> set ps. p_id p = i \<and> p_is_active p \<and> p_stock p = 1000 \<and> p_price_cents p = 1000)"
proof -
  let ?new = "\<lparr>p_id = products_seq d, p_name = PRODUCT_NAME, p_description = [], p_price_cents = 1000,
     p_stock = 1000, p_is_active = True, p_seller_id = s, p_category_id = None\<rparr>"
  let ?upd = "\<lambda>p. p\<lparr>p_stock := 1000, p_is_active := True, p_price_cents := 1000\<rparr>"
  let ?ps = "upsert (\<lambda>p. p_name p = PRODUCT_NAME) ?upd ?new (products d)"
  let ?d = "d\<lparr>products_seq := products_seq d + 1, products := ?ps\<rparr>"
  have ok: "db_ok d" and p: "products_ok d" using d by (auto simp: room_def db_ok_def)
  have dist: "distinct (map p_id ?ps)" "distinct (map p_name ?ps)"
    by (rule distinct_upsert; use p in \<open>auto simp: products_ok_def\<close>)+
  moreover have "\<forall>q \<in> set ?ps. 0 \<le> p_stock q \<and> p_stock q \<le> int4_max \<and> 0 < p_price_cents q \<and> p_price_cents q \<le> int4_max
      \<and> name_ok (p_name q) \<and> p_id q < products_seq d + 1 \<and> p_seller_id q \<in> u_id ` set (users d)
      \<and> set_option (p_category_id q) \<subseteq> g_id ` set (categories d)"
    by (rule upsert_ball) (use p s in \<open>auto simp: products_ok_def less_imp_le int4_max_def PRODUCT_NAME_def name_ok_def\<close>)
  moreover have "p_id ` set (products d) \<subseteq> p_id ` set ?ps" by (simp add: set_upsert_keys)
  ultimately have ok': "db_ok ?d" using ok unfolding schema_defs by auto
  have fits: "\<forall>q \<in> set ?ps. fits_int8 (p_id q)"
    by (rule upsert_ball) (use d in \<open>auto simp: room_def\<close>)
  have "\<exists>q \<in> set ?ps. p_name q = PRODUCT_NAME \<and> p_is_active q \<and> p_stock q = 1000 \<and> p_price_cents q = 1000"
    by (rule upsert_hit) auto
  then obtain q where q: "q \<in> set ?ps" "p_name q = PRODUCT_NAME" "p_is_active q" "p_stock q = 1000" "p_price_cents q = 1000" by blast
  have "filter (\<lambda>p. p_name p = PRODUCT_NAME) ?ps = [q]" using filter_key_unique [OF dist(2) q(1)] q(2) by simp
  then have "sql_demo_product (show_int s) d = (Inr [p_id q], ?d)" using s by (simp add: sql_demo_product_def Let_def)
  then show ?thesis using ok' fits q by blast
qed

section \<open>The prepared database\<close>

definition demo_ready :: "int \<Rightarrow> int \<Rightarrow> db \<Rightarrow> bool" where
  "demo_ready uid pid d \<longleftrightarrow> racing pid 1000 {uid} 1000 1 d \<and> order_ids_of uid d = [] \<and> user_outbox (show_int uid) d = []
     \<and> (\<forall>k \<in> set (idempotency_keys d). k_user_id k \<noteq> uid)
     \<and> order_placed_deliveries d = [] \<and> order_placed_effects d = [] \<and> processed_messages d = []"

lemma keys_owned_free:
  assumes "keys_owned d"
  shows "\<forall>k \<in> set (filter (\<lambda>k. k_order_id k \<notin> set (order_ids_of i d)) (idempotency_keys d)). k_user_id k \<noteq> i"
  using assms by (fastforce simp: keys_owned_def order_ids_of_mem)

lemma runs_first_id:
  assumes "\<And>d. P d \<Longrightarrow> \<exists>i. rs = [i] \<and> Q (show_int i) d"
  shows "runs P (first_id rs) Q"
proof (rule runs_fact)
  assume "\<exists>i. rs = [i]"
  then obtain i where "rs = [i]" by blast
  then show ?thesis unfolding first_id_def using assms by (auto intro!: runs_returnE)
qed (use assms in blast)

text \<open>The database between the statements of the kit, for the seller \<open>s\<close> and the buyer \<open>u\<close>.\<close>

abbreviation kit_seller :: "int list \<Rightarrow> db \<Rightarrow> bool" where
  "kit_seller rs d \<equiv> \<exists>s. rs = [s] \<and> s \<in> u_id ` set (users d) \<and> room 1 d \<and> keys_owned d"

abbreviation kit_users :: "int \<Rightarrow> int \<Rightarrow> db \<Rightarrow> bool" where
  "kit_users s u d \<equiv> s \<in> u_id ` set (users d) \<and> (\<exists>v \<in> set (users d). u_id v = u \<and> u_balance_cents v = 100000000) \<and> room 0 d"

abbreviation kit_owned :: "int \<Rightarrow> int \<Rightarrow> db \<Rightarrow> bool" where
  "kit_owned s u d \<equiv> kit_users s u d \<and> keys_owned d"

abbreviation kit_silent :: "int \<Rightarrow> int \<Rightarrow> db \<Rightarrow> bool" where
  "kit_silent s u d \<equiv> kit_owned s u d \<and> user_outbox (show_int u) d = []"

abbreviation kit_clean :: "int \<Rightarrow> int \<Rightarrow> db \<Rightarrow> bool" where
  "kit_clean s u d \<equiv> kit_users s u d \<and> user_outbox (show_int u) d = [] \<and> order_ids_of u d = []
     \<and> (\<forall>k \<in> set (idempotency_keys d). k_user_id k \<noteq> u)"

abbreviation kit_stocked :: "int \<Rightarrow> int list \<Rightarrow> db \<Rightarrow> bool" where
  "kit_stocked u ps d \<equiv> \<exists>i. ps = [i] \<and> racing i 1000 {u} 1000 1 d \<and> user_outbox (show_int u) d = [] \<and> order_ids_of u d = []
     \<and> (\<forall>k \<in> set (idempotency_keys d). k_user_id k \<noteq> u)"

lemma kit_fits: "kit_users s u d \<Longrightarrow> fits_int8 s \<and> fits_int8 u"
  by (auto simp: room_def)

lemma run_kit_seller:
  "runs (\<lambda>d. room 2 d \<and> keys_owned d) (query sql_demo_seller) kit_seller"
proof (rule runs_query)
  fix d assume d: "room 2 d \<and> keys_owned d"
  obtain i us where "sql_demo_seller d = (Inr [i], d\<lparr>users_seq := users_seq d + 1, users := us\<rparr>)"
    "room 1 (d\<lparr>users_seq := users_seq d + 1, users := us\<rparr>)" "\<exists>u \<in> set us. u_id u = i \<and> True"
    using demo_user_run [where P = "\<lambda>_. True" and n = 1 and d = d and email = SELLER_EMAIL and nm = "''Outbox Demo Seller''"
        and rl = Seller and cents = 0 and upd = "\<lambda>u. u\<lparr>u_is_active := True\<rparr>"] d
    by (auto simp: sql_demo_seller_def SELLER_EMAIL_def email_ok_def int4_max_def numeral_2_eq_2)
  then show "\<exists>a d'. sql_demo_seller d = (Inr a, d') \<and> kit_seller a d'" using d by (force simp: keys_owned_def)
qed

lemma run_kit_buyer:
  "runs (kit_seller rs) (query sql_demo_buyer) (\<lambda>bs d. \<exists>s u. rs = [s] \<and> bs = [u] \<and> kit_owned s u d)"
proof (rule runs_query)
  fix d assume d: "kit_seller rs d"
  obtain i us where "sql_demo_buyer d = (Inr [i], d\<lparr>users_seq := users_seq d + 1, users := us\<rparr>)"
    "room 0 (d\<lparr>users_seq := users_seq d + 1, users := us\<rparr>)" "\<exists>u \<in> set us. u_id u = i \<and> u_balance_cents u = 100000000"
    "u_id ` set (users d) \<subseteq> u_id ` set us"
    using demo_user_run [where P = "\<lambda>u. u_balance_cents u = 100000000" and n = 0 and d = d and email = BUYER_EMAIL
        and nm = "''Outbox Demo Buyer''" and rl = Buyer and cents = 100000000
        and upd = "\<lambda>u. u\<lparr>u_balance_cents := 100000000, u_is_active := True\<rparr>"] d
    by (auto simp: sql_demo_buyer_def BUYER_EMAIL_def email_ok_def int4_max_def)
  then show "\<exists>a d'. sql_demo_buyer d = (Inr a, d') \<and> (\<exists>s u. rs = [s] \<and> a = [u] \<and> kit_owned s u d')"
    using d by (auto simp: keys_owned_def)
qed

lemma run_kit_buyer_id:
  "runs (\<lambda>d. \<exists>s u. rs = [s] \<and> bs = [u] \<and> kit_owned s u d) (first_id bs)
      (\<lambda>userId d. \<exists>s u. rs = [s] \<and> userId = show_int u \<and> kit_owned s u d)"
  by (rule runs_first_id) blast

lemma run_kit_seller_id:
  "runs (\<lambda>d. \<exists>s u. rs = [s] \<and> userId = show_int u \<and> kit_owned s u d) (first_id rs)
      (\<lambda>sellerId d. \<exists>s u. sellerId = show_int s \<and> userId = show_int u \<and> kit_owned s u d)"
  by (rule runs_first_id) blast

lemma run_kit_jobs:
  "runs (\<lambda>d. \<exists>s u. sellerId = show_int s \<and> userId = show_int u \<and> kit_owned s u d) (query (sql_delete_jobs_of userId))
      (\<lambda>_ d. \<exists>s u. sellerId = show_int s \<and> userId = show_int u \<and> kit_owned s u d)"
proof (rule runs_query)
  fix d assume "\<exists>s u. sellerId = show_int s \<and> userId = show_int u \<and> kit_owned s u d"
  then obtain s u where su: "sellerId = show_int s" "userId = show_int u" "kit_owned s u d" by blast
  obtain d' where d': "sql_delete_jobs_of userId d = (Inr (), d')" "\<exists>P. d' = d\<lparr>jobs := filter P (jobs d)\<rparr>"
    using su kit_fits [of s d u] by (auto simp: sql_delete_jobs_of_def)
  moreover have "kit_owned s u d'" using su(3) d'(2) delete_jobs_ok by (auto simp: room_def keys_owned_def)
  ultimately show "\<exists>a d'. sql_delete_jobs_of userId d = (Inr a, d')
      \<and> (\<exists>s u. sellerId = show_int s \<and> userId = show_int u \<and> kit_owned s u d')" using su(1,2) by blast
qed

lemma run_kit_outbox:
  "runs (\<lambda>d. \<exists>s u. sellerId = show_int s \<and> userId = show_int u \<and> kit_owned s u d) (query (sql_delete_outbox_of userId))
      (\<lambda>_ d. \<exists>s u. sellerId = show_int s \<and> userId = show_int u \<and> kit_silent s u d)"
proof (rule runs_query)
  fix d assume "\<exists>s u. sellerId = show_int s \<and> userId = show_int u \<and> kit_owned s u d"
  then obtain s u where su: "sellerId = show_int s" "userId = show_int u" "kit_owned s u d" by blast
  let ?d = "d\<lparr>outbox := filter (\<lambda>x. json_text (x_payload x) ''userId'' \<noteq> Some userId) (outbox d)\<rparr>"
  have "kit_silent s u ?d" using su delete_outbox_ok [of d] by (simp add: room_def keys_owned_def user_outbox_def)
  then show "\<exists>a d'. sql_delete_outbox_of userId d = (Inr a, d')
      \<and> (\<exists>s u. sellerId = show_int s \<and> userId = show_int u \<and> kit_silent s u d')"
    using su(1,2) unfolding sql_delete_outbox_of_def by blast
qed

lemma run_kit_orders:
  "runs (\<lambda>d. \<exists>s u. sellerId = show_int s \<and> userId = show_int u \<and> kit_silent s u d) (query (sql_delete_orders_of userId))
      (\<lambda>_ d. \<exists>s u. sellerId = show_int s \<and> userId = show_int u \<and> kit_clean s u d)"
proof (rule runs_query)
  fix d assume "\<exists>s u. sellerId = show_int s \<and> userId = show_int u \<and> kit_silent s u d"
  then obtain s u where su: "sellerId = show_int s" "userId = show_int u" "kit_silent s u d" by blast
  let ?d = "d\<lparr>orders := filter (\<lambda>r. o_user_id r \<noteq> u) (orders d),
    order_items := filter (\<lambda>l. i_order_id l \<notin> set (order_ids_of u d)) (order_items d),
    idempotency_keys := filter (\<lambda>k. k_order_id k \<notin> set (order_ids_of u d)) (idempotency_keys d)\<rparr>"
  have "sql_delete_orders_of userId d = (Inr (), ?d)" using su kit_fits [of s d u] by (simp add: sql_delete_orders_of_def)
  moreover have "db_ok ?d" by (rule delete_orders_ok) (use su in \<open>simp add: room_def\<close>)
  then have "kit_clean s u ?d" using su(3) keys_owned_free [of d u] by (simp add: room_def user_outbox_def order_ids_of_def)
  ultimately show "\<exists>a d'. sql_delete_orders_of userId d = (Inr a, d')
      \<and> (\<exists>s u. sellerId = show_int s \<and> userId = show_int u \<and> kit_clean s u d')" using su(1,2) by blast
qed

lemma run_kit_product:
  "runs (\<lambda>d. \<exists>s u. sellerId = show_int s \<and> userId = show_int u \<and> kit_clean s u d) (query (sql_demo_product sellerId))
      (\<lambda>ps d. \<exists>u. userId = show_int u \<and> kit_stocked u ps d)"
proof (rule runs_query)
  fix d assume "\<exists>s u. sellerId = show_int s \<and> userId = show_int u \<and> kit_clean s u d"
  then obtain s u where su: "sellerId = show_int s" "userId = show_int u" "kit_clean s u d" by blast
  obtain i ps where ps: "sql_demo_product (show_int s) d = (Inr [i], d\<lparr>products_seq := products_seq d + 1, products := ps\<rparr>)"
    "db_ok (d\<lparr>products_seq := products_seq d + 1, products := ps\<rparr>)" "fits_int8 i"
    "\<exists>p \<in> set ps. p_id p = i \<and> p_is_active p \<and> p_stock p = 1000 \<and> p_price_cents p = 1000"
    using demo_product_run [of 0 d s] su kit_fits [of s d u] by blast
  have "kit_stocked u [i] (d\<lparr>products_seq := products_seq d + 1, products := ps\<rparr>)"
    using ps su(3) kit_fits [of s d u] by (auto simp: racing_def user_outbox_def order_ids_of_def room_def fits_int8_def)
  then show "\<exists>a d'. sql_demo_product sellerId d = (Inr a, d') \<and> (\<exists>u. userId = show_int u \<and> kit_stocked u a d')"
    using ps(1) su(1,2) by blast
qed

lemma run_kit_truncate:
  "runs (\<lambda>d. \<exists>u. userId = show_int u \<and> kit_stocked u ps d) (query sql_truncate_effects)
      (\<lambda>_ d. \<exists>u i. ps = [i] \<and> userId = show_int u \<and> demo_ready u i d)"
proof (rule runs_query)
  fix d assume "\<exists>u. userId = show_int u \<and> kit_stocked u ps d"
  then obtain u i where u: "userId = show_int u" "ps = [i]" "kit_stocked u ps d" by blast
  have "db_ok (snd (sql_truncate_effects d))" by (rule truncate_ok) (use u in \<open>simp add: racing_def\<close>)
  then have "demo_ready u i (snd (sql_truncate_effects d))"
    using u by (simp add: sql_truncate_effects_def demo_ready_def racing_def user_outbox_def order_ids_of_def)
  then show "\<exists>a d'. sql_truncate_effects d = (Inr a, d') \<and> (\<exists>u i. ps = [i] \<and> userId = show_int u \<and> demo_ready u i d')"
    using u(1,2) by (auto simp: sql_truncate_effects_def)
qed

lemma run_kit_product_id:
  "runs (\<lambda>d. \<exists>u i. ps = [i] \<and> userId = show_int u \<and> demo_ready u i d) (first_id ps)
      (\<lambda>pr d. \<exists>u i. pr = show_int i \<and> userId = show_int u \<and> demo_ready u i d)"
  by (rule runs_first_id) blast

lemma demo_rows_run:
  "runs (\<lambda>d. room 2 d \<and> keys_owned d) demo_rows
    (\<lambda>ids d. \<exists>uid pid. ids = (show_int uid, show_int pid) \<and> demo_ready uid pid d)"
  unfolding demo_rows_def
  by (intro runs_bindE) (rule run_kit_seller run_kit_buyer run_kit_buyer_id run_kit_seller_id run_kit_jobs run_kit_outbox run_kit_orders run_kit_product run_kit_truncate run_kit_product_id | rule runs_returnE, blast)+

end
