(* ===== verification/OutboxDemoRun.thy ===== *)
theory OutboxDemoRun
  imports OutboxDemoPrep
begin

text \<open>
  The outbox demos run through: on every database that satisfies its constraints and with every schedule
  of the consumer that lets it take the messages in time, the programs exit with code 0.
\<close>

section \<open>The parts of a demo\<close>

lemma worldP_alone: "w_sched (pp_world p) = [] \<Longrightarrow> f (w_db (pp_world p)) = (Inr a, w_db (pp_world p)) \<Longrightarrow>
    worldP (query f) p = (Inr a, p)"
  by (simp add: worldP_def query_run)

lemma prepareBroker_run:
  assumes "requireBrokerUrl url = Inr u"
  shows "brokerP (prepareBroker amqp_ops amqp_topology url) p
    = (Inr (), p\<lparr>pp_broker := (pp_broker p)\<lparr>am_work := [], am_unacked := [], am_dlq := []\<rparr>\<rparr>)"
  using assms by (simp add: brokerP_def prepareBroker_def bindE_def liftE_def resetQueues_def catchE_def assertTopology_def
      amqp_topology_def amqp_ops_def)

lemma closing_run: "closing p = (Inr (), p)"
  by (simp add: closing_def brokerP_def bindE_def amqp_ops_def)

lemma prepare_run:
  assumes "w_sched (pp_world p) = []" and "room 2 (w_db (pp_world p))" and "keys_owned (w_db (pp_world p))"
  obtains uid pid w where "prepareOutboxDemo p = (Inr (show_int uid, show_int pid), p\<lparr>pp_world := w, pp_applies := 0, pp_rejected := 0\<rparr>)"
    "w_sched w = []" "demo_ready uid pid (w_db w)"
proof -
  obtain ids w where w: "demo_rows (pp_world p) = (Inr ids, w)" "w_sched w = []"
    "\<exists>uid pid. ids = (show_int uid, show_int pid) \<and> demo_ready uid pid (w_db w)"
    by (rule runsD [OF demo_rows_run, of "pp_world p"]) (use assms in auto)
  then obtain uid pid where "ids = (show_int uid, show_int pid)" "demo_ready uid pid (w_db w)" by blast
  then show ?thesis using that [of uid pid w] w(1,2) by (simp add: prepareOutboxDemo_def bindE_def worldP_def)
qed

lemma demo_counts_run:
  assumes "w_sched (pp_world p) = []" and "fits_int8 uid"
  shows "demo_counts (show_int uid) p = (Inr
    \<lparr>dc_orders = int (length (order_ids_of uid (w_db (pp_world p)))),
     dc_outbox = int (length (user_outbox (show_int uid) (w_db (pp_world p)))),
     dc_published = int (length (filter (\<lambda>x. x_published_at x \<noteq> None) (user_outbox (show_int uid) (w_db (pp_world p))))),
     dc_deliveries = int (length (order_placed_deliveries (w_db (pp_world p)))),
     dc_effect = int (length (order_placed_effects (w_db (pp_world p)))),
     dc_processed = int (length (processed_messages (w_db (pp_world p)))), dc_applied = pp_applies p\<rparr>, p)"
  using assms by (simp add: demo_counts_def bindE_def worldP_alone sql_orders_of_def sql_count_def)

text \<open>What the relay claims for one user.\<close>

definition pending_of :: "string \<Rightarrow> db \<Rightarrow> outbox_row list" where
  "pending_of userId d = filter (\<lambda>x. x_published_at x = None) (user_outbox userId d)"

lemma sql_pending_of:
  "sql_pending 20 (Some userId) (\<lambda>_. False) d = (Inr (take 20 (sort_key (\<lambda>x. (x_created_at x, x_id x)) (pending_of userId d))), d)"
  by (simp add: sql_pending_def pending_of_def user_outbox_def conj_commute)

lemma relay_nothing:
  assumes "w_sched (pp_world p) = []" and "pending_of userId (w_db (pp_world p)) = []"
  shows "relayP jp url alone_env (user_relay crash userId) p = (Inr 0, p)"
  using assms by (simp add: relayP_def publishPending_def user_relay_def relay_transaction_def next_env_def catchE_def
      bindE_def worldE_def sqlE_def sql_pending_of alone_env_def)

lemma rollback_same [simp]: "rollback d d = d"
  by (simp add: rollback_def)

text \<open>
  The relay with one row to publish and a broker that confirms: the message is routed, and the row is
  marked unless the run is told to crash, in which case the tables are as before.
\<close>

lemma relay_single:
  assumes "w_sched (pp_world p) = []" and row: "pending_of userId (w_db (pp_world p)) = [row]" "x_payload row = event_json ev"
    and url: "requireBrokerUrl url = Inr u" and broker: "am_faults (pp_broker p) = []"
  shows "relayP jp url alone_env (user_relay crash userId) p =
    (if crash then (Inl RelayCrashedError, p\<lparr>pp_broker := amqp_route (order_message (event_json ev)) (pp_broker p)\<rparr>)
     else (Inr 1, p\<lparr>pp_broker := amqp_route (order_message (event_json ev)) (pp_broker p),
       pp_world := (pp_world p)\<lparr>w_db := snd (sql_mark_published (x_id row) (w_db (pp_world p)))\<rparr>\<rparr>))"
proof -
  have "asOrderPlacedEvent jp (x_payload row) = Inr (event_json ev)"
    by (simp add: row(2) event_message)
  then show ?thesis
    using assms(1) row(1) url broker
    by (simp add: relayP_def publishPending_def user_relay_def relay_transaction_def next_env_def catchE_def
        bindE_def worldE_def sqlE_def sql_pending_of alone_env_def withOrderPlacedChannel_def liftE_def finallyE_def
        brokerE_def amqp_ops_def publishOrderPlaced_def amqp_publish_def amqp_confirm_def amqp_route_def
        sql_mark_published_def)
qed

section \<open>The checkout of a demo\<close>

lemma demo_admissible:
  assumes "demo_ready uid pid d"
  shows "admissible (demo_item (show_int uid) (show_int pid) key False) d"
proof -
  have "admissible (one_of uid pid) d" using racing_admissible [of pid 1000 "{uid}" 1000 0 d uid] assms by (simp add: demo_ready_def)
  moreover have "fits_int8 uid" using assms by (simp add: demo_ready_def racing_def)
  ultimately show ?thesis using assms
    by (auto simp: admissible_def demo_item_def key_free_def demo_ready_def split: option.split)
qed

lemma demo_checkout_aborts:
  assumes w: "w_sched w = []" and d: "demo_ready uid pid (w_db w)"
  obtains w' where "checkout uuid toISO (demo_item (show_int uid) (show_int pid) None True) w = (Inl OutboxWriteAbortedError, w')"
    "w_sched w' = []" "tables (w_db w') = tables (w_db w)"
proof -
  let ?inp = "demo_item (show_int uid) (show_int pid) None True"
  let ?f = "finish uuid toISO ?inp w"
  have ok: "db_ok (w_db w)" using d by (simp add: demo_ready_def racing_def)
  have adm: "admissible (demo_item (show_int uid) (show_int pid) None False) (w_db w)" by (rule demo_admissible [OF d])
  have body: "checkout_body uuid toISO ?inp (locked ?inp) w = (Inl OutboxWriteAbortedError, ?f)"
    by (subst checkout_body_finish [OF ok]) (use adm in \<open>auto simp: admissible_def goods_ok_def demo_item_def throwE_def\<close>)
  define w' where "w' = ?f\<lparr>w_db := rollback (w_db w) (w_db ?f)\<rparr>"
  have sched: "w_sched ?f = []" using w by (simp add: finish_def)
  have "insertCheckout uuid toISO ?inp (locked ?inp) w = (Inl OutboxWriteAbortedError, w')"
    by (simp add: insertCheckout_def transaction_empty [OF w] body w'_def)
  then have "withRetry (insertCheckout uuid toISO ?inp (locked ?inp)) 5 w = (Inl OutboxWriteAbortedError, w')"
    by (rule withRetry_permanent) (simp_all add: is_retryable_iff)
  then have "checkout uuid toISO ?inp w = (Inl OutboxWriteAbortedError, w')"
    by (simp add: checkout_def bindE_def catchE_def lookupIntent_def intent_key_def demo_item_def)
  moreover have "tables (w_db w') = tables (w_db w)" by (simp add: w'_def tables_def rollback_def)
  moreover have "w_sched w' = []" using sched by (simp add: w'_def)
  ultimately show ?thesis using that by blast
qed

lemma tables_views:
  assumes "tables d' = tables d"
  shows "order_ids_of i d' = order_ids_of i d" "user_outbox u d' = user_outbox u d" "pending_of u d' = pending_of u d"
    "order_placed_deliveries d' = order_placed_deliveries d" "order_placed_effects d' = order_placed_effects d"
    "processed_messages d' = processed_messages d"
  using assms by (simp_all add: tables_eq_iff order_ids_of_def user_outbox_def pending_of_def)

text \<open>
  An order and its event are written together or not at all: on every database that satisfies its
  constraints, \<open>demo-crash-write\<close> aborts its checkout between the insert into the outbox and the commit, and
  then finds neither an order nor an event of its buyer, publishes nothing, sees an empty queue and no
  delivery, and exits with code 0.
\<close>

theorem demo_crash_write_clean:
  assumes "w_sched (pp_world p) = []" and "room 2 (w_db (pp_world p))" and "keys_owned (w_db (pp_world p))"
    and "requireBrokerUrl url = Inr u"
  shows "\<exists>p'. demo_crash_write uuid toISO jp url alone_env p = (Inr (\<lparr>dc_orders = 0, dc_outbox = 0, dc_published = 0,
      dc_deliveries = 0, dc_effect = 0, dc_processed = 0, dc_applied = 0\<rparr>, 0), p') \<and> am_work (pp_broker p') = []"
proof -
  obtain uid pid w where prep: "prepareOutboxDemo p = (Inr (show_int uid, show_int pid), p\<lparr>pp_world := w, pp_applies := 0, pp_rejected := 0\<rparr>)"
    and w: "w_sched w = []" "demo_ready uid pid (w_db w)"
    by (rule prepare_run [OF assms(1-3)])
  obtain w' where c: "checkout uuid toISO (demo_item (show_int uid) (show_int pid) None True) w = (Inl OutboxWriteAbortedError, w')"
    "w_sched w' = []" "tables (w_db w') = tables (w_db w)"
    by (rule demo_checkout_aborts [OF w])
  let ?p = "p\<lparr>pp_applies := 0, pp_rejected := 0,
    pp_broker := (pp_broker p)\<lparr>am_work := [], am_unacked := [], am_dlq := []\<rparr>, pp_world := w'\<rparr>"
  have fits: "fits_int8 uid" using w(2) by (simp add: demo_ready_def racing_def)
  have ready: "order_ids_of uid (w_db w') = []" "user_outbox (show_int uid) (w_db w') = []" "order_placed_deliveries (w_db w') = []"
    "order_placed_effects (w_db w') = []" "processed_messages (w_db w') = []"
    using w(2) by (simp_all add: tables_views [OF c(3)] demo_ready_def)
  have relay: "relayP jp url alone_env (user_relay False (show_int uid)) ?p = (Inr 0, ?p)"
    by (rule relay_nothing) (simp_all add: c(2) pending_of_def ready)
  have counts: "demo_counts (show_int uid) ?p = (Inr \<lparr>dc_orders = 0, dc_outbox = 0, dc_published = 0,
      dc_deliveries = 0, dc_effect = 0, dc_processed = 0, dc_applied = 0\<rparr>, ?p)"
    using demo_counts_run [of ?p uid] c(2) fits ready by simp
  have depth: "brokerP (queueDepth amqp_topology ORDER_PLACED_QUEUE) ?p = (Inr 0, ?p)"
    by (simp add: brokerP_def queueDepth_def amqp_topology_def)
  have "demo_crash_write uuid toISO jp url alone_env p = (Inr (\<lparr>dc_orders = 0, dc_outbox = 0, dc_published = 0,
      dc_deliveries = 0, dc_effect = 0, dc_processed = 0, dc_applied = 0\<rparr>, 0), ?p)"
    by (simp add: demo_crash_write_def bindE_def prep prepareBroker_run [OF assms(4)] finallyE_def catchE_def worldP_def c
        relay counts depth closing_run)
  then show ?thesis by auto
qed

section \<open>The stages of a demo\<close>

text \<open>
  One event of the demo's buyer: \<open>f\<close> says whether its row is marked as published, \<open>n\<close> is the number of its
  deliveries so far, \<open>q\<close> the number of its messages in the queue. The first delivery has an effect and an
  inbox mark, the later ones have none.
\<close>

definition delivered :: "string \<Rightarrow> nat \<Rightarrow> db \<Rightarrow> bool" where
  "delivered k n d \<longleftrightarrow> length (order_placed_deliveries d) = n
     \<and> map e_event_id (order_placed_effects d) = replicate (min 1 n) k
     \<and> map (\<lambda>m. (m_message_id m, m_consumer m)) (processed_messages d) = replicate (min 1 n) (k, ORDER_PLACED_CONSUMER)"

definition stage :: "int \<Rightarrow> order_placed_event \<Rightarrow> string \<Rightarrow> bool \<Rightarrow> nat \<Rightarrow> nat \<Rightarrow> pipeline \<Rightarrow> bool" where
  "stage uid ev k f n q p \<longleftrightarrow> w_sched (pp_world p) = [] \<and> length (order_ids_of uid (w_db (pp_world p))) = 1
     \<and> (\<exists>x. user_outbox (show_int uid) (w_db (pp_world p)) = [x] \<and> x_payload x = event_json ev \<and> (x_published_at x \<noteq> None \<longleftrightarrow> f))
     \<and> delivered k n (w_db (pp_world p)) \<and> pp_applies p = min 1 (int n)
     \<and> am_work (pp_broker p) = replicate q (order_message (event_json ev)) \<and> am_unacked (pp_broker p) = []
     \<and> am_faults (pp_broker p) = []"

definition consumed_db :: "string \<Rightarrow> string \<times> string \<Rightarrow> db \<Rightarrow> db" where
  "consumed_db k v d =
     (let d' = snd (apply_rows k v (d\<lparr>order_placed_deliveries := order_placed_deliveries d @ [(deliveries_seq d, k)],
            deliveries_seq := deliveries_seq d + 1\<rparr>))
      in d'\<lparr>order_placed_effects := map (\<lambda>r. if e_event_id r = k \<and> e_acked_at r = None
           then r\<lparr>e_acked_at := Some (now d)\<rparr> else r) (order_placed_effects d')\<rparr>)"

lemma map_ack: "map e_event_id (map (\<lambda>r. if P r then r\<lparr>e_acked_at := v\<rparr> else r) xs) = map e_event_id xs"
  by simp

lemma consumed_db_delivered:
  assumes "delivered k n d"
  shows "delivered k (Suc n) (consumed_db k v d)"
proof -
  have e: "e_event_id ` set (order_placed_effects d) = set (replicate (min 1 n) k)"
    and m: "(\<lambda>m. (m_message_id m, m_consumer m)) ` set (processed_messages d) = set (replicate (min 1 n) (k, ORDER_PLACED_CONSUMER))"
    using assms unfolding delivered_def by (metis set_map)+
  show ?thesis using assms e m
    by (cases n) (auto simp: delivered_def consumed_db_def apply_rows_def Let_def comp_def cong: if_cong)
qed

lemma handle_event:
  assumes w: "w_sched (st_world (cs_store s)) = []" and ev: "\<not> ev_poison ev" "pg_uuid (ev_eventId ev) = Inr k" "ts (ev_occurredAt ev) = Inr t"
  shows "handle_message ts amqp_channel False (Some \<lparr>cm_tag = g, cm_content = Some (event_json ev)\<rparr>) s =
    (Inr (), s\<lparr>cs_store := \<lparr>st_world = (st_world (cs_store s))\<lparr>w_db := consumed_db k (ev_orderId ev, t) (w_db (st_world (cs_store s)))\<rparr>,
        st_successfulApplies = st_successfulApplies (cs_store s)
          + (if k \<in> e_event_id ` set (order_placed_effects (w_db (st_world (cs_store s)))) then 0 else 1)\<rparr>,
      cs_channel := snd (amqp_channel Ack \<lparr>cm_tag = g, cm_content = Some (event_json ev)\<rparr> (cs_channel s))\<rparr>)"
proof -
  let ?m = "\<lparr>cm_tag = g, cm_content = Some (event_json ev)\<rparr>" and ?d = "w_db (st_world (cs_store s))"
  let ?d1 = "?d\<lparr>order_placed_deliveries := order_placed_deliveries ?d @ [(deliveries_seq ?d, k)], deliveries_seq := deliveries_seq ?d + 1\<rparr>"
  have parse: "parseEvent ?m = Inr (event_json ev)"
  proof -
    obtain fs where "event_json ev = JsObj fs" by (simp add: event_json_def)
    moreover have "text_field (event_json ev) ''eventId'' = Some (ev_eventId ev)" "text_field (event_json ev) ''orderId'' = Some (ev_orderId ev)"
      by (simp_all add: text_field_def)
    ultimately show ?thesis by (simp add: parseEvent_def) (metis event_json_fields(2))
  qed
  have fld: "event_text (event_json ev) ''eventId'' = ev_eventId ev" "event_text (event_json ev) ''orderId'' = ev_orderId ev"
    by (simp_all add: event_text_def text_field_def)
  have "valid_call ts (ev_eventId ev, ev_orderId ev, Some (JsString (ev_occurredAt ev)))"
    using ev by (simp add: valid_call_def pg_timestamptz_def)
  note eff_run = applyEffect_alone [OF _ this]
  have key: "call_key (ev_eventId ev, ev_orderId ev, Some (JsString (ev_occurredAt ev))) = k"
    "call_value ts (ev_eventId ev, ev_orderId ev, Some (JsString (ev_occurredAt ev))) = (ev_orderId ev, t)"
    using ev by (simp_all add: call_key_def call_value_def pg_timestamptz_def)
  obtain c where chan: "amqp_channel Ack ?m (cs_channel s) = (Inr (), c)" by (simp add: amqp_channel_def)
  obtain b d2 where bd: "apply_rows k (ev_orderId ev, t) ?d1 = (b, d2)" by fastforce
  then have b: "b = (k \<notin> e_event_id ` set (order_placed_effects ?d))" "now d2 = now ?d" by (auto simp: apply_rows_def)
  have "process_message ts amqp_channel False ?m s = (Inr (), s\<lparr>cs_store := \<lparr>st_world = (st_world (cs_store s))\<lparr>w_db := consumed_db k (ev_orderId ev, t) ?d\<rparr>,
        st_successfulApplies = st_successfulApplies (cs_store s) + (if k \<in> e_event_id ` set (order_placed_effects ?d) then 0 else 1)\<rparr>,
      cs_channel := snd (amqp_channel Ack ?m (cs_channel s))\<rparr>)"
    using w ev
    by (simp add: process_message_def parse fld bindE_def liftE_def storeE_def recordDelivery_def storeW_def query_run
        sql_insert_delivery_def js_truthy_def eff_run key bd channelE_def chan markAcked_def sql_mark_acked_def consumed_db_def Let_def b)
  then show ?thesis by (simp add: handle_message_def catchE_def)
qed

lemma consumed_db_frame [simp]:
  "order_ids_of i (consumed_db k v d) = order_ids_of i d" "user_outbox u (consumed_db k v d) = user_outbox u d"
  by (simp_all add: consumed_db_def apply_rows_def Let_def order_ids_of_def user_outbox_def)

text \<open>The consumer of a demo can read its event.\<close>

definition readable :: "(string \<Rightarrow> thrown + string) \<Rightarrow> order_placed_event \<Rightarrow> string \<Rightarrow> bool" where
  "readable ts ev k \<longleftrightarrow> \<not> ev_poison ev \<and> pg_uuid (ev_eventId ev) = Inr k \<and> \<not> isl (ts (ev_occurredAt ev))"

lemma stage_turn:
  assumes r: "readable ts ev k" and p: "stage uid ev k f n (Suc q) p"
  shows "stage uid ev k f (Suc n) q (consumer_turn ts p)"
proof -
  obtain t where t: "ts (ev_occurredAt ev) = Inr t" using r by (cases "ts (ev_occurredAt ev)") (auto simp: readable_def)
  let ?b = "pp_broker p" and ?m = "order_message (event_json ev)" and ?d = "w_db (pp_world p)"
  have b: "am_work ?b = ?m # replicate q ?m" "am_unacked ?b = []" using p by (simp_all add: stage_def)
  have body: "bm_body ?m = event_json ev" by (simp add: order_message_def)
  have w: "w_sched (pp_world p) = []" using p by (simp add: stage_def)
  have new: "e_event_id ` set (order_placed_effects ?d) = set (replicate (min 1 n) k)"
    using p unfolding stage_def delivered_def by (metis set_map)
  have "consumer_turn ts p = p\<lparr>pp_world := (pp_world p)\<lparr>w_db := consumed_db k (ev_orderId ev, t) ?d\<rparr>,
      pp_applies := pp_applies p + (if n = 0 then 1 else 0),
      pp_broker := ?b\<lparr>am_work := replicate q ?m, am_unacked := [], am_tag := Suc (am_tag ?b)\<rparr>\<rparr>"
    using w r t b(2) unfolding consumer_turn_def b(1) list.case body
    by (subst handle_event [where k = k and t = t]) (simp_all add: readable_def amqp_deliver_def amqp_channel_def new)
  then show ?thesis using p consumed_db_delivered [of k n ?d] by (auto simp: stage_def)
qed

lemma stage_idle: "stage uid ev k f n 0 p \<Longrightarrow> consumer_turn ts p = p"
  by (simp add: stage_def consumer_turn_def)

lemma stage_turns:
  assumes "readable ts ev k"
  shows "stage uid ev k f n q p \<Longrightarrow> \<exists>p'. turns ts j p = (Inr (), p') \<and> stage uid ev k f (n + min j q) (q - j) p'"
proof (induction j arbitrary: p n q)
  case (Suc j)
  have step: "turns ts (Suc j) p = turns ts j (consumer_turn ts p)" by (simp add: turns_def funpow_swap1)
  show ?case
  proof (cases q)
    case 0
    then show ?thesis using Suc.IH [of n 0 p] Suc.prems stage_idle step by simp
  next
    case (Suc q')
    then have "stage uid ev k f (Suc n) q' (consumer_turn ts p)" using stage_turn [OF assms] Suc.prems by blast
    from Suc.IH [OF this] show ?thesis using Suc step by simp
  qed
qed (simp add: turns_def)

lemma stage_counts:
  assumes "stage uid ev k f n q p" and "fits_int8 uid"
  shows "demo_counts (show_int uid) p = (Inr \<lparr>dc_orders = 1, dc_outbox = 1, dc_published = (if f then 1 else 0),
    dc_deliveries = int n, dc_effect = min 1 (int n), dc_processed = min 1 (int n), dc_applied = min 1 (int n)\<rparr>, p)"
proof -
  have "length (order_placed_effects (w_db (pp_world p))) = min 1 n" "length (processed_messages (w_db (pp_world p))) = min 1 n"
    using assms(1) unfolding stage_def delivered_def by (metis length_map length_replicate)+
  then show ?thesis using assms by (subst demo_counts_run) (auto simp: stage_def delivered_def)
qed

lemma stage_relay:
  assumes p: "stage uid ev k False n q p" and url: "requireBrokerUrl url = Inr u"
  shows "\<exists>p'. relayP jp url alone_env (user_relay crash (show_int uid)) p = ((if crash then Inl RelayCrashedError else Inr 1), p')
    \<and> stage uid ev k (\<not> crash) n (Suc q) p'"
proof -
  obtain x where x: "user_outbox (show_int uid) (w_db (pp_world p)) = [x]" "x_payload x = event_json ev" "x_published_at x = None"
    using p by (auto simp: stage_def)
  then have pend: "pending_of (show_int uid) (w_db (pp_world p)) = [x]" by (simp add: pending_of_def)
  let ?b = "amqp_route (order_message (event_json ev)) (pp_broker p)"
  let ?d = "snd (sql_mark_published (x_id x) (w_db (pp_world p)))"
  note run = relay_single [OF _ pend x(2) url, of jp crash]
  have b: "am_work ?b = replicate (Suc q) (order_message (event_json ev))" "am_unacked ?b = []" "am_faults ?b = []"
    using p by (simp_all add: stage_def amqp_route_def order_message_def replicate_append_same)
  have "user_outbox (show_int uid) ?d = map (\<lambda>y. if x_id y = x_id x
      then y\<lparr>x_published_at := Some (now (w_db (pp_world p))), x_attempts := x_attempts y + 1\<rparr> else y) (user_outbox (show_int uid) (w_db (pp_world p)))"
    by (simp add: user_outbox_def sql_mark_published_def filter_map comp_def if_distrib [of x_payload] cong: if_cong)
  then have "\<exists>y. user_outbox (show_int uid) ?d = [y] \<and> x_payload y = event_json ev \<and> x_published_at y \<noteq> None" using x by simp
  moreover have "order_ids_of i ?d = order_ids_of i (w_db (pp_world p))" "delivered k n ?d = delivered k n (w_db (pp_world p))" for i
    by (simp_all add: sql_mark_published_def order_ids_of_def delivered_def)
  ultimately show ?thesis using p run b x by (cases crash) (auto simp: stage_def)
qed

lemma stage_wait:
  assumes r: "readable ts ev k" and fits: "fits_int8 uid"
    and pred: "\<And>c. dc_deliveries c = int m \<Longrightarrow> dc_published c = 1 \<Longrightarrow> dc_effect c = 1 \<Longrightarrow> dc_processed c = 1 \<Longrightarrow> dc_applied c = 1 \<Longrightarrow> P c"
      "\<And>c. dc_deliveries c < int m \<Longrightarrow> \<not> P c"
    and m: "0 < m"
  shows "stage uid ev k True n q p \<Longrightarrow> n + q = m \<Longrightarrow> sleeps \<noteq> [] \<Longrightarrow> q \<le> sum_list (butlast sleeps) \<Longrightarrow>
    \<exists>p'. waitUntil (bindE (demo_counts (show_int uid)) (\<lambda>c. returnE (P c))) label (map (turns ts) sleeps) p = (Inr (), p')
      \<and> stage uid ev k True m 0 p'"
proof (induction sleeps arbitrary: p n q)
  case (Cons j sleeps)
  note c = stage_counts [OF Cons.prems(1) fits]
  show ?case
  proof (cases "q = 0")
    case True
    then have "n = m" using Cons.prems(2) by simp
    then have "P \<lparr>dc_orders = 1, dc_outbox = 1, dc_published = 1, dc_deliveries = int n, dc_effect = min 1 (int n),
        dc_processed = min 1 (int n), dc_applied = min 1 (int n)\<rparr>" using m by (intro pred(1)) auto
    then show ?thesis using Cons.prems(1) True \<open>n = m\<close> by (simp add: bindE_def c)
  next
    case False
    then have no: "\<not> P \<lparr>dc_orders = 1, dc_outbox = 1, dc_published = 1, dc_deliveries = int n, dc_effect = min 1 (int n),
        dc_processed = min 1 (int n), dc_applied = min 1 (int n)\<rparr>" using Cons.prems(2) by (intro pred(2)) simp
    obtain p1 where p1: "turns ts j p = (Inr (), p1)" "stage uid ev k True (n + min j q) (q - j) p1"
      using stage_turns [OF r Cons.prems(1)] by blast
    have "sleeps \<noteq> []" using Cons.prems(4) False by auto
    moreover from this have "q - j \<le> sum_list (butlast sleeps)" using Cons.prems(4) by simp
    ultimately show ?thesis using Cons.IH [OF p1(2)] Cons.prems(2) no by (simp add: bindE_def c p1(1) min_def split: if_splits)
  qed
qed simp

section \<open>From the checkout to the effect\<close>

lemma demo_checkout_placed:
  assumes w: "w_sched w = []" and d: "demo_ready uid pid (w_db w)"
  shows "checkout uuid toISO (demo_item (show_int uid) (show_int pid) key False) w
    = (Inr (committed_result (demo_item (show_int uid) (show_int pid) key False) (w_db w)),
       committed uuid toISO (demo_item (show_int uid) (show_int pid) key False) w)"
  by (rule checkout_committed [OF w _ _ _ demo_admissible [OF d]]) (use d in \<open>simp_all add: demo_ready_def racing_def demo_item_def\<close>)

lemma demo_checkout_again:
  assumes w: "w_sched w = []" and d: "demo_ready uid pid (w_db w)" and key: "k \<noteq> []"
    and inp: "inp = demo_item (show_int uid) (show_int pid) (Some k) False" and w': "w' = committed uuid toISO inp w"
  shows "\<exists>r. checkout uuid toISO inp w' = (Inr r, w')"
proof -
  have i: "intent_key inp = Some k" "ci_requestHash inp = None" "ci_items inp \<noteq> []" using key by (simp_all add: inp demo_item_def intent_key_def)
  have adm: "admissible inp (w_db w)" unfolding inp by (rule demo_admissible [OF d])
  have "findCommitted (ci_userId inp) k w' = (Inr (Some (stored_hash inp, replayed_result inp (w_db w))), w')"
    using findCommitted_committed [OF _ adm i(1), of w'] d w by (simp add: w' committed_def demo_ready_def racing_def)
  then have look: "lookupIntent inp w' = (Inr (Some (stored_hash inp, replayed_result inp (w_db w))), w')"
    using i(1) by (simp add: lookupIntent_def)
  have "validate_items (ci_items inp) w' = (Inr (), w')"
    by (simp add: inp demo_item_def)
  then show ?thesis using i(2,3) look by (simp add: checkout_def bindE_def replayCommitted_run)
qed

lemma demo_stage:
  assumes d: "demo_ready uid pid (w_db w)" and inp: "inp = demo_item (show_int uid) (show_int pid) key False"
    and p: "pp_world p = committed uuid toISO inp w" "w_sched w = []" "pp_applies p = 0" "am_work (pp_broker p) = []"
      "am_unacked (pp_broker p) = []" "am_faults (pp_broker p) = []"
  shows "stage uid (placed_event uuid toISO inp w) k False 0 0 p"
proof -
  have fits: "fits_int8 uid" using d by (simp add: demo_ready_def racing_def)
  then have "order_ids_of uid (w_db (pp_world p)) = [orders_seq (w_db w)]"
    using d by (simp add: p(1) committed_def order_ids_of_def demo_ready_def placed_order_def inp demo_item_def)
  moreover have "user_outbox (show_int uid) (w_db (pp_world p)) = [placed_outbox (placed_event uuid toISO inp w) (w_db w)]"
    using d by (simp add: p(1) committed_def user_outbox_def demo_ready_def placed_outbox_def placed_event_def inp demo_item_def)
  moreover have "delivered k 0 (w_db (pp_world p))" using d by (simp add: p(1) committed_def delivered_def demo_ready_def)
  ultimately show ?thesis using p by (simp add: stage_def placed_outbox_def committed_def)
qed

lemma finallyE_stop: "finallyE m (brokerP (stopConsumer amqp_ops amqp_topology)) p = m p"
  by (simp add: finallyE_def brokerP_def stopConsumer_def bindE_def catchE_def amqp_ops_def amqp_topology_def split: prod.split)

text \<open>
  Two requests under one intent key are one order, one event, one publication, one delivery and one
  effect: on every database that satisfies its constraints, with a broker that confirms, and however many
  turns the consumer takes while the program sleeps, as long as there is one before the last poll,
  \<open>demo-outbox\<close> counts one of each and exits with code 0.
\<close>

theorem demo_outbox_once:
  assumes p: "w_sched (pp_world p) = []" "room 2 (w_db (pp_world p))" "keys_owned (w_db (pp_world p))" "am_faults (pp_broker p) = []"
    and url: "requireBrokerUrl url = Inr u" and uuid: "\<forall>n. \<not> isl (pg_uuid (uuid n))" and ts: "\<forall>n. \<not> isl (ts (toISO n))"
    and sleeps: "1 \<le> sum_list (butlast sleeps)"
  shows "\<exists>p'. demo_outbox uuid toISO ts jp url alone_env sleeps p = (Inr (\<lparr>dc_orders = 1, dc_outbox = 1, dc_published = 1,
      dc_deliveries = 1, dc_effect = 1, dc_processed = 1, dc_applied = 1\<rparr>, 0), p') \<and> am_work (pp_broker p') = []"
proof -
  obtain uid pid w where prep: "prepareOutboxDemo p = (Inr (show_int uid, show_int pid), p\<lparr>pp_world := w, pp_applies := 0, pp_rejected := 0\<rparr>)"
    and w: "w_sched w = []" "demo_ready uid pid (w_db w)"
    by (rule prepare_run [OF p(1-3)])
  let ?inp = "demo_item (show_int uid) (show_int pid) (Some ''hw22-demo-outbox'') False"
  let ?ev = "placed_event uuid toISO ?inp w" and ?w = "committed uuid toISO ?inp w"
  obtain k where k: "pg_uuid (uuid (w_rng w)) = Inr k" using uuid by (metis sum.collapse(2))
  have r: "readable ts ?ev k" using k ts by (simp add: readable_def placed_event_def)
  have fits: "fits_int8 uid" using w(2) by (simp add: demo_ready_def racing_def)
  let ?p0 = "p\<lparr>pp_applies := 0, pp_rejected := 0, pp_broker := (pp_broker p)\<lparr>am_work := [], am_unacked := [], am_dlq := []\<rparr>, pp_world := ?w\<rparr>"
  have first: "checkout uuid toISO ?inp w = (Inr (committed_result ?inp (w_db w)), ?w)" by (rule demo_checkout_placed [OF w])
  obtain r2 where second: "checkout uuid toISO ?inp ?w = (Inr r2, ?w)"
    using demo_checkout_again [OF w, of "''hw22-demo-outbox''" ?inp ?w uuid toISO] by auto
  have "stage uid ?ev k False 0 0 ?p0" by (rule demo_stage [OF w(2) refl]) (use w p in simp_all)
  from stage_relay [OF this url, of jp False] obtain p1
    where p1: "relayP jp url alone_env (user_relay False (show_int uid)) ?p0 = (Inr 1, p1)" "stage uid ?ev k True 0 1 p1" by auto
  have ne: "sleeps \<noteq> []" using sleeps by auto
  obtain p2 where p2: "waitUntil (bindE (demo_counts (show_int uid)) (\<lambda>c. returnE (dc_published c = 1 \<and> dc_deliveries c = 1
      \<and> dc_effect c = 1 \<and> dc_processed c = 1))) ''outbox happy path'' (map (turns ts) sleeps) p1 = (Inr (), p2)" "stage uid ?ev k True 1 0 p2"
    using stage_wait [OF r fits _ _ _ p1(2) _ ne, of 1 "\<lambda>c. dc_published c = 1 \<and> dc_deliveries c = 1 \<and> dc_effect c = 1 \<and> dc_processed c = 1"]
      sleeps by auto
  note c = stage_counts [OF p2(2) fits]
  have "demo_outbox uuid toISO ts jp url alone_env sleeps p = (Inr (\<lparr>dc_orders = 1, dc_outbox = 1, dc_published = 1,
      dc_deliveries = 1, dc_effect = 1, dc_processed = 1, dc_applied = 1\<rparr>, 0), p2)"
    by (simp add: demo_outbox_def bindE_def [of prepareOutboxDemo] prep bindE_def [of "brokerP _"] prepareBroker_run [OF url] Let_def
        finallyE_stop) (simp add: bindE_def worldP_def first second p1(1) p2(1) [unfolded bindE_def] c)
  then show ?thesis using p2(2) by (auto simp: stage_def)
qed

text \<open>
  (C9) A relay that crashes between the publication and its mark publishes the event a second time, and the
  consumer applies it once: on every database that satisfies its constraints, with a broker that confirms,
  and whether the first copy is consumed before the relay runs again or after, \<open>demo-crash-relay\<close> counts one
  published row, two deliveries and one effect, and exits with code 0, as long as the consumer takes both
  messages before the last poll.
\<close>

theorem demo_crash_relay_once:
  assumes p: "w_sched (pp_world p) = []" "room 2 (w_db (pp_world p))" "keys_owned (w_db (pp_world p))" "am_faults (pp_broker p) = []"
    and url: "requireBrokerUrl url = Inr u" and uuid: "\<forall>n. \<not> isl (pg_uuid (uuid n))" and ts: "\<forall>n. \<not> isl (ts (toISO n))"
    and sleeps: "2 \<le> min between 1 + sum_list (butlast sleeps)"
  shows "\<exists>p'. demo_crash_relay uuid toISO ts jp url alone_env between sleeps p = (Inr (\<lparr>dc_orders = 1, dc_outbox = 1, dc_published = 1,
      dc_deliveries = 2, dc_effect = 1, dc_processed = 1, dc_applied = 1\<rparr>, 0), p') \<and> am_work (pp_broker p') = []"
proof -
  obtain uid pid w where prep: "prepareOutboxDemo p = (Inr (show_int uid, show_int pid), p\<lparr>pp_world := w, pp_applies := 0, pp_rejected := 0\<rparr>)"
    and w: "w_sched w = []" "demo_ready uid pid (w_db w)"
    by (rule prepare_run [OF p(1-3)])
  let ?inp = "demo_item (show_int uid) (show_int pid) None False"
  let ?ev = "placed_event uuid toISO ?inp w" and ?w = "committed uuid toISO ?inp w"
  obtain k where k: "pg_uuid (uuid (w_rng w)) = Inr k" using uuid by (metis sum.collapse(2))
  have r: "readable ts ?ev k" using k ts by (simp add: readable_def placed_event_def)
  have fits: "fits_int8 uid" using w(2) by (simp add: demo_ready_def racing_def)
  let ?p0 = "p\<lparr>pp_applies := 0, pp_rejected := 0, pp_broker := (pp_broker p)\<lparr>am_work := [], am_unacked := [], am_dlq := []\<rparr>, pp_world := ?w\<rparr>"
  have first: "checkout uuid toISO ?inp w = (Inr (committed_result ?inp (w_db w)), ?w)" by (rule demo_checkout_placed [OF w])
  have "stage uid ?ev k False 0 0 ?p0" by (rule demo_stage [OF w(2) refl]) (use w p in simp_all)
  from stage_relay [OF this url, of jp True] obtain p1
    where p1: "relayP jp url alone_env (user_relay True (show_int uid)) ?p0 = (Inl RelayCrashedError, p1)" "stage uid ?ev k False 0 1 p1" by auto
  obtain p2 where p2: "turns ts between p1 = (Inr (), p2)" "stage uid ?ev k False (min between 1) (1 - between) p2"
    using stage_turns [OF r p1(2), of between] by auto
  from stage_relay [OF p2(2) url, of jp False] obtain p3
    where p3: "relayP jp url alone_env (user_relay False (show_int uid)) p2 = (Inr 1, p3)" "stage uid ?ev k True (min between 1) (Suc (1 - between)) p3" by auto
  have ne: "sleeps \<noteq> []" using sleeps by (auto simp: min_def split: if_splits)
  obtain p4 where p4: "waitUntil (bindE (demo_counts (show_int uid)) (\<lambda>c. returnE (2 \<le> dc_deliveries c \<and> dc_applied c = 1
      \<and> dc_effect c = 1 \<and> dc_processed c = 1))) ''duplicate delivery collapsed to one effect'' (map (turns ts) sleeps) p3 = (Inr (), p4)"
      "stage uid ?ev k True 2 0 p4"
    using stage_wait [OF r fits _ _ _ p3(2) _ ne, of 2 "\<lambda>c. 2 \<le> dc_deliveries c \<and> dc_applied c = 1 \<and> dc_effect c = 1 \<and> dc_processed c = 1"]
      sleeps by (auto simp: min_def split: if_splits)
  note c = stage_counts [OF p4(2) fits]
  have "demo_crash_relay uuid toISO ts jp url alone_env between sleeps p = (Inr (\<lparr>dc_orders = 1, dc_outbox = 1, dc_published = 1,
      dc_deliveries = 2, dc_effect = 1, dc_processed = 1, dc_applied = 1\<rparr>, 0), p4)"
    by (simp add: demo_crash_relay_def bindE_def [of prepareOutboxDemo] prep bindE_def [of "brokerP _"] prepareBroker_run [OF url]
        finallyE_stop) (simp add: bindE_def catchE_def worldP_def first p1(1) p2(1) p3(1) p4(1) [unfolded bindE_def] c)
  then show ?thesis using p4(2) by (auto simp: stage_def)
qed

section \<open>Witnesses\<close>

lemma idle_room: "w_sched (pp_world idle_pipe) = []" "room 2 (w_db (pp_world idle_pipe))" "keys_owned (w_db (pp_world idle_pipe))"
  "am_faults (pp_broker idle_pipe) = []"
  using shop_ok by (simp_all add: idle_pipe_def shop_world_def room_def keys_owned_def fresh_broker_def) (simp_all add: shop_def fits_int8_def int8_max_def)

lemma test_url: "requireBrokerUrl (Some ''amqp://b'') = Inr ''amqp://b''"
  by code_simp

lemma test_uuid_valid: "\<forall>n. \<not> isl (pg_uuid (test_uuid n))"
proof
  fix n :: nat
  have "\<forall>i \<in> set [0..<10]. \<not> isl (pg_uuid (test_uuid i))" by code_simp
  moreover have "test_uuid n = test_uuid (n mod 10)" by (simp add: test_uuid_def)
  ultimately show "\<not> isl (pg_uuid (test_uuid n))" by (metis atLeastLessThan_iff bot_nat_0.extremum mod_less_divisor set_upt zero_less_numeral)
qed

theorem demo_crash_write_clean_witness:
  "\<exists>p'. demo_crash_write test_uuid test_iso no_parse (Some ''amqp://b'') alone_env idle_pipe = (Inr (\<lparr>dc_orders = 0, dc_outbox = 0,
     dc_published = 0, dc_deliveries = 0, dc_effect = 0, dc_processed = 0, dc_applied = 0\<rparr>, 0), p') \<and> am_work (pp_broker p') = []"
  by (rule demo_crash_write_clean [OF idle_room(1-3) test_url])

lemma test_times_valid: "\<forall>n. \<not> isl (test_ts (test_iso n))"
  by (simp add: test_ts_def test_iso_def)

text \<open>The consumer sleeps through the first poll.\<close>

theorem demo_outbox_once_witness:
  "\<exists>p'. demo_outbox test_uuid test_iso test_ts no_parse (Some ''amqp://b'') alone_env [0, 3, 0] idle_pipe = (Inr (\<lparr>dc_orders = 1,
     dc_outbox = 1, dc_published = 1, dc_deliveries = 1, dc_effect = 1, dc_processed = 1, dc_applied = 1\<rparr>, 0), p') \<and> am_work (pp_broker p') = []"
  by (rule demo_outbox_once [OF idle_room test_url test_uuid_valid test_times_valid]) simp

text \<open>The first copy is consumed between the two runs of the relay.\<close>

theorem demo_crash_relay_once_witness:
  "\<exists>p'. demo_crash_relay test_uuid test_iso test_ts no_parse (Some ''amqp://b'') alone_env 1 [0, 1, 0] idle_pipe = (Inr (\<lparr>dc_orders = 1,
     dc_outbox = 1, dc_published = 1, dc_deliveries = 2, dc_effect = 1, dc_processed = 1, dc_applied = 1\<rparr>, 0), p') \<and> am_work (pp_broker p') = []"
  by (rule demo_crash_relay_once [OF idle_room test_url test_uuid_valid test_times_valid]) simp

end
