(* ===== verification/MessagingDemo.thy ===== *)
theory MessagingDemo
  imports OutboxDemoRun
begin

text \<open>
  The programs that show the consumer at work, on the state of the pipeline: \<open>src/demo/demo-publish.ts\<close>,
  \<open>demo-dlq.ts\<close> and \<open>demo-duplicate.ts\<close> with \<open>publishRaw\<close> of \<open>demo-messaging-shared.ts\<close>. The consumer takes its turns
  while the program sleeps or waits for the broker; how many, is an argument. A turn handles one message
  to its end.
\<close>

section \<open>Shared\<close>

definition storeP :: "(effect_store, thrown, 'a) exec \<Rightarrow> (pipeline, thrown, 'a) exec" where
  "storeP m p = (case m \<lparr>st_world = pp_world p, st_successfulApplies = pp_applies p\<rparr> of
     (r, s) \<Rightarrow> (r, p\<lparr>pp_world := st_world s, pp_applies := st_successfulApplies s\<rparr>))"

text \<open>A demo opens its own effect store and its own consumer, whose counters start at zero.\<close>

definition openDemoDb :: "(pipeline, thrown, unit) exec" where
  "openDemoDb p = (Inr (), p\<lparr>pp_applies := 0, pp_rejected := 0\<rparr>)"

definition publishRaw :: "'b broker_ops \<Rightarrow> order_placed_event \<Rightarrow> ('b, thrown, unit) exec" where
  "publishRaw ops event =
     bindE (createConfirmChannel_op ops) (\<lambda>_.
     finallyE
       (bindE (publish_op ops \<lparr>bm_exchange = EVENTS_EXCHANGE, bm_key = ORDER_PLACED_KEY, bm_body = event_json event,
          bm_messageId = ev_eventId event\<rparr>) (\<lambda>_. waitForConfirms_op ops))
       (closeChannel_op ops))"

text \<open>\<open>connectBroker\<close> with \<open>createChannel\<close>, and the closing of both.\<close>

definition openChannel :: "'b broker_ops \<Rightarrow> 'b topology_ops \<Rightarrow> string option \<Rightarrow> ('b, thrown, unit) exec" where
  "openChannel ops ch env_url =
     bindE (liftE (requireBrokerUrl env_url)) (\<lambda>_. bindE (connect_op ops) (\<lambda>_. createChannel_op ch))"

definition closeBoth :: "'b broker_ops \<Rightarrow> ('b, thrown, unit) exec" where
  "closeBoth ops = bindE (closeChannel_op ops) (\<lambda>_. closeConnection_op ops)"

definition demo_event :: "string \<Rightarrow> int \<Rightarrow> bool \<Rightarrow> event_input" where
  "demo_event orderId cents poison = \<lparr>in_orderId = orderId, in_userId = ''demo-user'', in_totalCents = cents,
     in_eventId = None, in_occurredAt = None, in_poison = poison\<rparr>"

section \<open>demo-publish\<close>

definition demo_publish ::
  "(nat \<Rightarrow> string) \<Rightarrow> (nat \<Rightarrow> string) \<Rightarrow> (string \<Rightarrow> thrown + string) \<Rightarrow> string option \<Rightarrow> (order_placed_event \<Rightarrow> nat) \<Rightarrow> nat list
    \<Rightarrow> (pipeline, thrown, effect_counts \<times> nat) exec" where
  "demo_publish uuid toISO ts url gaps sleeps =
     bindE openDemoDb (\<lambda>_.
     bindE (brokerP (prepareBroker amqp_ops amqp_topology url)) (\<lambda>_.
     bindE (storeP reset_store) (\<lambda>_.
     bindE (forE [0..<5] (\<lambda>index. worldP (createOrderPlacedEvent uuid toISO
       (demo_event (''demo-order-'' @ show_nat (index + 1)) (1000 + int index) False)))) (\<lambda>events.
     bindE (forE events (\<lambda>event. bindE (brokerP (publishRaw amqp_ops event)) (\<lambda>_. turns ts (gaps event)))) (\<lambda>_.
     bindE (waitUntil (bindE (storeP counts) (\<lambda>c. returnE (ec_effect c = 5 \<and> ec_acked c = 5)))
       ''effect=5 and acked=5'' (map (turns ts) sleeps)) (\<lambda>_.
     bindE (brokerP (queueDepth amqp_topology ORDER_PLACED_QUEUE)) (\<lambda>work.
     bindE (brokerP (queueDepth amqp_topology ORDER_PLACED_DLQ)) (\<lambda>dlq.
     bindE (storeP counts) (\<lambda>c.
     bindE (brokerP (stopConsumer amqp_ops amqp_topology)) (\<lambda>_.
     returnE (c, if length events = 5 \<and> ec_deliveries c = 5 \<and> ec_effect c = 5 \<and> ec_acked c = 5 \<and> dlq = 0 \<and> work = 0
       \<and> 1 \<le> PREFETCH \<and> PREFETCH \<le> 2000 then 0 else 1)))))))))))"

section \<open>demo-dlq\<close>

definition deathReason :: "json option \<Rightarrow> string" where
  "deathReason headers =
     (case Option.bind headers (\<lambda>h. json_field h ''x-first-death-reason'') of
        Some (JsString first) \<Rightarrow> first
      | _ \<Rightarrow>
          (case Option.bind headers (\<lambda>h. json_field h ''x-death'') of
             Some (JsArr (death # _)) \<Rightarrow> (case json_field death ''reason'' of Some (JsString reason) \<Rightarrow> reason | _ \<Rightarrow> [])
           | _ \<Rightarrow> []))"

text \<open>\<open>channel.get\<close> of the dead-letter queue, and the return of the message with \<open>nack\<close>.\<close>

definition amqp_get_dlq :: "(amqp, thrown, broker_message option) exec" where
  "amqp_get_dlq b = (case am_dlq b of [] \<Rightarrow> (Inr None, b) | m # ms \<Rightarrow> (Inr (Some m), b\<lparr>am_dlq := ms\<rparr>))"

definition amqp_return_dlq :: "broker_message \<Rightarrow> (amqp, thrown, unit) exec" where
  "amqp_return_dlq m b = (Inr (), b\<lparr>am_dlq := m # am_dlq b\<rparr>)"

record dlq_report =
  dr_rejected :: int
  dr_work :: nat
  dr_dlq :: nat
  dr_reason :: string
  dr_effect :: int
  dr_exitCode :: nat

definition allowed_reasons :: "string list" where
  "allowed_reasons = [''rejected'', ''expired'', ''maxlen'', ''delivery_limit'']"

definition demo_dlq ::
  "(nat \<Rightarrow> string) \<Rightarrow> (nat \<Rightarrow> string) \<Rightarrow> (string \<Rightarrow> thrown + string) \<Rightarrow> string option \<Rightarrow> (broker_message \<Rightarrow> json option)
    \<Rightarrow> nat list \<Rightarrow> nat \<Rightarrow> (pipeline, thrown, dlq_report option) exec" where
  "demo_dlq uuid toISO ts url headers sleeps polls =
     bindE openDemoDb (\<lambda>_.
     bindE (brokerP (prepareBroker amqp_ops amqp_topology url)) (\<lambda>_.
     bindE (storeP reset_store) (\<lambda>_.
     bindE (worldP (createOrderPlacedEvent uuid toISO (demo_event ''demo-poison'' 1 True))) (\<lambda>poison.
     bindE (brokerP (publishRaw amqp_ops poison)) (\<lambda>_.
     bindE (waitUntil (bindE (brokerP (queueDepth amqp_topology ORDER_PLACED_DLQ)) (\<lambda>dlq. returnE (1 \<le> dlq)))
       ''message in DLQ'' (map (turns ts) sleeps)) (\<lambda>_.
     bindE (brokerP (stopConsumer amqp_ops amqp_topology)) (\<lambda>_.
     bindE (brokerP (openChannel amqp_ops amqp_topology url)) (\<lambda>_.
     bindE (brokerP amqp_get_dlq) (\<lambda>got.
     case got of
       None \<Rightarrow> bindE (brokerP (closeBoth amqp_ops)) (\<lambda>_. returnE None)
     | Some msg \<Rightarrow>
     let reason = deathReason (headers msg) in
     bindE (brokerP (amqp_return_dlq msg)) (\<lambda>_.
     bindE (waitUntil (bindE (brokerP (queueDepth amqp_topology ORDER_PLACED_DLQ)) (\<lambda>dlq. returnE (1 \<le> dlq)))
       ''message returned to DLQ'' (replicate polls (returnE ()))) (\<lambda>_.
     bindE (brokerP (queueDepth amqp_topology ORDER_PLACED_QUEUE)) (\<lambda>work.
     bindE (brokerP (queueDepth amqp_topology ORDER_PLACED_DLQ)) (\<lambda>dlq.
     bindE (storeP counts) (\<lambda>c.
     bindE (brokerP (closeBoth amqp_ops)) (\<lambda>_ p.
     (Inr (Some \<lparr>dr_rejected = pp_rejected p, dr_work = work, dr_dlq = dlq, dr_reason = reason, dr_effect = ec_effect c,
        dr_exitCode = (if pp_rejected p = 1 \<and> work = 0 \<and> dlq = 1 \<and> ec_effect c = 0 \<and> reason \<in> set allowed_reasons
          then 0 else 1)\<rparr>), p))))))))))))))))"

section \<open>demo-duplicate\<close>

text \<open>
  The worker of \<open>--crash-worker\<close> takes the next message, is killed before the acknowledgement when it applied
  the effect, and its connection is gone: what it held returns to the queue. A worker that is not killed
  never exits; the program that waits for it is given an error instead.
\<close>

definition crash_delivery :: "(string \<Rightarrow> thrown + string) \<Rightarrow> (pipeline, thrown, unit) exec" where
  "crash_delivery ts p =
     (case am_work (pp_broker p) of
        [] \<Rightarrow> (Inl (PlainError ''the crash worker does not exit''), p)
      | m # rest \<Rightarrow>
          (case handle_message ts amqp_channel True
              (Some \<lparr>cm_tag = am_tag (pp_broker p), cm_content = Some (bm_body m)\<rparr>)
              \<lparr>cs_store = \<lparr>st_world = pp_world p, st_successfulApplies = 0\<rparr>,
               cs_channel = amqp_deliver m rest (pp_broker p), cs_rejected = 0, cs_killed = False\<rparr> of
             (_, s) \<Rightarrow>
               if cs_killed s then (Inr (), p\<lparr>pp_world := st_world (cs_store s), pp_broker := amqp_requeue (cs_channel s)\<rparr>)
               else (Inl (PlainError ''the crash worker does not exit''),
                 p\<lparr>pp_world := st_world (cs_store s), pp_broker := cs_channel s\<rparr>)))"

definition crashWorker :: "(string \<Rightarrow> thrown + string) \<Rightarrow> string option \<Rightarrow> (pipeline, thrown, unit) exec" where
  "crashWorker ts url =
     bindE (brokerP (openChannel amqp_ops amqp_topology url)) (\<lambda>_.
     bindE (brokerP (assertTopology amqp_topology)) (\<lambda>_.
     crash_delivery ts))"

definition demo_duplicate ::
  "(nat \<Rightarrow> string) \<Rightarrow> (nat \<Rightarrow> string) \<Rightarrow> (string \<Rightarrow> thrown + string) \<Rightarrow> string option \<Rightarrow> nat \<Rightarrow> nat list
    \<Rightarrow> (pipeline, thrown, effect_counts \<times> nat) exec" where
  "demo_duplicate uuid toISO ts url polls sleeps =
     bindE openDemoDb (\<lambda>_.
     bindE (brokerP (prepareBroker amqp_ops amqp_topology url)) (\<lambda>_.
     bindE (storeP reset_store) (\<lambda>_.
     bindE (worldP (createOrderPlacedEvent uuid toISO (demo_event ''demo-dup-order'' 4200 False))) (\<lambda>event.
     bindE (brokerP (publishRaw amqp_ops event)) (\<lambda>_.
     bindE (crashWorker ts url) (\<lambda>_.
     bindE (waitUntil (bindE (storeP counts) (\<lambda>c. returnE (ec_effect c = 1)))
       ''first effect applied before crash'' (replicate polls (returnE ()))) (\<lambda>_.
     bindE (brokerP (openChannel amqp_ops amqp_topology url)) (\<lambda>_.
     bindE (brokerP (assertTopology amqp_topology)) (\<lambda>_.
     bindE (waitUntil (bindE (storeP counts) (\<lambda>c. returnE (2 \<le> ec_deliveries c \<and> ec_acked c = 1)))
       ''second delivery acked'' (map (turns ts) sleeps)) (\<lambda>_.
     bindE (storeP counts) (\<lambda>c.
     bindE (brokerP (stopConsumer amqp_ops amqp_topology)) (\<lambda>_.
     bindE (brokerP (closeBoth amqp_ops)) (\<lambda>_.
     returnE (c, if 2 \<le> ec_deliveries c \<and> ec_effect c = 1 then 0 else 1))))))))))))))"

section \<open>The parts\<close>

lemma storeP_counts:
  assumes "w_sched (pp_world p) = []"
  shows "storeP counts p = (Inr \<lparr>ec_deliveries = int (length (order_placed_deliveries (w_db (pp_world p)))),
    ec_effect = int (length (order_placed_effects (w_db (pp_world p)))),
    ec_acked = int (length (filter (\<lambda>r. e_acked_at r \<noteq> None) (order_placed_effects (w_db (pp_world p))))),
    ec_skipped = max 0 (int (length (order_placed_deliveries (w_db (pp_world p)))) - int (length (order_placed_effects (w_db (pp_world p)))))\<rparr>, p)"
  using assms by (simp add: storeP_def counts_def bindE_def storeW_def sql_count_def query_run)

lemma reset_run:
  assumes "w_sched (pp_world p) = []"
  shows "storeP reset_store p = (Inr (), p\<lparr>pp_world := (pp_world p)\<lparr>w_db := snd (sql_truncate_effects (w_db (pp_world p)))\<rparr>, pp_applies := 0\<rparr>)"
  using assms by (simp add: storeP_def reset_store_def bindE_def storeW_def sql_truncate_effects_def query_run)

lemma publishRaw_run:
  assumes "am_faults (pp_broker p) = []"
  shows "brokerP (publishRaw amqp_ops ev) p = (Inr (), p\<lparr>pp_broker := amqp_route (order_message (event_json ev)) (pp_broker p)\<rparr>)"
proof -
  have "\<lparr>bm_exchange = EVENTS_EXCHANGE, bm_key = ORDER_PLACED_KEY, bm_body = event_json ev, bm_messageId = ev_eventId ev\<rparr>
      = order_message (event_json ev)" by (simp add: order_message_def)
  then show ?thesis using assms
    by (simp add: brokerP_def publishRaw_def bindE_def finallyE_def amqp_ops_def amqp_publish_def amqp_confirm_def amqp_route_def)
qed

lemma depth_run:
  "brokerP (queueDepth amqp_topology ORDER_PLACED_QUEUE) p = (Inr (length (am_work (pp_broker p))), p)"
  "brokerP (queueDepth amqp_topology ORDER_PLACED_DLQ) p = (Inr (length (am_dlq (pp_broker p))), p)"
  by (simp_all add: brokerP_def queueDepth_def amqp_topology_def)

lemma stop_run: "brokerP (stopConsumer amqp_ops amqp_topology) p = (Inr (), p)"
  by (simp add: brokerP_def stopConsumer_def bindE_def catchE_def amqp_ops_def amqp_topology_def)

lemma openChannel_run: "requireBrokerUrl url = Inr u \<Longrightarrow> brokerP (openChannel amqp_ops amqp_topology url) p = (Inr (), p)"
  by (simp add: brokerP_def openChannel_def bindE_def liftE_def amqp_ops_def amqp_topology_def)

lemma close_run: "brokerP (closeBoth amqp_ops) p = (Inr (), p)"
  by (simp add: brokerP_def closeBoth_def bindE_def amqp_ops_def)

lemma assert_run: "brokerP (assertTopology amqp_topology) p = (Inr (), p)"
  by (simp add: brokerP_def assertTopology_def bindE_def amqp_topology_def)

lemma consumer_turn_run:
  assumes "readable ts ev k" and "w_sched (pp_world p) = []" and "am_work (pp_broker p) = order_message (event_json ev) # rest"
    and "am_unacked (pp_broker p) = []"
  shows "\<exists>t. consumer_turn ts p = p\<lparr>pp_world := (pp_world p)\<lparr>w_db := consumed_db k (ev_orderId ev, t) (w_db (pp_world p))\<rparr>,
      pp_applies := pp_applies p + (if k \<in> e_event_id ` set (order_placed_effects (w_db (pp_world p))) then 0 else 1),
      pp_broker := (pp_broker p)\<lparr>am_work := rest, am_unacked := [], am_tag := Suc (am_tag (pp_broker p))\<rparr>\<rparr>"
proof -
  obtain t where t: "ts (ev_occurredAt ev) = Inr t" using assms(1) by (cases "ts (ev_occurredAt ev)") (auto simp: readable_def)
  have body: "bm_body (order_message (event_json ev)) = event_json ev" by (simp add: order_message_def)
  show ?thesis
    using assms(1,2,4) t unfolding consumer_turn_def assms(3) list.case body
    by (intro exI [of _ t], subst handle_event [where k = k and t = t]) (simp_all add: readable_def amqp_deliver_def amqp_channel_def)
qed

section \<open>A stream of events\<close>

text \<open>The events \<open>es\<close> with the keys \<open>ks\<close> are published, the first \<open>n\<close> of them consumed.\<close>

definition flow :: "order_placed_event list \<Rightarrow> string list \<Rightarrow> nat \<Rightarrow> pipeline \<Rightarrow> bool" where
  "flow es ks n p \<longleftrightarrow> n \<le> length es \<and> w_sched (pp_world p) = [] \<and> am_faults (pp_broker p) = [] \<and> am_unacked (pp_broker p) = []
     \<and> am_dlq (pp_broker p) = [] \<and> am_work (pp_broker p) = map (\<lambda>e. order_message (event_json e)) (drop n es)
     \<and> length (order_placed_deliveries (w_db (pp_world p))) = n
     \<and> map e_event_id (order_placed_effects (w_db (pp_world p))) = take n ks
     \<and> (\<forall>r \<in> set (order_placed_effects (w_db (pp_world p))). e_acked_at r \<noteq> None)"

lemma consumed_db_new:
  assumes "k \<notin> e_event_id ` set (order_placed_effects d)"
  shows "order_placed_effects (consumed_db k v d) = order_placed_effects d
      @ [\<lparr>e_event_id = k, e_order_id = fst v, e_occurred_at = snd v, e_acked_at = Some (now d)\<rparr>]"
    and "length (order_placed_deliveries (consumed_db k v d)) = Suc (length (order_placed_deliveries d))"
proof -
  have "map (\<lambda>r. if e_event_id r = k \<and> e_acked_at r = None then r\<lparr>e_acked_at := Some (now d)\<rparr> else r) (order_placed_effects d)
      = order_placed_effects d" using assms by (intro map_idI) auto
  then show "order_placed_effects (consumed_db k v d) = order_placed_effects d
      @ [\<lparr>e_event_id = k, e_order_id = fst v, e_occurred_at = snd v, e_acked_at = Some (now d)\<rparr>]"
    using assms by (simp add: consumed_db_def apply_rows_def Let_def)
qed (simp add: consumed_db_def apply_rows_def Let_def)

lemma flow_turn:
  assumes r: "list_all2 (readable ts) es ks" and dist: "distinct ks" and p: "flow es ks n p" and n: "n < length es"
  shows "flow es ks (Suc n) (consumer_turn ts p)"
proof -
  let ?d = "w_db (pp_world p)" and ?k = "ks ! n" and ?e = "es ! n"
  have len: "length ks = length es" using list_all2_lengthD [OF r] by simp
  have rd: "readable ts ?e ?k" using r n by (simp add: list_all2_nthD)
  have work: "am_work (pp_broker p) = order_message (event_json ?e) # map (\<lambda>e. order_message (event_json e)) (drop (Suc n) es)"
    using p n by (simp add: flow_def Cons_nth_drop_Suc [symmetric])
  obtain t where t: "consumer_turn ts p = p\<lparr>pp_world := (pp_world p)\<lparr>w_db := consumed_db ?k (ev_orderId ?e, t) ?d\<rparr>,
      pp_applies := pp_applies p + (if ?k \<in> e_event_id ` set (order_placed_effects ?d) then 0 else 1),
      pp_broker := (pp_broker p)\<lparr>am_work := map (\<lambda>e. order_message (event_json e)) (drop (Suc n) es), am_unacked := [],
        am_tag := Suc (am_tag (pp_broker p))\<rparr>\<rparr>"
    using consumer_turn_run [OF rd _ work] p by (auto simp: flow_def)
  have "distinct (take n ks @ ?k # drop (Suc n) ks)" using dist n len by (simp add: id_take_nth_drop [symmetric])
  then have "?k \<notin> set (take n ks)" by simp
  moreover have "e_event_id ` set (order_placed_effects ?d) = set (take n ks)" using p unfolding flow_def by (metis set_map)
  ultimately have new: "?k \<notin> e_event_id ` set (order_placed_effects ?d)" by simp
  show ?thesis using p n len consumed_db_new [OF new] unfolding t by (auto simp: flow_def take_Suc_conv_app_nth)
qed

lemma flow_turns:
  assumes "list_all2 (readable ts) es ks" and "distinct ks"
  shows "flow es ks n p \<Longrightarrow> \<exists>p'. turns ts j p = (Inr (), p') \<and> flow es ks (min (n + j) (length es)) p'"
proof (induction j arbitrary: p n)
  case 0
  then show ?case by (simp add: turns_def flow_def min_absorb1)
next
  case (Suc j)
  have step: "turns ts (Suc j) p = turns ts j (consumer_turn ts p)" by (simp add: turns_def funpow_swap1)
  show ?case
  proof (cases "n < length es")
    case True
    then show ?thesis using Suc.IH [OF flow_turn [OF assms Suc.prems True]] step by simp
  next
    case False
    then have "consumer_turn ts p = p" "n = length es" using Suc.prems by (simp_all add: consumer_turn_def flow_def)
    then show ?thesis using Suc.IH [OF Suc.prems] step by simp
  qed
qed

lemma flow_publish:
  assumes "flow es ks n p" and "length ks = length es"
  shows "\<exists>p'. brokerP (publishRaw amqp_ops e) p = (Inr (), p') \<and> flow (es @ [e]) (ks @ [k]) n p'"
  using assms by (subst publishRaw_run) (auto simp: flow_def amqp_route_def order_message_def)

lemma flow_counts:
  assumes "flow es ks n p" and "length ks = length es"
  shows "storeP counts p = (Inr \<lparr>ec_deliveries = int n, ec_effect = int n, ec_acked = int n, ec_skipped = 0\<rparr>, p)"
proof -
  have "length (order_placed_effects (w_db (pp_world p))) = n" using assms unfolding flow_def by (metis length_map length_take min.absorb2)
  moreover have "filter (\<lambda>r. e_acked_at r \<noteq> None) (order_placed_effects (w_db (pp_world p))) = order_placed_effects (w_db (pp_world p))"
    using assms(1) by (simp add: flow_def)
  ultimately show ?thesis using assms(1) by (subst storeP_counts) (simp_all add: flow_def)
qed

lemma flow_publish_all:
  assumes "list_all2 (readable ts) (es @ fs) (ks @ ls)" and "distinct (ks @ ls)" and "length ks = length es"
  shows "flow es ks n p \<Longrightarrow> \<exists>us p' m. forE fs (\<lambda>e. bindE (brokerP (publishRaw amqp_ops e)) (\<lambda>_. turns ts (gaps e))) p = (Inr us, p')
    \<and> flow (es @ fs) (ks @ ls) m p'"
  using assms
proof (induction fs arbitrary: es ks ls n p)
  case Nil
  then show ?case by (auto dest!: list_all2_lengthD)
next
  case (Cons f fs)
  have len: "length ls = Suc (length fs)" using list_all2_lengthD [OF Cons.prems(2)] Cons.prems(4) by simp
  then obtain l ls' where ls: "ls = l # ls'" by (cases ls) auto
  have split: "list_all2 (readable ts) (es @ [f]) (ks @ [l])"
    using Cons.prems(2,4) unfolding ls by (simp add: list_all2_append)
  obtain p1 where p1: "brokerP (publishRaw amqp_ops f) p = (Inr (), p1)" "flow (es @ [f]) (ks @ [l]) n p1"
    using flow_publish [OF Cons.prems(1,4)] by blast
  obtain p2 m where p2: "turns ts (gaps f) p1 = (Inr (), p2)" "flow (es @ [f]) (ks @ [l]) m p2"
    using flow_turns [OF split _ p1(2), of "gaps f"] Cons.prems(3) unfolding ls by auto
  have "\<exists>us p' m. forE fs (\<lambda>e. bindE (brokerP (publishRaw amqp_ops e)) (\<lambda>_. turns ts (gaps e))) p2 = (Inr us, p')
      \<and> flow ((es @ [f]) @ fs) ((ks @ [l]) @ ls') m p'"
    by (rule Cons.IH [OF p2(2)]) (use Cons.prems(2-4) ls in auto)
  then show ?case by (auto simp: bindE_def p1(1) p2(1) ls)
qed

lemma flow_wait:
  assumes "list_all2 (readable ts) es ks" and "distinct ks"
  shows "flow es ks n p \<Longrightarrow> sleeps \<noteq> [] \<Longrightarrow> length es - n \<le> sum_list (butlast sleeps) \<Longrightarrow>
    \<exists>p'. waitUntil (bindE (storeP counts) (\<lambda>c. returnE (ec_effect c = int (length es) \<and> ec_acked c = int (length es)))) label (map (turns ts) sleeps) p
      = (Inr (), p') \<and> flow es ks (length es) p'"
proof (induction sleeps arbitrary: n p)
  case (Cons j sleeps)
  have len: "length ks = length es" using list_all2_lengthD [OF assms(1)] by simp
  note c = flow_counts [OF Cons.prems(1) len]
  show ?case
  proof (cases "n = length es")
    case True
    then show ?thesis using Cons.prems(1) by (simp add: bindE_def c)
  next
    case False
    have le: "n \<le> length es" using Cons.prems(1) by (simp add: flow_def)
    obtain p1 where p1: "turns ts j p = (Inr (), p1)" "flow es ks (min (n + j) (length es)) p1"
      using flow_turns [OF assms Cons.prems(1)] by blast
    have ne: "sleeps \<noteq> []" using Cons.prems(3) False le by auto
    then have "length es - min (n + j) (length es) \<le> sum_list (butlast sleeps)" using Cons.prems(3) by simp
    from Cons.IH [OF p1(2) ne this] show ?thesis using False by (simp add: bindE_def c p1(1))
  qed
qed simp

definition published_events :: "(nat \<Rightarrow> string) \<Rightarrow> (nat \<Rightarrow> string) \<Rightarrow> world \<Rightarrow> order_placed_event list" where
  "published_events uuid toISO w = map (\<lambda>i. \<lparr>ev_eventId = uuid (w_rng w + i), ev_occurredAt = toISO (now (w_db w)),
     ev_orderId = ''demo-order-'' @ show_nat (i + 1), ev_userId = ''demo-user'', ev_totalCents = 1000 + int i, ev_poison = False\<rparr>) [0..<5]"

lemma length_published_events [simp]: "length (published_events uuid toISO w) = 5"
  by (simp add: published_events_def)

lemma create_events:
  "forE [0..<5] (\<lambda>index. worldP (createOrderPlacedEvent uuid toISO
      (demo_event (''demo-order-'' @ show_nat (index + 1)) (1000 + int index) False))) p
   = (Inr (published_events uuid toISO (pp_world p)), p\<lparr>pp_world := (pp_world p)\<lparr>w_rng := w_rng (pp_world p) + 5\<rparr>\<rparr>)"
proof -
  have "[0..<5] = [0, 1, 2, 3, 4 :: nat]" by (simp add: upt_rec)
  then show ?thesis by (simp add: published_events_def bindE_def worldP_def createOrderPlacedEvent_def demo_event_def numeral_eq_Suc)
qed

text \<open>
  Every published event is consumed once: on any database and with a broker that confirms, \<open>demo-publish\<close>
  counts five deliveries, effects and acknowledgements for its five events, ends with empty queues and exits
  with code 0, wherever the consumer takes its turns, as long as it takes five before the last poll.
\<close>

theorem demo_publish_all:
  assumes p: "w_sched (pp_world p) = []" "am_faults (pp_broker p) = []" and url: "requireBrokerUrl url = Inr u"
    and uuid: "\<forall>n. \<not> isl (pg_uuid (uuid n))" "distinct (map (\<lambda>i. pg_uuid (uuid (w_rng (pp_world p) + i))) [0..<5])"
    and ts: "\<forall>n. \<not> isl (ts (toISO n))" and sleeps: "5 \<le> sum_list (butlast sleeps)"
  shows "\<exists>p'. demo_publish uuid toISO ts url gaps sleeps p
    = (Inr (\<lparr>ec_deliveries = 5, ec_effect = 5, ec_acked = 5, ec_skipped = 0\<rparr>, 0), p')"
proof -
  let ?b = "(pp_broker p)\<lparr>am_work := [], am_unacked := [], am_dlq := []\<rparr>"
  let ?p0 = "p\<lparr>pp_applies := 0, pp_rejected := 0, pp_broker := ?b\<rparr>"
  let ?p1 = "?p0\<lparr>pp_world := (pp_world p)\<lparr>w_db := snd (sql_truncate_effects (w_db (pp_world p)))\<rparr>, pp_applies := 0\<rparr>"
  let ?p2 = "?p1\<lparr>pp_world := (pp_world ?p1)\<lparr>w_rng := w_rng (pp_world ?p1) + 5\<rparr>\<rparr>"
  let ?es = "published_events uuid toISO (pp_world ?p1)"
  let ?ks = "map (\<lambda>i. projr (pg_uuid (uuid (w_rng (pp_world p) + i)))) [0..<5]"
  have key: "pg_uuid (uuid n) = Inr (projr (pg_uuid (uuid n)))" for n using uuid(1) by (cases "pg_uuid (uuid n)") (auto simp: isl_def)
  have reads: "list_all2 (readable ts) ?es ?ks"
    using key ts by (simp add: list_all2_conv_all_nth published_events_def readable_def)
  have "map (\<lambda>i. pg_uuid (uuid (w_rng (pp_world p) + i))) [0..<5] = map Inr ?ks" using key by simp
  then have dist: "distinct ?ks" using uuid(2) by (metis distinct_map)
  have "flow [] [] 0 ?p2" using p by (simp add: flow_def sql_truncate_effects_def)
  from flow_publish_all [OF _ _ _ this, of ts ?es ?ks gaps] reads dist obtain us p3 m
    where p3: "forE ?es (\<lambda>e. bindE (brokerP (publishRaw amqp_ops e)) (\<lambda>_. turns ts (gaps e))) ?p2 = (Inr us, p3)" "flow ?es ?ks m p3" by auto
  have len: "length ?es = 5" by simp
  have "sleeps \<noteq> []" "length ?es - m \<le> sum_list (butlast sleeps)" using sleeps len by auto
  from flow_wait [OF reads dist p3(2) this, of "''effect=5 and acked=5''"] obtain p4
    where p4: "waitUntil (bindE (storeP counts) (\<lambda>c. returnE (ec_effect c = 5 \<and> ec_acked c = 5))) ''effect=5 and acked=5'' (map (turns ts) sleeps) p3
      = (Inr (), p4)" "flow ?es ?ks 5 p4" using len by auto
  have ends: "am_work (pp_broker p4) = []" "am_dlq (pp_broker p4) = []" using p4(2) len by (auto simp: flow_def)
  have c: "storeP counts p4 = (Inr \<lparr>ec_deliveries = 5, ec_effect = 5, ec_acked = 5, ec_skipped = 0\<rparr>, p4)"
    using flow_counts [OF p4(2)] len by simp
  have 1: "openDemoDb p = (Inr (), p\<lparr>pp_applies := 0, pp_rejected := 0\<rparr>)" by (simp add: openDemoDb_def)
  have 2: "brokerP (prepareBroker amqp_ops amqp_topology url) (p\<lparr>pp_applies := 0, pp_rejected := 0\<rparr>) = (Inr (), ?p0)"
    by (simp add: prepareBroker_run [OF url])
  have 3: "storeP reset_store ?p0 = (Inr (), ?p1)" using p(1) by (simp add: reset_run)
  have "demo_publish uuid toISO ts url gaps sleeps p = (Inr (\<lparr>ec_deliveries = 5, ec_effect = 5, ec_acked = 5, ec_skipped = 0\<rparr>, 0), p4)"
    unfolding demo_publish_def
    by (rule bindE_step, rule 1, rule bindE_step, rule 2, rule bindE_step, rule 3, rule bindE_step, rule create_events,
        rule bindE_step, rule p3(1), rule bindE_step, rule p4(1), rule bindE_step, rule depth_run, rule bindE_step, rule depth_run,
        rule bindE_step, rule c, rule bindE_step, rule stop_run) (simp add: ends len PREFETCH_def)
  then show ?thesis by blast
qed

section \<open>A poison message\<close>

lemma parseEvent_event: "parseEvent \<lparr>cm_tag = g, cm_content = Some (event_json ev)\<rparr> = Inr (event_json ev)"
proof -
  obtain fs where "event_json ev = JsObj fs" by (simp add: event_json_def)
  moreover have "text_field (event_json ev) ''eventId'' = Some (ev_eventId ev)" "text_field (event_json ev) ''orderId'' = Some (ev_orderId ev)"
    by (simp_all add: text_field_def)
  ultimately show ?thesis by (simp add: parseEvent_def) (metis event_json_fields(2))
qed

lemma turn_poison:
  assumes "ev_poison ev" and "pg_uuid (ev_eventId ev) = Inr k" and "w_sched (pp_world p) = []"
    and work: "am_work (pp_broker p) = order_message (event_json ev) # rest" and "am_unacked (pp_broker p) = []"
  shows "consumer_turn ts p = p\<lparr>pp_world := (pp_world p)\<lparr>w_db := snd (sql_insert_delivery (ev_eventId ev) (w_db (pp_world p)))\<rparr>,
    pp_rejected := pp_rejected p + 1, pp_broker := (pp_broker p)\<lparr>am_work := rest, am_unacked := [],
      am_dlq := am_dlq (pp_broker p) @ [order_message (event_json ev)], am_tag := Suc (am_tag (pp_broker p))\<rparr>\<rparr>"
proof -
  have body: "bm_body (order_message (event_json ev)) = event_json ev" by (simp add: order_message_def)
  have "event_text (event_json ev) ''eventId'' = ev_eventId ev" by (simp add: event_text_def text_field_def)
  then show ?thesis using assms(1-3,5) unfolding consumer_turn_def work list.case body
    by (simp add: handle_message_def catchE_def process_message_def parseEvent_event bindE_def liftE_def storeE_def
        recordDelivery_def storeW_def query_run sql_insert_delivery_def js_truthy_def rejectPermanent_def channelE_def
        amqp_channel_def amqp_deliver_def)
qed

text \<open>The poison message waits in the work queue or lies in the dead-letter queue.\<close>

definition dead :: "order_placed_event \<Rightarrow> bool \<Rightarrow> pipeline \<Rightarrow> bool" where
  "dead ev f p \<longleftrightarrow> w_sched (pp_world p) = [] \<and> am_unacked (pp_broker p) = [] \<and> order_placed_effects (w_db (pp_world p)) = []
     \<and> am_work (pp_broker p) = (if f then [] else [order_message (event_json ev)])
     \<and> am_dlq (pp_broker p) = (if f then [order_message (event_json ev)] else []) \<and> pp_rejected p = (if f then 1 else 0)"

lemma dead_turns:
  assumes "ev_poison ev" and "pg_uuid (ev_eventId ev) = Inr k"
  shows "dead ev f p \<Longrightarrow> \<exists>p'. turns ts j p = (Inr (), p') \<and> dead ev (f \<or> 0 < j) p'"
proof (induction j arbitrary: p f)
  case (Suc j)
  have step: "turns ts (Suc j) p = turns ts j (consumer_turn ts p)" by (simp add: turns_def funpow_swap1)
  have "dead ev True (consumer_turn ts p)"
  proof (cases f)
    case True
    then show ?thesis using Suc.prems by (simp add: dead_def consumer_turn_def)
  next
    case False
    then show ?thesis using Suc.prems turn_poison [OF assms, of p "[]" ts] assms(2) by (simp add: dead_def sql_insert_delivery_def)
  qed
  then show ?case using Suc.IH [of True] step by simp
qed (simp add: turns_def)

lemma dead_wait:
  assumes "ev_poison ev" and "pg_uuid (ev_eventId ev) = Inr k"
  shows "dead ev f p \<Longrightarrow> sleeps \<noteq> [] \<Longrightarrow> f \<or> 0 < sum_list (butlast sleeps) \<Longrightarrow>
    \<exists>p'. waitUntil (bindE (brokerP (queueDepth amqp_topology ORDER_PLACED_DLQ)) (\<lambda>dlq. returnE (1 \<le> dlq))) label (map (turns ts) sleeps) p
      = (Inr (), p') \<and> dead ev True p'"
proof (induction sleeps arbitrary: f p)
  case (Cons j sleeps)
  show ?case
  proof (cases f)
    case True
    then show ?thesis using Cons.prems(1) by (auto simp: bindE_def depth_run dead_def)
  next
    case False
    obtain p1 where p1: "turns ts j p = (Inr (), p1)" "dead ev (f \<or> 0 < j) p1" using dead_turns [OF assms Cons.prems(1)] by blast
    have ne: "sleeps \<noteq> []" using Cons.prems(3) False by auto
    then have "(f \<or> 0 < j) \<or> 0 < sum_list (butlast sleeps)" using Cons.prems(3) by auto
    from Cons.IH [OF p1(2) ne this] show ?thesis using False Cons.prems(1) by (auto simp: bindE_def depth_run p1(1) dead_def)
  qed
qed simp

text \<open>
  A poison message is dead-lettered and has no effect: \<open>demo-dlq\<close> finds its message rejected once, in the
  dead-letter queue and not in the work queue, for the reason the broker names, and no effect; it exits with
  code 0 if the broker names one of the documented reasons.
\<close>

theorem demo_dlq_dead:
  assumes p: "w_sched (pp_world p) = []" "am_faults (pp_broker p) = []" and url: "requireBrokerUrl url = Inr u"
    and uuid: "\<forall>n. \<not> isl (pg_uuid (uuid n))" and reason: "\<forall>m. deathReason (headers m) = reason"
    and sleeps: "1 \<le> sum_list (butlast sleeps)" and polls: "0 < polls"
  shows "\<exists>p'. demo_dlq uuid toISO ts url headers sleeps polls p = (Inr (Some \<lparr>dr_rejected = 1, dr_work = 0, dr_dlq = 1,
    dr_reason = reason, dr_effect = 0, dr_exitCode = (if reason \<in> set allowed_reasons then 0 else 1)\<rparr>), p')"
proof -
  let ?b = "(pp_broker p)\<lparr>am_work := [], am_unacked := [], am_dlq := []\<rparr>"
  let ?p0 = "p\<lparr>pp_applies := 0, pp_rejected := 0, pp_broker := ?b\<rparr>"
  let ?p1 = "?p0\<lparr>pp_world := (pp_world p)\<lparr>w_db := snd (sql_truncate_effects (w_db (pp_world p)))\<rparr>, pp_applies := 0\<rparr>"
  let ?p2 = "?p1\<lparr>pp_world := (pp_world ?p1)\<lparr>w_rng := Suc (w_rng (pp_world ?p1))\<rparr>\<rparr>"
  let ?ev = "\<lparr>ev_eventId = uuid (w_rng (pp_world p)), ev_occurredAt = toISO (now (w_db (pp_world ?p1))), ev_orderId = ''demo-poison'',
    ev_userId = ''demo-user'', ev_totalCents = 1, ev_poison = True\<rparr>"
  let ?p3 = "?p2\<lparr>pp_broker := amqp_route (order_message (event_json ?ev)) (pp_broker ?p2)\<rparr>"
  obtain k where k: "pg_uuid (ev_eventId ?ev) = Inr k" using uuid by (metis order_placed_event.select_convs(1) sum.collapse(2))
  have 1: "openDemoDb p = (Inr (), p\<lparr>pp_applies := 0, pp_rejected := 0\<rparr>)" by (simp add: openDemoDb_def)
  have 2: "brokerP (prepareBroker amqp_ops amqp_topology url) (p\<lparr>pp_applies := 0, pp_rejected := 0\<rparr>) = (Inr (), ?p0)"
    by (simp add: prepareBroker_run [OF url])
  have 3: "storeP reset_store ?p0 = (Inr (), ?p1)" using p(1) by (simp add: reset_run)
  have 4: "worldP (createOrderPlacedEvent uuid toISO (demo_event ''demo-poison'' 1 True)) ?p1 = (Inr ?ev, ?p2)"
    by (simp add: worldP_def createOrderPlacedEvent_def demo_event_def)
  have 5: "brokerP (publishRaw amqp_ops ?ev) ?p2 = (Inr (), ?p3)" by (rule publishRaw_run) (simp add: p(2))
  have "dead ?ev False ?p3" using p by (simp add: dead_def amqp_route_def order_message_def sql_truncate_effects_def)
  then obtain p4 where 6: "waitUntil (bindE (brokerP (queueDepth amqp_topology ORDER_PLACED_DLQ)) (\<lambda>dlq. returnE (1 \<le> dlq)))
      ''message in DLQ'' (map (turns ts) sleeps) ?p3 = (Inr (), p4)" and d4: "dead ?ev True p4"
    using dead_wait [OF _ k, of False ?p3 sleeps] sleeps by fastforce
  let ?m = "order_message (event_json ?ev)"
  have 7: "brokerP amqp_get_dlq p4 = (Inr (Some ?m), p4\<lparr>pp_broker := (pp_broker p4)\<lparr>am_dlq := []\<rparr>\<rparr>)"
    using d4 by (simp add: brokerP_def amqp_get_dlq_def dead_def)
  have 8: "brokerP (amqp_return_dlq ?m) (p4\<lparr>pp_broker := (pp_broker p4)\<lparr>am_dlq := []\<rparr>\<rparr>) = (Inr (), p4)"
    using d4 by (simp add: brokerP_def amqp_return_dlq_def dead_def)
  have 9: "waitUntil (bindE (brokerP (queueDepth amqp_topology ORDER_PLACED_DLQ)) (\<lambda>dlq. returnE (1 \<le> dlq)))
      ''message returned to DLQ'' (replicate polls (returnE ())) p4 = (Inr (), p4)"
    using polls d4 by (cases polls) (auto simp: bindE_def depth_run dead_def)
  have c: "storeP counts p4 = (Inr \<lparr>ec_deliveries = int (length (order_placed_deliveries (w_db (pp_world p4)))), ec_effect = 0, ec_acked = 0,
      ec_skipped = int (length (order_placed_deliveries (w_db (pp_world p4))))\<rparr>, p4)"
    using d4 by (subst storeP_counts) (simp_all add: dead_def)
  have "demo_dlq uuid toISO ts url headers sleeps polls p = (Inr (Some \<lparr>dr_rejected = 1, dr_work = 0, dr_dlq = 1,
    dr_reason = reason, dr_effect = 0, dr_exitCode = (if reason \<in> set allowed_reasons then 0 else 1)\<rparr>), p4)"
    unfolding demo_dlq_def
    by (rule bindE_step, rule 1, rule bindE_step, rule 2, rule bindE_step, rule 3, rule bindE_step, rule 4, rule bindE_step, rule 5,
        rule bindE_step, rule 6, rule bindE_step, rule stop_run, rule bindE_step, rule openChannel_run [OF url], rule bindE_step, rule 7, unfold option.case Let_def,
        rule bindE_step, rule 8, rule bindE_step, rule 9, rule bindE_step, rule depth_run, rule bindE_step, rule depth_run,
        rule bindE_step, rule c, rule bindE_step, rule close_run) (use d4 reason in \<open>simp add: dead_def\<close>)
  then show ?thesis by blast
qed

section \<open>A consumer that is killed\<close>

lemma crashWorker_run:
  assumes url: "requireBrokerUrl url = Inr u" and r: "readable ts ev k" and "w_sched (pp_world p) = []" and work: "am_work (pp_broker p) = [order_message (event_json ev)]"
    and "am_unacked (pp_broker p) = []" and new: "order_placed_effects (w_db (pp_world p)) = []" "order_placed_deliveries (w_db (pp_world p)) = []"
  obtains d b t where "crashWorker ts url p = (Inr (), p\<lparr>pp_world := (pp_world p)\<lparr>w_db := d\<rparr>, pp_broker := b\<rparr>)"
    "order_placed_effects d = [\<lparr>e_event_id = k, e_order_id = ev_orderId ev, e_occurred_at = t, e_acked_at = None\<rparr>]"
    "length (order_placed_deliveries d) = 1" "am_work b = [order_message (event_json ev)]" "am_unacked b = []"
proof -
  obtain t where t: "ts (ev_occurredAt ev) = Inr t" using r by (cases "ts (ev_occurredAt ev)") (auto simp: readable_def)
  let ?d = "w_db (pp_world p)"
  let ?d1 = "?d\<lparr>order_placed_deliveries := [(deliveries_seq ?d, k)], deliveries_seq := deliveries_seq ?d + 1\<rparr>"
  have body: "bm_body (order_message (event_json ev)) = event_json ev" by (simp add: order_message_def)
  have fld: "event_text (event_json ev) ''eventId'' = ev_eventId ev" "event_text (event_json ev) ''orderId'' = ev_orderId ev"
    by (simp_all add: event_text_def text_field_def)
  have "valid_call ts (ev_eventId ev, ev_orderId ev, Some (JsString (ev_occurredAt ev)))"
    using r t by (simp add: valid_call_def pg_timestamptz_def readable_def)
  note eff_run = applyEffect_alone [OF _ this]
  have key: "call_key (ev_eventId ev, ev_orderId ev, Some (JsString (ev_occurredAt ev))) = k"
    "call_value ts (ev_eventId ev, ev_orderId ev, Some (JsString (ev_occurredAt ev))) = (ev_orderId ev, t)"
    using r t by (simp_all add: call_key_def call_value_def pg_timestamptz_def readable_def)
  obtain d2 where d2: "apply_rows k (ev_orderId ev, t) ?d1 = (True, d2)" using new by (simp add: apply_rows_def)
  have "crash_delivery ts p = (Inr (), p\<lparr>pp_world := (pp_world p)\<lparr>w_db := d2\<rparr>,
      pp_broker := amqp_requeue (amqp_deliver (order_message (event_json ev)) [] (pp_broker p))\<rparr>)"
    using assms(3,5) r unfolding crash_delivery_def work list.case body
    by (simp add: handle_message_def catchE_def process_message_def parseEvent_event bindE_def liftE_def storeE_def fld readable_def
        recordDelivery_def storeW_def query_run sql_insert_delivery_def js_truthy_def eff_run key d2 new)
  then have "crashWorker ts url p = (Inr (), p\<lparr>pp_world := (pp_world p)\<lparr>w_db := d2\<rparr>,
      pp_broker := amqp_requeue (amqp_deliver (order_message (event_json ev)) [] (pp_broker p))\<rparr>)"
    unfolding crashWorker_def by (intro bindE_step [OF openChannel_run [OF url]] bindE_step [OF assert_run])
  moreover have "order_placed_effects d2 = [\<lparr>e_event_id = k, e_order_id = ev_orderId ev, e_occurred_at = t, e_acked_at = None\<rparr>]"
    "length (order_placed_deliveries d2) = 1" using d2 new by (auto simp: apply_rows_def)
  ultimately show ?thesis using that assms(5) by (simp add: amqp_requeue_def amqp_deliver_def)
qed

text \<open>The event was applied without an acknowledgement; \<open>f\<close> says whether its second delivery was handled.\<close>

definition redelivered :: "order_placed_event \<Rightarrow> string \<Rightarrow> bool \<Rightarrow> pipeline \<Rightarrow> bool" where
  "redelivered ev k f p \<longleftrightarrow> w_sched (pp_world p) = [] \<and> am_unacked (pp_broker p) = []
     \<and> am_work (pp_broker p) = (if f then [] else [order_message (event_json ev)])
     \<and> length (order_placed_deliveries (w_db (pp_world p))) = (if f then 2 else 1)
     \<and> (\<exists>r. order_placed_effects (w_db (pp_world p)) = [r] \<and> e_event_id r = k \<and> (e_acked_at r \<noteq> None \<longleftrightarrow> f))"

lemma redelivered_turns:
  assumes "readable ts ev k"
  shows "redelivered ev k f p \<Longrightarrow> \<exists>p'. turns ts j p = (Inr (), p') \<and> redelivered ev k (f \<or> 0 < j) p'"
proof (induction j arbitrary: p f)
  case (Suc j)
  have step: "turns ts (Suc j) p = turns ts j (consumer_turn ts p)" by (simp add: turns_def funpow_swap1)
  have "redelivered ev k True (consumer_turn ts p)"
  proof (cases f)
    case True
    then show ?thesis using Suc.prems by (simp add: redelivered_def consumer_turn_def)
  next
    case False
    then obtain r where r: "order_placed_effects (w_db (pp_world p)) = [r]" "e_event_id r = k" "e_acked_at r = None"
      using Suc.prems by (auto simp: redelivered_def)
    obtain t where "consumer_turn ts p = p\<lparr>pp_world := (pp_world p)\<lparr>w_db := consumed_db k (ev_orderId ev, t) (w_db (pp_world p))\<rparr>,
        pp_applies := pp_applies p + 0, pp_broker := (pp_broker p)\<lparr>am_work := [], am_unacked := [], am_tag := Suc (am_tag (pp_broker p))\<rparr>\<rparr>"
      using consumer_turn_run [OF assms, of p "[]"] Suc.prems False r by (auto simp: redelivered_def)
    then show ?thesis using Suc.prems False r by (simp add: redelivered_def consumed_db_def apply_rows_def Let_def)
  qed
  then show ?case using Suc.IH [of True] step by simp
qed (simp add: turns_def)

lemma redelivered_counts:
  "redelivered ev k f p \<Longrightarrow> storeP counts p = (Inr \<lparr>ec_deliveries = (if f then 2 else 1), ec_effect = 1, ec_acked = (if f then 1 else 0),
    ec_skipped = (if f then 1 else 0)\<rparr>, p)"
  by (subst storeP_counts) (auto simp: redelivered_def)

lemma redelivered_wait:
  assumes "readable ts ev k"
  shows "redelivered ev k f p \<Longrightarrow> sleeps \<noteq> [] \<Longrightarrow> f \<or> 0 < sum_list (butlast sleeps) \<Longrightarrow>
    \<exists>p'. waitUntil (bindE (storeP counts) (\<lambda>c. returnE (2 \<le> ec_deliveries c \<and> ec_acked c = 1))) label (map (turns ts) sleeps) p
      = (Inr (), p') \<and> redelivered ev k True p'"
proof (induction sleeps arbitrary: f p)
  case (Cons j sleeps)
  note c = redelivered_counts [OF Cons.prems(1)]
  show ?case
  proof (cases f)
    case True
    then show ?thesis using Cons.prems(1) by (simp add: bindE_def c)
  next
    case False
    obtain p1 where p1: "turns ts j p = (Inr (), p1)" "redelivered ev k (f \<or> 0 < j) p1" using redelivered_turns [OF assms Cons.prems(1)] by blast
    have ne: "sleeps \<noteq> []" using Cons.prems(3) False by auto
    then have "(f \<or> 0 < j) \<or> 0 < sum_list (butlast sleeps)" using Cons.prems(3) by auto
    from Cons.IH [OF p1(2) ne this] show ?thesis using False by (simp add: bindE_def c p1(1))
  qed
qed simp

text \<open>
  (C10) A consumer that is killed between the effect and the acknowledgement causes a second delivery and no
  second effect: with a broker that confirms and redelivers what a lost connection held, \<open>demo-duplicate\<close>
  counts two deliveries, one effect, one acknowledgement and one skipped delivery, and exits with code 0, as
  long as the second consumer takes its turn before the last poll.
\<close>

theorem demo_duplicate_once:
  assumes p: "w_sched (pp_world p) = []" "am_faults (pp_broker p) = []" and url: "requireBrokerUrl url = Inr u"
    and uuid: "\<forall>n. \<not> isl (pg_uuid (uuid n))" and ts: "\<forall>n. \<not> isl (ts (toISO n))"
    and sleeps: "1 \<le> sum_list (butlast sleeps)" and polls: "0 < polls"
  shows "\<exists>p'. demo_duplicate uuid toISO ts url polls sleeps p
    = (Inr (\<lparr>ec_deliveries = 2, ec_effect = 1, ec_acked = 1, ec_skipped = 1\<rparr>, 0), p') \<and> am_work (pp_broker p') = []"
proof -
  let ?b = "(pp_broker p)\<lparr>am_work := [], am_unacked := [], am_dlq := []\<rparr>"
  let ?p0 = "p\<lparr>pp_applies := 0, pp_rejected := 0, pp_broker := ?b\<rparr>"
  let ?p1 = "?p0\<lparr>pp_world := (pp_world p)\<lparr>w_db := snd (sql_truncate_effects (w_db (pp_world p)))\<rparr>, pp_applies := 0\<rparr>"
  let ?p2 = "?p1\<lparr>pp_world := (pp_world ?p1)\<lparr>w_rng := Suc (w_rng (pp_world ?p1))\<rparr>\<rparr>"
  let ?ev = "\<lparr>ev_eventId = uuid (w_rng (pp_world p)), ev_occurredAt = toISO (now (w_db (pp_world ?p1))), ev_orderId = ''demo-dup-order'',
    ev_userId = ''demo-user'', ev_totalCents = 4200, ev_poison = False\<rparr>"
  let ?p3 = "?p2\<lparr>pp_broker := amqp_route (order_message (event_json ?ev)) (pp_broker ?p2)\<rparr>"
  obtain k where "pg_uuid (ev_eventId ?ev) = Inr k" using uuid by (metis order_placed_event.select_convs(1) sum.collapse(2))
  then have r: "readable ts ?ev k" using ts by (simp add: readable_def)
  have 1: "openDemoDb p = (Inr (), p\<lparr>pp_applies := 0, pp_rejected := 0\<rparr>)" by (simp add: openDemoDb_def)
  have 2: "brokerP (prepareBroker amqp_ops amqp_topology url) (p\<lparr>pp_applies := 0, pp_rejected := 0\<rparr>) = (Inr (), ?p0)"
    by (simp add: prepareBroker_run [OF url])
  have 3: "storeP reset_store ?p0 = (Inr (), ?p1)" using p(1) by (simp add: reset_run)
  have 4: "worldP (createOrderPlacedEvent uuid toISO (demo_event ''demo-dup-order'' 4200 False)) ?p1 = (Inr ?ev, ?p2)"
    by (simp add: worldP_def createOrderPlacedEvent_def demo_event_def)
  have 5: "brokerP (publishRaw amqp_ops ?ev) ?p2 = (Inr (), ?p3)" by (rule publishRaw_run) (simp add: p(2))
  obtain d b t where 6: "crashWorker ts url ?p3 = (Inr (), ?p3\<lparr>pp_world := (pp_world ?p3)\<lparr>w_db := d\<rparr>, pp_broker := b\<rparr>)"
    and d: "order_placed_effects d = [\<lparr>e_event_id = k, e_order_id = ev_orderId ?ev, e_occurred_at = t, e_acked_at = None\<rparr>]"
      "length (order_placed_deliveries d) = 1" "am_work b = [order_message (event_json ?ev)]" "am_unacked b = []"
    by (rule crashWorker_run [OF url r, of ?p3]) (use p in \<open>simp_all add: amqp_route_def order_message_def sql_truncate_effects_def\<close>)
  let ?p4 = "?p3\<lparr>pp_world := (pp_world ?p3)\<lparr>w_db := d\<rparr>, pp_broker := b\<rparr>"
  have d4: "redelivered ?ev k False ?p4" using d p by (simp add: redelivered_def)
  have 7: "waitUntil (bindE (storeP counts) (\<lambda>c. returnE (ec_effect c = 1))) ''first effect applied before crash''
      (replicate polls (returnE ())) ?p4 = (Inr (), ?p4)"
    using polls redelivered_counts [OF d4] by (cases polls) (simp_all add: bindE_def)
  obtain p5 where 8: "waitUntil (bindE (storeP counts) (\<lambda>c. returnE (2 \<le> ec_deliveries c \<and> ec_acked c = 1))) ''second delivery acked''
      (map (turns ts) sleeps) ?p4 = (Inr (), p5)" and d5: "redelivered ?ev k True p5"
    using redelivered_wait [OF r d4, of sleeps "''second delivery acked''"] sleeps by fastforce
  have c: "storeP counts p5 = (Inr \<lparr>ec_deliveries = 2, ec_effect = 1, ec_acked = 1, ec_skipped = 1\<rparr>, p5)"
    using redelivered_counts [OF d5] by simp
  have "demo_duplicate uuid toISO ts url polls sleeps p = (Inr (\<lparr>ec_deliveries = 2, ec_effect = 1, ec_acked = 1, ec_skipped = 1\<rparr>, 0), p5)"
    unfolding demo_duplicate_def
    by (rule bindE_step, rule 1, rule bindE_step, rule 2, rule bindE_step, rule 3, rule bindE_step, rule 4, rule bindE_step, rule 5,
        rule bindE_step, rule 6, rule bindE_step, rule 7, rule bindE_step, rule openChannel_run [OF url], rule bindE_step, rule assert_run, rule bindE_step, rule 8,
        rule bindE_step, rule c, rule bindE_step, rule stop_run, rule bindE_step, rule close_run) simp
  then show ?thesis using d5 by (auto simp: redelivered_def)
qed

theorem demo_duplicate_once_witness:
  "\<exists>p'. demo_duplicate test_uuid test_iso test_ts (Some ''amqp://b'') 1 [0, 2, 0] idle_pipe
    = (Inr (\<lparr>ec_deliveries = 2, ec_effect = 1, ec_acked = 1, ec_skipped = 1\<rparr>, 0), p') \<and> am_work (pp_broker p') = []"
  by (rule demo_duplicate_once [OF idle_room(1,4) test_url test_uuid_valid test_times_valid]) simp_all

theorem demo_publish_all_witness:
  "\<exists>p'. demo_publish test_uuid test_iso test_ts (Some ''amqp://b'') (\<lambda>_. 1) [0, 3, 2, 0] idle_pipe
    = (Inr (\<lparr>ec_deliveries = 5, ec_effect = 5, ec_acked = 5, ec_skipped = 0\<rparr>, 0), p')"
proof (rule demo_publish_all [OF idle_room(1,4) test_url test_uuid_valid _ test_times_valid])
  have "distinct (map (\<lambda>i. pg_uuid (test_uuid i)) [0..<5])" by code_simp
  then show "distinct (map (\<lambda>i. pg_uuid (test_uuid (w_rng (pp_world idle_pipe) + i))) [0..<5])"
    by (simp add: idle_pipe_def shop_world_def del: upt_Suc)
qed simp

theorem demo_dlq_dead_witness:
  "\<exists>p'. demo_dlq test_uuid test_iso test_ts (Some ''amqp://b'') (\<lambda>_. Some (JsObj [(''x-first-death-reason'', JsString ''rejected'')]))
      [0, 1, 0] 1 idle_pipe = (Inr (Some \<lparr>dr_rejected = 1, dr_work = 0, dr_dlq = 1,
    dr_reason = ''rejected'', dr_effect = 0, dr_exitCode = (if ''rejected'' \<in> set allowed_reasons then 0 else 1)\<rparr>), p')"
  by (rule demo_dlq_dead [OF idle_room(1,4) test_url test_uuid_valid]) (simp_all add: deathReason_def json_field_def)

end
