(* ===== verification/Redis.thy ===== *)
theory Redis
  imports JsErrors
begin

text \<open>
  The Redis client, a parameter of the components that use it: the commands the code sends, on a
  server state of any type. A command resolves with its reply or rejects. A Lua script is a function
  on the server state that \<open>eval\<close> runs in one piece; the commands a script calls are functions on the
  server state too. What the components rely on are the locales below; they are interpreted on a
  server in memory. The configuration helpers of \<open>src/redis/redis.ts\<close> are here as well.
\<close>

section \<open>Commands\<close>

record 'r redis_cmds =
  rd_get :: "string \<Rightarrow> 'r \<Rightarrow> (thrown + string option) \<times> 'r"
  rd_set_ex :: "string \<Rightarrow> string \<Rightarrow> int \<Rightarrow> 'r \<Rightarrow> (thrown + unit) \<times> 'r"
  rd_set_px_nx :: "string \<Rightarrow> string \<Rightarrow> int \<Rightarrow> 'r \<Rightarrow> (thrown + bool) \<times> 'r"
  rd_getex :: "string \<Rightarrow> int \<Rightarrow> 'r \<Rightarrow> (thrown + string option) \<times> 'r"
  rd_ttl :: "string \<Rightarrow> 'r \<Rightarrow> (thrown + int) \<times> 'r"
  rd_del :: "string \<Rightarrow> 'r \<Rightarrow> (thrown + int) \<times> 'r"
  rd_exists :: "string \<Rightarrow> 'r \<Rightarrow> (thrown + int) \<times> 'r"
  rd_eval :: "('r \<Rightarrow> int list \<times> 'r) \<Rightarrow> 'r \<Rightarrow> (thrown + int list) \<times> 'r"
  lua_get :: "string \<Rightarrow> 'r \<Rightarrow> string option"
  lua_del :: "string \<Rightarrow> 'r \<Rightarrow> int \<times> 'r"
  lua_zremrangebyscore :: "string \<Rightarrow> int \<Rightarrow> 'r \<Rightarrow> 'r"
  lua_zcard :: "string \<Rightarrow> 'r \<Rightarrow> int"
  lua_zadd :: "string \<Rightarrow> int \<Rightarrow> string \<Rightarrow> 'r \<Rightarrow> 'r"
  lua_pexpire :: "string \<Rightarrow> int \<Rightarrow> 'r \<Rightarrow> 'r"
  lua_zrange_first :: "string \<Rightarrow> 'r \<Rightarrow> (string \<times> int) option"

section \<open>Laws\<close>

text \<open>
  Scripts and sorted sets. A rejected \<open>eval\<close> ran the script or did not reach the server. \<open>zset s k\<close> is
  the sorted set at a key, members with their scores, by score.
\<close>

locale redis_scripts =
  fixes cmds :: "'r redis_cmds" and zset :: "'r \<Rightarrow> string \<Rightarrow> (string \<times> int) list"
  assumes eval_ok: "rd_eval cmds f s = (Inr r, s') \<Longrightarrow> f s = (r, s')"
    and eval_bad: "rd_eval cmds f s = (Inl e, s') \<Longrightarrow> s' = s \<or> s' = snd (f s)"
    and zset_sorted: "sorted (map snd (zset s k))"
    and zrem: "zset (lua_zremrangebyscore cmds k m s) = (zset s)(k := filter (\<lambda>x. m < snd x) (zset s k))"
    and zcard: "lua_zcard cmds k s = int (length (zset s k))"
    and zadd: "x \<notin> fst ` set (zset s k) \<Longrightarrow>
      mset (zset (lua_zadd cmds k sc x s) k) = add_mset (x, sc) (mset (zset s k))"
    and zadd_other: "k' \<noteq> k \<Longrightarrow> zset (lua_zadd cmds k sc x s) k' = zset s k'"
    and pexpire: "0 < ms \<Longrightarrow> zset (lua_pexpire cmds k ms s) = zset s"
    and zrange: "lua_zrange_first cmds k s = (case zset s k of [] \<Rightarrow> None | x # _ \<Rightarrow> Some x)"

text \<open>
  Strings with a time to live, on a server that answers. \<open>peek s k\<close> is the live value at a key with its
  deadline, \<open>clock\<close> the server's time in milliseconds, and \<open>pass d\<close> lets \<open>d\<close> milliseconds pass.
\<close>

locale redis_strings =
  fixes cmds :: "'r redis_cmds" and peek :: "'r \<Rightarrow> string \<Rightarrow> (string \<times> int) option"
    and clock :: "'r \<Rightarrow> int" and pass :: "int \<Rightarrow> 'r \<Rightarrow> 'r"
  assumes alive: "peek s k = Some (v, d) \<Longrightarrow> clock s < d"
    and get: "rd_get cmds k s = (Inr (map_option fst (peek s k)), s)"
    and set_ex: "0 < sec \<Longrightarrow> \<exists>s'. rd_set_ex cmds k v sec s = (Inr (), s') \<and> clock s' = clock s
      \<and> peek s' = (peek s)(k \<mapsto> (v, clock s + 1000 * sec))"
    and set_nx: "0 < ms \<Longrightarrow> \<exists>s'. rd_set_px_nx cmds k v ms s = (Inr (peek s k = None), s') \<and> clock s' = clock s
      \<and> peek s' = (if peek s k = None then (peek s)(k \<mapsto> (v, clock s + ms)) else peek s)"
    and getex: "0 < sec \<Longrightarrow> \<exists>s'. rd_getex cmds k sec s = (Inr (map_option fst (peek s k)), s') \<and> clock s' = clock s
      \<and> peek s' = (case peek s k of None \<Rightarrow> peek s | Some (v, d) \<Rightarrow> (peek s)(k \<mapsto> (v, clock s + 1000 * sec)))"
    and del: "\<exists>n s'. rd_del cmds k s = (Inr n, s') \<and> clock s' = clock s \<and> peek s' = (peek s)(k := None)"
    and ttl_none: "peek s k = None \<Longrightarrow> rd_ttl cmds k s = (Inr (- 2), s)"
    and ttl_some: "peek s k = Some (v, d) \<Longrightarrow> \<exists>n. rd_ttl cmds k s = (Inr n, s) \<and> 0 \<le> n \<and> 1000 * n \<le> d - clock s + 500"
    and exists_law: "rd_exists cmds k s = (Inr (if peek s k = None then 0 else 1), s)"
    and eval_run: "\<exists>r s'. f s = (r, s') \<and> rd_eval cmds f s = (Inr r, s')"
    and script_get: "lua_get cmds k s = map_option fst (peek s k)"
    and script_del: "peek (snd (lua_del cmds k s)) = (peek s)(k := None) \<and> clock (snd (lua_del cmds k s)) = clock s"
    and pass_clock: "0 \<le> d \<Longrightarrow> clock (pass d s) = clock s + d"
    and pass_peek: "0 \<le> d \<Longrightarrow> peek (pass d s) k =
      (case peek s k of Some (v, e) \<Rightarrow> if clock s + d < e then Some (v, e) else None | None \<Rightarrow> None)"

section \<open>A server in memory\<close>

record mem_redis =
  mr_clock :: int
  mr_strings :: "string \<Rightarrow> (string \<times> int) option"
  mr_zsets :: "string \<Rightarrow> (string \<times> int) list"

definition mem_start :: mem_redis where
  "mem_start = \<lparr>mr_clock = 0, mr_strings = (\<lambda>_. None), mr_zsets = (\<lambda>_. [])\<rparr>"

definition mem_peek :: "mem_redis \<Rightarrow> string \<Rightarrow> (string \<times> int) option" where
  "mem_peek s k = (case mr_strings s k of Some (v, d) \<Rightarrow> if mr_clock s < d then Some (v, d) else None | None \<Rightarrow> None)"

definition mem_put :: "string \<Rightarrow> string \<Rightarrow> int \<Rightarrow> mem_redis \<Rightarrow> mem_redis" where
  "mem_put k v ms s = s\<lparr>mr_strings := (mr_strings s)(k \<mapsto> (v, mr_clock s + ms))\<rparr>"

definition mem_drop :: "string \<Rightarrow> mem_redis \<Rightarrow> mem_redis" where
  "mem_drop k s = s\<lparr>mr_strings := (mr_strings s)(k := None)\<rparr>"

definition mem_pass :: "int \<Rightarrow> mem_redis \<Rightarrow> mem_redis" where
  "mem_pass d s = s\<lparr>mr_clock := mr_clock s + d\<rparr>"

definition mem_zset :: "mem_redis \<Rightarrow> string \<Rightarrow> (string \<times> int) list" where
  "mem_zset s k = sort_key snd (mr_zsets s k)"

definition mem_cmds :: "mem_redis redis_cmds" where
  "mem_cmds = \<lparr>
     rd_get = (\<lambda>k s. (Inr (map_option fst (mem_peek s k)), s)),
     rd_set_ex = (\<lambda>k v sec s. (Inr (), mem_put k v (1000 * sec) s)),
     rd_set_px_nx = (\<lambda>k v ms s. if mem_peek s k = None then (Inr True, mem_put k v ms s) else (Inr False, s)),
     rd_getex = (\<lambda>k sec s. case mem_peek s k of None \<Rightarrow> (Inr None, s)
        | Some (v, d) \<Rightarrow> (Inr (Some v), mem_put k v (1000 * sec) s)),
     rd_ttl = (\<lambda>k s. case mem_peek s k of None \<Rightarrow> (Inr (- 2), s)
        | Some (v, d) \<Rightarrow> (Inr ((d - mr_clock s + 500) div 1000), s)),
     rd_del = (\<lambda>k s. (Inr (if mem_peek s k = None then 0 else 1), mem_drop k s)),
     rd_exists = (\<lambda>k s. (Inr (if mem_peek s k = None then 0 else 1), s)),
     rd_eval = (\<lambda>f s. case f s of (r, s') \<Rightarrow> (Inr r, s')),
     lua_get = (\<lambda>k s. map_option fst (mem_peek s k)),
     lua_del = (\<lambda>k s. (if mem_peek s k = None then 0 else 1, mem_drop k s)),
     lua_zremrangebyscore = (\<lambda>k m s. s\<lparr>mr_zsets := (mr_zsets s)(k := filter (\<lambda>x. m < snd x) (mr_zsets s k))\<rparr>),
     lua_zcard = (\<lambda>k s. int (length (mr_zsets s k))),
     lua_zadd = (\<lambda>k sc x s. s\<lparr>mr_zsets := (mr_zsets s)(k := (x, sc) # filter (\<lambda>y. fst y \<noteq> x) (mr_zsets s k))\<rparr>),
     lua_pexpire = (\<lambda>k ms s. s),
     lua_zrange_first = (\<lambda>k s. case mem_zset s k of [] \<Rightarrow> None | x # _ \<Rightarrow> Some x)\<rparr>"

lemma mem_peek_put [simp]: "0 < ms \<Longrightarrow> mem_peek (mem_put k v ms s) = (mem_peek s)(k \<mapsto> (v, mr_clock s + ms))"
  by (auto simp: mem_peek_def mem_put_def fun_eq_iff split: option.split)

lemma mem_peek_drop [simp]: "mem_peek (mem_drop k s) = (mem_peek s)(k := None)"
  by (auto simp: mem_peek_def mem_drop_def fun_eq_iff split: option.split)

lemma mem_clock [simp]: "mr_clock (mem_put k v ms s) = mr_clock s" "mr_clock (mem_drop k s) = mr_clock s"
  by (simp_all add: mem_put_def mem_drop_def)

interpretation mem_strings: redis_strings mem_cmds mem_peek mr_clock mem_pass
proof unfold_locales
  fix s k v and d :: int
  show "mem_peek s k = Some (v, d) \<Longrightarrow> mr_clock s < d"
    by (auto simp: mem_peek_def split: option.splits if_splits)
  show "mem_peek s k = Some (v, d) \<Longrightarrow>
      \<exists>n. rd_ttl mem_cmds k s = (Inr n, s) \<and> 0 \<le> n \<and> 1000 * n \<le> d - mr_clock s + 500"
    by (auto simp: mem_cmds_def mem_peek_def split: option.splits if_splits)
next
  fix f :: "mem_redis \<Rightarrow> int list \<times> mem_redis" and s
  show "\<exists>r s'. f s = (r, s') \<and> rd_eval mem_cmds f s = (Inr r, s')"
    by (cases "f s") (simp add: mem_cmds_def)
qed (auto simp: mem_cmds_def mem_pass_def mem_peek_def split: option.splits)

interpretation mem_scripts: redis_scripts mem_cmds mem_zset
proof unfold_locales
  fix s :: mem_redis and k x :: string and sc :: int
  assume "x \<notin> fst ` set (mem_zset s k)"
  then have "filter (\<lambda>y. fst y \<noteq> x) (mr_zsets s k) = mr_zsets s k" by (force simp: mem_zset_def intro!: filter_True)
  then show "mset (mem_zset (lua_zadd mem_cmds k sc x s) k) = add_mset (x, sc) (mset (mem_zset s k))"
    by (simp add: mem_cmds_def mem_zset_def)
qed (auto simp: mem_cmds_def mem_zset_def fun_eq_iff filter_sort split: prod.splits)

section \<open>Configuration\<close>

definition requireUrl :: "string \<Rightarrow> string option \<Rightarrow> thrown + string" where
  "requireUrl name env =
     (case map_option js_trim env of
        None \<Rightarrow> Inl (PlainError (name @ '' is required''))
      | Some url \<Rightarrow> if url = [] then Inl (PlainError (name @ '' is required'')) else Inr url)"

definition requireRedisUrl :: "string option \<Rightarrow> thrown + string" where
  "requireRedisUrl = requireUrl ''REDIS_URL''"

definition requireRedisQueueUrl :: "string option \<Rightarrow> thrown + string" where
  "requireRedisQueueUrl = requireUrl ''REDIS_QUEUE_URL''"

text \<open>The reply of \<open>CONFIG GET\<close>: an array of texts, or something else (\<open>None\<close>).\<close>

definition redisConfig :: "string \<Rightarrow> string list option \<Rightarrow> thrown + string" where
  "redisConfig parameter reply =
     (case reply of
        Some (_ # value # _) \<Rightarrow> Inr value
      | _ \<Rightarrow> Inl (PlainError (''CONFIG GET '' @ parameter @ '' returned nothing'')))"

end
