(* ===== verification/RateLimit.thy ===== *)
theory RateLimit
  imports Redis
begin

text \<open>
  \<open>src/ratelimit/sliding-window-limiter.ts\<close> with its Lua script, and \<open>src/ratelimit/rate-limit.guard.ts\<close>.
  Times are milliseconds; the two readings of the clock and the random suffix of a request are
  arguments.
\<close>

section \<open>The limiter\<close>

record rate_limit_policy =
  rp_limit :: int
  rp_windowMs :: int

record limit_response =
  lr_allowed :: bool
  lr_status :: int
  lr_headers :: "(string \<times> string) list"

definition ceil_seconds :: "int \<Rightarrow> int" where
  "ceil_seconds ms = (ms + 999) div 1000"

definition sliding_window_lua ::
  "'r redis_cmds \<Rightarrow> string \<Rightarrow> int \<Rightarrow> int \<Rightarrow> int \<Rightarrow> string \<Rightarrow> 'r \<Rightarrow> int list \<times> 'r" where
  "sliding_window_lua cmds key now windowMs limit member s =
     (let s1 = lua_zremrangebyscore cmds key (now - windowMs) s;
          count = lua_zcard cmds key s1
      in if count < limit
         then ([1, 0], lua_pexpire cmds key windowMs (lua_zadd cmds key now member s1))
         else
           let oldest = lua_zrange_first cmds key s1;
               retryAfter = (case oldest of
                   None \<Rightarrow> 1
                 | Some (_, score) \<Rightarrow>
                     let waitMs = score + windowMs - now
                     in if 0 < waitMs then ceil_seconds waitMs else 1)
           in ([0, if retryAfter < 1 then 1 else retryAfter], s1))"

definition consume ::
  "'r redis_cmds \<Rightarrow> int \<Rightarrow> int \<Rightarrow> string \<Rightarrow> string \<Rightarrow> rate_limit_policy \<Rightarrow> ('r, thrown, limit_response) exec" where
  "consume cmds t0 t rand bucket policy =
     (let member = show_int t0 @ ''-'' @ rand
      in bindE (rd_eval cmds (sliding_window_lua cmds (''rl:'' @ bucket) t (rp_windowMs policy) (rp_limit policy) member))
           (\<lambda>raw. if raw ! 0 = 1 then returnE \<lparr>lr_allowed = True, lr_status = 200, lr_headers = []\<rparr>
             else returnE \<lparr>lr_allowed = False, lr_status = 429,
               lr_headers = [(''Retry-After'', show_int (max 1 (raw ! 1)))]\<rparr>))"

section \<open>The guard\<close>

record limited_request =
  rq_user_header :: "string option"
  rq_session_user :: "string option"
  rq_ip :: string
  rq_originalUrl :: string

definition clientKey :: "limited_request \<Rightarrow> string" where
  "clientKey req =
     (case (case rq_user_header req of Some u \<Rightarrow> Some u | None \<Rightarrow> rq_session_user req) of
        None \<Rightarrow> ''ip:'' @ rq_ip req
      | Some u \<Rightarrow> if u = [] then ''ip:'' @ rq_ip req else ''user:'' @ u)"

text \<open>A number of milliseconds over 1000, printed as a decimal number.\<close>

definition strip_zeros :: "string \<Rightarrow> string" where
  "strip_zeros s = rev (dropWhile (\<lambda>c. c = CHR ''0'') (rev s))"

definition show_seconds :: "int \<Rightarrow> string" where
  "show_seconds ms =
     show_int (ms div 1000) @
     (if ms mod 1000 = 0 then []
      else CHR ''.'' # strip_zeros (drop 1 (show_int (1000 + ms mod 1000))))"

text \<open>The answer of the guard, with the headers it has set on the response.\<close>

definition canActivate ::
  "'r redis_cmds \<Rightarrow> int \<Rightarrow> int \<Rightarrow> string \<Rightarrow> string \<Rightarrow> rate_limit_policy option \<Rightarrow> limited_request
    \<Rightarrow> 'r \<Rightarrow> ((thrown + bool) \<times> (string \<times> string) list) \<times> 'r" where
  "canActivate cmds t0 t rand route policy req s =
     (case policy of
        None \<Rightarrow> ((Inr True, []), s)
      | Some p \<Rightarrow>
          (case consume cmds t0 t rand (route @ '':'' @ clientKey req) p s of
             (Inl err, s') \<Rightarrow> ((Inr True, []), s')
           | (Inr response, s') \<Rightarrow>
               if lr_allowed response then ((Inr True, []), s')
               else ((Inl (mk_problem 429 ''https://marketplace.local/problems/rate-limited'' ''Too many requests''
                   (''Limit is '' @ show_int (rp_limit p) @ '' requests per '' @ show_seconds (rp_windowMs p) @ ''s'')
                   (rq_originalUrl req)), lr_headers response), s')))"

section \<open>Runs of a bucket\<close>

text \<open>
  The requests on one bucket, from any number of processes: the server runs the script for one
  request after the other, at non-decreasing times and with fresh members, keys of other buckets
  change, and the server drops the key when all its entries are older than the window. The run
  records the times of the requests it let through.
\<close>

inductive limiter_run ::
  "'r redis_cmds \<Rightarrow> ('r \<Rightarrow> string \<Rightarrow> (string \<times> int) list) \<Rightarrow> string \<Rightarrow> rate_limit_policy
    \<Rightarrow> 'r \<Rightarrow> int \<Rightarrow> int list \<Rightarrow> bool"
  for cmds zset key p
where
  start: "zset s key = [] \<Longrightarrow> limiter_run cmds zset key p s t []"
| request: "limiter_run cmds zset key p s t acc \<Longrightarrow> t \<le> now \<Longrightarrow> member \<notin> fst ` set (zset s key)
    \<Longrightarrow> sliding_window_lua cmds key now (rp_windowMs p) (rp_limit p) member s = (raw, s')
    \<Longrightarrow> limiter_run cmds zset key p s' now (if raw ! 0 = 1 then acc @ [now] else acc)"
| others: "limiter_run cmds zset key p s t acc \<Longrightarrow> zset s' key = zset s key
    \<Longrightarrow> limiter_run cmds zset key p s' t acc"
| expired: "limiter_run cmds zset key p s t acc \<Longrightarrow> t \<le> now \<Longrightarrow> \<forall>x \<in> set (zset s key). snd x \<le> now - rp_windowMs p
    \<Longrightarrow> zset s' key = [] \<Longrightarrow> limiter_run cmds zset key p s' now acc"

definition recent :: "int \<Rightarrow> int \<Rightarrow> int list \<Rightarrow> int list" where
  "recent w t acc = filter (\<lambda>x. t - w < x) acc"

text \<open>
  The invariant: the times are in the past, the entries are accepted requests, and those of the
  current window are among the entries.
\<close>

definition bucket_ok :: "int \<Rightarrow> (string \<times> int) list \<Rightarrow> int \<Rightarrow> int list \<Rightarrow> bool" where
  "bucket_ok w es t acc \<longleftrightarrow> (\<forall>x \<in> set acc. x \<le> t)
     \<and> filter_mset (\<lambda>x. t - w < x) (image_mset snd (mset es)) = mset (recent w t acc)"

lemma bucket_ok_later:
  assumes "bucket_ok w es t acc" and "t \<le> t'"
  shows "bucket_ok w es t' acc"
proof -
  have "filter_mset (\<lambda>x. t' - w < x) M = filter_mset (\<lambda>x. t' - w < x) (filter_mset (\<lambda>x. t - w < x) M)" for M
    using assms(2) by (simp add: filter_filter_mset) (rule filter_mset_cong, auto)
  then show ?thesis using assms unfolding bucket_ok_def recent_def
    by (metis (no_types, lifting) mset_filter order_trans)
qed

context redis_scripts
begin

lemma script_cases:
  assumes "sliding_window_lua cmds key now w limit member s = (raw, s')" and "member \<notin> fst ` set (zset s key)" and "0 < w"
  obtains (accepted) "raw = [1, 0]" "int (length (filter (\<lambda>x. now - w < snd x) (zset s key))) < limit"
      "mset (zset s' key) = add_mset (member, now) (mset (filter (\<lambda>x. now - w < snd x) (zset s key)))"
    | (refused) r where "raw = [0, r]" "1 \<le> r" "limit \<le> int (length (filter (\<lambda>x. now - w < snd x) (zset s key)))"
      "zset s' key = filter (\<lambda>x. now - w < snd x) (zset s key)"
      "case zset s' key of [] \<Rightarrow> r = 1 | x # _ \<Rightarrow> r = ceil_seconds (snd x + w - now)"
proof -
  let ?s1 = "lua_zremrangebyscore cmds key (now - w) s"
  let ?es = "filter (\<lambda>x. now - w < snd x) (zset s key)"
  have es: "zset ?s1 key = ?es" by (simp add: zrem)
  show ?thesis
  proof (cases "int (length ?es) < limit")
    case True
    have "member \<notin> fst ` set (zset ?s1 key)" using assms(2) by (auto simp: es)
    then show ?thesis using accepted True assms(1,3)
      by (auto simp: sliding_window_lua_def Let_def zcard es zadd pexpire)
  next
    case False
    have pos: "0 < snd x + w - now" if "x \<in> set ?es" for x using that by auto
    have ceil: "1 \<le> ceil_seconds m" if "0 < m" for m using that by (simp add: ceil_seconds_def)
    show ?thesis
    proof (cases ?es)
      case Nil
      then have "raw = [0, 1]" "s' = ?s1" using assms(1) False es
        by (simp_all add: sliding_window_lua_def Let_def zcard zrange)
      then show ?thesis using refused [of 1] False es Nil by simp
    next
      case (Cons x xs)
      have "0 < snd x + w - now" using pos [of x] Cons by (metis list.set_intros(1))
      moreover from this have "1 \<le> ceil_seconds (snd x + w - now)" by (rule ceil)
      ultimately have "raw = [0, ceil_seconds (snd x + w - now)]" "s' = ?s1" using assms(1) False es Cons
        by (cases x; simp add: sliding_window_lua_def Let_def zcard zrange)+
      then show ?thesis using refused [of "ceil_seconds (snd x + w - now)"] False es Cons
          \<open>1 \<le> ceil_seconds (snd x + w - now)\<close> by simp
    qed
  qed
qed

lemma bucket_reachable:
  assumes "limiter_run cmds zset key p s t acc" and "0 < rp_windowMs p"
  shows "bucket_ok (rp_windowMs p) (zset s key) t acc
    \<and> (\<forall>u. int (length (filter (\<lambda>x. u - rp_windowMs p < x \<and> x \<le> u) acc)) \<le> max 0 (rp_limit p))"
  using assms(1)
proof (induction rule: limiter_run.induct)
  case (start s t)
  then show ?case by (simp add: bucket_ok_def recent_def)
next
  case (request s t acc now member raw s')
  let ?w = "rp_windowMs p" and ?es = "filter (\<lambda>x. now - rp_windowMs p < snd x) (zset s key)"
  have b: "bucket_ok ?w (zset s key) now acc" using bucket_ok_later request.IH request.hyps(2) by blast
  have es: "image_mset snd (mset ?es) = mset (recent ?w now acc)"
    using b by (simp add: bucket_ok_def filter_mset_image_mset)
  have len: "length ?es = length (recent ?w now acc)"
    by (metis es size_image_mset size_mset)
  from request.hyps(4) request.hyps(3) assms(2) show ?case
  proof (cases rule: script_cases)
    case accepted
    have "bucket_ok ?w (zset s' key) now (acc @ [now])"
      using b es accepted(3) assms(2) unfolding bucket_ok_def recent_def
      by (auto simp: filter_mset_image_mset filter_filter_mset)
    moreover have "int (length (filter (\<lambda>x. u - ?w < x \<and> x \<le> u) (acc @ [now]))) \<le> max 0 (rp_limit p)" for u
    proof (cases "now \<le> u")
      case True
      have "length (filter (\<lambda>x. u - ?w < x \<and> x \<le> u) acc) \<le> length (recent ?w now acc)"
        unfolding recent_def using True by (induction acc) auto
      then show ?thesis using accepted(2) len by simp
    qed (use request.IH in simp)
    ultimately show ?thesis using accepted(1) by simp
  next
    case (refused r)
    have "bucket_ok ?w (zset s' key) now acc"
      using b es refused(4) unfolding bucket_ok_def recent_def by (simp add: filter_mset_image_mset filter_filter_mset)
    then show ?thesis using refused(1) request.IH by simp
  qed
next
  case (others s t acc s')
  then show ?case by simp
next
  case (expired s t acc now s')
  have "bucket_ok (rp_windowMs p) (zset s key) now acc" using bucket_ok_later expired by blast
  moreover have "filter (\<lambda>x. now - rp_windowMs p < snd x) (zset s key) = []"
    using expired.hyps(3) by (auto simp: filter_empty_conv)
  then have "filter_mset (\<lambda>x. now - rp_windowMs p < x) (image_mset snd (mset (zset s key))) = {#}"
    by (metis filter_mset_image_mset image_mset_empty mset.simps(1) mset_filter)
  ultimately show ?case using expired by (simp add: bucket_ok_def)
qed

lemma consume_decision:
  assumes run: "limiter_run cmds zset (''rl:'' @ bucket) p s t acc" and w: "0 < rp_windowMs p" and l: "0 < rp_limit p"
    and t: "t \<le> now" and fresh: "show_int t0 @ ''-'' @ rand \<notin> fst ` set (zset s (''rl:'' @ bucket))"
    and c: "consume cmds t0 now rand bucket p s = (Inr resp, s')"
  shows "(lr_allowed resp \<longleftrightarrow> int (length (recent (rp_windowMs p) now acc)) < rp_limit p)
    \<and> limiter_run cmds zset (''rl:'' @ bucket) p s' now (if lr_allowed resp then acc @ [now] else acc)
    \<and> (\<not> lr_allowed resp \<longrightarrow> lr_status resp = 429 \<and> (\<exists>r. lr_headers resp = [(''Retry-After'', show_int r)]
         \<and> 1 \<le> r \<and> r \<le> ceil_seconds (rp_windowMs p)
         \<and> int (length (recent (rp_windowMs p) (now + 1000 * r) acc)) < rp_limit p))"
proof -
  let ?w = "rp_windowMs p" and ?k = "''rl:'' @ bucket" and ?m = "show_int t0 @ ''-'' @ rand"
  let ?es = "filter (\<lambda>x. now - ?w < snd x) (zset s ?k)"
  obtain raw where raw: "rd_eval cmds (sliding_window_lua cmds ?k now ?w (rp_limit p) ?m) s = (Inr raw, s')"
    and resp: "resp = (if raw ! 0 = 1 then \<lparr>lr_allowed = True, lr_status = 200, lr_headers = []\<rparr>
      else \<lparr>lr_allowed = False, lr_status = 429, lr_headers = [(''Retry-After'', show_int (max 1 (raw ! 1)))]\<rparr>)"
    using c unfolding consume_def Let_def by (auto elim!: bindE_InrE split: if_splits)
  have lua: "sliding_window_lua cmds ?k now ?w (rp_limit p) ?m s = (raw, s')" using raw by (rule eval_ok)
  have next_run: "limiter_run cmds zset ?k p s' now (if raw ! 0 = 1 then acc @ [now] else acc)"
    by (rule limiter_run.request [OF run t fresh lua])
  have inv: "bucket_ok ?w (zset s ?k) now acc" and
    win: "int (length (filter (\<lambda>x. now - ?w < x \<and> x \<le> now) acc)) \<le> rp_limit p"
    using bucket_reachable [OF run w] bucket_ok_later [OF _ t] l by auto
  have es: "image_mset snd (mset ?es) = mset (recent ?w now acc)"
    using inv by (simp add: bucket_ok_def filter_mset_image_mset)
  have len: "length ?es = length (recent ?w now acc)" by (metis es size_image_mset size_mset)
  from lua fresh w show ?thesis
  proof (cases rule: script_cases)
    case accepted
    then show ?thesis using resp next_run len by simp
  next
    case (refused r)
    obtain x xs where x: "?es = x # xs" using refused(3) l by (cases ?es) auto
    then have r: "r = ceil_seconds (snd x + ?w - now)" using refused(4,5) by simp
    have mem: "snd x \<in> set (recent ?w now acc)"
      using x arg_cong [OF es, of set_mset] by simp (metis insertI1)
    then have le: "snd x \<le> now" using inv by (auto simp: bucket_ok_def recent_def)
    have "r \<le> ceil_seconds ?w" unfolding r ceil_seconds_def using le by (intro zdiv_mono1) auto
    moreover have "int (length (recent ?w (now + 1000 * r) acc)) < rp_limit p"
    proof -
      have "snd x + ?w - now \<le> 1000 * r" unfolding r ceil_seconds_def by linarith
      then have "snd x \<le> now + 1000 * r - ?w" by linarith
      then have "recent ?w (now + 1000 * r) acc = filter (\<lambda>y. now + 1000 * r - ?w < y) (recent ?w now acc)"
        "\<not> now + 1000 * r - ?w < snd x"
        using refused(2) by (auto simp: recent_def intro!: filter_cong)
      then have "length (recent ?w (now + 1000 * r) acc) < length (recent ?w now acc)"
        using mem by (metis length_filter_less)
      moreover have "recent ?w now acc = filter (\<lambda>x. now - ?w < x \<and> x \<le> now) acc"
        using inv by (auto simp: bucket_ok_def recent_def intro!: filter_cong)
      ultimately show ?thesis using win by simp
    qed
    ultimately show ?thesis using resp next_run len refused(1,2,3) by auto
  qed
qed

end

section \<open>Properties\<close>

text \<open>
  (C26) No window sees more than the limit: over any run of a bucket, from any number of processes,
  and for every moment \<open>u\<close>, at most \<open>limit\<close> requests were let through in the \<open>windowMs\<close> milliseconds
  up to \<open>u\<close>, whether or not the window is aligned to anything.
\<close>

theorem rate_limit_window:
  assumes "redis_scripts cmds zset" and "0 < rp_windowMs p" and "limiter_run cmds zset key p s t acc"
  shows "int (length (filter (\<lambda>x. u - rp_windowMs p < x \<and> x \<le> u) acc)) \<le> max 0 (rp_limit p)"
  using redis_scripts.bucket_reachable [OF assms(1,3,2)] by blast

theorem rate_limit_window_witness:
  "\<exists>s. limiter_run mem_cmds mem_zset ''rl:b'' \<lparr>rp_limit = 1, rp_windowMs = 1000\<rparr> s 900 [500]
     \<and> length (filter (\<lambda>x. 1000 - 1000 < x \<and> x \<le> (1000::int)) [500]) \<le> 1"
proof -
  let ?p = "\<lparr>rp_limit = 1, rp_windowMs = 1000\<rparr>"
  let ?s1 = "snd (sliding_window_lua mem_cmds ''rl:b'' 500 1000 1 ''m1'' mem_start)"
  let ?s2 = "snd (sliding_window_lua mem_cmds ''rl:b'' 900 1000 1 ''m2'' ?s1)"
  have l1: "sliding_window_lua mem_cmds ''rl:b'' 500 (rp_windowMs ?p) (rp_limit ?p) ''m1'' mem_start = ([1, 0], ?s1)"
    and l2: "sliding_window_lua mem_cmds ''rl:b'' 900 (rp_windowMs ?p) (rp_limit ?p) ''m2'' ?s1 = ([0, 1], ?s2)"
    by (simp_all add: sliding_window_lua_def mem_cmds_def mem_start_def mem_zset_def ceil_seconds_def Let_def)
  have "limiter_run mem_cmds mem_zset ''rl:b'' ?p mem_start 0 []"
    by (rule limiter_run.start) (simp add: mem_zset_def mem_start_def)
  from limiter_run.request [OF this _ _ l1] have r1: "limiter_run mem_cmds mem_zset ''rl:b'' ?p ?s1 500 [500]"
    by (simp add: mem_zset_def mem_start_def)
  from limiter_run.request [OF this _ _ l2] have r2: "limiter_run mem_cmds mem_zset ''rl:b'' ?p ?s2 900 [500]"
    by (simp add: sliding_window_lua_def mem_cmds_def mem_start_def mem_zset_def Let_def)
  from rate_limit_window [OF mem_scripts.redis_scripts_axioms _ r2, of 1000] r2 show ?thesis by auto
qed

text \<open>
  (C27) The decision is exact and the advice is sound: a request is let through if and only if fewer
  than \<open>limit\<close> requests were let through in the last window; a refused one is answered with 429 and a
  \<open>Retry-After\<close> of at least one second and at most the window rounded up to seconds, after which, if
  no other request is let through meanwhile, there is room again.
\<close>

theorem consume_exact:
  assumes "redis_scripts cmds zset" and "0 < rp_windowMs p" and "0 < rp_limit p"
    and "limiter_run cmds zset (''rl:'' @ bucket) p s t acc" and "t \<le> now"
    and "show_int t0 @ ''-'' @ rand \<notin> fst ` set (zset s (''rl:'' @ bucket))"
    and "consume cmds t0 now rand bucket p s = (Inr resp, s')"
  shows "(lr_allowed resp \<longleftrightarrow> int (length (recent (rp_windowMs p) now acc)) < rp_limit p)
    \<and> limiter_run cmds zset (''rl:'' @ bucket) p s' now (if lr_allowed resp then acc @ [now] else acc)
    \<and> (\<not> lr_allowed resp \<longrightarrow> lr_status resp = 429 \<and> (\<exists>r. lr_headers resp = [(''Retry-After'', show_int r)]
         \<and> 1 \<le> r \<and> r \<le> ceil_seconds (rp_windowMs p)
         \<and> int (length (recent (rp_windowMs p) (now + 1000 * r) acc)) < rp_limit p))"
  by (rule redis_scripts.consume_decision [OF assms(1,4,2,3,5,6,7)])

theorem consume_exact_witness:
  "\<exists>s'. consume mem_cmds 7 7 ''f'' ''orders:user:1'' \<lparr>rp_limit = 10, rp_windowMs = 60000\<rparr> mem_start
      = (Inr \<lparr>lr_allowed = True, lr_status = 200, lr_headers = []\<rparr>, s')
     \<and> limiter_run mem_cmds mem_zset ''rl:orders:user:1'' \<lparr>rp_limit = 10, rp_windowMs = 60000\<rparr> s' 7 [7]"
proof -
  let ?p = "\<lparr>rp_limit = 10, rp_windowMs = 60000\<rparr>"
  let ?c = "consume mem_cmds 7 7 ''f'' ''orders:user:1'' ?p mem_start"
  have "fst ?c = Inr \<lparr>lr_allowed = True, lr_status = 200, lr_headers = []\<rparr>"
    by (simp add: consume_def bindE_def sliding_window_lua_def mem_cmds_def mem_start_def Let_def)
  then obtain s' where c: "?c = (Inr \<lparr>lr_allowed = True, lr_status = 200, lr_headers = []\<rparr>, s')" by (metis prod.collapse)
  have "limiter_run mem_cmds mem_zset (''rl:'' @ ''orders:user:1'') ?p mem_start 0 []"
    by (rule limiter_run.start) (simp add: mem_zset_def mem_start_def)
  from consume_exact [OF mem_scripts.redis_scripts_axioms _ _ this _ _ c] c show ?thesis
    by (simp add: mem_zset_def mem_start_def)
qed

end
