(* ===== verification/Store.thy ===== *)
theory Store
  imports Schema "HOL-Library.AList"
begin

text \<open>
  \<open>src/store/store.service.ts\<close> and \<open>src/listings/listings.controller.ts\<close>: the in-memory catalog
  with its pages, and the listing endpoints. A \<open>Map\<close> is an association list in insertion
  order; \<open>AList.update\<close> changes an entry in place and appends a new one, as \<open>Map.set\<close> does.
  The identifier generator and the digest of a body are parameters.
\<close>

section \<open>Data\<close>

datatype listing_status = ListingActive | ListingArchived

record listing =
  li_id :: string
  li_title :: string
  li_price_cents :: int
  li_status :: listing_status
  li_seller_id :: string
  li_quantity :: int

record public_listing =
  pl_id :: string
  pl_title :: string
  pl_price_cents :: int
  pl_status :: listing_status
  pl_seller_id :: string

record order_line =
  ol_listing_id :: string
  ol_quantity :: int
  ol_price_cents :: int

datatype api_status = StatusCreated | StatusPaid | StatusCancelled

record api_order =
  ao_id :: string
  ao_buyer_id :: string
  ao_seller_id :: string
  ao_items :: "order_line list"
  ao_total_cents :: int
  ao_status :: api_status

record idempotency_record =
  ir_bodyHash :: string
  ir_location :: string
  ir_body :: api_order

record store =
  sr_listings :: "(string \<times> listing) list"
  sr_orders :: "(string \<times> api_order) list"
  sr_idempotency :: "(string \<times> idempotency_record) list"

definition initial_store :: store where
  "initial_store = \<lparr>
     sr_listings =
       [(''listing-1'', \<lparr>li_id = ''listing-1'', li_title = ''Vintage Lamp'', li_price_cents = 4599,
           li_status = ListingActive, li_seller_id = ''seller-1'', li_quantity = 12\<rparr>),
        (''listing-2'', \<lparr>li_id = ''listing-2'', li_title = ''Ceramic Mug'', li_price_cents = 899,
           li_status = ListingActive, li_seller_id = ''seller-1'', li_quantity = 40\<rparr>),
        (''listing-3'', \<lparr>li_id = ''listing-3'', li_title = ''Archived chair'', li_price_cents = 4000,
           li_status = ListingArchived, li_seller_id = ''seller-2'', li_quantity = 1\<rparr>)],
     sr_orders = [], sr_idempotency = []\<rparr>"

definition toPublicListing :: "listing \<Rightarrow> public_listing" where
  "toPublicListing l = \<lparr>pl_id = li_id l, pl_title = li_title l, pl_price_cents = li_price_cents l,
     pl_status = li_status l, pl_seller_id = li_seller_id l\<rparr>"

section \<open>Pages\<close>

text \<open>\<open>Array.prototype.slice\<close> on whole numbers: a negative index counts from the end.\<close>

definition slice_index :: "nat \<Rightarrow> int \<Rightarrow> nat" where
  "slice_index len i = (if i < 0 then nat (max 0 (int len + i)) else nat (min i (int len)))"

definition js_slice :: "'a list \<Rightarrow> int \<Rightarrow> int \<Rightarrow> 'a list" where
  "js_slice xs start stop =
     take (slice_index (length xs) stop - slice_index (length xs) start) (drop (slice_index (length xs) start) xs)"

fun findIndex :: "('a \<Rightarrow> bool) \<Rightarrow> 'a list \<Rightarrow> int" where
  "findIndex p [] = - 1"
| "findIndex p (x # xs) = (if p x then 0 else (let i = findIndex p xs in if i < 0 then - 1 else i + 1))"

definition page_start :: "('a \<Rightarrow> string) \<Rightarrow> 'a list \<Rightarrow> string option \<Rightarrow> int" where
  "page_start id_of items cursor =
     (case cursor of
        None \<Rightarrow> 0
      | Some c \<Rightarrow> if c = [] then 0 else
          let idx = findIndex (\<lambda>x. id_of x = c) items in if 0 \<le> idx then idx + 1 else 0)"

definition paginate ::
  "('a \<Rightarrow> string) \<Rightarrow> 'a list \<Rightarrow> int option \<Rightarrow> string option \<Rightarrow> 'a list \<times> string option" where
  "paginate id_of items limit cursor =
     (let pageSize = (case limit of Some n \<Rightarrow> n | None \<Rightarrow> 20);
          start = page_start id_of items cursor;
          slice = js_slice items start (start + pageSize);
          hasMore = start + pageSize < int (length items)
      in (slice, if hasMore \<and> slice \<noteq> [] then Some (id_of (last slice)) else None))"

section \<open>The listing endpoints\<close>

definition newListingId :: "(nat \<Rightarrow> string) \<Rightarrow> nat \<Rightarrow> string" where
  "newListingId uuid n = ''listing-'' @ uuid n"

definition list_listings :: "int option \<Rightarrow> string option \<Rightarrow> store \<Rightarrow> public_listing list \<times> string option" where
  "list_listings limit cursor st =
     paginate pl_id (map toPublicListing (filter (\<lambda>l. li_status l = ListingActive) (map snd (sr_listings st))))
       limit cursor"

definition listing_not_found :: "string \<Rightarrow> string \<Rightarrow> thrown" where
  "listing_not_found detail path = mk_problem 404 ''https://marketplace.local/problems/listing-not-found''
     ''Listing not found'' detail path"

definition forbidden :: "string \<Rightarrow> string \<Rightarrow> thrown" where
  "forbidden detail path = mk_problem 403 ''https://marketplace.local/problems/forbidden'' ''Forbidden'' detail path"

definition get_listing :: "string \<Rightarrow> (store, thrown, public_listing) exec" where
  "get_listing i st =
     (case map_of (sr_listings st) i of
        None \<Rightarrow> (Inl (listing_not_found ''Listing with the given id does not exist'' (''/v1/listings/'' @ i)), st)
      | Some l \<Rightarrow> (Inr (toPublicListing l), st))"

record create_listing =
  cl_title :: string
  cl_price_cents :: int
  cl_quantity :: int

text \<open>The answer carries the listing and the \<open>Location\<close> header.\<close>

definition create_listing_op ::
  "(nat \<Rightarrow> string) \<Rightarrow> nat \<Rightarrow> string \<Rightarrow> string \<Rightarrow> create_listing \<Rightarrow> (store, thrown, listing \<times> string) exec" where
  "create_listing_op uuid n userId role body st =
     (if role \<noteq> ''seller'' then (Inl (forbidden ''Only sellers can create listings'' ''/v1/listings''), st)
      else
        let i = newListingId uuid n;
            l = \<lparr>li_id = i, li_title = cl_title body, li_price_cents = cl_price_cents body,
                 li_status = ListingActive, li_seller_id = userId, li_quantity = cl_quantity body\<rparr>
        in (Inr (l, ''/v1/listings/'' @ i), st\<lparr>sr_listings := AList.update i l (sr_listings st)\<rparr>))"

record patch_listing =
  pt_title :: "string option"
  pt_price_cents :: "int option"
  pt_quantity :: "int option"
  pt_status :: "listing_status option"

definition assign_listing :: "patch_listing \<Rightarrow> listing \<Rightarrow> listing" where
  "assign_listing b l = l\<lparr>
     li_title := (case pt_title b of Some t \<Rightarrow> t | None \<Rightarrow> li_title l),
     li_price_cents := (case pt_price_cents b of Some c \<Rightarrow> c | None \<Rightarrow> li_price_cents l),
     li_quantity := (case pt_quantity b of Some q \<Rightarrow> q | None \<Rightarrow> li_quantity l),
     li_status := (case pt_status b of Some s \<Rightarrow> s | None \<Rightarrow> li_status l)\<rparr>"

definition update_listing ::
  "string \<Rightarrow> string \<Rightarrow> string \<Rightarrow> patch_listing \<Rightarrow> (store, thrown, listing) exec" where
  "update_listing i userId role body st =
     (case map_of (sr_listings st) i of
        None \<Rightarrow> (Inl (listing_not_found ''Listing with the given id does not exist'' (''/v1/listings/'' @ i)), st)
      | Some l \<Rightarrow>
          if role \<noteq> ''seller'' \<or> li_seller_id l \<noteq> userId
          then (Inl (forbidden ''Only the listing owner can update it'' (''/v1/listings/'' @ i)), st)
          else (Inr (assign_listing body l), st\<lparr>sr_listings := AList.update i (assign_listing body l) (sr_listings st)\<rparr>))"

section \<open>Pages, lemmas\<close>

lemma findIndex_Some:
  "findIndex p xs = int i \<longleftrightarrow> i < length xs \<and> p (xs ! i) \<and> (\<forall>j<i. \<not> p (xs ! j))"
proof (induction xs arbitrary: i)
  case (Cons x xs)
  show ?case
  proof (cases i)
    case 0
    then show ?thesis by (auto simp: Let_def)
  next
    case (Suc k)
    have "findIndex p xs < 0 \<or> (\<exists>m. findIndex p xs = int m)" by (metis nonneg_int_cases not_le)
    then show ?thesis using Cons.IH [of k] Suc by (auto simp: Let_def less_Suc_eq_0_disj all_conj_distrib)
  qed
qed simp

lemma js_slice_nonneg: "js_slice xs (int a) (int a + int n) = take n (drop a xs)"
  by (auto simp: js_slice_def slice_index_def min_def nat_add_distrib)

text \<open>The page after the element at position \<open>k - 1\<close>; \<open>k\<close> is 0 for the first page.\<close>

lemma paginate_page:
  assumes "distinct (map id_of items)" and "0 < n" and "k \<le> length items"
    and "\<forall>x \<in> set items. id_of x \<noteq> []"
    and "cursor = (if k = 0 then None else Some (id_of (items ! (k - 1))))"
  shows "paginate id_of items (Some (int n)) cursor =
    (take n (drop k items), if k + n < length items then Some (id_of (items ! (k + n - 1))) else None)"
proof -
  have start: "page_start id_of items cursor = int k"
  proof (cases k)
    case (Suc j)
    have "findIndex (\<lambda>x. id_of x = id_of (items ! j)) items = int j"
      unfolding findIndex_Some using assms(1,3) Suc by (auto simp: distinct_conv_nth)
    then show ?thesis using assms(3-5) Suc by (simp add: page_start_def)
  qed (simp add: assms(5) page_start_def)
  have "k + n < length items \<Longrightarrow> last (take n (drop k items)) = items ! (k + n - 1)"
    using assms(2) by (subst last_conv_nth) auto
  moreover have "k + n < length items \<Longrightarrow> take n (drop k items) \<noteq> []" using assms(2) by simp
  ultimately show ?thesis
    unfolding paginate_def start Let_def by (auto simp: js_slice_nonneg)
qed

text \<open>Following \<open>next_cursor\<close> until it is null.\<close>

fun all_pages :: "('a \<Rightarrow> string) \<Rightarrow> 'a list \<Rightarrow> int \<Rightarrow> nat \<Rightarrow> string option \<Rightarrow> 'a list option" where
  "all_pages id_of items limit 0 cursor = None"
| "all_pages id_of items limit (Suc fuel) cursor =
     (case paginate id_of items (Some limit) cursor of
        (page, None) \<Rightarrow> Some page
      | (page, Some c) \<Rightarrow> map_option (\<lambda>rest. page @ rest) (all_pages id_of items limit fuel (Some c)))"

lemma all_pages_from:
  assumes "distinct (map id_of items)" and "0 < n" and "\<forall>x \<in> set items. id_of x \<noteq> []"
    and "k \<le> length items" and "length items - k < fuel"
    and "cursor = (if k = 0 then None else Some (id_of (items ! (k - 1))))"
  shows "all_pages id_of items (int n) fuel cursor = Some (drop k items)"
  using assms(4-6)
proof (induction fuel arbitrary: k cursor)
  case (Suc fuel)
  have page: "paginate id_of items (Some (int n)) cursor =
      (take n (drop k items), if k + n < length items then Some (id_of (items ! (k + n - 1))) else None)"
    using paginate_page [OF assms(1,2) Suc.prems(1) assms(3) Suc.prems(3)] .
  show ?case
  proof (cases "k + n < length items")
    case True
    then have "all_pages id_of items (int n) fuel (Some (id_of (items ! (k + n - 1)))) = Some (drop (k + n) items)"
      using Suc.IH [of "k + n"] Suc.prems(2) assms(2) by simp
    then show ?thesis using page True by (simp add: add.commute [of k n] drop_drop [symmetric] del: drop_drop)
  next
    case False
    then show ?thesis using page by simp
  qed
qed simp

section \<open>The catalog, lemmas\<close>

definition listings_ok :: "store \<Rightarrow> bool" where
  "listings_ok st \<longleftrightarrow> distinct (map fst (sr_listings st))
     \<and> (\<forall>p \<in> set (sr_listings st). li_id (snd p) = fst p \<and> fst p \<noteq> [])"

lemma listings_ok_update:
  assumes "listings_ok st" and "li_id l = i" and "i \<noteq> []"
  shows "listings_ok (st\<lparr>sr_listings := AList.update i l (sr_listings st)\<rparr>)"
proof -
  have "distinct (map fst (AList.update i l (sr_listings st)))"
    using assms(1) by (simp add: listings_ok_def distinct_update)
  moreover have "set (AList.update i l xs) \<subseteq> insert (i, l) (set xs)" for xs
    by (induction xs) auto
  ultimately show ?thesis using assms by (fastforce simp: listings_ok_def)
qed

lemma initial_listings_ok: "listings_ok initial_store"
  by (simp add: listings_ok_def initial_store_def)

section \<open>Properties\<close>

text \<open>
  (C36) Cursor pagination is complete: following \<open>next_cursor\<close> from the first page on visits every
  item exactly once and in order, and ends after at most one page per item, for every page
  size from 1 on.
\<close>

theorem paginate_complete:
  assumes "distinct (map id_of items)" and "\<forall>x \<in> set items. id_of x \<noteq> []" and "1 \<le> limit"
  shows "all_pages id_of items limit (Suc (length items)) None = Some items"
  using all_pages_from [OF assms(1) _ assms(2), of "nat limit" 0 "Suc (length items)" None] assms(3) by simp

theorem paginate_complete_witness:
  "all_pages li_id (map snd (sr_listings initial_store)) 2 4 None = Some (map snd (sr_listings initial_store))
   \<and> paginate li_id (map snd (sr_listings initial_store)) (Some 2) None
       = (take 2 (map snd (sr_listings initial_store)), Some ''listing-2'')"
proof -
  have "distinct (map li_id (map snd (sr_listings initial_store)))"
    "\<forall>x \<in> set (map snd (sr_listings initial_store)). li_id x \<noteq> []"
    by (simp_all add: initial_store_def)
  from paginate_complete [OF this, of 2]
  have "all_pages li_id (map snd (sr_listings initial_store)) 2 4 None = Some (map snd (sr_listings initial_store))"
    by (simp add: initial_store_def numeral_eq_Suc)
  moreover have "paginate li_id (map snd (sr_listings initial_store)) (Some 2) None
       = (take 2 (map snd (sr_listings initial_store)), Some ''listing-2'')" by code_simp
  ultimately show ?thesis by blast
qed

text \<open>
  Only its owner, acting as a seller, changes a listing, and a change keeps its identity and
  its owner and touches no other listing; a refused request changes nothing. The catalog
  stays keyed by the ids of its listings.
\<close>

theorem update_listing_owner:
  assumes "listings_ok st" and "update_listing i userId role body st = (r, st')"
  shows "listings_ok st' \<and> (\<forall>j. j \<noteq> i \<longrightarrow> map_of (sr_listings st') j = map_of (sr_listings st) j)
    \<and> (case r of
         Inl e \<Rightarrow> st' = st
       | Inr l \<Rightarrow> role = ''seller'' \<and> (\<exists>old. map_of (sr_listings st) i = Some old \<and> li_seller_id old = userId
           \<and> map_of (sr_listings st') i = Some l \<and> li_id l = i \<and> li_seller_id l = userId))"
proof (cases "map_of (sr_listings st) i")
  case None
  then show ?thesis using assms by (auto simp: update_listing_def)
next
  case (Some l)
  have "(i, l) \<in> set (sr_listings st)" using Some by (rule map_of_SomeD)
  then have l: "li_id l = i" "i \<noteq> []" using assms(1) by (auto simp: listings_ok_def)
  have "listings_ok (st\<lparr>sr_listings := AList.update i (assign_listing body l) (sr_listings st)\<rparr>)"
    by (rule listings_ok_update [OF assms(1)]) (use l in \<open>simp_all add: assign_listing_def\<close>)
  then show ?thesis using assms Some l
    by (auto simp: update_listing_def update_conv assign_listing_def split: if_splits)
qed

theorem update_listing_owner_witness:
  "\<exists>l st'. update_listing ''listing-1'' ''seller-1'' ''seller''
      \<lparr>pt_title = None, pt_price_cents = Some 5000, pt_quantity = None, pt_status = None\<rparr> initial_store = (Inr l, st')
    \<and> map_of (sr_listings st') ''listing-1'' = Some l \<and> li_price_cents l = 5000"
proof -
  let ?b = "\<lparr>pt_title = None, pt_price_cents = Some 5000, pt_quantity = None, pt_status = None\<rparr>"
  obtain r st' where u: "update_listing ''listing-1'' ''seller-1'' ''seller'' ?b initial_store = (r, st')" by fastforce
  then have "\<exists>l. r = Inr l \<and> li_price_cents l = 5000"
    by (auto simp: update_listing_def initial_store_def assign_listing_def)
  then show ?thesis using update_listing_owner [OF initial_listings_ok u] u by auto
qed

end
