(* ===== verification/JsonText.thy ===== *)
theory JsonText
  imports Prelude
begin

text \<open>
  JSON texts as \<open>JSON.stringify\<close> writes them, and the part of \<open>JSON.parse\<close> that reads such texts
  back: string literals with their escapes, and objects with fixed keys.
\<close>

section \<open>String literals\<close>

definition hex_digit :: "nat \<Rightarrow> char" where
  "hex_digit d = char_of (if d < 10 then 48 + d else 87 + d)"

definition hex_val :: "char \<Rightarrow> nat" where
  "hex_val c = (let n = of_char c :: nat in if n < 58 then n - 48 else n - 87)"

definition json_escape :: "char \<Rightarrow> string" where
  "json_escape c =
     (let n = of_char c :: nat in
      if n = 34 then [CHR 0x5C, CHR 0x22]
      else if n = 92 then [CHR 0x5C, CHR 0x5C]
      else if n = 8 then [CHR 0x5C, CHR ''b'']
      else if n = 12 then [CHR 0x5C, CHR ''f'']
      else if n = 10 then [CHR 0x5C, CHR ''n'']
      else if n = 13 then [CHR 0x5C, CHR ''r'']
      else if n = 9 then [CHR 0x5C, CHR ''t'']
      else if n < 32 then CHR 0x5C # ''u00'' @ [hex_digit (n div 16), hex_digit (n mod 16)]
      else [c])"

definition json_quote :: "string \<Rightarrow> string" where
  "json_quote s = CHR 0x22 # concat (map json_escape s) @ [CHR 0x22]"

text \<open>The characters up to the closing quote, and the text after it.\<close>

fun unquote :: "string \<Rightarrow> (string \<times> string) option" where
  "unquote [] = None"
| "unquote (c # cs) =
     (if c = CHR 0x22 then Some ([], cs)
      else if c = CHR 0x5C then
        (case cs of
           [] \<Rightarrow> None
         | e # es \<Rightarrow>
             if e = CHR ''u'' then
               (case es of
                  z1 # z2 # h # l # rest \<Rightarrow>
                    if z1 = CHR ''0'' \<and> z2 = CHR ''0''
                    then map_option (\<lambda>(s, r). (char_of (16 * hex_val h + hex_val l) # s, r)) (unquote rest)
                    else None
                | _ \<Rightarrow> None)
             else map_option (\<lambda>(s, r).
               ((if e = CHR ''b'' then CHR 0x08 else if e = CHR ''f'' then CHR 0x0C
                 else if e = CHR ''n'' then CHR 0x0A else if e = CHR ''r'' then CHR 0x0D
                 else if e = CHR ''t'' then CHR 0x09 else e) # s, r)) (unquote es))
      else map_option (\<lambda>(s, r). (c # s, r)) (unquote cs))"

definition read_string :: "string \<Rightarrow> (string \<times> string) option" where
  "read_string t = (case t of c # cs \<Rightarrow> if c = CHR 0x22 then unquote cs else None | [] \<Rightarrow> None)"

lemma hex_val_digit: "d < 16 \<Longrightarrow> hex_val (hex_digit d) = d"
  by (auto simp: hex_val_def hex_digit_def Let_def)

lemma of_char_eq_iff: "(of_char c :: nat) = n \<longleftrightarrow> n < 256 \<and> c = char_of n"
  by (metis char_of_char nat_of_char_less_256 of_char_of mod_less)

lemma unquote_escape: "unquote (json_escape c @ t) = map_option (\<lambda>(s, r). (c # s, r)) (unquote t)"
proof -
  let ?n = "of_char c :: nat"
  have special: "char_of (34::nat) = CHR 0x22" "char_of (92::nat) = CHR 0x5C" "char_of (8::nat) = CHR 0x08"
    "char_of (12::nat) = CHR 0x0C" "char_of (10::nat) = CHR 0x0A" "char_of (13::nat) = CHR 0x0D"
    "char_of (9::nat) = CHR 0x09" by code_simp+
  consider "?n \<in> {34, 92, 8, 12, 10, 13, 9}" | "?n \<notin> {34, 92, 8, 12, 10, 13, 9}" "?n < 32"
    | "?n \<notin> {34, 92}" "32 \<le> ?n" by fastforce
  then show ?thesis
  proof cases
    case 1
    then show ?thesis by (auto simp: of_char_eq_iff special json_escape_def)
  next
    case 2
    then have d: "?n div 16 < 16" "?n mod 16 < 16" by auto
    have "char_of (16 * (?n div 16) + ?n mod 16) = c" by simp
    then show ?thesis using 2 d by (simp add: json_escape_def Let_def hex_val_digit)
  next
    case 3
    then have "c \<noteq> CHR 0x22" "c \<noteq> CHR 0x5C" by auto
    then show ?thesis using 3 by (simp add: json_escape_def Let_def)
  qed
qed

lemma unquote_quoted: "unquote (concat (map json_escape s) @ CHR 0x22 # t) = Some (s, t)"
  by (induction s) (simp_all add: unquote_escape)

lemma read_string_quote [simp]: "read_string (json_quote s @ t) = Some (s, t)"
  by (simp add: read_string_def json_quote_def unquote_quoted)

section \<open>Fixed parts and numbers\<close>

fun expect :: "string \<Rightarrow> string \<Rightarrow> string option" where
  "expect [] t = Some t"
| "expect (c # cs) [] = None"
| "expect (c # cs) (x # xs) = (if c = x then expect cs xs else None)"

lemma expect_append [simp]: "expect p (p @ t) = Some t"
  by (induction p) auto

definition read_nat :: "string \<Rightarrow> (nat \<times> string) option" where
  "read_nat t = (let ds = takeWhile is_digit t in
     if ds = [] then None else Some (nat_of_digits ds, dropWhile is_digit t))"

lemma read_nat_show:
  assumes "t = [] \<or> \<not> is_digit (hd t)"
  shows "read_nat (show_nat n @ t) = Some (n, t)"
proof -
  have "\<forall>c \<in> set (show_nat n). is_digit c" using show_nat_digits [of n] by (simp add: list_all_iff)
  then have "takeWhile is_digit (show_nat n @ t) = show_nat n" "dropWhile is_digit (show_nat n @ t) = t"
    using assms by (cases t; simp add: takeWhile_append dropWhile_append)+
  then show ?thesis by (simp add: read_nat_def)
qed

end
