(* ===== verification/OrderEvents.thy ===== *)
theory OrderEvents
  imports JsErrors JsonText "HOL-Library.AList"
begin

text \<open>
  \<open>src/orders/order-events.service.ts\<close>, the in-process bus of order status changes, with the two
  kinds of observer its subject has: the server-sent-event responses of
  \<open>src/orders/order-events.controller.ts\<close> and the WebSocket gateway of
  \<open>src/orders/orders.gateway.ts\<close>. A \<open>Map\<close> is an association list in insertion order. A response
  is the list of the calls made on it; a socket is the list of the messages emitted to it.
  Event ids are natural numbers; the code's numbers are exact up to \<open>2^53\<close> events per order.
\<close>

section \<open>Events and streams\<close>

record order_status_event =
  se_id :: nat
  se_orderId :: string
  se_status :: string

definition BUFFER_LIMIT :: nat where
  "BUFFER_LIMIT = 50"

record order_event_stream =
  os_nextId :: nat
  os_buffer :: "order_status_event list"

section \<open>Observers\<close>

text \<open>
  The callbacks subscribed to the subject: \<open>SseObserver c oid\<close> is the callback of the response
  \<open>c\<close> behind the filter of \<open>changes$(oid)\<close>, \<open>GatewayObserver\<close> the one of the gateway on
  \<open>allChanges$()\<close>.
\<close>

datatype observer = SseObserver nat string | GatewayObserver

text \<open>The calls on a response object.\<close>

datatype res_call = WriteHead nat "(string \<times> string) list" | Write string

record socket_message =
  sm_id :: string
  sm_status :: string
  sm_eventId :: nat

record bus =
  eb_streams :: "(string \<times> order_event_stream) list"
  eb_observers :: "observer list"
  eb_responses :: "nat \<Rightarrow> res_call list"
  eb_rooms :: "(nat \<times> string) list"
  eb_sockets :: "nat \<Rightarrow> socket_message list"

definition new_bus :: bus where
  "new_bus = \<lparr>eb_streams = [], eb_observers = [], eb_responses = (\<lambda>_. []), eb_rooms = [],
     eb_sockets = (\<lambda>_. [])\<rparr>"

definition res_write :: "nat \<Rightarrow> string \<Rightarrow> bus \<Rightarrow> bus" where
  "res_write c chunk b = b\<lparr>eb_responses := (eb_responses b)(c := eb_responses b c @ [Write chunk])\<rparr>"

definition sse_id_line :: "order_status_event \<Rightarrow> string" where
  "sse_id_line e = ''id: '' @ show_nat (se_id e) @ [CHR 0x0A]"

definition sse_data_line :: "order_status_event \<Rightarrow> string" where
  "sse_data_line e = ''data: {'' @ json_quote ''id'' @ '':'' @ json_quote (se_orderId e) @ '',''
     @ json_quote ''status'' @ '':'' @ json_quote (se_status e) @ ''}'' @ [CHR 0x0A, CHR 0x0A]"

definition writeSseFrame :: "nat \<Rightarrow> order_status_event \<Rightarrow> bus \<Rightarrow> bus" where
  "writeSseFrame c e b =
     res_write c (sse_data_line e) (res_write c (''event: order.status'' @ [CHR 0x0A]) (res_write c (sse_id_line e) b))"

definition room_of :: "string \<Rightarrow> string" where
  "room_of orderId = ''orders:'' @ orderId"

definition emit_status :: "order_status_event \<Rightarrow> bus \<Rightarrow> bus" where
  "emit_status e b = b\<lparr>eb_sockets := (\<lambda>s.
     if (s, room_of (se_orderId e)) \<in> set (eb_rooms b)
     then eb_sockets b s @ [\<lparr>sm_id = se_orderId e, sm_status = se_status e, sm_eventId = se_id e\<rparr>]
     else eb_sockets b s)\<rparr>"

fun notify :: "order_status_event \<Rightarrow> observer \<Rightarrow> bus \<Rightarrow> bus" where
  "notify e (SseObserver c oid) b = (if se_orderId e = oid then writeSseFrame c e b else b)"
| "notify e GatewayObserver b = emit_status e b"

text \<open>\<open>subject.next\<close> calls every observer, in the order of subscription.\<close>

definition subject_next :: "order_status_event \<Rightarrow> bus \<Rightarrow> bus" where
  "subject_next e b = fold (notify e) (eb_observers b) b"

section \<open>The service\<close>

definition streamFor :: "string \<Rightarrow> bus \<Rightarrow> order_event_stream \<times> bus" where
  "streamFor orderId b =
     (case map_of (eb_streams b) orderId of
        Some existing \<Rightarrow> (existing, b)
      | None \<Rightarrow>
          let created = \<lparr>os_nextId = 1, os_buffer = []\<rparr>
          in (created, b\<lparr>eb_streams := AList.update orderId created (eb_streams b)\<rparr>))"

definition push_event :: "order_status_event \<Rightarrow> order_event_stream \<Rightarrow> order_event_stream" where
  "push_event e st =
     (let buf = os_buffer st @ [e]
      in \<lparr>os_nextId = os_nextId st + 1,
          os_buffer = (if BUFFER_LIMIT < length buf then drop (length buf - BUFFER_LIMIT) buf else buf)\<rparr>)"

definition publish :: "string \<Rightarrow> string \<Rightarrow> bus \<Rightarrow> order_status_event \<times> bus" where
  "publish orderId status b =
     (case streamFor orderId b of
        (st, b1) \<Rightarrow>
          let event = \<lparr>se_id = os_nextId st, se_orderId = orderId, se_status = status\<rparr>
          in (event, subject_next event
               (b1\<lparr>eb_streams := AList.update orderId (push_event event st) (eb_streams b1)\<rparr>)))"

definition replayAfter :: "string \<Rightarrow> nat \<Rightarrow> bus \<Rightarrow> order_status_event list" where
  "replayAfter orderId lastEventId b =
     (let buffer = (case map_of (eb_streams b) orderId of Some st \<Rightarrow> os_buffer st | None \<Rightarrow> [])
      in filter (\<lambda>e. lastEventId < se_id e) buffer)"

definition subscribe :: "observer \<Rightarrow> bus \<Rightarrow> bus" where
  "subscribe ob b = b\<lparr>eb_observers := eb_observers b @ [ob]\<rparr>"

definition unsubscribe :: "observer \<Rightarrow> bus \<Rightarrow> bus" where
  "unsubscribe ob b = b\<lparr>eb_observers := remove1 ob (eb_observers b)\<rparr>"

section \<open>What an observer sees\<close>

lemma notify_frame [simp]:
  "eb_streams (notify e ob b) = eb_streams b" "eb_observers (notify e ob b) = eb_observers b"
  "eb_rooms (notify e ob b) = eb_rooms b"
  by (cases ob; simp add: writeSseFrame_def res_write_def emit_status_def)+

lemma fold_notify_frame [simp]:
  "eb_streams (fold (notify e) obs b) = eb_streams b"
  "eb_observers (fold (notify e) obs b) = eb_observers b"
  "eb_rooms (fold (notify e) obs b) = eb_rooms b"
  by (induction obs arbitrary: b) auto

lemma streamFor_frame [simp]:
  "eb_observers (snd (streamFor oid b)) = eb_observers b"
  "eb_responses (snd (streamFor oid b)) = eb_responses b"
  "eb_rooms (snd (streamFor oid b)) = eb_rooms b"
  "eb_sockets (snd (streamFor oid b)) = eb_sockets b"
  by (auto simp: streamFor_def Let_def split: option.splits)

lemma publish_frame [simp]:
  "eb_observers (snd (publish oid s b)) = eb_observers b"
  "eb_rooms (snd (publish oid s b)) = eb_rooms b"
  by (simp_all add: publish_def subject_next_def Let_def split: prod.splits)
    (metis snd_conv streamFor_frame)+

definition frame_chunks :: "order_status_event \<Rightarrow> res_call list" where
  "frame_chunks e = [Write (sse_id_line e), Write (''event: order.status'' @ [CHR 0x0A]), Write (sse_data_line e)]"

lemma writeSseFrame_responses:
  "eb_responses (writeSseFrame c e b) = (eb_responses b)(c := eb_responses b c @ frame_chunks e)"
  by (simp add: writeSseFrame_def res_write_def frame_chunks_def)

lemma notify_responses:
  "eb_responses (notify e ob b) c =
     eb_responses b c @ (if ob = SseObserver c (se_orderId e) then frame_chunks e else [])"
  by (cases ob) (auto simp: writeSseFrame_responses emit_status_def)

lemma fold_notify_responses:
  "eb_responses (fold (notify e) obs b) c =
     eb_responses b c @ concat (replicate (count_list obs (SseObserver c (se_orderId e))) (frame_chunks e))"
proof (induction obs arbitrary: b)
  case (Cons ob obs)
  then show ?case by (cases "ob = SseObserver c (se_orderId e)") (auto simp: notify_responses writeSseFrame_responses)
qed simp

lemma publish_responses:
  "eb_responses (snd (publish oid s b)) c =
     eb_responses b c
     @ concat (replicate (count_list (eb_observers b) (SseObserver c oid)) (frame_chunks (fst (publish oid s b))))"
proof -
  obtain st b1 where f: "streamFor oid b = (st, b1)" by fastforce
  then have "eb_responses b1 = eb_responses b" "eb_observers b1 = eb_observers b"
    using streamFor_frame [of oid b] by simp_all
  then show ?thesis using f by (simp add: publish_def subject_next_def fold_notify_responses Let_def)
qed

section \<open>The log behind the bus\<close>

text \<open>
  The specification: every order has a log of statuses, and the event of the \<open>i\<close>-th status has
  the id \<open>i\<close>. The bus keeps the tail of the log; a client that is at most \<open>limit\<close> events behind
  gets exactly what it missed.
\<close>

definition numbered :: "string \<Rightarrow> string list \<Rightarrow> order_status_event list" where
  "numbered oid sts = map (\<lambda>(i, s). \<lparr>se_id = i, se_orderId = oid, se_status = s\<rparr>) (zip (map Suc [0..<length sts]) sts)"

lemma length_numbered [simp]: "length (numbered oid sts) = length sts"
  by (simp add: numbered_def)

lemma numbered_Nil [simp]: "numbered oid [] = []"
  by (simp add: numbered_def)

lemma numbered_snoc [simp]:
  "numbered oid (sts @ [s]) = numbered oid sts @ [\<lparr>se_id = Suc (length sts), se_orderId = oid, se_status = s\<rparr>]"
  by (simp add: numbered_def)

lemma nth_numbered: "i < length sts \<Longrightarrow> se_id (numbered oid sts ! i) = Suc i"
  by (simp add: numbered_def)

lemma numbered_append: "take (length xs) (numbered oid (xs @ ys)) = numbered oid xs"
  by (induction ys rule: rev_induct) (simp_all add: append_assoc [symmetric] del: append_assoc)

lemma ids_numbered: "map se_id (numbered oid sts) = map Suc [0..<length sts]"
  by (induction sts rule: rev_induct) auto

lemma filter_id_numbered: "filter (\<lambda>e. k < se_id e) (numbered oid sts) = drop k (numbered oid sts)"
proof (induction sts rule: rev_induct)
  case (snoc s sts)
  then show ?case by (cases "k \<le> length sts") auto
qed simp

text \<open>The events after \<open>k\<close> among the last \<open>m\<close> of a log.\<close>

lemma filter_id_tail:
  "filter (\<lambda>e. k < se_id e) (drop m (numbered oid sts)) = drop (max k m) (numbered oid sts)"
proof (induction sts rule: rev_induct)
  case (snoc s sts)
  then show ?case by (cases "m \<le> length sts"; cases "k \<le> length sts") (auto simp: max_def)
qed simp

locale status_log =
  fixes rel :: "'s \<Rightarrow> (string \<Rightarrow> string list) \<Rightarrow> bool"
    and pub :: "string \<Rightarrow> string \<Rightarrow> 's \<Rightarrow> order_status_event \<times> 's"
    and replay :: "string \<Rightarrow> nat \<Rightarrow> 's \<Rightarrow> order_status_event list"
    and limit :: nat
  assumes pub_rel: "rel s h \<Longrightarrow> rel (snd (pub oid st s)) (h(oid := h oid @ [st]))"
    and pub_event: "rel s h \<Longrightarrow>
      fst (pub oid st s) = \<lparr>se_id = Suc (length (h oid)), se_orderId = oid, se_status = st\<rparr>"
    and replay_tail: "rel s h \<Longrightarrow> replay oid k s = drop (max k (length (h oid) - limit)) (numbered oid (h oid))"
begin

definition pub_all :: "(string \<times> string) list \<Rightarrow> 's \<Rightarrow> 's" where
  "pub_all ps s = fold (\<lambda>(oid, st) s. snd (pub oid st s)) ps s"

definition log_all :: "(string \<times> string) list \<Rightarrow> (string \<Rightarrow> string list) \<Rightarrow> string \<Rightarrow> string list" where
  "log_all ps h oid = h oid @ map snd (filter (\<lambda>p. fst p = oid) ps)"

lemma rel_pub_all: "rel s h \<Longrightarrow> rel (pub_all ps s) (log_all ps h)"
proof (induction ps arbitrary: s h)
  case (Cons p ps)
  obtain oid st where p: "p = (oid, st)" by fastforce
  have "log_all ps (h(oid := h oid @ [st])) = log_all (p # ps) h"
    by (auto simp: log_all_def p fun_eq_iff)
  moreover have "rel (pub_all ps (snd (pub oid st s))) (log_all ps (h(oid := h oid @ [st])))"
    by (rule Cons.IH [OF pub_rel [OF Cons.prems]])
  moreover have "pub_all ps (snd (pub oid st s)) = pub_all (p # ps) s" by (simp add: pub_all_def p)
  ultimately show ?case by metis
qed (simp add: pub_all_def log_all_def [abs_def])

lemma replay_missed:
  assumes "rel s h" and "length (h oid) \<le> k + limit"
  shows "replay oid k s = drop k (numbered oid (h oid))"
  using replay_tail [OF assms(1), of oid k] assms(2) by (simp add: max_absorb1)

lemma replay_bounded: "rel s h \<Longrightarrow> length (replay oid k s) \<le> limit"
  by (simp add: replay_tail)

text \<open>A client that saw the log up to \<open>s\<close> catches up after any publications, if at most \<open>limit\<close> are its own.\<close>

lemma catch_up:
  assumes "rel s h" and "length (filter (\<lambda>p. fst p = oid) ps) \<le> limit"
  shows "numbered oid (h oid) @ replay oid (length (h oid)) (pub_all ps s) = numbered oid (log_all ps h oid)"
proof -
  have "replay oid (length (h oid)) (pub_all ps s) = drop (length (h oid)) (numbered oid (log_all ps h oid))"
    using replay_missed [OF rel_pub_all [OF assms(1)], of ps oid "length (h oid)"] assms(2)
    by (simp add: log_all_def)
  moreover have "numbered oid (h oid) = take (length (h oid)) (numbered oid (log_all ps h oid))"
    unfolding log_all_def by (rule numbered_append [symmetric])
  ultimately show ?thesis by (metis append_take_drop_id)
qed

end

definition stream_of :: "bus \<Rightarrow> string \<Rightarrow> order_event_stream" where
  "stream_of b oid = (case map_of (eb_streams b) oid of Some st \<Rightarrow> st | None \<Rightarrow> \<lparr>os_nextId = 1, os_buffer = []\<rparr>)"

definition bus_log :: "bus \<Rightarrow> (string \<Rightarrow> string list) \<Rightarrow> bool" where
  "bus_log b h \<longleftrightarrow> (\<forall>oid. stream_of b oid = \<lparr>os_nextId = Suc (length (h oid)),
     os_buffer = drop (length (h oid) - BUFFER_LIMIT) (numbered oid (h oid))\<rparr>)"

lemma streamFor_fst: "fst (streamFor oid b) = stream_of b oid"
  by (simp add: streamFor_def stream_of_def Let_def split: option.splits)

lemma publish_event:
  "fst (publish oid s b) = \<lparr>se_id = os_nextId (stream_of b oid), se_orderId = oid, se_status = s\<rparr>"
  using streamFor_fst [of oid b] by (auto simp: publish_def Let_def split: prod.splits)

lemma publish_streams:
  "stream_of (snd (publish oid s b)) =
     (stream_of b)(oid := push_event (fst (publish oid s b)) (stream_of b oid))"
proof -
  obtain st b1 where f: "streamFor oid b = (st, b1)" by fastforce
  then have st: "st = stream_of b oid" using streamFor_fst [of oid b] by simp
  have "stream_of b1 = stream_of b"
    using f by (auto simp: streamFor_def stream_of_def Let_def fun_eq_iff update_conv split: option.splits if_splits)
  moreover have "stream_of (subject_next e (b1\<lparr>eb_streams := AList.update oid t (eb_streams b1)\<rparr>))
      = (stream_of b1)(oid := t)" for e t
    by (simp add: stream_of_def subject_next_def fun_eq_iff update_conv)
  ultimately show ?thesis using f st by (simp add: publish_def Let_def)
qed

lemma push_event_log:
  assumes "st = \<lparr>os_nextId = Suc (length sts), os_buffer = drop (length sts - BUFFER_LIMIT) (numbered oid sts)\<rparr>"
    and "e = \<lparr>se_id = Suc (length sts), se_orderId = oid, se_status = s\<rparr>"
  shows "push_event e st = \<lparr>os_nextId = Suc (length (sts @ [s])),
    os_buffer = drop (length (sts @ [s]) - BUFFER_LIMIT) (numbered oid (sts @ [s]))\<rparr>"
proof (cases "length sts < 50")
  case True
  then show ?thesis using assms by (auto simp: push_event_def Let_def BUFFER_LIMIT_def)
next
  case False
  then have "Suc (length sts - 50) = length sts - 49" by arith
  then show ?thesis using assms False by (auto simp: push_event_def Let_def BUFFER_LIMIT_def)
qed

interpretation order_events: status_log bus_log publish replayAfter BUFFER_LIMIT
proof unfold_locales
  fix b h oid st
  assume b: "bus_log b h"
  then have str: "stream_of b oid = \<lparr>os_nextId = Suc (length (h oid)),
      os_buffer = drop (length (h oid) - BUFFER_LIMIT) (numbered oid (h oid))\<rparr>" by (simp add: bus_log_def)
  show e: "fst (publish oid st b) = \<lparr>se_id = Suc (length (h oid)), se_orderId = oid, se_status = st\<rparr>"
    by (simp add: publish_event str)
  show "bus_log (snd (publish oid st b)) (h(oid := h oid @ [st]))"
    using b push_event_log [OF str e] by (simp add: bus_log_def publish_streams)
next
  fix b h oid k
  assume "bus_log b h"
  then have str: "stream_of b oid = \<lparr>os_nextId = Suc (length (h oid)),
      os_buffer = drop (length (h oid) - BUFFER_LIMIT) (numbered oid (h oid))\<rparr>" by (simp add: bus_log_def)
  have "replayAfter oid k b = filter (\<lambda>e. k < se_id e) (os_buffer (stream_of b oid))"
    by (simp add: replayAfter_def stream_of_def split: option.splits)
  then show "replayAfter oid k b = drop (max k (length (h oid) - BUFFER_LIMIT)) (numbered oid (h oid))"
    by (simp add: str filter_id_tail)
qed

section \<open>Histories of the bus\<close>

datatype bus_op = Publish string string | Subscribe observer | Unsubscribe observer

fun bus_step :: "bus_op \<Rightarrow> bus \<Rightarrow> bus" where
  "bus_step (Publish oid s) b = snd (publish oid s b)"
| "bus_step (Subscribe ob) b = subscribe ob b"
| "bus_step (Unsubscribe ob) b = unsubscribe ob b"

fun op_status :: "string \<Rightarrow> bus_op \<Rightarrow> string option" where
  "op_status oid (Publish p s) = (if p = oid then Some s else None)"
| "op_status oid _ = None"

text \<open>The statuses published for an order, in order.\<close>

definition history :: "bus_op list \<Rightarrow> string \<Rightarrow> string list" where
  "history ops oid = List.map_filter (op_status oid) ops"

lemma history_snoc: "history (ops @ [x]) oid = history ops oid @ (case op_status oid x of Some s \<Rightarrow> [s] | None \<Rightarrow> [])"
  by (simp add: history_def List.map_filter_def split: option.splits)

lemma bus_log_step: "bus_log b h \<Longrightarrow> bus_log (bus_step x b) (\<lambda>oid. h oid @ (case op_status oid x of Some s \<Rightarrow> [s] | None \<Rightarrow> []))"
proof (cases x)
  case (Publish p s)
  assume "bus_log b h"
  then have "bus_log (snd (publish p s b)) (h(p := h p @ [s]))" by (rule order_events.pub_rel)
  moreover have "h(p := h p @ [s]) = (\<lambda>oid. h oid @ (case op_status oid x of Some s \<Rightarrow> [s] | None \<Rightarrow> []))"
    using Publish by (auto simp: fun_eq_iff)
  ultimately show ?thesis using Publish by simp
qed (simp_all add: bus_log_def stream_of_def subscribe_def unsubscribe_def)

lemma bus_log_history: "bus_log (fold bus_step ops new_bus) (history ops)"
proof (induction ops rule: rev_induct)
  case Nil
  show ?case by (simp add: bus_log_def stream_of_def new_bus_def history_def List.map_filter_def)
next
  case (snoc x ops)
  then show ?case using bus_log_step [OF snoc, of x] by (simp add: history_snoc [abs_def])
qed

section \<open>The cursor of a reconnecting client\<close>

definition MAX_SAFE_INTEGER :: nat where
  "MAX_SAFE_INTEGER = 9007199254740991"

text \<open>
  The pattern \<open>/^(0|[1-9]\d*)$/\<close>. A numeral above the largest safe integer converts to a number
  above it, since the conversion rounds monotonically and \<open>2^53\<close> is exact.
\<close>

definition plain_numeral :: "string \<Rightarrow> bool" where
  "plain_numeral s \<longleftrightarrow> s = ''0'' \<or> (all_digits s \<and> hd s \<noteq> CHR ''0'')"

definition parseLastEventId :: "string option \<Rightarrow> nat option" where
  "parseLastEventId header =
     (case header of
        None \<Rightarrow> Some 0
      | Some h \<Rightarrow>
          let value = js_trim h
          in if \<not> plain_numeral value then None
             else if MAX_SAFE_INTEGER < nat_of_digits value then None
             else Some (nat_of_digits value))"

lemma digit_char_val: "is_digit c \<Longrightarrow> digit_char (digit_val c) = c"
  by (simp add: is_digit_def digit_char_def digit_val_def)

lemma digit_val_less: "is_digit c \<Longrightarrow> digit_val c < 10"
  unfolding is_digit_def digit_val_def by linarith

lemma char_zero: "char_of (48 :: nat) = CHR ''0''"
  by code_simp

lemma digit_val_pos: "is_digit c \<Longrightarrow> c \<noteq> CHR ''0'' \<Longrightarrow> 0 < digit_val c"
  using digit_char_val [of c] by (cases "digit_val c") (auto simp: digit_char_def char_zero)

lemma nat_of_digits_pos:
  assumes "s \<noteq> []" and "hd s \<noteq> CHR ''0''" and "list_all is_digit s"
  shows "0 < nat_of_digits s"
  using assms
proof (induction s rule: rev_induct)
  case (snoc c s)
  then show ?case by (cases "s = []") (auto simp: nat_of_digits_acc_append digit_val_pos)
qed simp

lemma show_nat_of_digits: "list_all is_digit s \<Longrightarrow> s \<noteq> [] \<Longrightarrow> hd s \<noteq> CHR ''0'' \<Longrightarrow> show_nat (nat_of_digits s) = s"
proof (induction s rule: rev_induct)
  case (snoc c s)
  then have c: "is_digit c" by simp
  show ?case
  proof (cases "s = []")
    case True
    then show ?thesis using c by (simp add: show_nat.simps digit_val_less digit_char_val)
  next
    case False
    then have "0 < nat_of_digits s" using snoc.prems by (intro nat_of_digits_pos) auto
    then have "show_nat (10 * nat_of_digits s + digit_val c) = show_nat (nat_of_digits s) @ [c]"
      using c digit_val_less [OF c] by (subst show_nat.simps) (simp add: digit_char_val)
    then show ?thesis using snoc False by (simp add: nat_of_digits_acc_append)
  qed
qed simp

lemma plain_numeral_iff: "plain_numeral s \<longleftrightarrow> (\<exists>n. s = show_nat n)"
proof
  assume "plain_numeral s"
  then consider "s = ''0''" | "all_digits s" "hd s \<noteq> CHR ''0''" by (auto simp: plain_numeral_def)
  then show "\<exists>n. s = show_nat n"
  proof cases
    case 1
    then have "s = show_nat 0" by (simp add: show_nat.simps digit_char_def char_zero)
    then show ?thesis by blast
  next
    case 2
    then show ?thesis using show_nat_of_digits [of s] by (auto simp: all_digits_def dest: sym)
  qed
next
  assume "\<exists>n. s = show_nat n"
  then obtain n where s: "s = show_nat n" by blast
  show "plain_numeral s"
  proof (cases "n = 0")
    case True
    then show ?thesis using s by (simp add: show_nat.simps digit_char_def char_zero plain_numeral_def)
  next
    case False
    then show ?thesis using s show_nat_leading [of n] by (simp add: plain_numeral_def)
  qed
qed

lemma dropWhile_all: "(\<And>x. x \<in> set xs \<Longrightarrow> P x) \<Longrightarrow> dropWhile P (xs @ ys) = dropWhile P ys"
  by (induction xs) auto

lemma js_trim_padded:
  assumes "list_all js_space a" and "list_all js_space b" and "\<forall>c \<in> set s. \<not> js_space c" and ne: "s \<noteq> []"
  shows "js_trim (a @ s @ b) = s"
proof -
  have "dropWhile js_space (a @ s @ b) = dropWhile js_space (s @ b)"
    using assms(1) by (intro dropWhile_all) (auto simp: list_all_iff)
  also have "\<dots> = s @ b" using ne assms(3) by (cases s) auto
  finally have "js_trim (a @ s @ b) = rev (dropWhile js_space (rev b @ rev s))" by (simp add: js_trim_def)
  also have "dropWhile js_space (rev b @ rev s) = dropWhile js_space (rev s)"
    using assms(2) by (intro dropWhile_all) (auto simp: list_all_iff)
  also have "\<dots> = rev s"
    using ne assms(3) by (cases s rule: rev_cases) auto
  finally show ?thesis by simp
qed

lemma digit_not_js_space: "is_digit c \<Longrightarrow> \<not> js_space c"
  by (auto simp: is_digit_def js_space_def)

lemma show_nat_not_space: "\<forall>c \<in> set (show_nat n). \<not> js_space c"
  using show_nat_digits [of n] digit_not_js_space by (auto simp: list_all_iff)

section \<open>Properties\<close>

text \<open>
  (C25) The bus implements one numbered log per order: after any sequence of publications,
  subscriptions and cancellations, the stream of an order counts its statuses, its buffer is the
  tail of the log of at most 50 events, and \<open>replayAfter\<close> returns the events of that tail with a
  larger id, in order; events of other orders never show.
\<close>

theorem replayAfter_refines:
  "replayAfter oid k (fold bus_step ops new_bus)
     = drop (max k (length (history ops oid) - 50)) (numbered oid (history ops oid))
   \<and> os_nextId (stream_of (fold bus_step ops new_bus) oid) = Suc (length (history ops oid))
   \<and> length (os_buffer (stream_of (fold bus_step ops new_bus) oid)) \<le> 50"
  using order_events.replay_tail [OF bus_log_history, of oid k ops] bus_log_history [of ops]
  by (simp add: bus_log_def BUFFER_LIMIT_def)

text \<open>
  The cursor of a client round-trips: the id line of every event with a safe id is read
  back as that id, blanks around it do not matter, and conversely a header that is accepted is the
  numeral of the id it is read as, without sign or leading zero, and is at most \<open>2^53 - 1\<close>. An absent
  header is the cursor 0.
\<close>

theorem parseLastEventId_roundtrip:
  "parseLastEventId None = Some 0
   \<and> (n \<le> MAX_SAFE_INTEGER \<and> list_all js_space a \<and> list_all js_space b
        \<longrightarrow> parseLastEventId (Some (a @ show_nat n @ b)) = Some n)
   \<and> (parseLastEventId (Some h) = Some m \<longleftrightarrow> js_trim h = show_nat m \<and> m \<le> MAX_SAFE_INTEGER)"
proof -
  have plain: "plain_numeral (show_nat n)" for n by (auto simp: plain_numeral_iff)
  have "parseLastEventId (Some (a @ show_nat n @ b)) = Some n"
    if "n \<le> MAX_SAFE_INTEGER" "list_all js_space a" "list_all js_space b"
    using that plain [of n] by (simp add: parseLastEventId_def js_trim_padded show_nat_not_space)
  moreover have "parseLastEventId (Some h) = Some m \<longleftrightarrow> js_trim h = show_nat m \<and> m \<le> MAX_SAFE_INTEGER"
  proof (cases "plain_numeral (js_trim h)")
    case True
    then obtain n where "js_trim h = show_nat n" by (auto simp: plain_numeral_iff)
    then show ?thesis using plain by (auto simp: parseLastEventId_def)
  next
    case False
    then show ?thesis by (auto simp: parseLastEventId_def plain_numeral_iff)
  qed
  ultimately show ?thesis by (simp add: parseLastEventId_def)
qed

theorem parseLastEventId_roundtrip_witness:
  "parseLastEventId (Some '' 37 '') = Some 37 \<and> parseLastEventId (Some ''-1'') = None"
proof -
  have "(37::nat) \<le> MAX_SAFE_INTEGER" by (simp add: MAX_SAFE_INTEGER_def)
  moreover have "list_all js_space '' ''" by code_simp
  ultimately have "parseLastEventId (Some ('' '' @ show_nat 37 @ '' '')) = Some 37"
    using parseLastEventId_roundtrip [of 37 "'' ''" "'' ''" "[]" 0] by blast
  moreover have "'' '' @ show_nat 37 @ '' '' = '' 37 ''" by code_simp
  moreover have "\<not> plain_numeral (js_trim ''-1'')" by code_simp
  ultimately show ?thesis by (simp add: parseLastEventId_def)
qed

end
