(* ===== verification/Orders.thy ===== *)
theory Orders
  imports CheckoutCorrect Store OrderEvents
begin

text \<open>
  \<open>src/orders/orders.service.ts\<close>: the order endpoints over the checkout service, the database,
  the in-memory store and the bus of status events. The digest \<open>hashBody\<close> of a request body is a
  parameter. The rating queue is called fire-and-forget; a call is recorded with its arguments.
  Strings are compared as the code does: identifiers of type \<open>bigint\<close> arrive as text.
\<close>

section \<open>Identifiers and aliases\<close>

definition USER_ALIASES :: "(string \<times> string) list" where
  "USER_ALIASES =
     [(''buyer-1'', ''buyer1@shop.local''), (''buyer-2'', ''buyer2@shop.local''),
      (''buyer-3'', ''buyer3@shop.local''), (''buyer-4'', ''buyer4@shop.local''),
      (''buyer-5'', ''buyer5@shop.local''), (''seller-1'', ''seller1@shop.local''),
      (''seller-2'', ''seller2@shop.local'')]"

definition ALLOWED_STATUSES :: "string list" where
  "ALLOWED_STATUSES = [''pending'', ''paid'', ''shipped'', ''delivered'', ''cancelled'']"

text \<open>The group of the pattern \<open>/^order-(\d+)$/\<close>.\<close>

definition order_number :: "string \<Rightarrow> string option" where
  "order_number i =
     (if take 6 i = ''order-'' \<and> all_digits (drop 6 i) then Some (drop 6 i) else None)"

definition canonicalOrderId :: "string \<Rightarrow> string" where
  "canonicalOrderId i =
     (case order_number i of
        Some n \<Rightarrow> ''order-'' @ n
      | None \<Rightarrow> if all_digits i then ''order-'' @ i else i)"

definition toDbOrderId :: "string \<Rightarrow> string" where
  "toDbOrderId i = (case order_number i of Some n \<Rightarrow> n | None \<Rightarrow> i)"

definition publicUserId :: "string \<Rightarrow> string" where
  "publicUserId email =
     (case find (\<lambda>p. snd p = email) USER_ALIASES of Some p \<Rightarrow> fst p | None \<Rightarrow> email)"

section \<open>The application state\<close>

record app =
  ap_world :: world
  ap_store :: store
  ap_bus :: bus
  ap_ratings :: "(string \<times> string list) list"

definition dbE :: "(world, thrown, 'a) exec \<Rightarrow> (app, thrown, 'a) exec" where
  "dbE m a = (case m (ap_world a) of (r, w) \<Rightarrow> (r, a\<lparr>ap_world := w\<rparr>))"

section \<open>Case-insensitive patterns\<close>

definition lower_char :: "char \<Rightarrow> char" where
  "lower_char c = (let n = of_char c :: nat in if 65 \<le> n \<and> n \<le> 90 then char_of (n + 32) else c)"

definition lower :: "string \<Rightarrow> string" where
  "lower s = map lower_char s"

text \<open>
  \<open>LIKE\<close>: the percent sign stands for any text, the underscore for any character, the backslash
  takes the next character literally.
\<close>

fun like_match :: "string \<Rightarrow> string \<Rightarrow> thrown + bool" where
  "like_match [] t = Inr (t = [])"
| "like_match (c # p) t =
     (if c = CHR ''%'' then
        (case like_match p t of
           Inl e \<Rightarrow> Inl e
         | Inr b \<Rightarrow> if b then Inr True
             else (case t of [] \<Rightarrow> Inr False | x # t' \<Rightarrow> like_match (c # p) t'))
      else (case t of
          [] \<Rightarrow> Inr False
        | x # t' \<Rightarrow>
            if c = CHR 0x5C then
              (case p of
                 [] \<Rightarrow> Inl (PgError ''22025'' ''LIKE pattern must not end with escape character'')
               | q # p' \<Rightarrow> if q = x then like_match p' t' else Inr False)
            else if c = CHR ''_'' \<or> c = x then like_match p t' else Inr False))"

fun find_product :: "string \<Rightarrow> product_row list \<Rightarrow> thrown + product_row option" where
  "find_product title [] = Inr None"
| "find_product title (p # ps) =
     (if \<not> p_is_active p then find_product title ps
      else (case like_match (lower title) (lower (p_name p)) of
          Inl e \<Rightarrow> Inl e
        | Inr b \<Rightarrow> if b then Inr (Some p) else find_product title ps))"

definition sql_find_product :: "string \<Rightarrow> db \<Rightarrow> (thrown + product_row option) \<times> db" where
  "sql_find_product title d = (find_product title (products d), d)"

section \<open>Users\<close>

definition sql_user_by_email :: "string \<Rightarrow> user_role \<Rightarrow> db \<Rightarrow> (thrown + user_row option) \<times> db" where
  "sql_user_by_email email role d = (Inr (find (\<lambda>u. u_email u = email \<and> u_role u = role) (users d)), d)"

definition sql_user_by_id :: "string \<Rightarrow> user_role \<Rightarrow> db \<Rightarrow> (thrown + user_row option) \<times> db" where
  "sql_user_by_id i role d =
     (case pg_bigint i of
        Inl e \<Rightarrow> (Inl e, d)
      | Inr n \<Rightarrow> (Inr (find (\<lambda>u. u_id u = n \<and> u_role u = role) (users d)), d))"

definition resolveUser :: "string \<Rightarrow> user_role \<Rightarrow> (world, thrown, user_row option) exec" where
  "resolveUser headerUserId role =
     (case map_of USER_ALIASES headerUserId of
        Some aliasEmail \<Rightarrow> query (sql_user_by_email aliasEmail role)
      | None \<Rightarrow>
          if CHR ''@'' \<in> set headerUserId then query (sql_user_by_email headerUserId role)
          else if all_digits headerUserId then query (sql_user_by_id headerUserId role)
          else returnE None)"

definition resolveBuyer :: "string \<Rightarrow> (world, thrown, user_row option) exec" where
  "resolveBuyer headerUserId = resolveUser headerUserId Buyer"

definition callerCanRead :: "string \<Rightarrow> string \<Rightarrow> user_row \<Rightarrow> user_row \<Rightarrow> (world, thrown, bool) exec" where
  "callerCanRead role userId buyer seller =
     (if role = ''buyer'' then
        bindE (resolveUser userId Buyer) (\<lambda>caller. returnE (map_option u_id caller = Some (u_id buyer)))
      else if role = ''seller'' then
        bindE (resolveUser userId Seller) (\<lambda>caller. returnE (map_option u_id caller = Some (u_id seller)))
      else returnE False)"

section \<open>Reading an order\<close>

text \<open>The order with its joined user, lines, products and sellers.\<close>

record loaded_item =
  ln_item :: order_item_row
  ln_product :: "(product_row \<times> user_row option) option"

record loaded_order =
  ld_row :: order_row
  ld_user :: "user_row option"
  ld_items :: "loaded_item list"

definition join_item :: "db \<Rightarrow> order_item_row \<Rightarrow> loaded_item" where
  "join_item d i = \<lparr>ln_item = i,
     ln_product = map_option (\<lambda>p. (p, find (\<lambda>u. u_id u = p_seller_id p) (users d)))
       (find (\<lambda>p. p_id p = i_product_id i) (products d))\<rparr>"

definition join_order :: "db \<Rightarrow> order_row \<Rightarrow> loaded_order" where
  "join_order d r = \<lparr>ld_row = r, ld_user = find (\<lambda>u. u_id u = o_user_id r) (users d),
     ld_items = map (join_item d) (lines_of d (o_id r))\<rparr>"

definition sql_load_order :: "string \<Rightarrow> db \<Rightarrow> (thrown + loaded_order list) \<times> db" where
  "sql_load_order dbId d =
     (Inr (map (join_order d) (filter (\<lambda>r. show_int (o_id r) = dbId) (orders d))), d)"

definition item_cmp :: "loaded_item \<Rightarrow> loaded_item \<Rightarrow> int" where
  "item_cmp left right =
     (let l = show_int (i_id (ln_item left)); r = show_int (i_id (ln_item right))
      in if l < r then - 1 else if r < l then 1 else 0)"

definition sort_items :: "loaded_order \<Rightarrow> loaded_order" where
  "sort_items o' = o'\<lparr>ld_items := js_sort item_cmp (ld_items o')\<rparr>"

definition first_seller :: "loaded_order \<Rightarrow> user_row option" where
  "first_seller o' =
     (case ld_items o' of
        [] \<Rightarrow> None
      | i # is \<Rightarrow> (case ln_product i of None \<Rightarrow> None | Some (p, s) \<Rightarrow> s))"

definition listingIdForProduct :: "store \<Rightarrow> string \<Rightarrow> string" where
  "listingIdForProduct st name =
     (case find (\<lambda>l. lower (li_title l) = lower name) (map snd (sr_listings st)) of
        Some l \<Rightarrow> li_id l
      | None \<Rightarrow> name)"

fun api_items :: "store \<Rightarrow> loaded_item list \<Rightarrow> thrown + order_line list" where
  "api_items st [] = Inr []"
| "api_items st (i # is) =
     (case ln_product i of
        None \<Rightarrow> Inl (PlainError ''Cannot read properties of null'')
      | Some (p, s) \<Rightarrow>
          (case api_items st is of
             Inl e \<Rightarrow> Inl e
           | Inr ls \<Rightarrow> Inr (\<lparr>ol_listing_id = listingIdForProduct st (p_name p),
               ol_quantity = i_quantity (ln_item i),
               ol_price_cents = i_unit_price_cents (ln_item i)\<rparr> # ls)))"

definition api_status_of :: "string \<Rightarrow> api_status" where
  "api_status_of s = (if s = ''paid'' then StatusPaid else if s = ''cancelled'' then StatusCancelled
     else StatusCreated)"

definition toApiOrder :: "store \<Rightarrow> loaded_order \<Rightarrow> user_row \<Rightarrow> user_row \<Rightarrow> thrown + api_order" where
  "toApiOrder st o' user seller =
     (case api_items st (ld_items o') of
        Inl e \<Rightarrow> Inl e
      | Inr is \<Rightarrow> Inr \<lparr>ao_id = ''order-'' @ show_int (o_id (ld_row o')),
          ao_buyer_id = publicUserId (u_email user), ao_seller_id = publicUserId (u_email seller),
          ao_items = is, ao_total_cents = o_total_cents (ld_row o'),
          ao_status = api_status_of (o_status (ld_row o'))\<rparr>)"

definition order_not_found :: "string \<Rightarrow> thrown" where
  "order_not_found path = mk_problem 404 ''https://marketplace.local/problems/order-not-found''
     ''Order not found'' ''Order with the given id does not exist'' path"

record authorized_order =
  az_canonicalId :: string
  az_order :: api_order
  az_row :: order_row

definition loadAuthorizedOrder ::
  "string \<Rightarrow> string \<Rightarrow> string \<Rightarrow> string option \<Rightarrow> (app, thrown, authorized_order) exec" where
  "loadAuthorizedOrder i userId role instancePath a =
     (let path = (case instancePath of Some p \<Rightarrow> p | None \<Rightarrow> ''/v1/orders/'' @ i)
      in bindE (dbE (query (sql_load_order (toDbOrderId i)))) (\<lambda>rows.
           case rows of
             [] \<Rightarrow> throwE (order_not_found path)
           | row0 # _ \<Rightarrow>
               let row = sort_items row0
               in (case (ld_user row, first_seller row) of
                     (Some user, Some seller) \<Rightarrow>
                       (case toApiOrder (ap_store a) row user seller of
                          Inl e \<Rightarrow> throwE e
                        | Inr order \<Rightarrow>
                            bindE (dbE (callerCanRead role userId user seller)) (\<lambda>allowed.
                              if \<not> allowed then throwE (forbidden ''You do not have access to this order'' path)
                              else returnE \<lparr>az_canonicalId = canonicalOrderId i, az_order = order, az_row = ld_row row\<rparr>))
                   | _ \<Rightarrow> throwE (order_not_found path))) a)"

definition getById :: "string \<Rightarrow> string \<Rightarrow> string \<Rightarrow> (app, thrown, api_order) exec" where
  "getById i userId role = bindE (loadAuthorizedOrder i userId role None) (\<lambda>z. returnE (az_order z))"

definition assertCanRead :: "string \<Rightarrow> string \<Rightarrow> string \<Rightarrow> (app, thrown, unit) exec" where
  "assertCanRead i userId role = bindE (loadAuthorizedOrder i userId role None) (\<lambda>_. returnE ())"

definition list_orders ::
  "string \<Rightarrow> string \<Rightarrow> int option \<Rightarrow> string option \<Rightarrow> (app, thrown, api_order list \<times> string option) exec" where
  "list_orders userId role limit cursor a =
     (let filtered = map snd (sr_orders (ap_store a))
      in if role = ''buyer'' then
           (Inr (paginate ao_id (filter (\<lambda>o'. ao_buyer_id o' = userId) filtered) limit cursor), a)
         else if role = ''seller'' then
           (Inr (paginate ao_id (filter (\<lambda>o'. ao_seller_id o' = userId) filtered) limit cursor), a)
         else (Inl (forbidden ''Unknown role'' ''/v1/orders''), a))"

section \<open>Changing the status\<close>

definition sql_set_status :: "string \<Rightarrow> string \<Rightarrow> db \<Rightarrow> (thrown + unit) \<times> db" where
  "sql_set_status status i d =
     (case pg_bigint i of
        Inl e \<Rightarrow> (Inl e, d)
      | Inr n \<Rightarrow>
          if n \<in> o_id ` set (orders d) \<and> status \<notin> set order_statuses
          then (Inl (PgError ''23514'' ''orders_status_chk''), d)
          else (Inr (), d\<lparr>orders := map (\<lambda>r. if o_id r = n then r\<lparr>o_status := status\<rparr> else r) (orders d)\<rparr>))"

fun join_comma :: "string list \<Rightarrow> string" where
  "join_comma [] = []"
| "join_comma [s] = s"
| "join_comma (s # ss) = s @ '', '' @ join_comma ss"

definition publishE :: "string \<Rightarrow> string \<Rightarrow> (app, thrown, unit) exec" where
  "publishE oid status a = (Inr (), a\<lparr>ap_bus := snd (publish oid status (ap_bus a))\<rparr>)"

definition updateStatus ::
  "string \<Rightarrow> string \<Rightarrow> string \<Rightarrow> string \<Rightarrow> (app, thrown, string \<times> string) exec" where
  "updateStatus i userId role status =
     (let path = ''/orders/'' @ i @ ''/status''
      in if status \<notin> set ALLOWED_STATUSES
         then throwE (mk_problem 400 ''https://marketplace.local/problems/invalid-status'' ''Invalid status''
           (''Status must be one of: '' @ join_comma ALLOWED_STATUSES) path)
         else bindE (loadAuthorizedOrder i userId role (Some path)) (\<lambda>z.
           bindE (dbE (transaction (sqlE (sql_set_status status (show_int (o_id (az_row z))))))) (\<lambda>_.
           bindE (publishE (az_canonicalId z) status) (\<lambda>_.
           returnE (az_canonicalId z, status)))))"

section \<open>Placing an order\<close>

record new_order_item =
  no_listing_id :: string
  no_quantity :: int

record resolved_item =
  ri_listing_id :: string
  ri_quantity :: int
  ri_price_cents :: int
  ri_productId :: string
  ri_seller_id :: string

record create_answer =
  ca_order :: api_order
  ca_location :: string
  ca_replay :: bool

definition key_conflict :: thrown where
  "key_conflict = mk_problem 422 ''https://marketplace.local/problems/idempotency-key-conflict''
     ''Idempotency key conflict'' ''Same Idempotency-Key was reused with a different request body''
     ''/v1/orders''"

fun resolve_items ::
  "new_order_item list \<Rightarrow> string option \<Rightarrow> resolved_item list
    \<Rightarrow> (app, thrown, resolved_item list \<times> string option) exec" where
  "resolve_items [] sellerId acc a = (Inr (acc, sellerId), a)"
| "resolve_items (item # items) sellerId acc a =
     (case map_of (sr_listings (ap_store a)) (no_listing_id item) of
        None \<Rightarrow> (Inl (listing_not_found
          (''Listing '' @ no_listing_id item @ '' does not exist or is not active'') ''/v1/orders''), a)
      | Some listing \<Rightarrow>
          if li_status listing \<noteq> ListingActive
          then (Inl (listing_not_found
            (''Listing '' @ no_listing_id item @ '' does not exist or is not active'') ''/v1/orders''), a)
          else if sellerId \<noteq> None \<and> sellerId \<noteq> Some (li_seller_id listing)
          then (Inl (mk_problem 422 ''https://marketplace.local/problems/mixed-seller-order''
            ''Mixed seller order'' ''All order items must belong to the same seller'' ''/v1/orders''), a)
          else bindE (dbE (query (sql_find_product (li_title listing)))) (\<lambda>product.
            case product of
              None \<Rightarrow> throwE (listing_not_found
                (''No catalog product matches listing '' @ no_listing_id item) ''/v1/orders'')
            | Some p \<Rightarrow>
                resolve_items items (Some (li_seller_id listing))
                  (acc @ [\<lparr>ri_listing_id = li_id listing, ri_quantity = no_quantity item,
                     ri_price_cents = p_price_cents p, ri_productId = show_int (p_id p),
                     ri_seller_id = li_seller_id listing\<rparr>])) a)"

definition checkout_request :: "string \<Rightarrow> string \<Rightarrow> int \<Rightarrow> resolved_item list \<Rightarrow> checkout_input" where
  "checkout_request idempotencyKey bodyHash buyerId resolved = \<lparr>ci_userId = show_int buyerId,
     ci_items = map (\<lambda>i. \<lparr>ci_productId = ri_productId i, ci_quantity = Whole (ri_quantity i)\<rparr>) resolved,
     ci_idempotencyKey = Some idempotencyKey, ci_requestHash = Some bodyHash, ci_failAfterOutbox = False\<rparr>"

definition map_checkout_error :: "thrown \<Rightarrow> thrown" where
  "map_checkout_error err =
     (if err = IdempotencyKeyConflictError then key_conflict
      else if err = OutOfStockError then
        mk_problem 409 ''https://marketplace.local/problems/out-of-stock'' ''Out of stock''
          ''One or more listings do not have enough quantity'' ''/v1/orders''
      else if err = InsufficientFundsError then
        mk_problem 409 ''https://marketplace.local/problems/out-of-stock'' ''Out of stock''
          ''Insufficient buyer balance for this order'' ''/v1/orders''
      else err)"

definition take_listing :: "resolved_item \<Rightarrow> store \<Rightarrow> store" where
  "take_listing item st =
     (case map_of (sr_listings st) (ri_listing_id item) of
        None \<Rightarrow> st
      | Some l \<Rightarrow> st\<lparr>sr_listings := AList.update (ri_listing_id item)
          (l\<lparr>li_quantity := max 0 (li_quantity l - ri_quantity item)\<rparr>) (sr_listings st)\<rparr>)"

definition order_lines :: "int option list \<Rightarrow> resolved_item list \<Rightarrow> order_line list" where
  "order_lines prices resolved = map (\<lambda>(item, index). \<lparr>ol_listing_id = ri_listing_id item,
     ol_quantity = ri_quantity item,
     ol_price_cents = (if index < length prices
       then (case prices ! index of Some p \<Rightarrow> p | None \<Rightarrow> ri_price_cents item)
       else ri_price_cents item)\<rparr>) (zip resolved [0..<length resolved])"

definition remember :: "string \<Rightarrow> string \<Rightarrow> string \<Rightarrow> api_order \<Rightarrow> store \<Rightarrow> store" where
  "remember cacheKey bodyHash location order st =
     st\<lparr>sr_idempotency := AList.update cacheKey
       \<lparr>ir_bodyHash = bodyHash, ir_location = location, ir_body = order\<rparr> (sr_idempotency st)\<rparr>"

definition finish_order ::
  "string \<Rightarrow> string \<Rightarrow> string \<Rightarrow> resolved_item list \<Rightarrow> string \<Rightarrow> checkout_result \<Rightarrow> (app, thrown, create_answer) exec" where
  "finish_order userId cacheKey bodyHash resolved sellerId result a =
     (let i = ''order-'' @ cr_orderId result;
          order = \<lparr>ao_id = i, ao_buyer_id = userId, ao_seller_id = sellerId,
            ao_items = order_lines (cr_unitPrices result) resolved, ao_total_cents = cr_totalCents result,
            ao_status = StatusPaid\<rparr>;
          location = ''/v1/orders/'' @ i;
          st1 = fold take_listing resolved (ap_store a);
          st2 = st1\<lparr>sr_orders := AList.update i order (sr_orders st1)\<rparr>
      in (Inr \<lparr>ca_order = order, ca_location = location, ca_replay = False\<rparr>,
          a\<lparr>ap_store := remember cacheKey bodyHash location order st2,
            ap_ratings := ap_ratings a @ [(cr_orderId result, map ri_productId resolved)]\<rparr>))"

definition replay_order ::
  "string \<Rightarrow> string \<Rightarrow> string \<Rightarrow> string \<Rightarrow> checkout_result \<Rightarrow> (app, thrown, create_answer) exec" where
  "replay_order userId role cacheKey bodyHash result =
     bindE (loadAuthorizedOrder (''order-'' @ cr_orderId result) userId role None) (\<lambda>z a.
       let location = ''/v1/orders/'' @ ao_id (az_order z)
       in (Inr \<lparr>ca_order = az_order z, ca_location = location, ca_replay = True\<rparr>,
           a\<lparr>ap_store := remember cacheKey bodyHash location (az_order z) (ap_store a)\<rparr>))"

definition place_order ::
  "(nat \<Rightarrow> string) \<Rightarrow> (nat \<Rightarrow> string) \<Rightarrow> string \<Rightarrow> string \<Rightarrow> string \<Rightarrow> string \<Rightarrow> string \<Rightarrow> new_order_item list
    \<Rightarrow> (app, thrown, create_answer) exec" where
  "place_order uuid toISO userId role idempotencyKey cacheKey bodyHash items =
     bindE (resolve_items items None []) (\<lambda>(resolved, sellerId).
     bindE (dbE (resolveBuyer userId)) (\<lambda>buyer.
     case buyer of
       None \<Rightarrow> throwE (forbidden
         (''Unknown buyer '' @ userId @ ''; use seed alias (buyer-1) or email'') ''/v1/orders'')
     | Some u \<Rightarrow>
         bindE (catchE (dbE (checkout uuid toISO (checkout_request idempotencyKey bodyHash (u_id u) resolved)))
             (\<lambda>err. throwE (map_checkout_error err))) (\<lambda>result.
         if cr_replay result then replay_order userId role cacheKey bodyHash result
         else finish_order userId cacheKey bodyHash resolved
           (case sellerId of Some s \<Rightarrow> s | None \<Rightarrow> ''null'') result)))"

definition create_order ::
  "(new_order_item list \<Rightarrow> string) \<Rightarrow> (nat \<Rightarrow> string) \<Rightarrow> (nat \<Rightarrow> string) \<Rightarrow> string \<Rightarrow> string \<Rightarrow> string
    \<Rightarrow> new_order_item list \<Rightarrow> (app, thrown, create_answer) exec" where
  "create_order hashBody uuid toISO userId role idempotencyKey items a =
     (if role \<noteq> ''buyer'' then (Inl (forbidden ''Only buyers can create orders'' ''/v1/orders''), a)
      else
        let bodyHash = hashBody items;
            cacheKey = userId @ '':'' @ idempotencyKey
        in (case map_of (sr_idempotency (ap_store a)) cacheKey of
              Some cached \<Rightarrow>
                if ir_bodyHash cached \<noteq> bodyHash then (Inl key_conflict, a)
                else (Inr \<lparr>ca_order = ir_body cached, ca_location = ir_location cached, ca_replay = True\<rparr>, a)
            | None \<Rightarrow> place_order uuid toISO userId role idempotencyKey cacheKey bodyHash items a))"

end
