(* ===== verification/OrdersCorrect.thy ===== *)
theory OrdersCorrect
  imports Orders
begin

text \<open>
  What the order service guarantees: who reads and changes an order, what a change of status does
  to the tables and to the bus, and what a request to place an order leaves in the database, the
  store and the rating queue.
\<close>

section \<open>Identifiers\<close>

lemma order_number_iff: "order_number i = Some n \<longleftrightarrow> i = ''order-'' @ n \<and> all_digits n"
proof
  assume "order_number i = Some n"
  then have n: "take 6 i = ''order-''" "n = drop 6 i" "all_digits n"
    by (auto simp: order_number_def split: if_splits)
  then show "i = ''order-'' @ n \<and> all_digits n" by (metis append_take_drop_id)
qed (simp add: order_number_def)

lemma order_not_digits: "\<not> all_digits (''order-'' @ n)"
  by (simp add: all_digits_def is_digit_def)

lemma canonical_cases:
  obtains (numbered) n where "all_digits n" "i = n \<or> i = ''order-'' @ n"
      "canonicalOrderId i = ''order-'' @ n" "toDbOrderId i = n"
    | (other) "\<not> all_digits i" "order_number i = None" "canonicalOrderId i = i" "toDbOrderId i = i"
proof (cases "order_number i")
  case None
  then show ?thesis
    by (cases "all_digits i") (use that in \<open>auto simp: canonicalOrderId_def toDbOrderId_def\<close>)
next
  case (Some n)
  then have "canonicalOrderId i = ''order-'' @ n" "toDbOrderId i = n"
    by (simp_all add: canonicalOrderId_def toDbOrderId_def)
  then show ?thesis using that(1) [of n] Some by (simp add: order_number_iff)
qed

section \<open>Database calls from the application\<close>

lemma dbE_iff: "dbE m a = (r, a') \<longleftrightarrow> (\<exists>w. m (ap_world a) = (r, w) \<and> a' = a\<lparr>ap_world := w\<rparr>)"
  by (auto simp: dbE_def split: prod.splits)

lemma query_reads:
  assumes "query f w = (Inr x, w')" and "\<And>d. snd (f d) = d"
  shows "unaffected w w' \<and> fst (f (w_db w')) = Inr x"
proof -
  have "sqlE f (snd (next_env w)) = (Inr x, w')"
    using assms(1) unfolding query_def by (rule transaction_commit)
  then have "fst (f (w_db w')) = Inr x"
    using assms(2) [of "w_db (snd (next_env w))"] by (auto simp: sqlE_iff)
  then show ?thesis using query_readonly_unaffected [OF assms(2) assms(1)] by blast
qed

text \<open>The statements that only read.\<close>

lemma order_reads [simp]:
  "snd (sql_load_order i d) = d" "snd (sql_user_by_email e r d) = d" "snd (sql_user_by_id i r d) = d"
  "snd (sql_find_product t d) = d"
  by (simp_all add: sql_load_order_def sql_user_by_email_def sql_user_by_id_def sql_find_product_def
      split: sum.split)

section \<open>Who a caller is\<close>

text \<open>The user that a header names in a role: by alias, by address, or by number.\<close>

definition acts_as :: "db \<Rightarrow> string \<Rightarrow> user_role \<Rightarrow> user_row \<Rightarrow> bool" where
  "acts_as d header role u \<longleftrightarrow> u \<in> set (users d) \<and> u_role u = role \<and>
     (case map_of USER_ALIASES header of
        Some email \<Rightarrow> u_email u = email
      | None \<Rightarrow> if CHR ''@'' \<in> set header then u_email u = header
          else all_digits header \<and> pg_bigint header = Inr (u_id u))"

lemma resolveUser_unaffected: "resolveUser h role w = (r, w') \<Longrightarrow> unaffected w w'"
  unfolding resolveUser_def
  by (auto split: option.splits if_splits intro: query_readonly_unaffected [rotated])

lemma resolveUser_acts_as:
  assumes "resolveUser h role w = (Inr (Some u), w')"
  shows "acts_as (w_db w') h role u"
proof (cases "map_of USER_ALIASES h")
  case (Some email)
  then have "fst (sql_user_by_email email role (w_db w')) = Inr (Some u)"
    using assms query_reads [of "sql_user_by_email email role" w] by (simp add: resolveUser_def)
  then show ?thesis using Some by (auto simp: sql_user_by_email_def acts_as_def dest!: find_Some_in)
next
  case None
  consider "CHR ''@'' \<in> set h" | "CHR ''@'' \<notin> set h" "all_digits h"
    using assms None by (auto simp: resolveUser_def split: if_splits)
  then show ?thesis
  proof cases
    case 1
    then have "fst (sql_user_by_email h role (w_db w')) = Inr (Some u)"
      using assms None query_reads [of "sql_user_by_email h role" w] by (simp add: resolveUser_def)
    then show ?thesis using None 1 by (auto simp: sql_user_by_email_def acts_as_def dest!: find_Some_in)
  next
    case 2
    then have "fst (sql_user_by_id h role (w_db w')) = Inr (Some u)"
      using assms None query_reads [of "sql_user_by_id h role" w] by (simp add: resolveUser_def)
    then show ?thesis using None 2
      by (auto simp: sql_user_by_id_def acts_as_def dest!: find_Some_in split: sum.splits)
  qed
qed

lemma callerCanRead_unaffected: "callerCanRead role h b s w = (r, w') \<Longrightarrow> unaffected w w'"
  by (auto simp: callerCanRead_def bindE_def split: if_splits prod.splits sum.splits
      dest: resolveUser_unaffected)

lemma callerCanRead_True:
  assumes "callerCanRead role h buyer seller w = (Inr True, w')"
  shows "(role = ''buyer'' \<and> (\<exists>u. acts_as (w_db w') h Buyer u \<and> u_id u = u_id buyer))
    \<or> (role = ''seller'' \<and> (\<exists>u. acts_as (w_db w') h Seller u \<and> u_id u = u_id seller))"
  using assms
  by (auto simp: callerCanRead_def split: if_splits elim!: bindE_InrE) (blast dest: resolveUser_acts_as)+

section \<open>Loading an order\<close>

definition item_key :: "loaded_item \<Rightarrow> string" where
  "item_key i = show_int (i_id (ln_item i))"

lemma item_cmp_key: "cmp_key item_cmp item_key"
  by (auto simp: cmp_key_def item_cmp_def item_key_def Let_def)

text \<open>The seller of an order is the one of its first line, in the order of the texts of the line ids.\<close>

definition order_seller :: "db \<Rightarrow> order_row \<Rightarrow> user_row option" where
  "order_seller d r = first_seller (sort_items (join_order d r))"

text \<open>
  The caller is a party of the order: its buyer, or the seller of one of its products. The order
  is read in \<open>d\<close>, the caller in \<open>d'\<close>.
\<close>

definition party :: "db \<Rightarrow> db \<Rightarrow> order_row \<Rightarrow> string \<Rightarrow> string \<Rightarrow> bool" where
  "party d d' r h role \<longleftrightarrow>
     (role = ''buyer'' \<and> (\<exists>u. acts_as d' h Buyer u \<and> u_id u = o_user_id r))
     \<or> (role = ''seller'' \<and> (\<exists>u. acts_as d' h Seller u
          \<and> (\<exists>i \<in> set (lines_of d (o_id r)). \<exists>p \<in> set (products d).
               p_id p = i_product_id i \<and> p_seller_id p = u_id u)))"

lemma first_seller_line:
  assumes "first_seller (sort_items (join_order d r)) = Some s"
  obtains i p where "i \<in> set (lines_of d (o_id r))" "p \<in> set (products d)" "p_id p = i_product_id i"
    "p_seller_id p = u_id s" "s \<in> set (users d)"
proof -
  obtain l ls where l: "js_sort item_cmp (ld_items (join_order d r)) = l # ls"
    using assms by (auto simp: first_seller_def sort_items_def split: list.splits)
  then have "l \<in> set (ld_items (join_order d r))" by (metis list.set_intros(1) set_js_sort)
  then obtain i where i: "i \<in> set (lines_of d (o_id r))" "l = join_item d i" by (auto simp: join_order_def)
  obtain p where p: "find (\<lambda>p. p_id p = i_product_id i) (products d) = Some p"
    "find (\<lambda>u. u_id u = p_seller_id p) (users d) = Some s"
    using assms l i by (auto simp: first_seller_def sort_items_def join_item_def split: option.splits)
  show ?thesis using that [OF i(1), of p] find_Some_in [OF p(1)] find_Some_in [OF p(2)] by simp
qed

lemma toApiOrder_fields:
  "toApiOrder st l u s = Inr z \<Longrightarrow> ao_id z = ''order-'' @ show_int (o_id (ld_row l))
     \<and> ao_total_cents z = o_total_cents (ld_row l)
     \<and> ao_buyer_id z = publicUserId (u_email u) \<and> ao_seller_id z = publicUserId (u_email s)"
  by (auto simp: toApiOrder_def split: sum.splits)

definition view :: "store \<Rightarrow> db \<Rightarrow> order_row \<Rightarrow> (thrown + api_order) option" where
  "view st d r =
     (case (ld_user (join_order d r), order_seller d r) of
        (Some u, Some s) \<Rightarrow> Some (toApiOrder st (sort_items (join_order d r)) u s)
      | _ \<Rightarrow> None)"

lemma loadAuthorizedOrder_unaffected:
  assumes "loadAuthorizedOrder i h role p a = (x, a')"
  shows "unaffected (ap_world a) (ap_world a') \<and> a' = a\<lparr>ap_world := ap_world a'\<rparr>"
proof -
  obtain rows w1 where q: "query (sql_load_order (toDbOrderId i)) (ap_world a) = (rows, w1)" by fastforce
  have u1: "unaffected (ap_world a) w1" using query_readonly_unaffected [OF _ q] by simp
  have "a' = a\<lparr>ap_world := w1\<rparr> \<or> (\<exists>b s y w2. callerCanRead role h b s w1 = (y, w2) \<and> a' = a\<lparr>ap_world := w2\<rparr>)"
    using assms unfolding loadAuthorizedOrder_def Let_def bindE_def dbE_def q
    by (auto split: sum.splits list.splits option.splits prod.splits if_splits)
  then show ?thesis using u1 callerCanRead_unaffected by (auto intro: rtranclp_trans)
qed

lemma loadAuthorizedOrder_Inr:
  assumes "loadAuthorizedOrder i h role p a = (Inr z, a')"
  obtains w1 w2 where "unaffected (ap_world a) w1" "unaffected w1 w2" "a' = a\<lparr>ap_world := w2\<rparr>"
    "az_row z \<in> set (orders (w_db w1))" "show_int (o_id (az_row z)) = toDbOrderId i"
    "az_canonicalId z = canonicalOrderId i" "view (ap_store a) (w_db w1) (az_row z) = Some (Inr (az_order z))"
    "party (w_db w1) (w_db w2) (az_row z) h role"
proof -
  obtain rows w1 where q: "query (sql_load_order (toDbOrderId i)) (ap_world a) = (Inr rows, w1)"
    using assms unfolding loadAuthorizedOrder_def Let_def
    by (auto elim!: bindE_InrE simp: dbE_iff)
  have u1: "unaffected (ap_world a) w1" and
    rows: "rows = map (join_order (w_db w1)) (filter (\<lambda>r. show_int (o_id r) = toDbOrderId i) (orders (w_db w1)))"
    using query_reads [OF q] by (auto simp: sql_load_order_def)
  from assms q obtain row0 rest u s order w2 where
    r0: "rows = row0 # rest" and us: "ld_user row0 = Some u" "first_seller (sort_items row0) = Some s"
    and ord: "toApiOrder (ap_store a) (sort_items row0) u s = Inr order"
    and can: "callerCanRead role h u s w1 = (Inr True, w2)" and a': "a' = a\<lparr>ap_world := w2\<rparr>"
    and z: "z = \<lparr>az_canonicalId = canonicalOrderId i, az_order = order, az_row = ld_row row0\<rparr>"
    unfolding loadAuthorizedOrder_def Let_def bindE_def dbE_def
    by (auto simp: sort_items_def split: list.splits option.splits sum.splits prod.splits if_splits)
  from rows r0 obtain r where r: "row0 = join_order (w_db w1) r"
    "filter (\<lambda>r. show_int (o_id r) = toDbOrderId i) (orders (w_db w1)) \<noteq> []"
    "r = hd (filter (\<lambda>r. show_int (o_id r) = toDbOrderId i) (orders (w_db w1)))"
    by (cases "filter (\<lambda>r. show_int (o_id r) = toDbOrderId i) (orders (w_db w1))") auto
  then have mem: "r \<in> set (orders (w_db w1))" "show_int (o_id r) = toDbOrderId i"
    using hd_in_set [OF r(2)] by auto
  have row: "ld_row row0 = r" using r(1) by (simp add: join_order_def)
  have buyer: "u_id u = o_user_id r"
    using us(1) r(1) by (auto simp: join_order_def dest: find_Some_in)
  obtain it p where "it \<in> set (lines_of (w_db w1) (o_id r))" "p \<in> set (products (w_db w1))"
    "p_id p = i_product_id it" "p_seller_id p = u_id s"
    by (rule first_seller_line [of "w_db w1" r s]) (use us(2) r(1) in auto)
  then have "party (w_db w1) (w_db w2) r h role"
    using callerCanRead_True [OF can] buyer unfolding party_def by metis
  then show ?thesis using that [OF u1 callerCanRead_unaffected [OF can] a'] mem z row us ord r(1)
    by (simp add: view_def order_seller_def)
qed

section \<open>Reading without interference\<close>

text \<open>A numeric header is a number that fits the type of the column.\<close>

definition header_fits :: "string \<Rightarrow> bool" where
  "header_fits h \<longleftrightarrow> (all_digits h \<longrightarrow> (case pg_bigint h of Inl _ \<Rightarrow> False | Inr _ \<Rightarrow> True))"

lemma resolveUser_alone:
  assumes "w_sched w = []" and "users_ok (w_db w)" and "header_fits h"
  obtains ru where "resolveUser h role w = (Inr ru, w)" "\<And>u. ru = Some u \<longleftrightarrow> acts_as (w_db w) h role u"
proof -
  have ids: "distinct (map u_id (users (w_db w)))" and mails: "distinct (map u_email (users (w_db w)))"
    using assms(2) by (simp_all add: users_ok_def)
  have mail: "find (\<lambda>u. u_email u = e \<and> u_role u = role) (users (w_db w)) = Some u
      \<longleftrightarrow> u \<in> set (users (w_db w)) \<and> u_email u = e \<and> u_role u = role" for e u
    by (rule find_unique [OF mails]) simp
  have num: "find (\<lambda>u. u_id u = n \<and> u_role u = role) (users (w_db w)) = Some u
      \<longleftrightarrow> u \<in> set (users (w_db w)) \<and> u_id u = n \<and> u_role u = role" for n u
    by (rule find_unique [OF ids]) simp
  note q = query_alone [OF assms(1)]
  consider e where "map_of USER_ALIASES h = Some e" | "map_of USER_ALIASES h = None" "CHR ''@'' \<in> set h"
    | "map_of USER_ALIASES h = None" "CHR ''@'' \<notin> set h" "all_digits h"
    | "map_of USER_ALIASES h = None" "CHR ''@'' \<notin> set h" "\<not> all_digits h" by fastforce
  then show ?thesis
  proof cases
    case 1
    then show ?thesis using that [of "find (\<lambda>u. u_email u = e \<and> u_role u = role) (users (w_db w))"] mail
      by (auto simp: resolveUser_def q sql_user_by_email_def acts_as_def)
  next
    case 2
    then show ?thesis using that [of "find (\<lambda>u. u_email u = h \<and> u_role u = role) (users (w_db w))"] mail
      by (auto simp: resolveUser_def q sql_user_by_email_def acts_as_def)
  next
    case 3
    then obtain n where n: "pg_bigint h = Inr n" using assms(3) by (auto simp: header_fits_def split: sum.splits)
    then show ?thesis using 3 that [of "find (\<lambda>u. u_id u = n \<and> u_role u = role) (users (w_db w))"] num
      by (auto simp: resolveUser_def q sql_user_by_id_def acts_as_def)
  next
    case 4
    then show ?thesis using that [of None] by (simp add: resolveUser_def acts_as_def)
  qed
qed

text \<open>The callers that may read an order.\<close>

definition allowed :: "db \<Rightarrow> order_row \<Rightarrow> string \<Rightarrow> string \<Rightarrow> bool" where
  "allowed d r h role \<longleftrightarrow>
     (role = ''buyer'' \<and> (\<exists>u. acts_as d h Buyer u \<and> u_id u = o_user_id r))
     \<or> (role = ''seller'' \<and> (\<exists>u s. acts_as d h Seller u \<and> order_seller d r = Some s \<and> u_id u = u_id s))"

lemma callerCanRead_alone:
  assumes "w_sched w = []" and "users_ok (w_db w)" and "header_fits h"
  shows "callerCanRead role h buyer seller w =
    (Inr ((role = ''buyer'' \<and> (\<exists>u. acts_as (w_db w) h Buyer u \<and> u_id u = u_id buyer))
       \<or> (role = ''seller'' \<and> (\<exists>u. acts_as (w_db w) h Seller u \<and> u_id u = u_id seller))), w)"
proof -
  obtain rb where b: "resolveUser h Buyer w = (Inr rb, w)" "\<And>u. rb = Some u \<longleftrightarrow> acts_as (w_db w) h Buyer u"
    using resolveUser_alone [OF assms] by blast
  obtain rs where s: "resolveUser h Seller w = (Inr rs, w)" "\<And>u. rs = Some u \<longleftrightarrow> acts_as (w_db w) h Seller u"
    using resolveUser_alone [OF assms] by blast
  show ?thesis by (auto simp: callerCanRead_def bindE_def b(1) s(1) b(2) [symmetric] s(2) [symmetric])
qed

lemma find_exists: "v \<in> k ` set xs \<Longrightarrow> \<exists>y. find (\<lambda>x. k x = v) xs = Some y"
  by (induction xs) auto

declare show_int_inj [simp]

lemma view_complete:
  assumes "db_ok d" and "r \<in> set (orders d)" and "lines_of d (o_id r) \<noteq> []"
  obtains u s z where "ld_user (join_order d r) = Some u" "u_id u = o_user_id r" "order_seller d r = Some s"
    "toApiOrder st (sort_items (join_order d r)) u s = Inr z" "view st d r = Some (Inr z)"
proof -
  have prod: "\<exists>p s. ln_product (join_item d i) = Some (p, Some s)" if i: "i \<in> set (order_items d)" for i
  proof -
    have "i_product_id i \<in> p_id ` set (products d)" using assms(1) i by (auto simp: db_ok_def order_items_ok_def)
    then obtain p where p: "find (\<lambda>p. p_id p = i_product_id i) (products d) = Some p"
      using find_exists [of "i_product_id i" p_id "products d"] by blast
    then have "p_seller_id p \<in> u_id ` set (users d)"
      using assms(1) find_Some_in [OF p] by (auto simp: db_ok_def products_ok_def)
    then obtain s where "find (\<lambda>u. u_id u = p_seller_id p) (users d) = Some s"
      using find_exists [of "p_seller_id p" u_id "users d"] by blast
    then show ?thesis using p by (simp add: join_item_def)
  qed
  have "o_user_id r \<in> u_id ` set (users d)" using assms(1,2) by (auto simp: db_ok_def orders_ok_def)
  then obtain u where u: "find (\<lambda>u. u_id u = o_user_id r) (users d) = Some u"
    using find_exists [of "o_user_id r" u_id "users d"] by blast
  let ?js = "js_sort item_cmp (map (join_item d) (lines_of d (o_id r)))"
  have all: "\<forall>l \<in> set ?js. \<exists>p s. ln_product l = Some (p, Some s)"
    using prod by (auto simp: lines_of_def)
  have "?js \<noteq> []" using assms(3) by (metis length_0_conv length_js_sort map_is_Nil_conv)
  then obtain l ls where l: "?js = l # ls" by (cases ?js) auto
  then obtain p s where s: "ln_product l = Some (p, Some s)" using all by fastforce
  have items: "\<exists>zs. api_items st ys = Inr zs" if "\<forall>l \<in> set ys. \<exists>p s. ln_product l = Some (p, Some s)" for ys
    using that by (induction ys) (auto split: option.splits)
  obtain ils where ils: "api_items st ?js = Inr ils" using items all by blast
  have seller: "order_seller d r = Some s"
    using l s by (simp add: order_seller_def first_seller_def sort_items_def join_order_def)
  have "\<exists>z. toApiOrder st (sort_items (join_order d r)) u s = Inr z"
    using ils by (simp add: toApiOrder_def sort_items_def join_order_def)
  then show ?thesis using that seller u find_Some_in [OF u]
    by (auto simp: view_def join_order_def)
qed

lemma getById_found:
  assumes alone: "w_sched (ap_world a) = []" and ok: "db_ok (w_db (ap_world a))" and fits: "header_fits h"
    and r: "r \<in> set (orders (w_db (ap_world a)))" "show_int (o_id r) = toDbOrderId i"
      "lines_of (w_db (ap_world a)) (o_id r) \<noteq> []"
  obtains z where "view (ap_store a) (w_db (ap_world a)) r = Some (Inr z)"
    "getById i h role a = (if allowed (w_db (ap_world a)) r h role then Inr z
       else Inl (forbidden ''You do not have access to this order'' (''/v1/orders/'' @ i)), a)"
proof -
  let ?d = "w_db (ap_world a)"
  obtain u s z where v: "ld_user (join_order ?d r) = Some u" "u_id u = o_user_id r" "order_seller ?d r = Some s"
    "toApiOrder (ap_store a) (sort_items (join_order ?d r)) u s = Inr z" "view (ap_store a) ?d r = Some (Inr z)"
    using view_complete [OF ok r(1,3)] by blast
  have "filter (\<lambda>x. show_int (o_id x) = toDbOrderId i) (orders ?d) = filter (\<lambda>x. show_int (o_id x) = show_int (o_id r)) (orders ?d)"
    using r(2) by simp
  also have "\<dots> = [r]"
  proof (rule filter_key_unique [of "\<lambda>x. show_int (o_id x)", OF _ r(1)])
    show "distinct (map (\<lambda>x. show_int (o_id x)) (orders ?d))"
      using ok by (simp add: db_ok_def orders_ok_def distinct_map inj_on_def)
  qed
  finally have rows: "query (sql_load_order (toDbOrderId i)) (ap_world a) = (Inr [join_order ?d r], ap_world a)"
    by (simp add: query_alone [OF alone] sql_load_order_def)
  have us: "users_ok ?d" using ok by (simp add: db_ok_def)
  have "getById i h role a = (if allowed ?d r h role then Inr z
       else Inl (forbidden ''You do not have access to this order'' (''/v1/orders/'' @ i)), a)"
    using v callerCanRead_alone [OF alone us fits, of role u s]
    by (simp add: getById_def loadAuthorizedOrder_def bindE_def dbE_def rows sort_items_def
        order_seller_def allowed_def)
  then show ?thesis using that v(5) by blast
qed

section \<open>Changing the status, lemmas\<close>

definition set_status :: "int \<Rightarrow> string \<Rightarrow> db \<Rightarrow> db" where
  "set_status n status d = d\<lparr>orders := map (\<lambda>r. if o_id r = n then r\<lparr>o_status := status\<rparr> else r) (orders d)\<rparr>"

lemma set_status_ids: "map o_id (orders (set_status n s d)) = map o_id (orders d)"
  by (simp add: set_status_def)

lemma set_status_id_set: "o_id ` set (orders (set_status n s d)) = o_id ` set (orders d)"
  using set_status_ids [of n s d] by (metis list.set_map)

lemma set_status_same [simp]:
  "users (set_status n s d) = users d" "products (set_status n s d) = products d"
  "order_items (set_status n s d) = order_items d" "jobs (set_status n s d) = jobs d"
  "outbox (set_status n s d) = outbox d" "idempotency_keys (set_status n s d) = idempotency_keys d"
  "order_placed_effects (set_status n s d) = order_placed_effects d"
  "order_placed_deliveries (set_status n s d) = order_placed_deliveries d"
  "processed_messages (set_status n s d) = processed_messages d"
  "orders_seq (set_status n s d) = orders_seq d" "order_items_seq (set_status n s d) = order_items_seq d"
  "jobs_seq (set_status n s d) = jobs_seq d" "outbox_seq (set_status n s d) = outbox_seq d"
  "deliveries_seq (set_status n s d) = deliveries_seq d" "categories (set_status n s d) = categories d"
  "users_seq (set_status n s d) = users_seq d" "categories_seq (set_status n s d) = categories_seq d"
  "products_seq (set_status n s d) = products_seq d"
  by (simp_all add: set_status_def)

lemma set_status_ok:
  assumes "db_ok d" and "s \<in> set order_statuses"
  shows "db_ok (set_status n s d)"
proof -
  have "orders_ok (set_status n s d)"
    using assms by (auto simp: db_ok_def orders_ok_def set_status_ids) (auto simp: set_status_def)
  then show ?thesis using assms(1)
    by (simp add: db_ok_def users_ok_def categories_ok_def products_ok_def order_items_ok_def jobs_ok_def outbox_ok_def
        keys_ok_def inbox_ok_def set_status_id_set)
qed

lemma allowed_statuses: "ALLOWED_STATUSES = order_statuses"
  by (simp add: ALLOWED_STATUSES_def order_statuses_def)

lemma tame_set_status: "tame (sqlE (sql_set_status s i))"
  by (rule tame_sqlE) (simp add: sql_set_status_def seqs_le_def split: sum.split)

lemma pg_bigint_show_int_Inr: "pg_bigint (show_int n) = Inr m \<Longrightarrow> m = n"
  by (simp add: pg_bigint_def split: if_splits)

lemma set_status_commit:
  assumes "transaction (sqlE (sql_set_status s (show_int n))) w = (Inr (), w')"
  shows "unaffected w (snd (next_env w)) \<and> w' = (snd (next_env w))\<lparr>w_db := set_status n s (w_db (snd (next_env w)))\<rparr>"
proof -
  have "sqlE (sql_set_status s (show_int n)) (snd (next_env w)) = (Inr (), w')"
    by (rule transaction_commit) (rule assms)
  then show ?thesis using tx.quiet_start [of w]
    by (auto simp: sqlE_iff sql_set_status_def set_status_def dest: pg_bigint_show_int_Inr
        split: sum.splits if_splits)
qed

lemma updateStatus_Inl:
  assumes "updateStatus i h role status a = (Inl e, a')"
  shows "unaffected (ap_world a) (ap_world a') \<and> a' = a\<lparr>ap_world := ap_world a'\<rparr>"
proof (cases "status \<in> set ALLOWED_STATUSES")
  case True
  obtain x a1 where l: "loadAuthorizedOrder i h role (Some (''/orders/'' @ i @ ''/status'')) a = (x, a1)" by fastforce
  note u = loadAuthorizedOrder_unaffected [OF l]
  show ?thesis
  proof (cases x)
    case (Inl e')
    then show ?thesis using assms True l u by (simp add: updateStatus_def bindE_def)
  next
    case (Inr z)
    obtain y w2 where t: "transaction (sqlE (sql_set_status status (show_int (o_id (az_row z))))) (ap_world a1) = (y, w2)"
      by fastforce
    then have "y = Inl e \<and> a' = a1\<lparr>ap_world := w2\<rparr>"
      using assms True l Inr by (auto simp: updateStatus_def bindE_def dbE_def publishE_def split: sum.splits)
    moreover from this have "unaffected (ap_world a1) w2" using t transaction_abort [OF tame_set_status] by blast
    ultimately show ?thesis using u by (metis app.surjective app.update_convs(1) app.select_convs(1) rtranclp_trans)
  qed
qed (use assms in \<open>simp add: updateStatus_def\<close>)

lemma updateStatus_Inr:
  assumes "updateStatus i h role status a = (Inr x, a')"
  obtains r w1 w2 where "unaffected (ap_world a) w1" "unaffected w1 w2" "r \<in> set (orders (w_db w1))"
    "show_int (o_id r) = toDbOrderId i" "party (w_db w1) (w_db w2) r h role" "status \<in> set ALLOWED_STATUSES"
    "x = (canonicalOrderId i, status)"
    "a' = a\<lparr>ap_world := (snd (next_env w2))\<lparr>w_db := set_status (o_id r) status (w_db (snd (next_env w2)))\<rparr>,
       ap_bus := snd (publish (canonicalOrderId i) status (ap_bus a))\<rparr>"
proof -
  have s: "status \<in> set ALLOWED_STATUSES"
    using assms by (auto simp: updateStatus_def Let_def split: if_splits)
  then obtain z a1 a2 where l: "loadAuthorizedOrder i h role (Some (''/orders/'' @ i @ ''/status'')) a = (Inr z, a1)"
    and t: "dbE (transaction (sqlE (sql_set_status status (show_int (o_id (az_row z)))))) a1 = (Inr (), a2)"
    and p: "x = (az_canonicalId z, status)" "a' = a2\<lparr>ap_bus := snd (publish (az_canonicalId z) status (ap_bus a2))\<rparr>"
    using assms by (auto simp: updateStatus_def publishE_def Let_def elim!: bindE_InrE)
  from t obtain w3 where t3: "transaction (sqlE (sql_set_status status (show_int (o_id (az_row z))))) (ap_world a1) = (Inr (), w3)"
    and a2: "a2 = a1\<lparr>ap_world := w3\<rparr>" by (auto simp: dbE_iff)
  obtain w1 w2 where w: "unaffected (ap_world a) w1" "unaffected w1 w2" "a1 = a\<lparr>ap_world := w2\<rparr>"
    "az_row z \<in> set (orders (w_db w1))" "show_int (o_id (az_row z)) = toDbOrderId i"
    "az_canonicalId z = canonicalOrderId i" "party (w_db w1) (w_db w2) (az_row z) h role"
    using loadAuthorizedOrder_Inr [OF l] by metis
  show ?thesis
    using that [OF w(1,2,4,5,7) s] p a2 w(3,6) set_status_commit [OF t3] by simp
qed

section \<open>A paid order, for the witnesses\<close>

definition paid_app :: app where
  "paid_app = \<lparr>ap_world = \<lparr>w_db = paid_shop, w_rng = 1, w_sched = []\<rparr>, ap_store = initial_store,
     ap_bus = new_bus, ap_ratings = []\<rparr>"

lemma paid_shop_ok: "db_ok paid_shop"
  by (simp add: schema_defs paid_shop_def shop_def int4_max_def email_ok_def name_ok_def order_statuses_def)

lemma paid_app_simps [simp]:
  "w_sched (ap_world paid_app) = []" "w_db (ap_world paid_app) = paid_shop" "ap_bus paid_app = new_bus"
  by (simp_all add: paid_app_def)

definition paid_view :: api_order where
  "paid_view = \<lparr>ao_id = ''order-1'', ao_buyer_id = ''buyer@example.com'', ao_seller_id = ''seller@example.com'',
     ao_items = [\<lparr>ol_listing_id = ''Lamp'', ol_quantity = 1, ol_price_cents = 100\<rparr>,
       \<lparr>ol_listing_id = ''Mug'', ol_quantity = 2, ol_price_cents = 30\<rparr>],
     ao_total_cents = 160, ao_status = StatusPaid\<rparr>"

lemma paid_read: "fst (getById ''1'' ''buyer@example.com'' ''buyer'' paid_app) = Inr paid_view"
  by code_simp

lemma paid_ship: "fst (updateStatus ''1'' ''seller@example.com'' ''seller'' ''shipped'' paid_app) = Inr (''order-1'', ''shipped'')"
  by code_simp

section \<open>Properties\<close>

text \<open>
  (C34) The two spellings of an order id are one id: the canonical form is a fixed point, reading
  it back gives the database id, and two spellings have the same canonical form exactly if they
  name the same row; for the row with number \<open>n\<close> both the bare number and the prefixed one
  give \<open>order-n\<close>.
\<close>

theorem canonicalOrderId_roundtrip:
  "canonicalOrderId (canonicalOrderId i) = canonicalOrderId i
   \<and> toDbOrderId (canonicalOrderId i) = toDbOrderId i
   \<and> (canonicalOrderId i = canonicalOrderId j \<longleftrightarrow> toDbOrderId i = toDbOrderId j)
   \<and> canonicalOrderId (show_nat n) = ''order-'' @ show_nat n \<and> toDbOrderId (''order-'' @ show_nat n) = show_nat n"
proof -
  have db: "toDbOrderId (''order-'' @ n) = n" if "all_digits n" for n
    using that by (simp add: toDbOrderId_def order_number_def)
  have canon: "canonicalOrderId i = (if all_digits (toDbOrderId i) then ''order-'' @ toDbOrderId i else toDbOrderId i)" for i
    by (cases rule: canonical_cases [of i]) auto
  have same: "toDbOrderId (canonicalOrderId i) = toDbOrderId i" for i
    by (cases rule: canonical_cases [of i]) (use db in metis)+
  have "toDbOrderId (show_nat n) = show_nat n"
    by (cases rule: canonical_cases [of "show_nat n"]) (use order_not_digits all_digits_show_nat in metis)+
  then show ?thesis using canon [of i] canon [of j] canon [of "show_nat n"] same [of i] same [of j] db [of "show_nat n"]
    by (metis all_digits_show_nat canon)
qed

text \<open>
  (C21) Only a party of an order reads it: whatever other processes do, an answer shows a stored
  order with the requested id to a caller who resolves to its buyer, or to a seller of one of its
  products, in the role the caller claims. Reading changes neither tables nor application state.
\<close>

theorem getById_authorized:
  assumes "getById i h role a = (Inr z, a')"
  shows "\<exists>w1 r. unaffected (ap_world a) w1 \<and> unaffected w1 (ap_world a') \<and> a' = a\<lparr>ap_world := ap_world a'\<rparr>
    \<and> r \<in> set (orders (w_db w1)) \<and> show_int (o_id r) = toDbOrderId i
    \<and> party (w_db w1) (w_db (ap_world a')) r h role
    \<and> ao_id z = ''order-'' @ show_int (o_id r) \<and> ao_total_cents z = o_total_cents r"
proof -
  obtain y where l: "loadAuthorizedOrder i h role None a = (Inr y, a')" and z: "z = az_order y"
    using assms by (auto simp: getById_def elim!: bindE_InrE)
  obtain w1 w2 where w: "unaffected (ap_world a) w1" "unaffected w1 w2" "a' = a\<lparr>ap_world := w2\<rparr>"
    "az_row y \<in> set (orders (w_db w1))" "show_int (o_id (az_row y)) = toDbOrderId i"
    "view (ap_store a) (w_db w1) (az_row y) = Some (Inr (az_order y))"
    "party (w_db w1) (w_db w2) (az_row y) h role"
    using loadAuthorizedOrder_Inr [OF l] by metis
  have "ao_id z = ''order-'' @ show_int (o_id (az_row y)) \<and> ao_total_cents z = o_total_cents (az_row y)"
    using w(6) z by (auto simp: view_def sort_items_def join_order_def dest!: toApiOrder_fields split: option.splits)
  then show ?thesis using w by (intro exI [of _ w1] exI [of _ "az_row y"]) simp
qed

theorem getById_authorized_witness:
  "\<exists>a'. getById ''1'' ''buyer@example.com'' ''buyer'' paid_app = (Inr paid_view, a')
     \<and> (\<exists>(w1 :: world) r. r \<in> set (orders (w_db w1)) \<and> party (w_db w1) (w_db (ap_world a')) r ''buyer@example.com'' ''buyer'')"
proof -
  obtain a' where a': "getById ''1'' ''buyer@example.com'' ''buyer'' paid_app = (Inr paid_view, a')"
    using paid_read by (metis prod.collapse)
  from getById_authorized [OF a'] show ?thesis using a' by blast
qed

text \<open>
  Alone on the database, an order with lines is shown to exactly the allowed callers: the
  buyer of the order and the seller of its first line get the view of the row, everybody else is
  refused with 403, and nothing changes. No further failure is possible: the view of an order that
  satisfies the schema is total.
\<close>

theorem getById_outcome:
  assumes "w_sched (ap_world a) = []" and "db_ok (w_db (ap_world a))" and "header_fits h"
    and "r \<in> set (orders (w_db (ap_world a)))" and "show_int (o_id r) = toDbOrderId i"
    and "lines_of (w_db (ap_world a)) (o_id r) \<noteq> []"
  shows "\<exists>z. view (ap_store a) (w_db (ap_world a)) r = Some (Inr z)
    \<and> getById i h role a = (if allowed (w_db (ap_world a)) r h role then Inr z
        else Inl (forbidden ''You do not have access to this order'' (''/v1/orders/'' @ i)), a)"
  using getById_found [OF assms] by metis

theorem getById_outcome_witness:
  "getById ''1'' ''buyer-2'' ''buyer'' paid_app
     = (Inl (forbidden ''You do not have access to this order'' ''/v1/orders/1''), paid_app)"
proof -
  let ?r = "\<lparr>o_id = 1, o_user_id = 2, o_status = ''paid'', o_total_cents = 160, o_created_at = 0\<rparr>"
  have r: "?r \<in> set (orders paid_shop)" "lines_of paid_shop (o_id ?r) \<noteq> []"
    "show_int (o_id ?r) = toDbOrderId ''1''" "header_fits ''buyer-2''" by code_simp+
  have "\<not> allowed paid_shop ?r ''buyer-2'' ''buyer''"
    by (auto simp: allowed_def acts_as_def USER_ALIASES_def paid_shop_def)
  moreover note getById_outcome [of paid_app "''buyer-2''" ?r "''1''" "''buyer''"]
  ultimately show ?thesis using r paid_shop_ok by auto
qed

text \<open>
  (C22) A change of status is authorised like a read, writes one column of one row and is announced
  exactly once, after its commit and under the canonical id; a request that fails in any way writes
  nothing and announces nothing. The schema constraints are kept in both cases.
\<close>

theorem updateStatus_announces:
  assumes "db_ok (w_db (ap_world a))" and "env_keeps db_ok (ap_world a)"
    and "updateStatus i h role status a = (x, a')"
  shows "db_ok (w_db (ap_world a')) \<and>
    (case x of
       Inl e \<Rightarrow> unaffected (ap_world a) (ap_world a') \<and> a' = a\<lparr>ap_world := ap_world a'\<rparr>
     | Inr (cid, s) \<Rightarrow> cid = canonicalOrderId i \<and> s = status \<and> status \<in> set ALLOWED_STATUSES
         \<and> ap_bus a' = snd (publish cid status (ap_bus a))
         \<and> ap_store a' = ap_store a \<and> ap_ratings a' = ap_ratings a
         \<and> (\<exists>r w1 w2 w3. unaffected (ap_world a) w1 \<and> unaffected w1 w2 \<and> unaffected w2 w3
              \<and> r \<in> set (orders (w_db w1)) \<and> show_int (o_id r) = toDbOrderId i
              \<and> party (w_db w1) (w_db w2) r h role
              \<and> ap_world a' = w3\<lparr>w_db := set_status (o_id r) status (w_db w3)\<rparr>))"
proof (cases x)
  case (Inl e)
  then show ?thesis using updateStatus_Inl [of i h role status a e a'] assms
      unaffected_keeps [OF _ table_pred_db_ok assms(2,1)] by auto
next
  case (Inr v)
  obtain r w1 w2 where w: "unaffected (ap_world a) w1" "unaffected w1 w2" "r \<in> set (orders (w_db w1))"
    "show_int (o_id r) = toDbOrderId i" "party (w_db w1) (w_db w2) r h role" "status \<in> set ALLOWED_STATUSES"
    "v = (canonicalOrderId i, status)"
    "a' = a\<lparr>ap_world := (snd (next_env w2))\<lparr>w_db := set_status (o_id r) status (w_db (snd (next_env w2)))\<rparr>,
       ap_bus := snd (publish (canonicalOrderId i) status (ap_bus a))\<rparr>"
    by (rule updateStatus_Inr [OF assms(3) [unfolded Inr]]) (rule that)
  have q: "unaffected w2 (snd (next_env w2))" by (rule tx.quiet_start)
  have "db_ok (w_db (snd (next_env w2)))"
    using unaffected_keeps [OF _ table_pred_db_ok assms(2,1)] w(1,2) q by (metis rtranclp_trans)
  then have "db_ok (w_db (ap_world a'))" using w(6,8) by (simp add: set_status_ok allowed_statuses)
  then show ?thesis using Inr w q by auto
qed

theorem updateStatus_announces_witness:
  "\<exists>a'. updateStatus ''1'' ''seller@example.com'' ''seller'' ''shipped'' paid_app = (Inr (''order-1'', ''shipped''), a')
     \<and> ap_bus a' = snd (publish ''order-1'' ''shipped'' new_bus) \<and> db_ok (w_db (ap_world a'))"
proof -
  obtain a' where a': "updateStatus ''1'' ''seller@example.com'' ''seller'' ''shipped'' paid_app
      = (Inr (''order-1'', ''shipped''), a')" using paid_ship by (metis prod.collapse)
  have "env_keeps db_ok (ap_world paid_app)" by (simp add: env_keeps_def)
  then show ?thesis using updateStatus_announces [OF _ _ a'] a' paid_shop_ok by auto
qed

end
