(* ===== verification/OrderPlacement.thy ===== *)
theory OrderPlacement
  imports OrdersCorrect
begin

text \<open>
  \<open>OrdersService.create\<close> on top of the checkout: what a request leaves in the database, the store
  and the rating queue, the idempotency of a repeated request in the cache and behind it, and the
  atomicity of a failed one.
\<close>

section \<open>Placing an order, lemmas\<close>

lemma checkout_Inl_unaffected: "checkout uuid toISO inp w = (Inl e, w') \<Longrightarrow> unaffected w w'"
  by (erule checkout_outcomes) auto

lemma resolve_items_unaffected:
  "resolve_items items s acc a = (x, a') \<Longrightarrow>
     unaffected (ap_world a) (ap_world a') \<and> a' = a\<lparr>ap_world := ap_world a'\<rparr>"
proof (induction items arbitrary: s acc a)
  case (Cons it items)
  show ?case
  proof (cases "map_of (sr_listings (ap_store a)) (no_listing_id it)")
    case (Some l)
    obtain y w1 where q: "query (sql_find_product (li_title l)) (ap_world a) = (y, w1)" by fastforce
    have u: "unaffected (ap_world a) w1" using query_readonly_unaffected [OF _ q] by simp
    consider "a' = a" | "a' = a\<lparr>ap_world := w1\<rparr>"
      | s' acc' where "resolve_items items s' acc' (a\<lparr>ap_world := w1\<rparr>) = (x, a')"
      using Cons.prems Some q by (auto simp: bindE_def dbE_def split: if_splits sum.splits option.splits)
    then show ?thesis
    proof cases
      case 3
      from Cons.IH [OF this] show ?thesis using u by (auto intro: rtranclp_trans)
    qed (use u in auto)
  qed (use Cons.prems in auto)
qed simp

text \<open>A resolved line and the listing and request it comes from.\<close>

definition resolves :: "store \<Rightarrow> string \<Rightarrow> new_order_item \<Rightarrow> resolved_item \<Rightarrow> bool" where
  "resolves st seller it ri \<longleftrightarrow> (\<exists>l. map_of (sr_listings st) (no_listing_id it) = Some l
     \<and> li_status l = ListingActive \<and> li_seller_id l = seller \<and> ri_listing_id ri = li_id l
     \<and> ri_quantity ri = no_quantity it \<and> ri_seller_id ri = seller)"

lemma resolve_items_Inr:
  "resolve_items items s acc a = (Inr (rs, s'), a') \<Longrightarrow>
     \<exists>seller rs'. rs = acc @ rs' \<and> list_all2 (resolves (ap_store a) seller) items rs'
       \<and> (s = None \<or> items = [] \<or> s = Some seller) \<and> s' = (if items = [] then s else Some seller)"
proof (induction items arbitrary: s acc a)
  case (Cons it items)
  obtain l where l: "map_of (sr_listings (ap_store a)) (no_listing_id it) = Some l"
    using Cons.prems by (auto split: option.splits)
  obtain p :: product_row and w1 where act: "li_status l = ListingActive" "s = None \<or> s = Some (li_seller_id l)"
    and rec: "resolve_items items (Some (li_seller_id l))
       (acc @ [\<lparr>ri_listing_id = li_id l, ri_quantity = no_quantity it, ri_price_cents = p_price_cents p,
          ri_productId = show_int (p_id p), ri_seller_id = li_seller_id l\<rparr>]) (a\<lparr>ap_world := w1\<rparr>) = (Inr (rs, s'), a')"
    using Cons.prems l by (auto simp: dbE_iff split: if_splits option.splits elim!: bindE_InrE)
  from Cons.IH [OF rec] obtain rs' where rs': "rs = acc @ \<lparr>ri_listing_id = li_id l, ri_quantity = no_quantity it,
      ri_price_cents = p_price_cents p, ri_productId = show_int (p_id p), ri_seller_id = li_seller_id l\<rparr> # rs'"
    "list_all2 (resolves (ap_store a) (li_seller_id l)) items rs'" "s' = Some (li_seller_id l)"
    by (cases items) auto
  have "list_all2 (resolves (ap_store a) (li_seller_id l)) (it # items)
      (\<lparr>ri_listing_id = li_id l, ri_quantity = no_quantity it,
      ri_price_cents = p_price_cents p, ri_productId = show_int (p_id p), ri_seller_id = li_seller_id l\<rparr> # rs')"
    using rs'(2) l act(1) by (simp add: resolves_def)
  then show ?case using rs'(1,3) act(2) by auto
qed auto

lemma order_total_items:
  "order_total d (locked inp) = (\<Sum>it\<leftarrow>ci_items inp. price_at d (item_pid it) * js_int (ci_quantity it))"
proof -
  let ?f = "\<lambda>it. price_at d (item_pid it) * js_int (ci_quantity it)"
  have sum: "(\<Sum>it\<leftarrow>its. ?f it) = (\<Sum>it\<in>#mset its. ?f it)" for its
    by (metis mset_map sum_mset_sum_list)
  have "order_total d (locked inp) = (\<Sum>it\<leftarrow>map fst (locked inp). ?f it)"
    by (simp add: order_total_def comp_def)
  then show ?thesis unfolding sum map_fst_itemsInLockOrder .
qed

lemma replay_order_outcome:
  assumes "replay_order userId role ck bh result a = (x, a')"
  shows "unaffected (ap_world a) (ap_world a')
    \<and> (case x of
         Inl e \<Rightarrow> a' = a\<lparr>ap_world := ap_world a'\<rparr>
       | Inr ans \<Rightarrow> ca_replay ans \<and> a' = a\<lparr>ap_world := ap_world a',
           ap_store := remember ck bh (ca_location ans) (ca_order ans) (ap_store a)\<rparr>)"
proof -
  obtain y a1 where l: "loadAuthorizedOrder (''order-'' @ cr_orderId result) userId role None a = (y, a1)" by fastforce
  from loadAuthorizedOrder_unaffected [OF l] obtain w1 where "unaffected (ap_world a) w1" "a1 = a\<lparr>ap_world := w1\<rparr>"
    by metis
  then show ?thesis using assms l
    by (cases y) (auto simp: replay_order_def bindE_def Let_def simp del: append.simps)
qed

lemma place_order_cases:
  assumes ok: "db_ok (w_db (ap_world a))" and env: "env_keeps db_ok (ap_world a)"
    and p: "place_order uuid toISO userId role key ck bh items a = (x, a')"
  obtains (failed) e where "x = Inl e" "unaffected (ap_world a) (ap_world a')" "a' = a\<lparr>ap_world := ap_world a'\<rparr>"
    | (replayed) ans where "x = Inr ans" "ca_replay ans" "unaffected (ap_world a) (ap_world a')"
        "a' = a\<lparr>ap_world := ap_world a', ap_store := remember ck bh (ca_location ans) (ca_order ans) (ap_store a)\<rparr>"
    | (placed) rs seller buyer w0 w1 where "list_all2 (resolves (ap_store a) seller) items rs"
        "unaffected (ap_world a) w0" "acts_as (w_db w0) userId Buyer buyer" "unaffected w0 w1" "db_ok (w_db w1)"
        "admissible (checkout_request key bh (u_id buyer) rs) (w_db w1)"
        "finish_order userId ck bh rs seller (committed_result (checkout_request key bh (u_id buyer) rs) (w_db w1))
           (a\<lparr>ap_world := committed uuid toISO (checkout_request key bh (u_id buyer) rs) w1\<rparr>) = (x, a')"
proof -
  obtain y1 a1 where r: "resolve_items items None [] a = (y1, a1)" by fastforce
  obtain w1 where u1: "unaffected (ap_world a) w1" and a1: "a1 = a\<lparr>ap_world := w1\<rparr>"
    using resolve_items_unaffected [OF r] by metis
  obtain y2 w2 where b: "resolveBuyer userId w1 = (y2, w2)" by fastforce
  have u2: "unaffected (ap_world a) w2"
    using resolveUser_unaffected b u1 unfolding resolveBuyer_def by (metis rtranclp_trans)
  consider (no) e where "y1 = Inl e" | (nob) rs s where "y1 = Inr (rs, s)" "\<forall>u. y2 \<noteq> Inr (Some u)"
    | (go) rs s u where "y1 = Inr (rs, s)" "y2 = Inr (Some u)" by (metis obj_sumE surj_pair)
  then show ?thesis
  proof cases
    case no
    then show ?thesis using failed p r u1 a1 by (auto simp: place_order_def bindE_def)
  next
    case nob
    then show ?thesis using failed p r u2 a1 b
      by (cases y2) (auto simp: place_order_def bindE_def dbE_def split: option.splits)
  next
    case go
    let ?inp = "checkout_request key bh (u_id u) rs"
    obtain y3 w3 where c: "checkout uuid toISO ?inp w2 = (y3, w3)" by fastforce
    have ok2: "db_ok (w_db w2)" "env_keeps db_ok w2"
      using unaffected_keeps [OF u2 table_pred_db_ok env ok] by blast+
    show ?thesis
    proof (cases y3)
      case (Inl e)
      then have "unaffected (ap_world a) w3" using c checkout_Inl_unaffected u2 by (metis rtranclp_trans)
      then show ?thesis using failed p r a1 b go c Inl
        by (auto simp: place_order_def bindE_def dbE_def catchE_def)
    next
      case (Inr res)
      have fin: "(if cr_replay res then replay_order userId role ck bh res
         else finish_order userId ck bh rs (case s of Some s \<Rightarrow> s | None \<Rightarrow> ''null'') res) (a\<lparr>ap_world := w3\<rparr>) = (x, a')"
        using p r a1 b go c Inr by (simp add: place_order_def bindE_def dbE_def catchE_def)
      show ?thesis
      proof (cases "cr_replay res")
        case True
        have "unaffected w2 w3" by (rule checkout_no_order [OF c _ ok2]) (use Inr True in auto)
        then have u3: "unaffected (ap_world a) w3" using u2 by (metis rtranclp_trans)
        have "replay_order userId role ck bh res (a\<lparr>ap_world := w3\<rparr>) = (x, a')" using fin True by simp
        from replay_order_outcome [OF this] show ?thesis using failed replayed u3
          by (cases x) (auto intro: rtranclp_trans)
      next
        case False
        obtain w4 where w4: "unaffected w2 w4" "admissible ?inp (w_db w4)" "db_ok (w_db w4)"
          "res = committed_result ?inp (w_db w4)" "w3 = committed uuid toISO ?inp w4" "ci_items ?inp \<noteq> []"
          using checkout_success [OF ok2 c [unfolded Inr] False] by metis
        have ne: "rs \<noteq> []" using w4(6) by (auto simp: checkout_request_def)
        obtain seller where sel: "list_all2 (resolves (ap_store a) seller) items rs" "s = Some seller"
          using resolve_items_Inr [of items None "[]" a rs s a1] r go ne by (auto split: if_splits)
        have "acts_as (w_db w2) userId Buyer u"
          using b go resolveUser_acts_as unfolding resolveBuyer_def by blast
        then show ?thesis using placed [OF sel(1) u2 _ w4(1,3,2)] fin False w4(4,5) sel(2) by simp
      qed
    qed
  qed
qed

section \<open>The stored order\<close>

lemma fold_take_listing [simp]:
  "sr_orders (fold take_listing rs st) = sr_orders st"
  "sr_idempotency (fold take_listing rs st) = sr_idempotency st"
  by (induction rs arbitrary: st) (auto simp: take_listing_def split: option.splits)

lemma remember_simps [simp]:
  "sr_orders (remember ck bh loc z st) = sr_orders st" "sr_listings (remember ck bh loc z st) = sr_listings st"
  "map_of (sr_idempotency (remember ck bh loc z st)) =
     (map_of (sr_idempotency st))(ck \<mapsto> \<lparr>ir_bodyHash = bh, ir_location = loc, ir_body = z\<rparr>)"
  by (simp_all add: remember_def update_conv' fun_eq_iff)

text \<open>The prices of a fresh order are those of the rows, in the order of the request.\<close>

definition placed_line :: "db \<Rightarrow> resolved_item \<Rightarrow> order_line" where
  "placed_line d ri = \<lparr>ol_listing_id = ri_listing_id ri, ol_quantity = ri_quantity ri,
     ol_price_cents = price_at d (text_id (ri_productId ri))\<rparr>"

lemma order_lines_committed:
  "order_lines (cr_unitPrices (committed_result (checkout_request key bh u rs) d)) rs = map (placed_line d) rs"
  by (rule nth_equalityI)
    (simp_all add: order_lines_def committed_result_def checkout_request_def placed_line_def item_pid_text)

lemma placed_total:
  "order_total d (locked (checkout_request key bh u rs))
     = (\<Sum>l\<leftarrow>map (placed_line d) rs. ol_price_cents l * ol_quantity l)"
  unfolding order_total_items by (simp add: checkout_request_def placed_line_def comp_def item_pid_text)

definition placed_api_order :: "string \<Rightarrow> string \<Rightarrow> resolved_item list \<Rightarrow> db \<Rightarrow> api_order" where
  "placed_api_order userId seller rs d = \<lparr>ao_id = ''order-'' @ show_int (orders_seq d), ao_buyer_id = userId,
     ao_seller_id = seller, ao_items = map (placed_line d) rs,
     ao_total_cents = (\<Sum>l\<leftarrow>map (placed_line d) rs. ol_price_cents l * ol_quantity l), ao_status = StatusPaid\<rparr>"

lemma finish_order_run:
  fixes key bh u rs d a
  defines "res \<equiv> committed_result (checkout_request key bh u rs) d"
  assumes "finish_order userId ck bh rs seller res a = (x, a')"
  shows "x = Inr \<lparr>ca_order = placed_api_order userId seller rs d,
      ca_location = ''/v1/orders/order-'' @ show_int (orders_seq d), ca_replay = False\<rparr>
    \<and> ap_world a' = ap_world a \<and> ap_bus a' = ap_bus a
    \<and> ap_ratings a' = ap_ratings a @ [(show_int (orders_seq d), map ri_productId rs)]
    \<and> map_of (sr_orders (ap_store a')) = (map_of (sr_orders (ap_store a)))
        (''order-'' @ show_int (orders_seq d) \<mapsto> placed_api_order userId seller rs d)
    \<and> map_of (sr_idempotency (ap_store a')) = (map_of (sr_idempotency (ap_store a)))
        (ck \<mapsto> \<lparr>ir_bodyHash = bh, ir_location = ''/v1/orders/order-'' @ show_int (orders_seq d),
           ir_body = placed_api_order userId seller rs d\<rparr>)"
proof -
  have i: "cr_orderId res = show_int (orders_seq d)" by (simp add: res_def committed_result_def)
  have o: "\<lparr>ao_id = ''order-'' @ show_int (orders_seq d), ao_buyer_id = userId, ao_seller_id = seller,
      ao_items = order_lines (cr_unitPrices res) rs, ao_total_cents = cr_totalCents res, ao_status = StatusPaid\<rparr>
    = placed_api_order userId seller rs d"
    unfolding res_def order_lines_committed placed_api_order_def
    using placed_total [of d key bh u rs] by (simp add: committed_result_def)
  show ?thesis using assms(2) unfolding finish_order_def Let_def i o
    by (auto simp: update_conv' fun_eq_iff)
qed

lemma list_all2_resolves_map:
  assumes "list_all2 (resolves st seller) items rs" and "listings_ok st"
  shows "map ri_listing_id rs = map no_listing_id items \<and> map ri_quantity rs = map no_quantity items"
  using assms(1)
proof (induction rule: list_all2_induct)
  case (Cons it items ri rs)
  then obtain l where "map_of (sr_listings st) (no_listing_id it) = Some l" "ri_listing_id ri = li_id l"
    "ri_quantity ri = no_quantity it" by (auto simp: resolves_def)
  then show ?case using Cons assms(2) by (auto simp: listings_ok_def dest: map_of_SomeD)
qed simp

lemma create_order_cached:
  assumes "create_order hashBody uuid toISO userId role key items a = (Inr ans, a')"
    and "db_ok (w_db (ap_world a))" and "env_keeps db_ok (ap_world a)"
  shows "map_of (sr_idempotency (ap_store a')) (userId @ '':'' @ key)
      = Some \<lparr>ir_bodyHash = hashBody items, ir_location = ca_location ans, ir_body = ca_order ans\<rparr>"
proof (cases "map_of (sr_idempotency (ap_store a)) (userId @ '':'' @ key)")
  case (Some c)
  then show ?thesis using assms(1)
    by (auto simp: create_order_def Let_def split: if_splits)
next
  case None
  then have p: "place_order uuid toISO userId role key (userId @ '':'' @ key) (hashBody items) items a = (Inr ans, a')"
    using assms(1) by (auto simp: create_order_def split: if_splits)
  show ?thesis
  proof (cases rule: place_order_cases [OF assms(2,3) p])
    case replayed: (2 ans')
    have "ap_store a' = remember (userId @ '':'' @ key) (hashBody items) (ca_location ans) (ca_order ans) (ap_store a)"
      using replayed(1) by (subst replayed(4)) simp
    then show ?thesis by simp
  next
    case placed: (3 rs seller buyer w0 w1)
    then show ?thesis using finish_order_run [OF placed(7)] by simp
  qed simp
qed

text \<open>The user of a header, if there is one, is the buyer \<open>n\<close>, and \<open>n\<close> has used the key.\<close>

definition bound_key :: "string \<Rightarrow> int \<Rightarrow> string \<Rightarrow> db \<Rightarrow> bool" where
  "bound_key h n key d \<longleftrightarrow> (\<forall>u. acts_as d h Buyer u \<longrightarrow> u_id u = n)
     \<and> (n, key) \<in> (\<lambda>r. (k_user_id r, k_key r)) ` set (idempotency_keys d)"

lemma table_pred_bound_key: "table_pred (bound_key h n key)"
  by (auto simp: table_pred_def bound_key_def acts_as_def tables_eq_iff)

lemma bound_key_not_free:
  assumes "bound_key h n key d0" and "bound_key h n key d" and "acts_as d0 h Buyer u" and "key \<noteq> []"
  shows "\<not> admissible (checkout_request key bh (u_id u) rs) d"
proof
  assume adm: "admissible (checkout_request key bh (u_id u) rs) d"
  have u: "u_id u = n" using assms(1,3) by (auto simp: bound_key_def)
  then have "pg_bigint (show_int n) = Inr (text_id (show_int n))"
    using adm by (simp add: admissible_def can_pay_def checkout_request_def)
  then have "text_id (show_int n) = n" by (rule pg_bigint_show_int_Inr)
  then show False using adm assms(2,4) u
    by (auto simp: admissible_def key_free_def checkout_request_def intent_key_def bound_key_def)
qed

section \<open>A catalog over the shop, for the witnesses\<close>

definition shop_app :: app where
  "shop_app = \<lparr>ap_world = shop_world,
     ap_store = \<lparr>sr_listings =
         [(''l-mug'', \<lparr>li_id = ''l-mug'', li_title = ''mug'', li_price_cents = 35, li_status = ListingActive,
             li_seller_id = ''seller-1'', li_quantity = 40\<rparr>),
          (''l-lamp'', \<lparr>li_id = ''l-lamp'', li_title = ''LAMP'', li_price_cents = 90, li_status = ListingActive,
             li_seller_id = ''seller-1'', li_quantity = 1\<rparr>)],
       sr_orders = [], sr_idempotency = []\<rparr>,
     ap_bus = new_bus, ap_ratings = []\<rparr>"

definition cart :: "new_order_item list" where
  "cart = [\<lparr>no_listing_id = ''l-mug'', no_quantity = 2\<rparr>, \<lparr>no_listing_id = ''l-lamp'', no_quantity = 1\<rparr>]"

definition test_hash :: "new_order_item list \<Rightarrow> string" where
  "test_hash items = concat (map (\<lambda>i. no_listing_id i @ show_int (no_quantity i)) items)"

definition cart_order :: api_order where
  "cart_order = \<lparr>ao_id = ''order-1'', ao_buyer_id = ''buyer@example.com'', ao_seller_id = ''seller-1'',
     ao_items = [\<lparr>ol_listing_id = ''l-mug'', ol_quantity = 2, ol_price_cents = 30\<rparr>,
       \<lparr>ol_listing_id = ''l-lamp'', ol_quantity = 1, ol_price_cents = 100\<rparr>],
     ao_total_cents = 160, ao_status = StatusPaid\<rparr>"

abbreviation place_cart :: "app \<Rightarrow> (thrown + create_answer) \<times> app" where
  "place_cart \<equiv> create_order test_hash test_uuid test_iso ''buyer@example.com'' ''buyer'' ''a:b'' cart"

lemma shop_app_simps [simp]:
  "w_db (ap_world shop_app) = shop" "w_sched (ap_world shop_app) = []" "ap_ratings shop_app = []"
  by (simp_all add: shop_app_def shop_world_def)

lemma shop_app_env: "env_keeps P (ap_world shop_app)"
  by (simp add: env_keeps_def)

lemma shop_app_listings: "listings_ok (ap_store shop_app)"
  by (simp add: listings_ok_def shop_app_def)

lemma cart_placed:
  "fst (place_cart shop_app) = Inr \<lparr>ca_order = cart_order, ca_location = ''/v1/orders/order-1'', ca_replay = False\<rparr>"
  by code_simp

lemma cart_run:
  obtains a' where "place_cart shop_app
    = (Inr \<lparr>ca_order = cart_order, ca_location = ''/v1/orders/order-1'', ca_replay = False\<rparr>, a')"
  using cart_placed by (metis prod.collapse)

section \<open>Properties\<close>



text \<open>
  (C12) A request that is refused or fails, at whichever step, leaves no trace: no table is changed,
  no order, no cache entry and no reservation appears in the store, no rating job is asked for.
\<close>

theorem create_order_atomic:
  assumes "db_ok (w_db (ap_world a))" and "env_keeps db_ok (ap_world a)"
    and "create_order hashBody uuid toISO userId role key items a = (Inl e, a')"
  shows "unaffected (ap_world a) (ap_world a') \<and> a' = a\<lparr>ap_world := ap_world a'\<rparr>"
proof (cases "a' = a")
  case False
  then have p: "place_order uuid toISO userId role key (userId @ '':'' @ key) (hashBody items) items a = (Inl e, a')"
    using assms(3) by (auto simp: create_order_def Let_def split: if_splits option.splits)
  show ?thesis
  proof (cases rule: place_order_cases [OF assms(1,2) p])
    case placed: (3 rs seller buyer w0 w1)
    then show ?thesis using finish_order_run [OF placed(7)] by simp
  qed auto
qed simp

theorem create_order_atomic_witness:
  "\<exists>a'. create_order test_hash test_uuid test_iso ''nobody@example.com'' ''buyer'' ''k'' cart shop_app
      = (Inl (forbidden ''Unknown buyer nobody@example.com; use seed alias (buyer-1) or email'' ''/v1/orders''), a')
     \<and> unaffected (ap_world shop_app) (ap_world a') \<and> ap_store a' = ap_store shop_app"
proof -
  have "fst (create_order test_hash test_uuid test_iso ''nobody@example.com'' ''buyer'' ''k'' cart shop_app)
      = Inl (forbidden ''Unknown buyer nobody@example.com; use seed alias (buyer-1) or email'' ''/v1/orders'')"
    by code_simp
  then obtain a' where a': "create_order test_hash test_uuid test_iso ''nobody@example.com'' ''buyer'' ''k'' cart shop_app
      = (Inl (forbidden ''Unknown buyer nobody@example.com; use seed alias (buyer-1) or email'' ''/v1/orders''), a')"
    by (metis prod.collapse)
  have u: "unaffected (ap_world shop_app) (ap_world a')" "a' = shop_app\<lparr>ap_world := ap_world a'\<rparr>"
    using create_order_atomic [OF _ shop_app_env a'] shop_ok by auto
  have "ap_store a' = ap_store shop_app" by (subst u(2)) simp
  then show ?thesis using a' u(1) by blast
qed

text \<open>
  (C13) A repeated request is answered from the cache: after any successful answer, the same user,
  key and body get the same order and location, marked as a replay, without any database call or
  change; the same key with a body of another digest is refused with 422.
\<close>

theorem create_order_idempotent:
  assumes "create_order hashBody uuid toISO userId role key items a = (Inr ans, a')"
    and "db_ok (w_db (ap_world a))" and "env_keeps db_ok (ap_world a)"
  shows "create_order hashBody uuid toISO userId role key items' a' =
    (if hashBody items' = hashBody items then Inr (ans\<lparr>ca_replay := True\<rparr>) else Inl key_conflict, a')"
proof -
  have "role = ''buyer''" using assms(1) by (auto simp: create_order_def split: if_splits)
  then show ?thesis using create_order_cached [OF assms] by (simp add: create_order_def)
qed

theorem create_order_idempotent_witness:
  "\<exists>a'. place_cart shop_app = (Inr \<lparr>ca_order = cart_order, ca_location = ''/v1/orders/order-1'', ca_replay = False\<rparr>, a')
     \<and> place_cart a' = (Inr \<lparr>ca_order = cart_order, ca_location = ''/v1/orders/order-1'', ca_replay = True\<rparr>, a')
     \<and> create_order test_hash test_uuid test_iso ''buyer@example.com'' ''buyer'' ''a:b'' [] a' = (Inl key_conflict, a')"
proof -
  obtain a' where a': "place_cart shop_app
      = (Inr \<lparr>ca_order = cart_order, ca_location = ''/v1/orders/order-1'', ca_replay = False\<rparr>, a')"
    by (rule cart_run)
  have h: "test_hash [] \<noteq> test_hash cart" by (simp add: test_hash_def cart_def)
  note i = create_order_idempotent [OF a' _ shop_app_env]
  show ?thesis using a' h i [of cart] i [of "[]"] shop_ok by auto
qed

text \<open>
  (C14) Behind the cache, for a process that never saw the first request, a key that the buyer has
  already committed never places a second order: the request fails or is answered as a replay, and
  the tables stay as they are.
\<close>

theorem create_order_once:
  assumes "db_ok (w_db (ap_world a))" and "env_keeps db_ok (ap_world a)" and "key \<noteq> []"
    and "bound_key userId n key (w_db (ap_world a))" and "env_keeps (bound_key userId n key) (ap_world a)"
    and "create_order hashBody uuid toISO userId role key items a = (x, a')"
  shows "unaffected (ap_world a) (ap_world a') \<and> (case x of Inl e \<Rightarrow> True | Inr ans \<Rightarrow> ca_replay ans)"
proof (cases "place_order uuid toISO userId role key (userId @ '':'' @ key) (hashBody items) items a = (x, a')")
  case p: True
  show ?thesis
  proof (cases rule: place_order_cases [OF assms(1,2) p])
    case placed: (3 rs seller buyer w0 w1)
    have "bound_key userId n key (w_db w0)" "bound_key userId n key (w_db w1)"
      using unaffected_keeps [OF _ table_pred_bound_key assms(5,4)] placed(2,4) by (metis rtranclp_trans)+
    then show ?thesis using bound_key_not_free [OF _ _ placed(3) assms(3)] placed(6) by blast
  qed simp_all
next
  case False
  then have "a' = a \<and> (case x of Inl e \<Rightarrow> True | Inr ans \<Rightarrow> ca_replay ans)"
    using assms(6) by (auto simp: create_order_def Let_def split: if_splits option.splits)
  then show ?thesis by simp
qed

theorem create_order_once_witness:
  "\<exists>x a'. create_order test_hash test_uuid test_iso ''buyer@example.com'' ''buyer'' ''k1''
       [\<lparr>no_listing_id = ''l-lamp'', no_quantity = 1\<rparr>] (shop_app\<lparr>ap_world := ap_world paid_app\<rparr>) = (x, a')
     \<and> unaffected (ap_world paid_app) (ap_world a')"
proof -
  let ?a = "shop_app\<lparr>ap_world := ap_world paid_app\<rparr>"
  have "bound_key ''buyer@example.com'' 2 ''k1'' paid_shop"
    by (auto simp: bound_key_def acts_as_def USER_ALIASES_def paid_shop_def)
  moreover obtain x a' where c: "create_order test_hash test_uuid test_iso ''buyer@example.com'' ''buyer'' ''k1''
       [\<lparr>no_listing_id = ''l-lamp'', no_quantity = 1\<rparr>] ?a = (x, a')" by fastforce
  moreover have "env_keeps P (ap_world ?a)" for P by (simp add: env_keeps_def)
  ultimately have "unaffected (ap_world ?a) (ap_world a')"
    using create_order_once [OF _ _ _ _ _ c, of 2] paid_shop_ok by simp
  then show ?thesis using c by auto
qed

text \<open>
  The key of the cache is ambiguous: user and idempotency key are joined by a colon that both
  may contain, and the cache is consulted before the user is looked up. Whoever sends
  \<open>user:key1\<close> as user and \<open>key2\<close> as key, with the same body, is answered with the order that
  \<open>user\<close> placed under \<open>key1:key2\<close>, whether such a user exists or not.
\<close>

theorem create_order_cache_ambiguous:
  assumes "create_order hashBody uuid toISO userId role (key1 @ '':'' @ key2) items a = (Inr ans, a')"
    and "db_ok (w_db (ap_world a))" and "env_keeps db_ok (ap_world a)"
  shows "create_order hashBody uuid toISO (userId @ '':'' @ key1) role key2 items a'
    = (Inr (ans\<lparr>ca_replay := True\<rparr>), a')"
proof -
  have role: "role = ''buyer''" using assms(1) by (auto simp: create_order_def split: if_splits)
  then show ?thesis using create_order_cached [OF assms] by (simp add: create_order_def)
qed

theorem create_order_cache_ambiguous_witness:
  "\<exists>a'. create_order test_hash test_uuid test_iso ''buyer@example.com:a'' ''buyer'' ''b'' cart a'
     = (Inr \<lparr>ca_order = cart_order, ca_location = ''/v1/orders/order-1'', ca_replay = True\<rparr>, a')"
proof -
  obtain a' where a': "place_cart shop_app
      = (Inr \<lparr>ca_order = cart_order, ca_location = ''/v1/orders/order-1'', ca_replay = False\<rparr>, a')"
    by (rule cart_run)
  then have "create_order test_hash test_uuid test_iso ''buyer@example.com'' ''buyer'' (''a'' @ '':'' @ ''b'') cart shop_app
      = (Inr \<lparr>ca_order = cart_order, ca_location = ''/v1/orders/order-1'', ca_replay = False\<rparr>, a')" by simp
  from create_order_cache_ambiguous [OF this _ shop_app_env] show ?thesis using shop_ok by (intro exI [of _ a']) simp
qed

end
