(* ===== verification/Realtime.thy ===== *)
theory Realtime
  imports OrderPlacement
begin

text \<open>
  The surfaces of the order service: \<open>src/orders/orders.controller.ts\<close>, the server-sent events of
  \<open>src/orders/order-events.controller.ts\<close> and the WebSocket gateway \<open>src/orders/orders.gateway.ts\<close>.
  A connection or a socket is a number. What follows an awaited call in a handler runs in one piece,
  so the replay and the subscription of a stream are one step of the bus.
\<close>

section \<open>The order endpoints\<close>

text \<open>The answer of \<open>POST /v1/orders\<close> with its headers.\<close>

definition create_endpoint ::
  "(new_order_item list \<Rightarrow> string) \<Rightarrow> (nat \<Rightarrow> string) \<Rightarrow> (nat \<Rightarrow> string) \<Rightarrow> string \<Rightarrow> string \<Rightarrow> string
    \<Rightarrow> new_order_item list \<Rightarrow> (app, thrown, api_order \<times> (string \<times> string) list) exec" where
  "create_endpoint hashBody uuid toISO userId role idempotencyKey items =
     bindE (create_order hashBody uuid toISO userId role idempotencyKey items) (\<lambda>result.
       returnE (ca_order result, (''Location'', ca_location result)
         # (if ca_replay result then [(''Idempotency-Replay'', ''true'')] else [])))"

section \<open>Server-sent events\<close>

definition or_empty :: "string option \<Rightarrow> string" where
  "or_empty s = (case s of Some x \<Rightarrow> x | None \<Rightarrow> [])"

definition busE :: "(bus \<Rightarrow> bus) \<Rightarrow> (app, thrown, unit) exec" where
  "busE f a = (Inr (), a\<lparr>ap_bus := f (ap_bus a)\<rparr>)"

definition write_head :: "nat \<Rightarrow> bus \<Rightarrow> bus" where
  "write_head c b = b\<lparr>eb_responses := (eb_responses b)(c := eb_responses b c @
     [WriteHead 200 [(''Content-Type'', ''text/event-stream''), (''Cache-Control'', ''no-cache''),
       (''Connection'', ''keep-alive'')]])\<rparr>"

definition open_stream :: "nat \<Rightarrow> string \<Rightarrow> string option \<Rightarrow> bus \<Rightarrow> bus" where
  "open_stream c orderId header b =
     (let b1 = res_write c (''retry: 1000'' @ [CHR 0x0A, CHR 0x0A]) (write_head c b);
          b2 = (case parseLastEventId header of
                  None \<Rightarrow> b1
                | Some lastEventId \<Rightarrow> fold (writeSseFrame c) (replayAfter orderId lastEventId b1) b1)
      in subscribe (SseObserver c orderId) b2)"

definition streamEvents ::
  "nat \<Rightarrow> string \<Rightarrow> string option \<Rightarrow> string option \<Rightarrow> string option \<Rightarrow> (app, thrown, unit) exec" where
  "streamEvents c i lastEventIdHeader userId role =
     (let orderId = canonicalOrderId i
      in bindE (assertCanRead orderId (or_empty userId) (or_empty role)) (\<lambda>_.
           busE (open_stream c orderId lastEventIdHeader)))"

definition close_stream :: "nat \<Rightarrow> string \<Rightarrow> (app, thrown, unit) exec" where
  "close_stream c i = busE (unsubscribe (SseObserver c (canonicalOrderId i)))"

section \<open>The gateway\<close>

definition onModuleInit :: "(app, thrown, unit) exec" where
  "onModuleInit = busE (subscribe GatewayObserver)"

datatype join_answer = JoinOk string | JoinError string

definition join_room :: "nat \<Rightarrow> string \<Rightarrow> bus \<Rightarrow> bus" where
  "join_room client room b = b\<lparr>eb_rooms := List.insert (client, room) (eb_rooms b)\<rparr>"

definition join :: "nat \<Rightarrow> string option \<Rightarrow> string option \<Rightarrow> string option \<Rightarrow> (app, thrown, join_answer) exec" where
  "join client userId role orderId =
     (let canonical = canonicalOrderId (or_empty orderId)
      in catchE
           (bindE (assertCanRead canonical (or_empty userId) (or_empty role)) (\<lambda>_.
            bindE (busE (join_room client (room_of canonical))) (\<lambda>_.
            returnE (JoinOk (room_of canonical)))))
           (\<lambda>err. returnE (JoinError (thrown_message err))))"

section \<open>Live delivery\<close>

text \<open>A response behind exactly one subscription, the one to the given order.\<close>

definition streaming :: "nat \<Rightarrow> string \<Rightarrow> bus \<Rightarrow> bool" where
  "streaming c oid b \<longleftrightarrow> count_list (eb_observers b) (SseObserver c oid) = 1
     \<and> (\<forall>o'. o' \<noteq> oid \<longrightarrow> count_list (eb_observers b) (SseObserver c o') = 0)"

definition fresh_conn :: "nat \<Rightarrow> bus \<Rightarrow> bool" where
  "fresh_conn c b \<longleftrightarrow> eb_responses b c = [] \<and> (\<forall>oid. SseObserver c oid \<notin> set (eb_observers b))"

fun touches :: "nat \<Rightarrow> bus_op \<Rightarrow> bool" where
  "touches c (Subscribe (SseObserver c' oid)) = (c' = c)"
| "touches c (Unsubscribe (SseObserver c' oid)) = (c' = c)"
| "touches c _ = False"

lemma count_list_remove1_other: "x \<noteq> y \<Longrightarrow> count_list (remove1 x xs) y = count_list xs y"
  by (induction xs) auto

lemma streaming_step:
  assumes "streaming c oid b" and "\<not> touches c x"
  shows "streaming c oid (bus_step x b)"
proof (cases x)
  case (Subscribe ob)
  then show ?thesis using assms by (cases ob) (auto simp: streaming_def subscribe_def)
next
  case (Unsubscribe ob)
  then show ?thesis using assms
    by (cases ob) (auto simp: streaming_def unsubscribe_def count_list_remove1_other)
qed (use assms in \<open>simp add: streaming_def\<close>)

lemma responses_step:
  assumes "streaming c oid b" and "bus_log b h"
  shows "eb_responses (bus_step x b) c = eb_responses b c
    @ concat (map frame_chunks (drop (length (h oid)) (numbered oid (h oid @ (case op_status oid x of Some s \<Rightarrow> [s] | None \<Rightarrow> [])))))"
proof (cases x)
  case (Publish p s)
  show ?thesis
  proof (cases "p = oid")
    case True
    then show ?thesis using Publish assms order_events.pub_event [OF assms(2), of oid s]
      by (simp add: publish_responses streaming_def)
  next
    case False
    then show ?thesis using Publish assms by (simp add: publish_responses streaming_def)
  qed
qed (simp_all add: subscribe_def unsubscribe_def)

lemma live_frames:
  assumes "streaming c oid b" and "bus_log b h" and "\<forall>x \<in> set ops. \<not> touches c x"
  shows "eb_responses (fold bus_step ops b) c = eb_responses b c
    @ concat (map frame_chunks (drop (length (h oid)) (numbered oid (h oid @ history ops oid))))"
  using assms
proof (induction ops arbitrary: b h)
  case (Cons x ops)
  let ?h = "\<lambda>o'. h o' @ (case op_status o' x of Some s \<Rightarrow> [s] | None \<Rightarrow> [])"
  have hist: "h oid @ history (x # ops) oid = ?h oid @ history ops oid"
    by (simp add: history_def List.map_filter_def split: option.splits)
  have IH: "eb_responses (fold bus_step ops (bus_step x b)) c = eb_responses (bus_step x b) c
      @ concat (map frame_chunks (drop (length (?h oid)) (numbered oid (?h oid @ history ops oid))))"
    using Cons.prems by (intro Cons.IH streaming_step bus_log_step) auto
  have split: "drop n (numbered oid (u @ v)) = drop n (numbered oid u) @ drop (length u) (numbered oid (u @ v))"
    if "n \<le> length u" for u v n
  proof -
    have "numbered oid (u @ v) = numbered oid u @ drop (length u) (numbered oid (u @ v))"
      by (metis append_take_drop_id numbered_append)
    then have "drop n (numbered oid (u @ v)) = drop n (numbered oid u @ drop (length u) (numbered oid (u @ v)))"
      by simp
    then show ?thesis using that by simp
  qed
  show ?case using IH responses_step [OF Cons.prems(1,2), of x]
      split [of "length (h oid)" "?h oid" "history ops oid"] by (simp add: hist del: append_assoc)
qed (simp add: history_def List.map_filter_def)

lemma write_frames:
  "eb_responses (fold (writeSseFrame c) es b) c = eb_responses b c @ concat (map frame_chunks es)
   \<and> eb_streams (fold (writeSseFrame c) es b) = eb_streams b
   \<and> eb_observers (fold (writeSseFrame c) es b) = eb_observers b"
proof (induction es arbitrary: b)
  case (Cons e es)
  have "eb_streams (writeSseFrame c e b) = eb_streams b" "eb_observers (writeSseFrame c e b) = eb_observers b"
    by (simp_all add: writeSseFrame_def res_write_def)
  then show ?case using Cons [of "writeSseFrame c e b"] by (simp add: writeSseFrame_responses)
qed simp

definition preamble :: "res_call list" where
  "preamble = [WriteHead 200 [(''Content-Type'', ''text/event-stream''), (''Cache-Control'', ''no-cache''),
       (''Connection'', ''keep-alive'')], Write (''retry: 1000'' @ [CHR 0x0A, CHR 0x0A])]"

definition replayed :: "string \<Rightarrow> string option \<Rightarrow> bus \<Rightarrow> order_status_event list" where
  "replayed oid header b = (case parseLastEventId header of None \<Rightarrow> [] | Some k \<Rightarrow> replayAfter oid k b)"

lemma open_stream_run:
  assumes "fresh_conn c b"
  shows "eb_responses (open_stream c oid header b) c = preamble @ concat (map frame_chunks (replayed oid header b))"
    and "streaming c oid (open_stream c oid header b)"
    and "bus_log (open_stream c oid header b) = bus_log b"
proof -
  let ?b1 = "res_write c (''retry: 1000'' @ [CHR 0x0A, CHR 0x0A]) (write_head c b)"
  have b1: "eb_streams ?b1 = eb_streams b" "eb_observers ?b1 = eb_observers b" "eb_responses ?b1 c = preamble"
    using assms by (simp_all add: res_write_def write_head_def preamble_def fresh_conn_def)
  have run: "open_stream c oid header b =
      subscribe (SseObserver c oid) (fold (writeSseFrame c) (replayed oid header b) ?b1)"
    using b1(1) by (simp add: open_stream_def Let_def replayed_def replayAfter_def split: option.split)
  note w = write_frames [of c "replayed oid header b" ?b1]
  show "eb_responses (open_stream c oid header b) c = preamble @ concat (map frame_chunks (replayed oid header b))"
    unfolding run using w b1(3) by (simp add: subscribe_def)
  have "count_list (eb_observers b) (SseObserver c o') = 0" for o'
    using assms by (simp add: fresh_conn_def count_list_0_iff)
  then show "streaming c oid (open_stream c oid header b)"
    unfolding run using w b1(2) by (simp add: subscribe_def streaming_def)
  show "bus_log (open_stream c oid header b) = bus_log b"
    unfolding run using w b1(1) by (auto simp: subscribe_def bus_log_def stream_of_def fun_eq_iff)
qed

lemma assertCanRead_Inl:
  "assertCanRead i h role a = (Inl e, a') \<Longrightarrow> unaffected (ap_world a) (ap_world a') \<and> a' = a\<lparr>ap_world := ap_world a'\<rparr>"
  by (auto simp: assertCanRead_def elim!: bindE_InlE dest: loadAuthorizedOrder_unaffected)

lemma toDb_canonical [simp]: "toDbOrderId (canonicalOrderId i) = toDbOrderId i"
proof (cases rule: canonical_cases [of i])
  case (numbered n)
  then have "order_number (''order-'' @ n) = Some n" by (simp add: order_number_iff)
  then show ?thesis unfolding numbered(3,4) by (simp add: toDbOrderId_def)
qed simp

lemma assertCanRead_Inr:
  assumes "assertCanRead (canonicalOrderId i) h role a = (Inr (), a')"
  shows "\<exists>w1 r. unaffected (ap_world a) w1 \<and> unaffected w1 (ap_world a') \<and> a' = a\<lparr>ap_world := ap_world a'\<rparr>
    \<and> r \<in> set (orders (w_db w1)) \<and> show_int (o_id r) = toDbOrderId i \<and> party (w_db w1) (w_db (ap_world a')) r h role"
proof -
  obtain z where "loadAuthorizedOrder (canonicalOrderId i) h role None a = (Inr z, a')"
    using assms by (auto simp: assertCanRead_def elim!: bindE_InrE)
  from loadAuthorizedOrder_Inr [OF this] obtain w1 w2 where "unaffected (ap_world a) w1" "unaffected w1 w2"
    "a' = a\<lparr>ap_world := w2\<rparr>" "az_row z \<in> set (orders (w_db w1))" "show_int (o_id (az_row z)) = toDbOrderId i"
    "party (w_db w1) (w_db w2) (az_row z) h role" by (metis toDb_canonical)
  then show ?thesis by (intro exI [of _ w1] exI [of _ "az_row z"]) simp
qed

lemma or_empty_some [simp]: "or_empty (Some s) = s"
  by (simp add: or_empty_def)

lemma canonical_one: "canonicalOrderId ''1'' = ''order-1''"
  by code_simp

lemma notify_sockets:
  "eb_sockets (notify e ob b) s = eb_sockets b s
     @ (if ob = GatewayObserver \<and> (s, room_of (se_orderId e)) \<in> set (eb_rooms b)
        then [\<lparr>sm_id = se_orderId e, sm_status = se_status e, sm_eventId = se_id e\<rparr>] else [])"
  by (cases ob) (auto simp: emit_status_def writeSseFrame_def res_write_def)

lemma fold_notify_sockets:
  "eb_sockets (fold (notify e) obs b) s = eb_sockets b s
     @ concat (replicate (count_list obs GatewayObserver)
        (if (s, room_of (se_orderId e)) \<in> set (eb_rooms b)
         then [\<lparr>sm_id = se_orderId e, sm_status = se_status e, sm_eventId = se_id e\<rparr>] else []))"
proof (induction obs arbitrary: b)
  case (Cons ob obs)
  show ?case using Cons [of "notify e ob b"] by (cases "ob = GatewayObserver") (simp_all add: notify_sockets emit_status_def)
qed simp

lemma publish_sockets:
  assumes "count_list (eb_observers b) GatewayObserver = 1"
  shows "eb_sockets (snd (publish oid st b)) s = eb_sockets b s
     @ (if (s, room_of oid) \<in> set (eb_rooms b)
        then [\<lparr>sm_id = oid, sm_status = st, sm_eventId = se_id (fst (publish oid st b))\<rparr>] else [])"
proof -
  obtain str b1 where f: "streamFor oid b = (str, b1)" by fastforce
  then have "eb_sockets b1 = eb_sockets b" "eb_observers b1 = eb_observers b" "eb_rooms b1 = eb_rooms b"
    using streamFor_frame [of oid b] by simp_all
  then show ?thesis using f assms by (simp add: publish_def subject_next_def fold_notify_sockets Let_def)
qed

lemma streamEvents_Inr:
  assumes "streamEvents c i header userId role a = (Inr (), a')"
  obtains a1 where "assertCanRead (canonicalOrderId i) (or_empty userId) (or_empty role) a = (Inr (), a1)"
    "a' = a1\<lparr>ap_bus := open_stream c (canonicalOrderId i) header (ap_bus a1)\<rparr>" "ap_bus a1 = ap_bus a"
proof -
  obtain a1 where a1: "assertCanRead (canonicalOrderId i) (or_empty userId) (or_empty role) a = (Inr (), a1)"
    "a' = a1\<lparr>ap_bus := open_stream c (canonicalOrderId i) header (ap_bus a1)\<rparr>"
    using assms by (auto simp: streamEvents_def Let_def busE_def elim!: bindE_InrE)
  obtain w where "a1 = a\<lparr>ap_world := w\<rparr>" using assertCanRead_Inr [OF a1(1)] by metis
  then show ?thesis using that [OF a1] by simp
qed

section \<open>Properties\<close>

text \<open>
  (C23) A stream is gap-free and free of repetitions: a client that reconnects with the id of the last
  event it saw, at most 50 events behind, is sent the preamble and then exactly the later events of
  its order, each once and in the order of their ids, first from the buffer and then live, whatever
  is published for other orders and whoever else subscribes or leaves.
\<close>

theorem streamEvents_gap_free:
  assumes "streamEvents c i header userId role a = (Inr (), a')"
    and "bus_log (ap_bus a) h" and "fresh_conn c (ap_bus a)" and "parseLastEventId header = Some k"
    and "k \<le> length (h (canonicalOrderId i))" and "length (h (canonicalOrderId i)) \<le> k + 50"
    and "\<forall>x \<in> set ops. \<not> touches c x"
  shows "eb_responses (fold bus_step ops (ap_bus a')) c = preamble
    @ concat (map frame_chunks (drop k (numbered (canonicalOrderId i)
        (h (canonicalOrderId i) @ history ops (canonicalOrderId i)))))"
proof -
  let ?o = "canonicalOrderId i" and ?sts = "h (canonicalOrderId i)"
  obtain a1 where "a' = a1\<lparr>ap_bus := open_stream c ?o header (ap_bus a1)\<rparr>" "ap_bus a1 = ap_bus a"
    using streamEvents_Inr [OF assms(1)] by metis
  then have b: "ap_bus a' = open_stream c ?o header (ap_bus a)" by simp
  have "replayed ?o header (ap_bus a) = drop k (numbered ?o ?sts)"
    using order_events.replay_missed [OF assms(2), of ?o k] assms(4,6)
    by (simp add: replayed_def BUFFER_LIMIT_def)
  moreover have "eb_responses (fold bus_step ops (ap_bus a')) c = eb_responses (ap_bus a') c
      @ concat (map frame_chunks (drop (length ?sts) (numbered ?o (?sts @ history ops ?o))))"
    unfolding b using open_stream_run(2,3) [OF assms(3)] assms(2,7) by (intro live_frames) simp_all
  moreover have "numbered ?o (?sts @ history ops ?o) = numbered ?o ?sts @ drop (length ?sts) (numbered ?o (?sts @ history ops ?o))"
    by (metis append_take_drop_id numbered_append)
  then have "drop k (numbered ?o (?sts @ history ops ?o))
      = drop k (numbered ?o ?sts) @ drop (length ?sts) (numbered ?o (?sts @ history ops ?o))"
    using assms(5) by (metis diff_is_0_eq drop0 drop_append length_numbered)
  ultimately show ?thesis unfolding b using open_stream_run(1) [OF assms(3), of ?o header] by simp
qed

definition shipped_bus :: bus where
  "shipped_bus = fold bus_step [Publish ''order-1'' ''paid'', Publish ''order-1'' ''shipped''] new_bus"

theorem streamEvents_gap_free_witness:
  "\<exists>a'. streamEvents 7 ''1'' (Some ''1'') (Some ''buyer@example.com'') (Some ''buyer'') (paid_app\<lparr>ap_bus := shipped_bus\<rparr>) = (Inr (), a')
     \<and> eb_responses (fold bus_step [Publish ''order-2'' ''paid'', Publish ''order-1'' ''delivered''] (ap_bus a')) 7
       = preamble @ frame_chunks \<lparr>se_id = 2, se_orderId = ''order-1'', se_status = ''shipped''\<rparr>
          @ frame_chunks \<lparr>se_id = 3, se_orderId = ''order-1'', se_status = ''delivered''\<rparr>"
proof -
  let ?a = "paid_app\<lparr>ap_bus := shipped_bus\<rparr>"
  let ?ops = "[Publish ''order-2'' ''paid'', Publish ''order-1'' ''delivered'']"
  have "fst (assertCanRead ''order-1'' ''buyer@example.com'' ''buyer'' ?a) = Inr ()" by code_simp
  then obtain a1 where "assertCanRead ''order-1'' ''buyer@example.com'' ''buyer'' ?a = (Inr (), a1)"
    by (metis prod.collapse)
  then obtain a' where a': "streamEvents 7 ''1'' (Some ''1'') (Some ''buyer@example.com'') (Some ''buyer'') ?a = (Inr (), a')"
    by (auto simp: streamEvents_def canonical_one bindE_def busE_def Let_def)
  have log: "bus_log (ap_bus ?a) (history [Publish ''order-1'' ''paid'', Publish ''order-1'' ''shipped''])"
    using bus_log_history [of "[Publish ''order-1'' ''paid'', Publish ''order-1'' ''shipped'']"] by (simp add: shipped_bus_def)
  have "eb_observers shipped_bus = []" by (simp add: shipped_bus_def new_bus_def)
  moreover have "eb_responses shipped_bus 7 = []" by (simp add: shipped_bus_def new_bus_def publish_responses)
  ultimately have fresh: "fresh_conn 7 (ap_bus ?a)" by (simp add: fresh_conn_def)
  have "plain_numeral (js_trim ''1'')" "nat_of_digits (js_trim ''1'') = 1" by code_simp+
  then have cur: "parseLastEventId (Some ''1'') = Some 1" by (simp add: parseLastEventId_def MAX_SAFE_INTEGER_def)
  note o = canonical_one
  show ?thesis using streamEvents_gap_free [OF a' log fresh cur, of ?ops] a'
    by (simp add: o history_def List.map_filter_def numbered_def numeral_eq_Suc)
qed

text \<open>
  A stream is opened for parties of the order only: a refused stream has written nothing, not
  even its head; an accepted one was allowed by the rule that guards reading the order.
\<close>

theorem streamEvents_authorized:
  assumes "streamEvents c i header userId role a = (x, a')"
  shows "unaffected (ap_world a) (ap_world a') \<and>
    (case x of
       Inl e \<Rightarrow> a' = a\<lparr>ap_world := ap_world a'\<rparr>
     | Inr u \<Rightarrow> ap_bus a' = open_stream c (canonicalOrderId i) header (ap_bus a)
         \<and> (\<exists>w1 r. unaffected (ap_world a) w1 \<and> unaffected w1 (ap_world a') \<and> r \<in> set (orders (w_db w1))
              \<and> show_int (o_id r) = toDbOrderId i
              \<and> party (w_db w1) (w_db (ap_world a')) r (or_empty userId) (or_empty role)))"
proof (cases x)
  case (Inl e)
  then have "assertCanRead (canonicalOrderId i) (or_empty userId) (or_empty role) a = (Inl e, a')"
    using assms by (auto simp: streamEvents_def Let_def busE_def elim!: bindE_InlE)
  then show ?thesis using assertCanRead_Inl Inl by auto
next
  case (Inr u)
  then have "streamEvents c i header userId role a = (Inr (), a')" using assms by simp
  then obtain a1 where a1: "assertCanRead (canonicalOrderId i) (or_empty userId) (or_empty role) a = (Inr (), a1)"
    "a' = a1\<lparr>ap_bus := open_stream c (canonicalOrderId i) header (ap_bus a1)\<rparr>" "ap_bus a1 = ap_bus a"
    by (rule streamEvents_Inr)
  from assertCanRead_Inr [OF a1(1)] obtain w1 r where w: "unaffected (ap_world a) w1" "unaffected w1 (ap_world a1)"
    "r \<in> set (orders (w_db w1))" "show_int (o_id r) = toDbOrderId i"
    "party (w_db w1) (w_db (ap_world a1)) r (or_empty userId) (or_empty role)" by blast
  then have "unaffected (ap_world a) (ap_world a1)" by (metis rtranclp_trans)
  then show ?thesis using w a1(2,3) Inr by auto
qed

theorem streamEvents_authorized_witness:
  "\<exists>a'. streamEvents 7 ''1'' None None None paid_app
     = (Inl (forbidden ''You do not have access to this order'' ''/v1/orders/order-1''), a')
     \<and> a' = paid_app\<lparr>ap_world := ap_world a'\<rparr>"
proof -
  have "fst (streamEvents 7 ''1'' None None None paid_app)
      = Inl (forbidden ''You do not have access to this order'' ''/v1/orders/order-1'')" by code_simp
  then obtain a' where a': "streamEvents 7 ''1'' None None None paid_app
      = (Inl (forbidden ''You do not have access to this order'' ''/v1/orders/order-1''), a')" by (metis prod.collapse)
  from streamEvents_authorized [OF a'] show ?thesis using a' by auto
qed



end
