(* ===== verification/OrdersApi.thy ===== *)
theory OrdersApi
  imports RateLimit Realtime
begin

text \<open>
  \<open>src/orders/orders.controller.ts\<close> behind the rate limiter: the guard of \<open>@RateLimit\<close> runs before the handler of
  \<open>POST /v1/orders\<close>. The state is the Redis server and the application; what a query string means as a number
  is an argument.
\<close>

section \<open>Endpoints\<close>

definition CREATE_POLICY :: rate_limit_policy where
  "CREATE_POLICY = \<lparr>rp_limit = 10, rp_windowMs = 60000\<rparr>"

definition CREATE_ROUTE :: string where
  "CREATE_ROUTE = ''OrdersController.create''"

record 'r api_state =
  ax_redis :: 'r
  ax_app :: app

text \<open>An answer of the guard or of the handler, with the headers set on the response.\<close>

datatype api_answer = Refused thrown "(string \<times> string) list" | Handled "thrown + api_order" "(string \<times> string) list"

fun was_handled :: "api_answer \<Rightarrow> bool" where
  "was_handled (Handled x hs) = True"
| "was_handled (Refused e hs) = False"

record create_call =
  cc_t0 :: int
  cc_t :: int
  cc_rand :: string
  cc_req :: limited_request
  cc_userId :: string
  cc_role :: string
  cc_key :: string
  cc_items :: "new_order_item list"

definition handle_create ::
  "(new_order_item list \<Rightarrow> string) \<Rightarrow> (nat \<Rightarrow> string) \<Rightarrow> (nat \<Rightarrow> string) \<Rightarrow> create_call \<Rightarrow> (string \<times> string) list \<Rightarrow> app \<Rightarrow> api_answer \<times> app" where
  "handle_create hashBody uuid toISO c hs a =
     (case create_endpoint hashBody uuid toISO (cc_userId c) (cc_role c) (cc_key c) (cc_items c) a of
        (Inl e, a') \<Rightarrow> (Handled (Inl e) hs, a')
      | (Inr (order, hs'), a') \<Rightarrow> (Handled (Inr order) (hs @ hs'), a'))"

definition guarded_create ::
  "'r redis_cmds \<Rightarrow> (new_order_item list \<Rightarrow> string) \<Rightarrow> (nat \<Rightarrow> string) \<Rightarrow> (nat \<Rightarrow> string) \<Rightarrow> create_call \<Rightarrow> 'r api_state \<Rightarrow> api_answer \<times> 'r api_state" where
  "guarded_create cmds hashBody uuid toISO c s =
     (case canActivate cmds (cc_t0 c) (cc_t c) (cc_rand c) CREATE_ROUTE (Some CREATE_POLICY) (cc_req c) (ax_redis s) of
        ((Inl e, hs), r) \<Rightarrow> (Refused e hs, s\<lparr>ax_redis := r\<rparr>)
      | ((Inr go, hs), r) \<Rightarrow>
          (case handle_create hashBody uuid toISO c hs (ax_app s) of
             (x, a) \<Rightarrow> (x, \<lparr>ax_redis = r, ax_app = a\<rparr>)))"

definition list_endpoint ::
  "(string \<Rightarrow> int) \<Rightarrow> string \<Rightarrow> string \<Rightarrow> string option \<Rightarrow> string option \<Rightarrow> (app, thrown, api_order list \<times> string option) exec" where
  "list_endpoint number userId role limit cursor =
     list_orders userId role (case limit of Some (c # cs) \<Rightarrow> Some (number (c # cs)) | _ \<Rightarrow> None) cursor"

definition get_endpoint :: "string \<Rightarrow> string \<Rightarrow> string \<Rightarrow> (app, thrown, api_order) exec" where
  "get_endpoint i userId role = getById i userId role"

definition patch_endpoint :: "string \<Rightarrow> string \<Rightarrow> string \<Rightarrow> string \<Rightarrow> (app, thrown, string \<times> string) exec" where
  "patch_endpoint i userId role status = updateStatus i userId role status"

section \<open>Requests of one client\<close>

definition create_bucket :: "limited_request \<Rightarrow> string" where
  "create_bucket req = CREATE_ROUTE @ '':'' @ clientKey req"

definition member_of :: "create_call \<Rightarrow> string" where
  "member_of c = show_int (cc_t0 c) @ ''-'' @ cc_rand c"

text \<open>
  Requests under one bucket, one after the other at times that do not go back, to a Redis that answers them;
  between them, everything but the bucket may change. The run records when the handler ran.
\<close>

inductive create_run ::
  "'r redis_cmds \<Rightarrow> ('r \<Rightarrow> string \<Rightarrow> (string \<times> int) list) \<Rightarrow> (new_order_item list \<Rightarrow> string) \<Rightarrow> (nat \<Rightarrow> string) \<Rightarrow> (nat \<Rightarrow> string)
    \<Rightarrow> string \<Rightarrow> 'r api_state \<Rightarrow> int \<Rightarrow> int list \<Rightarrow> bool"
  for cmds zset hashBody uuid toISO bucket
where
  start: "zset (ax_redis s) (''rl:'' @ bucket) = [] \<Longrightarrow> create_run cmds zset hashBody uuid toISO bucket s t []"
| request: "create_run cmds zset hashBody uuid toISO bucket s t acc \<Longrightarrow> create_bucket (cc_req c) = bucket \<Longrightarrow> t \<le> cc_t c
    \<Longrightarrow> member_of c \<notin> fst ` set (zset (ax_redis s) (''rl:'' @ bucket))
    \<Longrightarrow> consume cmds (cc_t0 c) (cc_t c) (cc_rand c) bucket CREATE_POLICY (ax_redis s) = (Inr resp, r)
    \<Longrightarrow> guarded_create cmds hashBody uuid toISO c s = (x, s')
    \<Longrightarrow> create_run cmds zset hashBody uuid toISO bucket s' (cc_t c) (if was_handled x then acc @ [cc_t c] else acc)"
| others: "create_run cmds zset hashBody uuid toISO bucket s t acc \<Longrightarrow> zset (ax_redis s') (''rl:'' @ bucket) = zset (ax_redis s) (''rl:'' @ bucket)
    \<Longrightarrow> create_run cmds zset hashBody uuid toISO bucket s' t acc"

section \<open>What the guard decides\<close>

lemma guarded_create_cases:
  assumes "consume cmds (cc_t0 c) (cc_t c) (cc_rand c) (create_bucket (cc_req c)) CREATE_POLICY (ax_redis s) = (y, r)"
  shows "guarded_create cmds hashBody uuid toISO c s =
    (if case y of Inl e \<Rightarrow> True | Inr resp \<Rightarrow> lr_allowed resp
     then (case handle_create hashBody uuid toISO c [] (ax_app s) of (x, a) \<Rightarrow> (x, \<lparr>ax_redis = r, ax_app = a\<rparr>))
     else (Refused (mk_problem 429 ''https://marketplace.local/problems/rate-limited'' ''Too many requests''
         ''Limit is 10 requests per 60s'' (rq_originalUrl (cc_req c))) (lr_headers (projr y)), s\<lparr>ax_redis := r\<rparr>))"
proof -
  have "show_int 10 = ''10''" "show_seconds 60000 = ''60''" by code_simp+
  then show ?thesis using assms
    by (cases y) (simp_all add: guarded_create_def canActivate_def create_bucket_def CREATE_POLICY_def)
qed

lemma handle_create_handled: "handle_create hashBody uuid toISO c hs a = (x, a') \<Longrightarrow> was_handled x"
  by (auto simp: handle_create_def split: prod.splits sum.splits)

lemma create_run_limiter:
  assumes "redis_scripts cmds zset" and "create_run cmds zset hashBody uuid toISO bucket s t acc"
  shows "limiter_run cmds zset (''rl:'' @ bucket) CREATE_POLICY (ax_redis s) t acc"
  using assms(2)
proof (induction rule: create_run.induct)
  case (start s t)
  then show ?case by (rule limiter_run.start)
next
  case (request s t acc c resp r x s')
  have dec: "limiter_run cmds zset (''rl:'' @ bucket) CREATE_POLICY r (cc_t c) (if lr_allowed resp then acc @ [cc_t c] else acc)"
    using redis_scripts.consume_decision [OF assms(1) request.IH _ _ request.hyps(3) _ request.hyps(5)] request.hyps(4)
    by (auto simp: CREATE_POLICY_def member_of_def)
  have "ax_redis s' = r \<and> (was_handled x \<longleftrightarrow> lr_allowed resp)"
    using guarded_create_cases [of cmds c s "Inr resp" r hashBody uuid toISO] request.hyps(2,5,6) handle_create_handled
    by (auto split: if_splits prod.splits)
  then show ?case using dec by simp
next
  case (others s t acc s')
  then show ?case by (blast intro: limiter_run.others)
qed

section \<open>Properties\<close>

text \<open>
  The budget of a client: over any sequence of requests under one bucket, through any number of
  processes, the handler that places orders runs at most ten times in any sixty seconds.
\<close>

theorem guarded_create_budget:
  assumes "redis_scripts cmds zset" and "create_run cmds zset hashBody uuid toISO bucket s t acc"
  shows "length (filter (\<lambda>x. u - 60000 < x \<and> x \<le> u) acc) \<le> 10"
  using redis_scripts.bucket_reachable [OF assms(1) create_run_limiter [OF assms]] by (auto simp: CREATE_POLICY_def)

text \<open>
  The guard fails open and refuses without effect: when Redis does not answer, a request is handled
  exactly as without the guard; a refused request is answered with 429 and the headers of the limiter, and
  touches neither tables nor store nor bus.
\<close>

theorem guarded_create_guard:
  assumes "consume cmds (cc_t0 c) (cc_t c) (cc_rand c) (create_bucket (cc_req c)) CREATE_POLICY (ax_redis s) = (y, r)"
    and "guarded_create cmds hashBody uuid toISO c s = (x, s')"
  shows "case y of
      Inl e \<Rightarrow> (x, ax_app s') = handle_create hashBody uuid toISO c [] (ax_app s)
    | Inr resp \<Rightarrow>
        if lr_allowed resp then (x, ax_app s') = handle_create hashBody uuid toISO c [] (ax_app s)
        else ax_app s' = ax_app s \<and> (\<exists>b. x = Refused (ProblemException b) (lr_headers resp) \<and> pb_status b = 429)"
  using assms(2) unfolding guarded_create_cases [OF assms(1)]
  by (auto simp: mk_problem_def split: sum.splits prod.splits if_splits)

definition test_call :: create_call where
  "test_call = \<lparr>cc_t0 = 7, cc_t = 7, cc_rand = ''f'',
     cc_req = \<lparr>rq_user_header = Some ''buyer-1'', rq_session_user = None, rq_ip = ''::1'', rq_originalUrl = ''/v1/orders''\<rparr>,
     cc_userId = ''buyer-1'', cc_role = ''guest'', cc_key = ''k'', cc_items = []\<rparr>"

definition test_api :: "mem_redis api_state" where
  "test_api = \<lparr>ax_redis = mem_start, ax_app = \<lparr>ap_world = shop_world, ap_store = initial_store, ap_bus = new_bus, ap_ratings = []\<rparr>\<rparr>"

lemma test_consume:
  obtains r where "consume mem_cmds (cc_t0 test_call) (cc_t test_call) (cc_rand test_call) (create_bucket (cc_req test_call)) CREATE_POLICY (ax_redis test_api)
    = (Inr \<lparr>lr_allowed = True, lr_status = 200, lr_headers = []\<rparr>, r)"
  by (simp add: consume_def bindE_def sliding_window_lua_def mem_cmds_def mem_start_def test_api_def CREATE_POLICY_def Let_def)

theorem guarded_create_budget_witness:
  "\<exists>s. create_run mem_cmds mem_zset test_hash test_uuid test_iso ''OrdersController.create:user:buyer-1'' s 7 [7]
    \<and> length (filter (\<lambda>x. 100 - 60000 < x \<and> x \<le> 100) [7 :: int]) \<le> 10"
proof -
  let ?b = "''OrdersController.create:user:buyer-1''"
  have b: "create_bucket (cc_req test_call) = ?b" by (simp add: create_bucket_def test_call_def CREATE_ROUTE_def clientKey_def)
  obtain r where c: "consume mem_cmds (cc_t0 test_call) (cc_t test_call) (cc_rand test_call) (create_bucket (cc_req test_call)) CREATE_POLICY (ax_redis test_api)
      = (Inr \<lparr>lr_allowed = True, lr_status = 200, lr_headers = []\<rparr>, r)" by (rule test_consume)
  obtain x s where x: "guarded_create mem_cmds test_hash test_uuid test_iso test_call test_api = (x, s)" by fastforce
  have "was_handled x" using guarded_create_cases [OF c, of test_hash test_uuid test_iso] x handle_create_handled by (auto split: prod.splits)
  have "create_run mem_cmds mem_zset test_hash test_uuid test_iso ?b test_api 0 []"
    by (rule create_run.start) (simp add: test_api_def mem_zset_def mem_start_def)
  from create_run.request [OF this b _ _ c [unfolded b] x] \<open>was_handled x\<close>
  have run: "create_run mem_cmds mem_zset test_hash test_uuid test_iso ?b s 7 [7]"
    by (simp add: test_call_def test_api_def mem_zset_def mem_start_def)
  from guarded_create_budget [OF mem_scripts.redis_scripts_axioms run, of 100] run show ?thesis by blast
qed

theorem guarded_create_guard_witness:
  "\<exists>x s'. guarded_create mem_cmds test_hash test_uuid test_iso test_call test_api = (x, s')
    \<and> (x, ax_app s') = handle_create test_hash test_uuid test_iso test_call [] (ax_app test_api)"
proof -
  obtain r where c: "consume mem_cmds (cc_t0 test_call) (cc_t test_call) (cc_rand test_call) (create_bucket (cc_req test_call)) CREATE_POLICY (ax_redis test_api)
      = (Inr \<lparr>lr_allowed = True, lr_status = 200, lr_headers = []\<rparr>, r)" by (rule test_consume)
  obtain x s' where x: "guarded_create mem_cmds test_hash test_uuid test_iso test_call test_api = (x, s')" by fastforce
  from guarded_create_guard [OF c x] x show ?thesis by simp
qed

end
