(* ===== verification/RealtimeDemo.thy ===== *)
theory RealtimeDemo
  imports Realtime
begin

text \<open>
  \<open>scripts/realtime-demo.mjs\<close>: two clients place orders, join rooms and wait for a change of status, against
  one server process. A client is a socket number; what a client receives while it waits is what is emitted
  to its socket from then on. The messages of the errors leave out the status and the body of the response.
\<close>

section \<open>The calls of the script\<close>

definition failing :: "string \<Rightarrow> (app, thrown, 'a) exec \<Rightarrow> (app, thrown, 'a) exec" where
  "failing label m = catchE m (\<lambda>_. throwE (PlainError label))"

definition createOrder ::
  "(new_order_item list \<Rightarrow> string) \<Rightarrow> (nat \<Rightarrow> string) \<Rightarrow> (nat \<Rightarrow> string) \<Rightarrow> string \<Rightarrow> string \<Rightarrow> (app, thrown, string) exec" where
  "createOrder hashBody uuid toISO listingId key =
     bindE (failing ''POST /v1/orders failed'' (create_endpoint hashBody uuid toISO ''buyer-1'' ''buyer'' key
         [\<lparr>no_listing_id = listingId, no_quantity = 1\<rparr>])) (\<lambda>body.
       returnE (ao_id (fst body)))"

definition patchStatus :: "string \<Rightarrow> string \<Rightarrow> (app, thrown, unit) exec" where
  "patchStatus orderId status =
     bindE (failing ''PATCH status failed'' (updateStatus orderId ''buyer-1'' ''buyer'' status)) (\<lambda>_. returnE ())"

definition joinRoom :: "nat \<Rightarrow> string \<Rightarrow> (app, thrown, unit) exec" where
  "joinRoom socket orderId =
     bindE (join socket (Some ''buyer-1'') (Some ''buyer'') (Some orderId)) (\<lambda>ack.
       case ack of
         JoinOk _ \<Rightarrow> returnE ()
       | JoinError e \<Rightarrow> throwE (PlainError (''join denied: '' @ e)))"

definition inbox :: "nat \<Rightarrow> (app, thrown, nat) exec" where
  "inbox socket a = (Inr (length (eb_sockets (ap_bus a) socket)), a)"

record realtime_report =
  rr_orderA :: string
  rr_orderB :: string
  rr_receivedA :: nat
  rr_receivedB :: nat
  rr_exitCode :: nat

text \<open>\<open>waitEvent\<close> is set up before the change of status and answers whether a message came since.\<close>

definition realtime_demo ::
  "(new_order_item list \<Rightarrow> string) \<Rightarrow> (nat \<Rightarrow> string) \<Rightarrow> (nat \<Rightarrow> string) \<Rightarrow> bool \<Rightarrow> string \<Rightarrow> nat \<Rightarrow> nat
    \<Rightarrow> (app, thrown, realtime_report) exec" where
  "realtime_demo hashBody uuid toISO sameRoom stamp clientA clientB =
     bindE (createOrder hashBody uuid toISO ''listing-1'' (''rt-a-'' @ stamp)) (\<lambda>orderA.
     bindE (createOrder hashBody uuid toISO ''listing-2'' (''rt-b-'' @ stamp)) (\<lambda>orderB.
     let roomB = (if sameRoom then orderA else orderB); expectB = (if sameRoom then 1 else 0) in
     bindE (joinRoom clientA orderA) (\<lambda>_.
     bindE (joinRoom clientB roomB) (\<lambda>_.
     bindE (inbox clientA) (\<lambda>seenA.
     bindE (inbox clientB) (\<lambda>seenB.
     bindE (patchStatus orderA ''shipped'') (\<lambda>_.
     bindE (inbox clientA) (\<lambda>haveA.
     bindE (inbox clientB) (\<lambda>haveB.
     let gotA = (if seenA < haveA then 1 else 0); gotB = (if seenB < haveB then 1 else 0) in
     returnE \<lparr>rr_orderA = orderA, rr_orderB = orderB, rr_receivedA = gotA, rr_receivedB = gotB,
       rr_exitCode = (if gotA = 1 \<and> gotB = expectB then 0 else 1)\<rparr>)))))))))"

section \<open>What the calls leave alone\<close>

definition bus_is :: "bus \<Rightarrow> app \<Rightarrow> bool" where
  "bus_is b a \<longleftrightarrow> ap_bus a = b"

lemma keeps_bus_dbE [keeps_intros]: "keeps (bus_is b) (dbE m)"
  by (auto simp: keeps_def bus_is_def dbE_def split: prod.splits)

lemma keeps_bus_resolve [keeps_intros]: "keeps (bus_is b) (resolve_items items seller acc)"
  by (rule keepsI) (metis (no_types, lifting) bus_is_def app.ext_inject app.surjective app.update_convs(1) resolve_items_unaffected)

lemma keeps_bus_load [keeps_intros]: "keeps (bus_is b) (loadAuthorizedOrder i h role p)"
  by (rule keepsI) (metis (no_types, lifting) bus_is_def app.ext_inject app.surjective app.update_convs(1) loadAuthorizedOrder_unaffected)

lemma keeps_bus_finish [keeps_intros]: "keeps (bus_is b) (finish_order u ck bh rs seller r)"
  by (simp add: keeps_def bus_is_def finish_order_def Let_def)

lemma keeps_bus_replay [keeps_intros]: "keeps (bus_is b) (replay_order u role ck bh r)"
  unfolding replay_order_def by (rule keeps_bindE, rule keeps_bus_load) (simp add: keeps_def bus_is_def Let_def)

lemma keeps_bus_place [keeps_intros]: "keeps (bus_is b) (place_order uuid toISO u role key ck bh items)"
  unfolding place_order_def by (auto intro!: keeps_intros split: option.split prod.split)

lemma keeps_bus_create [keeps_intros]: "keeps (bus_is b) (create_order hashBody uuid toISO u role key items)"
proof (rule keepsI)
  fix a r a' assume b: "bus_is b a" and run: "create_order hashBody uuid toISO u role key items a = (r, a')"
  have "a' = a \<or> place_order uuid toISO u role key (u @ '':'' @ key) (hashBody items) items a = (r, a')"
    using run by (auto simp: create_order_def Let_def split: if_splits option.splits)
  then show "bus_is b a'" using b keepsD [OF keeps_bus_place] by metis
qed

lemma keeps_bus_createOrder: "keeps (bus_is b) (createOrder hashBody uuid toISO listingId key)"
  unfolding createOrder_def failing_def create_endpoint_def by (auto intro!: keeps_intros)

lemma createOrder_bus:
  assumes "createOrder hashBody uuid toISO listingId key a = (r, a')"
  shows "ap_bus a' = ap_bus a"
proof -
  have "bus_is (ap_bus a) a" by (simp add: bus_is_def)
  from keepsD [OF keeps_bus_createOrder this assms] show ?thesis by (simp add: bus_is_def)
qed

section \<open>Rooms\<close>

lemma joinRoom_Inr:
  assumes "joinRoom c oid a = (Inr (), a')"
  shows "ap_bus a' = join_room c (room_of (canonicalOrderId oid)) (ap_bus a)"
proof -
  obtain a1 where a1: "assertCanRead (canonicalOrderId oid) ''buyer-1'' ''buyer'' a = (Inr (), a1)"
    "ap_bus a' = join_room c (room_of (canonicalOrderId oid)) (ap_bus a1)"
    using assms by (auto simp: joinRoom_def join_def catchE_def busE_def Let_def bindE_def split: sum.splits prod.splits join_answer.splits)
  obtain w where "a1 = a\<lparr>ap_world := w\<rparr>" using assertCanRead_Inr [OF a1(1)] by metis
  then show ?thesis using a1(2) by simp
qed

lemma patchStatus_Inr:
  assumes "patchStatus oid st a = (Inr (), a')"
  shows "ap_bus a' = snd (publish (canonicalOrderId oid) st (ap_bus a))"
proof -
  obtain x where "updateStatus oid ''buyer-1'' ''buyer'' st a = (Inr x, a')"
    using assms by (auto simp: patchStatus_def failing_def catchE_def bindE_def split: sum.splits prod.splits)
  then show ?thesis by (rule updateStatus_Inr) simp
qed

lemma room_of_inject [simp]: "room_of x = room_of y \<longleftrightarrow> x = y"
  by (simp add: room_of_def)

definition absent :: "nat \<Rightarrow> bus \<Rightarrow> bool" where
  "absent c b \<longleftrightarrow> (\<forall>room. (c, room) \<notin> set (eb_rooms b))"

section \<open>Properties\<close>


text \<open>A server on which the script has placed its orders before and which has the gateway subscribed.\<close>

definition placed_answer :: "string \<Rightarrow> idempotency_record" where
  "placed_answer i = \<lparr>ir_bodyHash = ''h'', ir_location = ''/v1/orders/'' @ i, ir_body = \<lparr>ao_id = i, ao_buyer_id = ''buyer-1'',
     ao_seller_id = ''s'', ao_items = [], ao_total_cents = 2, ao_status = StatusPaid\<rparr>\<rparr>"

definition live_app :: app where
  "live_app = \<lparr>ap_world = shop_world\<lparr>w_db := shop\<lparr>
       users := [\<lparr>u_id = 1, u_email = ''s'', u_full_name = ''Seller'', u_role = Seller, u_is_active = True, u_balance_cents = 0\<rparr>,
                \<lparr>u_id = 2, u_email = ''buyer1@shop.local'', u_full_name = ''Buyer'', u_role = Buyer, u_is_active = True, u_balance_cents = 20\<rparr>],
       orders := [\<lparr>o_id = 1, o_user_id = 2, o_status = ''paid'', o_total_cents = 100, o_created_at = 0\<rparr>,
                 \<lparr>o_id = 2, o_user_id = 2, o_status = ''paid'', o_total_cents = 30, o_created_at = 0\<rparr>],
       order_items := [\<lparr>i_id = 1, i_order_id = 1, i_product_id = 1, i_quantity = 1, i_unit_price_cents = 100\<rparr>,
         \<lparr>i_id = 2, i_order_id = 2, i_product_id = 2, i_quantity = 1, i_unit_price_cents = 30\<rparr>]\<rparr>\<rparr>,
     ap_store = initial_store\<lparr>sr_idempotency := [(''buyer-1:rt-a-7'', placed_answer ''order-1''), (''buyer-1:rt-b-7'', placed_answer ''order-2'')]\<rparr>,
     ap_bus = subscribe GatewayObserver new_bus, ap_ratings = []\<rparr>"

lemma live_run:
  "fst (realtime_demo (\<lambda>_. ''h'') test_uuid test_iso False ''7'' 1 2 live_app)
     = Inr \<lparr>rr_orderA = ''order-1'', rr_orderB = ''order-2'', rr_receivedA = 1, rr_receivedB = 0, rr_exitCode = 0\<rparr>"
  by code_simp


end
