(* ===== verification/Session.thy ===== *)
theory Session
  imports Redis JsonText Schema
begin

text \<open>
  \<open>src/session\<close>: the session store on Redis, the middleware that renews a session, the guard and the
  endpoints. The random session id is an argument.
\<close>

section \<open>The store\<close>

definition SESSION_TTL_SEC :: int where
  "SESSION_TTL_SEC = 30 * 60"

record session_record =
  sn_userId :: string

definition print_session :: "session_record \<Rightarrow> string" where
  "print_session r = ''{'' @ json_quote ''userId'' @ '':'' @ json_quote (sn_userId r) @ ''}''"

definition parse_session :: "string \<Rightarrow> thrown + session_record" where
  "parse_session t =
     (case expect (''{'' @ json_quote ''userId'' @ '':'') t of
        None \<Rightarrow> Inl (PlainError ''Unexpected token in JSON'')
      | Some t1 \<Rightarrow>
          (case read_string t1 of
             Some (u, t2) \<Rightarrow> if t2 = ''}'' then Inr \<lparr>sn_userId = u\<rparr>
               else Inl (PlainError ''Unexpected token in JSON'')
           | None \<Rightarrow> Inl (PlainError ''Unexpected token in JSON'')))"

definition session_key :: "string \<Rightarrow> string" where
  "session_key sessionId = ''session:'' @ sessionId"

definition start_session :: "'r redis_cmds \<Rightarrow> int \<Rightarrow> string \<Rightarrow> string \<Rightarrow> ('r, thrown, string) exec" where
  "start_session cmds ttlSeconds sessionId userId =
     bindE (rd_set_ex cmds (session_key sessionId) (print_session \<lparr>sn_userId = userId\<rparr>) ttlSeconds)
       (\<lambda>_. returnE sessionId)"

definition touch :: "'r redis_cmds \<Rightarrow> int \<Rightarrow> string \<Rightarrow> ('r, thrown, session_record option) exec" where
  "touch cmds ttlSeconds sessionId =
     bindE (rd_getex cmds (session_key sessionId) ttlSeconds) (\<lambda>raw.
       case raw of
         None \<Rightarrow> returnE None
       | Some t \<Rightarrow> (case parse_session t of Inl e \<Rightarrow> throwE e | Inr r \<Rightarrow> returnE (Some r)))"

definition remainingTtl :: "'r redis_cmds \<Rightarrow> string \<Rightarrow> ('r, thrown, int) exec" where
  "remainingTtl cmds sessionId = rd_ttl cmds (session_key sessionId)"

definition end_session :: "'r redis_cmds \<Rightarrow> string \<Rightarrow> ('r, thrown, unit) exec" where
  "end_session cmds sessionId = bindE (rd_del cmds (session_key sessionId)) (\<lambda>_. returnE ())"

definition session_exists :: "'r redis_cmds \<Rightarrow> string \<Rightarrow> ('r, thrown, bool) exec" where
  "session_exists cmds sessionId =
     bindE (rd_exists cmds (session_key sessionId)) (\<lambda>found. returnE (found = 1))"

section \<open>Middleware, guard and endpoints\<close>

record active_session =
  as_id :: string
  as_userId :: string

definition session_middleware ::
  "'r redis_cmds \<Rightarrow> int \<Rightarrow> string option \<Rightarrow> ('r, thrown, active_session option) exec" where
  "session_middleware cmds ttlSeconds header =
     (case header of
        None \<Rightarrow> returnE None
      | Some sessionId \<Rightarrow>
          if sessionId = [] then returnE None
          else bindE (touch cmds ttlSeconds sessionId) (\<lambda>record.
            returnE (map_option (\<lambda>r. \<lparr>as_id = sessionId, as_userId = sn_userId r\<rparr>) record)))"

definition session_required :: "string \<Rightarrow> thrown" where
  "session_required originalUrl = mk_problem 401 ''https://marketplace.local/problems/session-required''
     ''Session required'' ''X-Session-Id is missing, unknown or expired'' originalUrl"

definition session_guard :: "string \<Rightarrow> active_session option \<Rightarrow> thrown + active_session" where
  "session_guard originalUrl active =
     (case active of
        None \<Rightarrow> Inl (session_required originalUrl)
      | Some s \<Rightarrow> Inr s)"

definition create_session ::
  "'r redis_cmds \<Rightarrow> int \<Rightarrow> string \<Rightarrow> string \<Rightarrow> ('r, thrown, string \<times> int) exec" where
  "create_session cmds ttlSeconds sessionId userId =
     bindE (start_session cmds ttlSeconds sessionId userId) (\<lambda>sid. returnE (sid, ttlSeconds))"

text \<open>A guarded request: the middleware, the guard, then the handler.\<close>

definition guarded ::
  "'r redis_cmds \<Rightarrow> int \<Rightarrow> string \<Rightarrow> string option \<Rightarrow> (active_session \<Rightarrow> ('r, thrown, 'a) exec) \<Rightarrow> ('r, thrown, 'a) exec" where
  "guarded cmds ttlSeconds originalUrl header handler =
     bindE (session_middleware cmds ttlSeconds header) (\<lambda>active.
       case session_guard originalUrl active of Inl e \<Rightarrow> throwE e | Inr s \<Rightarrow> handler s)"

definition me_handler :: "'r redis_cmds \<Rightarrow> active_session \<Rightarrow> ('r, thrown, string \<times> int) exec" where
  "me_handler cmds session =
     bindE (remainingTtl cmds (as_id session)) (\<lambda>ttl. returnE (as_userId session, ttl))"

definition end_handler :: "'r redis_cmds \<Rightarrow> active_session \<Rightarrow> ('r, thrown, unit) exec" where
  "end_handler cmds session = end_session cmds (as_id session)"

section \<open>The life of a session\<close>

lemma parse_print_session [simp]: "parse_session (print_session r) = Inr r"
proof -
  have "print_session r = (''{'' @ json_quote ''userId'' @ '':'') @ json_quote (sn_userId r) @ ''}''"
    by (simp add: print_session_def)
  then show ?thesis unfolding parse_session_def by (simp only: expect_append option.case read_string_quote) simp
qed

text \<open>Requests with the session, one after each gap of time.\<close>

fun requests ::
  "'r redis_cmds \<Rightarrow> (int \<Rightarrow> 'r \<Rightarrow> 'r) \<Rightarrow> int \<Rightarrow> string \<Rightarrow> int list \<Rightarrow> 'r \<Rightarrow> (thrown + active_session option) list \<times> 'r" where
  "requests cmds pass ttlSeconds sid [] s = ([], s)"
| "requests cmds pass ttlSeconds sid (g # gs) s =
     (case session_middleware cmds ttlSeconds (Some sid) (pass g s) of
        (r, s1) \<Rightarrow> (case requests cmds pass ttlSeconds sid gs s1 of (rs, s2) \<Rightarrow> (r # rs, s2)))"

definition session_live ::
  "('r \<Rightarrow> string \<Rightarrow> (string \<times> int) option) \<Rightarrow> ('r \<Rightarrow> int) \<Rightarrow> int \<Rightarrow> string \<Rightarrow> string \<Rightarrow> 'r \<Rightarrow> bool" where
  "session_live peek clock ttlSeconds sid u s \<longleftrightarrow>
     peek s (session_key sid) = Some (print_session \<lparr>sn_userId = u\<rparr>, clock s + 1000 * ttlSeconds)"

context redis_strings
begin

lemma start_live:
  assumes "0 < ttl" and "start_session cmds ttl sid u s = (r, s')"
  shows "r = Inr sid \<and> session_live peek clock ttl sid u s'"
proof -
  obtain s1 where "rd_set_ex cmds (session_key sid) (print_session \<lparr>sn_userId = u\<rparr>) ttl s = (Inr (), s1)"
    "clock s1 = clock s" "peek s1 = (peek s)(session_key sid \<mapsto> (print_session \<lparr>sn_userId = u\<rparr>, clock s + 1000 * ttl))"
    using set_ex [OF assms(1)] by blast
  then show ?thesis using assms(2) by (auto simp: start_session_def bindE_def session_live_def)
qed

lemma touch_live:
  assumes "0 < ttl" and "session_live peek clock ttl sid u s" and "0 \<le> g" and "g < 1000 * ttl"
    and "touch cmds ttl sid (pass g s) = (r, s')"
  shows "r = Inr (Some \<lparr>sn_userId = u\<rparr>) \<and> session_live peek clock ttl sid u s'"
proof -
  have p: "peek (pass g s) (session_key sid) = Some (print_session \<lparr>sn_userId = u\<rparr>, clock s + 1000 * ttl)"
    using assms(2-4) by (simp add: pass_peek session_live_def)
  obtain s1 where "rd_getex cmds (session_key sid) ttl (pass g s) = (Inr (Some (print_session \<lparr>sn_userId = u\<rparr>)), s1)"
    "clock s1 = clock (pass g s)"
    "peek s1 = (peek (pass g s))(session_key sid \<mapsto> (print_session \<lparr>sn_userId = u\<rparr>, clock (pass g s) + 1000 * ttl))"
    using getex [OF assms(1), of "session_key sid" "pass g s"] p by auto
  then show ?thesis using assms(5) by (auto simp: touch_def bindE_def session_live_def)
qed

lemma touch_dead:
  assumes "0 < ttl" and "peek s (session_key sid) = None"
  shows "\<exists>s'. touch cmds ttl sid s = (Inr None, s')"
  using getex [OF assms(1), of "session_key sid" s] assms(2) by (auto simp: touch_def bindE_def)

lemma middleware_live:
  assumes "0 < ttl" and "sid \<noteq> []" and "session_live peek clock ttl sid u s" and "0 \<le> g" and "g < 1000 * ttl"
    and "session_middleware cmds ttl (Some sid) (pass g s) = (r, s')"
  shows "r = Inr (Some \<lparr>as_id = sid, as_userId = u\<rparr>) \<and> session_live peek clock ttl sid u s'"
proof -
  obtain r1 s1 where "touch cmds ttl sid (pass g s) = (r1, s1)" by fastforce
  then show ?thesis using touch_live [OF assms(1,3,4,5)] assms(2,6)
    by (auto simp: session_middleware_def bindE_def)
qed

lemma requests_live:
  assumes "0 < ttl" and "sid \<noteq> []" and "session_live peek clock ttl sid u s" and "\<forall>g \<in> set gs. 0 \<le> g \<and> g < 1000 * ttl"
    and "requests cmds pass ttl sid gs s = (rs, s')"
  shows "rs = replicate (length gs) (Inr (Some \<lparr>as_id = sid, as_userId = u\<rparr>)) \<and> session_live peek clock ttl sid u s'"
  using assms(3-)
proof (induction gs arbitrary: s rs)
  case (Cons g gs)
  obtain r s1 where m: "session_middleware cmds ttl (Some sid) (pass g s) = (r, s1)" by fastforce
  then obtain rs' where q: "requests cmds pass ttl sid gs s1 = (rs', s')" "rs = r # rs'"
    using Cons.prems(3) by (auto split: prod.splits)
  have "r = Inr (Some \<lparr>as_id = sid, as_userId = u\<rparr>) \<and> session_live peek clock ttl sid u s1"
    using middleware_live [OF assms(1,2) Cons.prems(1) _ _ m] Cons.prems(2) by simp
  then show ?case using Cons.IH [OF _ _ q(1)] Cons.prems q(2) by simp
qed simp

lemma guarded_dead:
  assumes "0 < ttl" and "peek s (session_key sid) = None"
  shows "fst (guarded cmds ttl url (Some sid) h s) = Inl (session_required url)"
proof (cases "sid = []")
  case False
  obtain s' where "touch cmds ttl sid s = (Inr None, s')" using touch_dead [OF assms] by blast
  then show ?thesis using False by (simp add: guarded_def session_middleware_def session_guard_def bindE_def)
qed (simp add: guarded_def session_middleware_def session_guard_def)

lemma expired_dead:
  assumes "session_live peek clock ttl sid u s" and "0 \<le> g" and "1000 * ttl \<le> g"
  shows "peek (pass g s) (session_key sid) = None"
  using assms by (simp add: pass_peek session_live_def)

lemma ended_dead:
  assumes "end_session cmds sid s = (r, s')" and "0 \<le> g"
  shows "r = Inr () \<and> peek (pass g s') (session_key sid) = None"
proof -
  obtain n s1 where d: "rd_del cmds (session_key sid) s = (Inr n, s1)" "peek s1 = (peek s)(session_key sid := None)"
    using del by blast
  then have "r = Inr ()" "s' = s1" using assms(1) by (simp_all add: end_session_def bindE_def)
  then show ?thesis using d(2) assms(2) by (simp add: pass_peek)
qed

end

section \<open>Properties\<close>

text \<open>
  (C28) A session lives exactly as long as it is used: from its start on, every request that comes
  within the time to live of the previous one is served as the user of the session and renews it; a
  request after a longer silence, or at any time after the session was ended, is refused with 401
  before its handler runs. What is stored is read back unchanged, whatever characters the user id has.
\<close>

theorem session_lifecycle:
  assumes "redis_strings cmds peek clock pass" and "0 < ttl" and "sid \<noteq> []"
    and "start_session cmds ttl sid u s = (r0, s0)"
    and "\<forall>g \<in> set gaps. 0 \<le> g \<and> g < 1000 * ttl" and "requests cmds pass ttl sid gaps s0 = (rs, s1)"
  shows "r0 = Inr sid \<and> rs = replicate (length gaps) (Inr (Some \<lparr>as_id = sid, as_userId = u\<rparr>))
    \<and> (1000 * ttl \<le> g \<longrightarrow> fst (guarded cmds ttl url (Some sid) h (pass g s1)) = Inl (session_required url))
    \<and> (0 \<le> g \<longrightarrow> fst (end_session cmds sid s1) = Inr ()
        \<and> fst (guarded cmds ttl url (Some sid) h (pass g (snd (end_session cmds sid s1)))) = Inl (session_required url))"
proof -
  have live0: "r0 = Inr sid \<and> session_live peek clock ttl sid u s0"
    by (rule redis_strings.start_live [OF assms(1,2,4)])
  then have live1: "rs = replicate (length gaps) (Inr (Some \<lparr>as_id = sid, as_userId = u\<rparr>)) \<and> session_live peek clock ttl sid u s1"
    using redis_strings.requests_live [OF assms(1,2,3) _ assms(5,6)] by blast
  have "fst (guarded cmds ttl url (Some sid) h (pass g s1)) = Inl (session_required url)" if "1000 * ttl \<le> g"
    by (rule redis_strings.guarded_dead [OF assms(1,2) redis_strings.expired_dead [OF assms(1) conjunct2 [OF live1]]])
      (use that assms(2) in linarith)+
  moreover have "fst (end_session cmds sid s1) = Inr ()
      \<and> fst (guarded cmds ttl url (Some sid) h (pass g (snd (end_session cmds sid s1)))) = Inl (session_required url)" if "0 \<le> g"
    using redis_strings.guarded_dead [OF assms(1,2)] redis_strings.ended_dead [OF assms(1) prod.collapse [symmetric] that, of sid s1]
    by metis
  ultimately show ?thesis using live0 live1 by blast
qed

theorem session_lifecycle_witness:
  "fst (requests mem_cmds mem_pass SESSION_TTL_SEC ''s1'' [1799999, 1000] (snd (start_session mem_cmds SESSION_TTL_SEC ''s1'' ''buyer-1'' mem_start)))
     = [Inr (Some \<lparr>as_id = ''s1'', as_userId = ''buyer-1''\<rparr>), Inr (Some \<lparr>as_id = ''s1'', as_userId = ''buyer-1''\<rparr>)]"
proof -
  obtain r0 s0 where s0: "start_session mem_cmds SESSION_TTL_SEC ''s1'' ''buyer-1'' mem_start = (r0, s0)" by fastforce
  obtain rs s1 where s1: "requests mem_cmds mem_pass SESSION_TTL_SEC ''s1'' [1799999, 1000] s0 = (rs, s1)" by fastforce
  have "rs = replicate (length [1799999, 1000 :: int]) (Inr (Some \<lparr>as_id = ''s1'', as_userId = ''buyer-1''\<rparr>))"
    using session_lifecycle [OF mem_strings.redis_strings_axioms _ _ s0 _ s1, of 0 "[]" "\<lambda>_. returnE ()"]
    by (simp add: SESSION_TTL_SEC_def)
  then show ?thesis using s0 s1 by simp
qed

end
