(* ===== verification/RedisDemo.thy ===== *)
theory RedisDemo
  imports RateLimit Session
begin

text \<open>
  \<open>src/demo/demo-session.ts\<close> and \<open>src/demo/demo-ratelimit.ts\<close>, which run the session store and the limiter
  against the queue server. The session demo measures the time to live, so that its contract with the server
  extends the one of the sessions by the rounding of \<open>TTL\<close>. Closing the connections is not modelled.
\<close>

section \<open>demo-session\<close>

definition DEMO_SESSION_TTL_SEC :: int where
  "DEMO_SESSION_TTL_SEC = 15"

definition IDLE_MS :: int where
  "IDLE_MS = 2000"

record session_metrics =
  sm_requests :: nat
  sm_sessions :: nat
  sm_in_redis :: nat
  sm_ttl_renewed :: nat

definition pauseE :: "(int \<Rightarrow> 'r \<Rightarrow> 'r) \<Rightarrow> int \<Rightarrow> ('r, thrown, unit) exec" where
  "pauseE pass ms s = (Inr (), pass ms s)"

text \<open>One request of the demo; its state is the number of requests and the ids it has seen.\<close>

definition demo_request ::
  "'r redis_cmds \<Rightarrow> string \<Rightarrow> nat \<times> string list \<Rightarrow> ('r, thrown, nat \<times> string list) exec" where
  "demo_request cmds sid counted =
     bindE (touch cmds DEMO_SESSION_TTL_SEC sid) (\<lambda>record.
       case record of
         None \<Rightarrow> throwE (PlainError ''session missing on request'')
       | Some _ \<Rightarrow> returnE (fst counted + 1, List.insert sid (snd counted)))"

definition session_exit :: "session_metrics \<Rightarrow> nat" where
  "session_exit m =
     (if sm_sessions m = 1 \<and> sm_in_redis m = 1 \<and> sm_ttl_renewed m = 1 \<and> 3 \<le> sm_requests m then 0 else 1)"

text \<open>The time that passes before the \<open>i\<close>-th command after the start of the session is \<open>g i\<close>.\<close>

definition session_body ::
  "'r redis_cmds \<Rightarrow> (int \<Rightarrow> 'r \<Rightarrow> 'r) \<Rightarrow> string \<Rightarrow> (nat \<Rightarrow> int) \<Rightarrow> ('r, thrown, session_metrics \<times> nat) exec" where
  "session_body cmds pass sid g =
     bindE (pauseE pass (g 0)) (\<lambda>_.
     bindE (demo_request cmds sid (0, [])) (\<lambda>c1.
     bindE (pauseE pass (IDLE_MS + g 1)) (\<lambda>_.
     bindE (remainingTtl cmds sid) (\<lambda>ttlBefore.
     bindE (pauseE pass (g 2)) (\<lambda>_.
     bindE (demo_request cmds sid c1) (\<lambda>c2.
     bindE (pauseE pass (g 3)) (\<lambda>_.
     bindE (remainingTtl cmds sid) (\<lambda>ttlAfter.
     bindE (pauseE pass (g 4)) (\<lambda>_.
     bindE (demo_request cmds sid c2) (\<lambda>c3.
     bindE (pauseE pass (g 5)) (\<lambda>_.
     bindE (session_exists cmds sid) (\<lambda>found.
     let metrics = \<lparr>sm_requests = fst c3, sm_sessions = length (snd c3), sm_in_redis = (if found then 1 else 0),
           sm_ttl_renewed = (if ttlBefore < ttlAfter then 1 else 0)\<rparr>
     in returnE (metrics, session_exit metrics)))))))))))))"

text \<open>A start that fails leaves the variable of the id empty, and nothing is removed.\<close>

definition demo_session ::
  "'r redis_cmds \<Rightarrow> (int \<Rightarrow> 'r \<Rightarrow> 'r) \<Rightarrow> string option \<Rightarrow> string \<Rightarrow> (nat \<Rightarrow> int) \<Rightarrow> ('r, thrown, session_metrics \<times> nat) exec" where
  "demo_session cmds pass url uuid g =
     bindE (liftE (requireRedisQueueUrl url)) (\<lambda>_.
     bindE (start_session cmds DEMO_SESSION_TTL_SEC uuid ''buyer-1'') (\<lambda>sid.
     finallyE (session_body cmds pass sid g) (bindE (rd_del cmds (session_key sid)) (\<lambda>_. returnE ()))))"

text \<open>\<open>TTL\<close> answers the remaining time rounded to seconds.\<close>

locale redis_ttl = redis_strings +
  assumes ttl_round: "peek s k = Some (v, d) \<Longrightarrow> rd_ttl cmds k s = (Inr n, s') \<Longrightarrow> d - clock s < 1000 * n + 500"

interpretation mem_ttl: redis_ttl mem_cmds mem_peek mr_clock mem_pass
proof unfold_locales
  fix s k v s' and d n :: int
  assume "mem_peek s k = Some (v, d)" "rd_ttl mem_cmds k s = (Inr n, s')"
  then show "d - mr_clock s < 1000 * n + 500" by (auto simp: mem_cmds_def)
qed

definition session_until ::
  "('r \<Rightarrow> string \<Rightarrow> (string \<times> int) option) \<Rightarrow> ('r \<Rightarrow> int) \<Rightarrow> string \<Rightarrow> int \<Rightarrow> 'r \<Rightarrow> bool" where
  "session_until peek clock sid left s \<longleftrightarrow>
     peek s (session_key sid) = Some (print_session \<lparr>sn_userId = ''buyer-1''\<rparr>, clock s + left)"

context redis_ttl
begin

lemma until_start: "\<exists>s'. start_session cmds DEMO_SESSION_TTL_SEC sid ''buyer-1'' s = (Inr sid, s') \<and> session_until peek clock sid 15000 s'"
  using set_ex [of DEMO_SESSION_TTL_SEC "session_key sid" "print_session \<lparr>sn_userId = ''buyer-1''\<rparr>" s]
  by (auto simp: start_session_def bindE_def session_until_def DEMO_SESSION_TTL_SEC_def)

lemma until_pause:
  assumes "session_until peek clock sid left s" and "0 \<le> g" and "g < left"
  shows "\<exists>s'. pauseE pass g s = (Inr (), s') \<and> session_until peek clock sid (left - g) s'"
  using assms by (simp add: session_until_def pauseE_def pass_peek pass_clock)

lemma until_request:
  assumes "session_until peek clock sid left s"
  shows "\<exists>s'. demo_request cmds sid c s = (Inr (fst c + 1, List.insert sid (snd c)), s') \<and> session_until peek clock sid 15000 s'"
  using getex [of DEMO_SESSION_TTL_SEC "session_key sid" s] assms
  by (auto simp: demo_request_def touch_def bindE_def session_until_def DEMO_SESSION_TTL_SEC_def)

lemma until_ttl:
  assumes "session_until peek clock sid left s"
  shows "\<exists>n. remainingTtl cmds sid s = (Inr n, s) \<and> 1000 * n \<le> left + 500 \<and> left < 1000 * n + 500"
proof -
  obtain n where "rd_ttl cmds (session_key sid) s = (Inr n, s)" "1000 * n \<le> left + 500"
    using ttl_some [of s "session_key sid"] assms by (auto simp: session_until_def)
  then show ?thesis using ttl_round [of s "session_key sid" _ _ n s] assms by (auto simp: remainingTtl_def session_until_def)
qed

lemma until_exists: "session_until peek clock sid left s \<Longrightarrow> session_exists cmds sid s = (Inr True, s)"
  by (simp add: session_exists_def bindE_def exists_law session_until_def)

lemma demo_session_run:
  assumes url: "requireRedisQueueUrl url = Inr u" and g: "\<forall>i. 0 \<le> g i \<and> g i \<le> 1000"
  shows "\<exists>s'. demo_session cmds pass url uuid g s
      = (Inr (\<lparr>sm_requests = 3, sm_sessions = 1, sm_in_redis = 1, sm_ttl_renewed = 1\<rparr>, 0), s') \<and> peek s' (session_key uuid) = None"
proof -
  have bound: "0 \<le> g i" "g i \<le> 1000" for i using g by blast+
  obtain s1 where 1: "start_session cmds DEMO_SESSION_TTL_SEC uuid ''buyer-1'' s = (Inr uuid, s1)" and l1: "session_until peek clock uuid 15000 s1"
    using until_start by blast
  obtain s2 where 2: "pauseE pass (g 0) s1 = (Inr (), s2)" and l2: "session_until peek clock uuid (15000 - g 0) s2"
    using until_pause [OF l1 bound(1) [of 0]] bound(2) [of 0] by auto
  obtain s3 where 3: "demo_request cmds uuid (0, []) s2 = (Inr (1, [uuid]), s3)" and l3: "session_until peek clock uuid 15000 s3"
    using until_request [OF l2, of "(0, [])"] by auto
  obtain s4 where 4: "pauseE pass (IDLE_MS + g 1) s3 = (Inr (), s4)" and l4: "session_until peek clock uuid (13000 - g 1) s4"
    using until_pause [OF l3, of "IDLE_MS + g 1"] bound [of 1] by (auto simp: IDLE_MS_def)
  obtain n where 5: "remainingTtl cmds uuid s4 = (Inr n, s4)" and n: "1000 * n \<le> 13000 - g 1 + 500" using until_ttl [OF l4] by blast
  obtain s5 where 6: "pauseE pass (g 2) s4 = (Inr (), s5)" and l5: "session_until peek clock uuid (13000 - g 1 - g 2) s5"
    using until_pause [OF l4 bound(1) [of 2]] bound(2) [of 1] bound(2) [of 2] by auto
  obtain s6 where 7: "demo_request cmds uuid (1, [uuid]) s5 = (Inr (2, [uuid]), s6)" and l6: "session_until peek clock uuid 15000 s6"
    using until_request [OF l5, of "(1, [uuid])"] by auto
  obtain s7 where 8: "pauseE pass (g 3) s6 = (Inr (), s7)" and l7: "session_until peek clock uuid (15000 - g 3) s7"
    using until_pause [OF l6 bound(1) [of 3]] bound(2) [of 3] by auto
  obtain m where 9: "remainingTtl cmds uuid s7 = (Inr m, s7)" and m: "15000 - g 3 < 1000 * m + 500" using until_ttl [OF l7] by blast
  obtain s8 where 10: "pauseE pass (g 4) s7 = (Inr (), s8)" and l8: "session_until peek clock uuid (15000 - g 3 - g 4) s8"
    using until_pause [OF l7 bound(1) [of 4]] bound(2) [of 3] bound(2) [of 4] by auto
  obtain s9 where 11: "demo_request cmds uuid (2, [uuid]) s8 = (Inr (3, [uuid]), s9)" and l9: "session_until peek clock uuid 15000 s9"
    using until_request [OF l8, of "(2, [uuid])"] by auto
  obtain s10 where 12: "pauseE pass (g 5) s9 = (Inr (), s10)" and l10: "session_until peek clock uuid (15000 - g 5) s10"
    using until_pause [OF l9 bound(1) [of 5]] bound(2) [of 5] by auto
  have renewed: "n < m" using n m bound(1) [of 1] bound(2) [of 3] by linarith
  have body: "session_body cmds pass uuid g s1 = (Inr (\<lparr>sm_requests = 3, sm_sessions = 1, sm_in_redis = 1, sm_ttl_renewed = 1\<rparr>, 0), s10)"
    unfolding session_body_def
    by (rule bindE_step, rule 2, rule bindE_step, rule 3, rule bindE_step, rule 4, rule bindE_step, rule 5, rule bindE_step, rule 6,
        rule bindE_step, rule 7, rule bindE_step, rule 8, rule bindE_step, rule 9, rule bindE_step, rule 10, rule bindE_step, rule 11,
        rule bindE_step, rule 12, rule bindE_step, rule until_exists [OF l10]) (simp add: session_exit_def Let_def renewed)
  obtain k s11 where "rd_del cmds (session_key uuid) s10 = (Inr k, s11)" "peek s11 = (peek s10)(session_key uuid := None)"
    using del by blast
  then show ?thesis by (simp add: demo_session_def url 1 finallyE_def body bindE_def liftE_def)
qed

end

text \<open>
  A session survives as long as it is used, measured on the server: \<open>demo-session\<close> finds one session
  behind its three requests, still stored, whose time to live grew from the idle pause to the next request,
  exits with code 0 and leaves no session behind, when no command takes longer than a second.
\<close>

theorem demo_session_renews:
  assumes "redis_ttl cmds peek clock pass" and "requireRedisQueueUrl url = Inr u" and "\<forall>i. 0 \<le> g i \<and> g i \<le> 1000"
  shows "\<exists>s'. demo_session cmds pass url uuid g s
      = (Inr (\<lparr>sm_requests = 3, sm_sessions = 1, sm_in_redis = 1, sm_ttl_renewed = 1\<rparr>, 0), s') \<and> peek s' (session_key uuid) = None"
  by (rule redis_ttl.demo_session_run [OF assms])

theorem demo_session_renews_witness:
  "\<exists>s'. demo_session mem_cmds mem_pass (Some ''redis://q'') ''s1'' (\<lambda>i. 3) mem_start
      = (Inr (\<lparr>sm_requests = 3, sm_sessions = 1, sm_in_redis = 1, sm_ttl_renewed = 1\<rparr>, 0), s') \<and> mem_peek s' (session_key ''s1'') = None"
  by (rule demo_session_renews [OF mem_ttl.redis_ttl_axioms, where u = "''redis://q''"]) (code_simp, simp)

section \<open>demo-ratelimit\<close>

definition LIMIT :: int where "LIMIT = 5"
definition WINDOW_MS :: int where "WINDOW_MS = 10000"
definition EXTRA :: int where "EXTRA = 3"

record limit_metrics =
  lm_requests :: int
  lm_allowed :: int
  lm_blocked :: int
  lm_status :: int
  lm_retryAfter :: int

definition count_response :: "limit_response \<Rightarrow> limit_metrics \<Rightarrow> limit_metrics" where
  "count_response response m =
     (let m1 = m\<lparr>lm_requests := lm_requests m + 1\<rparr> in
      if lr_allowed response then m1\<lparr>lm_allowed := lm_allowed m + 1\<rparr>
      else m1\<lparr>lm_blocked := lm_blocked m + 1, lm_status := lr_status response,
        lm_retryAfter := (case map_of (lr_headers response) ''Retry-After'' of Some (_ # _) \<Rightarrow> 1 | _ \<Rightarrow> 0)\<rparr>)"

text \<open>
  The loop over the two limiters. Request \<open>i\<close> reads the clock as \<open>t0\<close> and \<open>t\<close> and draws \<open>rand\<close>, the values of
  \<open>req i\<close>; both limiters are clients of one server.
\<close>

fun limit_loop ::
  "'r redis_cmds list \<Rightarrow> string \<Rightarrow> (nat \<Rightarrow> int \<times> int \<times> string) \<Rightarrow> nat list \<Rightarrow> limit_metrics \<Rightarrow> ('r, thrown, limit_metrics) exec" where
  "limit_loop pods bucket req [] m = returnE m"
| "limit_loop pods bucket req (i # is) m =
     (case req i of (t0, t, rand) \<Rightarrow>
        bindE (consume (pods ! (i mod length pods)) t0 t rand bucket \<lparr>rp_limit = LIMIT, rp_windowMs = WINDOW_MS\<rparr>)
          (\<lambda>response. limit_loop pods bucket req is (count_response response m)))"

definition limit_exit :: "nat \<Rightarrow> limit_metrics \<Rightarrow> nat" where
  "limit_exit instances m =
     (if 2 \<le> instances \<and> 0 < LIMIT \<and> lm_allowed m = LIMIT \<and> 1 \<le> lm_blocked m \<and> lm_status m = 429 \<and> lm_retryAfter m = 1
      then 0 else 1)"

definition demo_ratelimit ::
  "'r redis_cmds \<Rightarrow> string option \<Rightarrow> string \<Rightarrow> (nat \<Rightarrow> int \<times> int \<times> string) \<Rightarrow> ('r, thrown, limit_metrics \<times> nat) exec" where
  "demo_ratelimit cmds url uuid req =
     bindE (liftE (requireRedisQueueUrl url)) (\<lambda>_.
     let bucket = ''checkout:'' @ uuid; pods = [cmds, cmds] in
     finallyE
       (bindE (limit_loop pods bucket req [0..<nat (LIMIT + EXTRA)]
          \<lparr>lm_requests = 0, lm_allowed = 0, lm_blocked = 0, lm_status = 0, lm_retryAfter = 0\<rparr>) (\<lambda>m.
        returnE (m, limit_exit (length pods) m)))
       (bindE (rd_del cmds (''rl:'' @ bucket)) (\<lambda>_. returnE ())))"

text \<open>A server that answers, and requests that come in one window, at times that do not go back, with members of their own.\<close>

definition answers :: "'r redis_cmds \<Rightarrow> bool" where
  "answers cmds \<longleftrightarrow> (\<forall>f s. \<not> isl (fst (rd_eval cmds f s))) \<and> (\<forall>k s. \<not> isl (fst (rd_del cmds k s)))"

lemma not_isl_fst: "\<not> isl (fst r) \<Longrightarrow> \<exists>x s'. r = (Inr x, s')"
  by (cases r; cases "fst r") auto

lemma answers_eval: "answers cmds \<Longrightarrow> \<exists>r s'. rd_eval cmds f s = (Inr r, s')"
  and answers_del: "answers cmds \<Longrightarrow> \<exists>n s'. rd_del cmds k s = (Inr n, s')"
  unfolding answers_def using not_isl_fst by blast+

definition req_time :: "(nat \<Rightarrow> int \<times> int \<times> string) \<Rightarrow> nat \<Rightarrow> int" where
  "req_time req i = fst (snd (req i))"

definition req_member :: "(nat \<Rightarrow> int \<times> int \<times> string) \<Rightarrow> nat \<Rightarrow> string" where
  "req_member req i = show_int (fst (req i)) @ ''-'' @ snd (snd (req i))"

definition one_window :: "(nat \<Rightarrow> int \<times> int \<times> string) \<Rightarrow> bool" where
  "one_window req \<longleftrightarrow> mono (req_time req) \<and> (\<forall>i. req_time req i < req_time req 0 + WINDOW_MS) \<and> inj (req_member req)"

text \<open>The counters after \<open>i\<close> requests.\<close>

definition counted :: "nat \<Rightarrow> limit_metrics" where
  "counted i = \<lparr>lm_requests = int i, lm_allowed = int (min i 5), lm_blocked = int (i - 5),
     lm_status = (if 5 < i then 429 else 0), lm_retryAfter = (if 5 < i then 1 else 0)\<rparr>"

lemma counted_allowed: "i < 5 \<Longrightarrow> lr_allowed r \<Longrightarrow> count_response r (counted i) = counted (Suc i)"
  by (simp add: count_response_def counted_def)

lemma counted_blocked:
  assumes "5 \<le> i" and "\<not> lr_allowed r" and "lr_status r = 429" and "lr_headers r = [(''Retry-After'', show_int n)]" and "1 \<le> n"
  shows "count_response r (counted i) = counted (Suc i)"
proof -
  obtain c cs where "show_int n = c # cs" using assms(5) by (cases "show_int n") (auto simp: show_int_def)
  then show ?thesis using assms(1-4) by (simp add: count_response_def counted_def)
qed

lemma mem_fst_add: "mset xs = add_mset a (mset ys) \<Longrightarrow> fst ` set xs = insert (fst a) (fst ` set ys)"
  by (metis image_insert set_mset_add_mset_insert set_mset_mset)

context redis_scripts
begin

lemma consume_members:
  assumes "0 < rp_windowMs p" and "show_int t0 @ ''-'' @ rand \<notin> fst ` set (zset s (''rl:'' @ bucket))"
    and c: "consume cmds t0 t rand bucket p s = (Inr r, s')"
  shows "fst ` set (zset s' (''rl:'' @ bucket)) \<subseteq> insert (show_int t0 @ ''-'' @ rand) (fst ` set (zset s (''rl:'' @ bucket)))"
proof -
  obtain raw where "rd_eval cmds (sliding_window_lua cmds (''rl:'' @ bucket) t (rp_windowMs p) (rp_limit p) (show_int t0 @ ''-'' @ rand)) s = (Inr raw, s')"
    using c unfolding consume_def Let_def by (auto elim!: bindE_InrE split: if_splits)
  from eval_ok [OF this] assms(2,1) show ?thesis
  proof (cases rule: script_cases)
    case accepted
    then show ?thesis using mem_fst_add [OF accepted(3)] by auto
  next
    case (refused n)
    then show ?thesis by auto
  qed
qed

lemma limit_loop_counts:
  assumes "answers cmds" and req: "one_window req" and pods: "set pods = {cmds}"
  shows "i \<le> n \<Longrightarrow> limiter_run cmds zset (''rl:'' @ bucket) \<lparr>rp_limit = LIMIT, rp_windowMs = WINDOW_MS\<rparr> s t acc \<Longrightarrow> length acc = min i 5
    \<Longrightarrow> (\<forall>x \<in> set acc. req_time req 0 \<le> x) \<Longrightarrow> (i = 0 \<longrightarrow> t \<le> req_time req 0) \<Longrightarrow> (0 < i \<longrightarrow> t = req_time req (i - 1))
    \<Longrightarrow> fst ` set (zset s (''rl:'' @ bucket)) \<subseteq> req_member req ` {..<i}
    \<Longrightarrow> \<exists>s'. limit_loop pods bucket req [i..<n] (counted i) s = (Inr (counted n), s')"
proof (induction "n - i" arbitrary: i s t acc)
  case 0
  then show ?case by simp
next
  case (Suc k)
  let ?p = "\<lparr>rp_limit = LIMIT, rp_windowMs = WINDOW_MS\<rparr>" and ?key = "''rl:'' @ bucket"
  obtain t0 now rand where r: "req i = (t0, now, rand)" by (cases "req i") auto
  have now: "now = req_time req i" and m: "show_int t0 @ ''-'' @ rand = req_member req i" using r by (simp_all add: req_time_def req_member_def)
  have le: "req_time req j \<le> now" if "j \<le> i" for j using req that unfolding now one_window_def by (auto dest: monoD)
  have pod: "pods ! (i mod length pods) = cmds" using pods by (metis empty_iff length_0_conv length_greater_0_conv mod_less_divisor nth_mem set_empty singletonD insert_not_empty)
  have fresh: "show_int t0 @ ''-'' @ rand \<notin> fst ` set (zset s ?key)"
    using Suc.prems(7) req unfolding m one_window_def by (auto dest: injD)
  have tle: "t \<le> now" using Suc.prems(5,6) le [of 0] le [of "i - 1"] by (cases i) auto
  obtain resp s1 where c: "consume cmds t0 now rand bucket ?p s = (Inr resp, s1)"
  proof -
    obtain raw s1 where "rd_eval cmds (sliding_window_lua cmds ?key now (rp_windowMs ?p) (rp_limit ?p) (show_int t0 @ ''-'' @ rand)) s = (Inr raw, s1)"
      using answers_eval [OF assms(1)] by blast
    then have "\<exists>resp. consume cmds t0 now rand bucket ?p s = (Inr resp, s1)"
      by (cases "raw ! 0 = 1") (simp_all add: consume_def Let_def bindE_def)
    then show ?thesis using that by blast
  qed
  have "now < req_time req 0 + WINDOW_MS" using req unfolding now one_window_def by blast
  then have rec: "recent WINDOW_MS now acc = acc" using Suc.prems(4) by (auto simp: recent_def intro!: filter_True)
  have dec: "(lr_allowed resp \<longleftrightarrow> i < 5)
      \<and> limiter_run cmds zset ?key ?p s1 now (if lr_allowed resp then acc @ [now] else acc)
      \<and> (\<not> lr_allowed resp \<longrightarrow> lr_status resp = 429 \<and> (\<exists>n. lr_headers resp = [(''Retry-After'', show_int n)] \<and> 1 \<le> n))"
    using consume_decision [OF Suc.prems(2) _ _ tle fresh c] rec Suc.prems(3) by (auto simp: LIMIT_def WINDOW_MS_def)
  let ?acc = "if lr_allowed resp then acc @ [now] else acc"
  have "fst ` set (zset s1 ?key) \<subseteq> req_member req ` {..<Suc i}"
    using subset_trans [OF consume_members [OF _ fresh c] insert_mono [OF Suc.prems(7)]] unfolding m lessThan_Suc image_insert
    by (simp add: WINDOW_MS_def)
  moreover have "k = n - Suc i" "Suc i \<le> n" using Suc.hyps(2) by auto
  moreover have "length ?acc = min (Suc i) 5" "\<forall>x \<in> set ?acc. req_time req 0 \<le> x" using dec Suc.prems(3,4) le [of 0] by auto
  ultimately have "\<exists>s'. limit_loop pods bucket req [Suc i..<n] (counted (Suc i)) s1 = (Inr (counted n), s')"
    using dec by (intro Suc.hyps(1) [where t = now and acc = ?acc]) (auto simp: now)
  moreover have "count_response resp (counted i) = counted (Suc i)"
    using dec counted_allowed [of i resp] counted_blocked [of i resp] by (cases "i < 5") auto
  moreover have "[i..<n] = i # [Suc i..<n]" using Suc.hyps(2) by (simp add: upt_conv_Cons)
  ultimately show ?case by (simp add: r pod bindE_def c)
qed

end

text \<open>
  The limit holds across processes: eight requests that reach two limiters in turn within one window,
  over any server that answers and keeps its contract, are five allowed and three refused ones, the last with
  status 429 and a \<open>Retry-After\<close> header, and \<open>demo-ratelimit\<close> exits with code 0.
\<close>

theorem demo_ratelimit_shared:
  assumes "redis_scripts cmds zset" and "answers cmds" and "one_window req" and "requireRedisQueueUrl url = Inr u"
    and "zset s (''rl:checkout:'' @ uuid) = []"
  shows "\<exists>s'. demo_ratelimit cmds url uuid req s
    = (Inr (\<lparr>lm_requests = 8, lm_allowed = 5, lm_blocked = 3, lm_status = 429, lm_retryAfter = 1\<rparr>, 0), s')"
proof -
  let ?b = "''checkout:'' @ uuid" and ?p = "\<lparr>rp_limit = LIMIT, rp_windowMs = WINDOW_MS\<rparr>"
  have run: "limiter_run cmds zset (''rl:'' @ ?b) ?p s (req_time req 0) []" by (rule limiter_run.start) (use assms(5) in simp)
  have empty: "zset s (''rl:'' @ ?b) = []" using assms(5) by simp
  have "\<exists>s1. limit_loop [cmds, cmds] ?b req [0..<8] (counted 0) s = (Inr (counted 8), s1)"
    by (rule redis_scripts.limit_loop_counts [OF assms(1-3) _ _ run]) (simp_all only: empty, simp_all)
  then obtain s1 where loop: "limit_loop [cmds, cmds] ?b req [0..<8] (counted 0) s = (Inr (counted 8), s1)" by blast
  obtain n s2 where del: "rd_del cmds (''rl:'' @ ?b) s1 = (Inr n, s2)"
    using answers_del [OF assms(2)] by blast
  have ends: "counted 0 = \<lparr>lm_requests = 0, lm_allowed = 0, lm_blocked = 0, lm_status = 0, lm_retryAfter = 0\<rparr>"
    "counted 8 = \<lparr>lm_requests = 8, lm_allowed = 5, lm_blocked = 3, lm_status = 429, lm_retryAfter = 1\<rparr>" by (simp_all add: counted_def)
  have "nat (LIMIT + EXTRA) = 8" by (simp add: LIMIT_def EXTRA_def)
  then show ?thesis using loop del unfolding ends demo_ratelimit_def
    by (simp add: bindE_def liftE_def assms(4) finallyE_def limit_exit_def LIMIT_def Let_def del: upt_Suc)
qed

definition test_req :: "nat \<Rightarrow> int \<times> int \<times> string" where
  "test_req i = (int i, int (min i 7), ''f'')"

lemma test_window: "one_window test_req"
proof -
  have "inj (req_member test_req)"
  proof (rule injI)
    fix i j :: nat assume "req_member test_req i = req_member test_req j"
    then have "show_int (int i) = show_int (int j)" by (simp add: req_member_def test_req_def)
    then show "i = j" by (simp add: show_int_def)
  qed
  then show ?thesis by (auto simp: one_window_def req_time_def test_req_def WINDOW_MS_def monoI)
qed

lemma mem_answers: "answers mem_cmds"
  by (simp add: answers_def mem_cmds_def split: prod.splits)

theorem demo_ratelimit_shared_witness:
  "\<exists>s'. demo_ratelimit mem_cmds (Some ''redis://q'') ''u'' test_req mem_start
    = (Inr (\<lparr>lm_requests = 8, lm_allowed = 5, lm_blocked = 3, lm_status = 429, lm_retryAfter = 1\<rparr>, 0), s')"
  by (rule demo_ratelimit_shared [OF mem_scripts.redis_scripts_axioms mem_answers test_window, where u = "''redis://q''"])
    (code_simp, simp add: mem_zset_def mem_start_def)

end
