(* ===== verification/RetryDemo.thy ===== *)
theory RetryDemo
  imports JsErrors
begin

text \<open>
  \<open>src/demo/demo-retry.ts\<close>: transactions at the isolation level repeatable read that read one row, meet at a
  barrier and write the row back, each under \<open>withRetry\<close>. The parties are interleaved statement by statement.
  The database works as documented for that level: a transaction reads the row as of its first statement; an
  update waits for the open transaction that has updated the row and fails with SQLSTATE 40001 if the row was
  changed by a transaction that committed after the snapshot. \<open>rt_version\<close> counts the committed changes.
\<close>

section \<open>The parties\<close>

datatype retry_party =
    Ready nat
  | Selected nat int nat
  | AtBarrier nat int nat
  | Released nat int nat
  | Updated nat int
  | Committed nat
  | Rejected thrown

record retry_sys =
  rt_value :: int
  rt_version :: nat
  rt_lock :: "string option"
  rt_arrived :: nat
  rt_firstPassDone :: bool
  rt_party :: "string \<Rightarrow> retry_party"
  rt_log :: "string list"

definition set_party :: "string \<Rightarrow> retry_party \<Rightarrow> retry_sys \<Rightarrow> retry_sys" where
  "set_party p x q = q\<lparr>rt_party := (rt_party q)(p := x)\<rparr>"

text \<open>\<open>waitFirstPass\<close>: a party that finds the first pass over goes on, every other one is counted and waits.\<close>

definition waitFirstPass :: "nat \<Rightarrow> retry_sys \<Rightarrow> bool \<times> retry_sys" where
  "waitFirstPass parties q =
     (if rt_firstPassDone q then (True, q)
      else let q1 = q\<lparr>rt_arrived := rt_arrived q + 1\<rparr>
           in (False, if parties \<le> rt_arrived q1 then q1\<lparr>rt_firstPassDone := True\<rparr> else q1))"

text \<open>A failed attempt of \<open>withRetry\<close> with its default of five attempts.\<close>

definition MAX_ATTEMPTS :: nat where
  "MAX_ATTEMPTS = 5"

definition retry_line :: "nat \<Rightarrow> string \<Rightarrow> string" where
  "retry_line attempt code = ''retry attempt='' @ show_nat attempt @ '' code='' @ code
     @ '' backoffMs='' @ show_nat (10 * 2 ^ (attempt - 1))"

definition attempt_failed :: "thrown \<Rightarrow> nat \<Rightarrow> string \<Rightarrow> retry_sys \<Rightarrow> retry_sys" where
  "attempt_failed err attempt p q =
     (if is_retryable err \<and> attempt < MAX_ATTEMPTS
      then set_party p (Ready (Suc attempt)) (q\<lparr>rt_log := rt_log q @ [retry_line attempt (the (pg_code err))]\<rparr>)
      else set_party p (Rejected err) q)"

definition serialization_failure :: thrown where
  "serialization_failure = PgError ''40001'' ''could not serialize access due to concurrent update''"

inductive retry_step :: "string list \<Rightarrow> retry_sys \<Rightarrow> retry_sys \<Rightarrow> bool"
  for ps
where
  select: "p \<in> set ps \<Longrightarrow> rt_party q p = Ready n
    \<Longrightarrow> retry_step ps q (set_party p (Selected n (rt_value q) (rt_version q)) q)"
| arrive: "p \<in> set ps \<Longrightarrow> rt_party q p = Selected n c v \<Longrightarrow> waitFirstPass (length ps) q = (go, q1)
    \<Longrightarrow> retry_step ps q (set_party p (if go then Released n c v else AtBarrier n c v) q1)"
| release: "p \<in> set ps \<Longrightarrow> rt_party q p = AtBarrier n c v \<Longrightarrow> rt_firstPassDone q
    \<Longrightarrow> retry_step ps q (set_party p (Released n c v) q)"
| update: "p \<in> set ps \<Longrightarrow> rt_party q p = Released n c v \<Longrightarrow> rt_lock q = None \<Longrightarrow> rt_version q = v
    \<Longrightarrow> retry_step ps q (set_party p (Updated n (c + 1)) (q\<lparr>rt_lock := Some p\<rparr>))"
| conflict: "p \<in> set ps \<Longrightarrow> rt_party q p = Released n c v \<Longrightarrow> rt_lock q = None \<Longrightarrow> rt_version q \<noteq> v
    \<Longrightarrow> retry_step ps q (attempt_failed serialization_failure n p q)"
| commit: "p \<in> set ps \<Longrightarrow> rt_party q p = Updated n c
    \<Longrightarrow> retry_step ps q (set_party p (Committed n)
          (q\<lparr>rt_value := c, rt_version := rt_version q + 1, rt_lock := None\<rparr>))"

text \<open>The same with failures: a running attempt may fail at any time before its commit; its transaction is rolled back.\<close>

fun running_attempt :: "retry_party \<Rightarrow> nat option" where
  "running_attempt (Ready n) = Some n"
| "running_attempt (Selected n c v) = Some n"
| "running_attempt (AtBarrier n c v) = Some n"
| "running_attempt (Released n c v) = Some n"
| "running_attempt (Updated n c) = Some n"
| "running_attempt (Committed n) = None"
| "running_attempt (Rejected e) = None"

definition rolled_back :: "string \<Rightarrow> retry_sys \<Rightarrow> retry_sys" where
  "rolled_back p q = q\<lparr>rt_lock := (if rt_lock q = Some p then None else rt_lock q)\<rparr>"

inductive faulty_step :: "string list \<Rightarrow> retry_sys \<Rightarrow> retry_sys \<Rightarrow> bool"
  for ps
where
  regular: "retry_step ps q q' \<Longrightarrow> faulty_step ps q q'"
| fault: "p \<in> set ps \<Longrightarrow> running_attempt (rt_party q p) = Some n
    \<Longrightarrow> faulty_step ps q (attempt_failed err n p (rolled_back p q))"

section \<open>The program\<close>

definition retry_start :: retry_sys where
  "retry_start = \<lparr>rt_value = 0, rt_version = 0, rt_lock = None, rt_arrived = 0, rt_firstPassDone = False,
     rt_party = (\<lambda>_. Ready 1), rt_log = []\<rparr>"

text \<open>The replaced \<open>console.log\<close>: it counts the lines of \<open>withRetry\<close> and keeps the code of the last one.\<close>

definition is_word_char :: "char \<Rightarrow> bool" where
  "is_word_char c \<longleftrightarrow> is_digit c \<or> c = CHR ''_'' \<or> (CHR ''a'' \<le> c \<and> c \<le> CHR ''z'') \<or> (CHR ''A'' \<le> c \<and> c \<le> CHR ''Z'')"

fun match_code :: "string \<Rightarrow> string option" where
  "match_code [] = None"
| "match_code (c # cs) =
     (if is_prefix ''code='' (c # cs) \<and> takeWhile is_word_char (drop 5 (c # cs)) \<noteq> []
      then Some (takeWhile is_word_char (drop 5 (c # cs))) else match_code cs)"

definition note_line :: "string \<Rightarrow> nat \<times> string option \<Rightarrow> nat \<times> string option" where
  "note_line line seen =
     (if contains_str ''retry attempt='' line
      then (fst seen + 1, case match_code line of Some code \<Rightarrow> Some code | None \<Rightarrow> snd seen)
      else seen)"

definition demo_retry_exit :: "retry_sys \<Rightarrow> nat" where
  "demo_retry_exit q =
     (case fold note_line (rt_log q) (0, None) of
        (retryCount, caughtCode) \<Rightarrow>
          if \<not> (caughtCode = Some ''40001'' \<or> caughtCode = Some ''40P01'') \<or> retryCount < 1 \<or> rt_value q \<noteq> 2 then 1 else 0)"


section \<open>Sums over the parties\<close>

definition over :: "string list \<Rightarrow> (retry_party \<Rightarrow> nat) \<Rightarrow> retry_sys \<Rightarrow> nat" where
  "over ps w q = sum_list (map (\<lambda>p. w (rt_party q p)) ps)"

lemma set_party_simps [simp]:
  "rt_value (set_party p x q) = rt_value q" "rt_version (set_party p x q) = rt_version q" "rt_lock (set_party p x q) = rt_lock q"
  "rt_arrived (set_party p x q) = rt_arrived q" "rt_firstPassDone (set_party p x q) = rt_firstPassDone q"
  "rt_log (set_party p x q) = rt_log q" "rt_party (set_party p x q) = (rt_party q)(p := x)"
  by (simp_all add: set_party_def)

lemma over_set:
  assumes "distinct ps" and "p \<in> set ps" and "rt_party q1 = rt_party q"
  shows "over ps w (set_party p x q1) + w (rt_party q p) = over ps w q + w x"
  using assms(1,2) unfolding over_def set_party_simps assms(3)
proof (induction ps)
  case (Cons a ps)
  show ?case
  proof (cases "a = p")
    case True
    then have "map (\<lambda>b. w (((rt_party q)(p := x)) b)) ps = map (\<lambda>b. w (rt_party q b)) ps" using Cons.prems(1) by auto
    then have "sum_list (map (\<lambda>b. w (((rt_party q)(p := x)) b)) ps) = sum_list (map (\<lambda>b. w (rt_party q b)) ps)" by (rule arg_cong)
    then show ?thesis using True by (simp del: fun_upd_apply add: fun_upd_same)
  qed (use Cons in auto)
qed simp

lemma over_all: "(\<And>p. p \<in> set ps \<Longrightarrow> w (rt_party q p) = k) \<Longrightarrow> over ps w q = length ps * k"
  unfolding over_def by (induction ps) auto

lemma over_mono: "(\<And>p. p \<in> set ps \<Longrightarrow> w (rt_party q p) \<le> w' (rt_party q p)) \<Longrightarrow> over ps w q \<le> over ps w' q"
  unfolding over_def by (rule sum_list_mono)

lemma over_add: "over ps (\<lambda>x. w x + w' x) q = over ps w q + over ps w' q"
  unfolding over_def by (simp add: sum_list_addf)

fun is_committed :: "retry_party \<Rightarrow> nat" where
  "is_committed (Committed n) = 1"
| "is_committed _ = 0"

fun is_waiting :: "retry_party \<Rightarrow> nat" where
  "is_waiting (AtBarrier n c v) = 1"
| "is_waiting _ = 0"

fun is_first :: "retry_party \<Rightarrow> nat" where
  "is_first (Committed n) = (if n = 1 then 1 else 0)"
| "is_first _ = 0"

fun retries :: "retry_party \<Rightarrow> nat" where
  "retries (Ready n) = n - 1"
| "retries (Selected n c v) = n - 1"
| "retries (AtBarrier n c v) = n - 1"
| "retries (Released n c v) = n - 1"
| "retries (Updated n c) = n - 1"
| "retries (Committed n) = n - 1"
| "retries (Rejected e) = 0"

fun rank :: "retry_party \<Rightarrow> nat" where
  "rank (Ready n) = (6 - n) * 6 + 5"
| "rank (Selected n c v) = (6 - n) * 6 + 4"
| "rank (AtBarrier n c v) = (6 - n) * 6 + 3"
| "rank (Released n c v) = (6 - n) * 6 + 2"
| "rank (Updated n c) = (6 - n) * 6 + 1"
| "rank (Committed n) = 0"
| "rank (Rejected e) = 0"

lemma serialization_retryable [simp]: "is_retryable serialization_failure" "pg_code serialization_failure = Some ''40001''"
  by (simp_all add: serialization_failure_def is_retryable_iff)

lemma waitFirstPass_party: "waitFirstPass k q = (go, q1) \<Longrightarrow> rt_party q1 = rt_party q \<and> rt_value q1 = rt_value q
    \<and> rt_version q1 = rt_version q \<and> rt_lock q1 = rt_lock q \<and> rt_log q1 = rt_log q \<and> go = rt_firstPassDone q"
  by (auto simp: waitFirstPass_def Let_def split: if_splits)

text \<open>Every step moves one party down in rank.\<close>

lemma retry_step_rank:
  assumes "retry_step ps q q'" and "distinct ps"
  shows "over ps rank q' < over ps rank q"
  using assms(1)
proof cases
  case (select p n)
  then show ?thesis using over_set [OF assms(2) select(2) refl, of rank "Selected n (rt_value q) (rt_version q)" q] by simp
next
  case (arrive p n c v go q1)
  then show ?thesis using over_set [OF assms(2) arrive(2), of q1 q rank "if go then Released n c v else AtBarrier n c v"]
      waitFirstPass_party [OF arrive(4)] by (auto split: if_splits)
next
  case (release p n c v)
  then show ?thesis using over_set [OF assms(2) release(2) refl, of rank "Released n c v" q] by simp
next
  case (update p n c v)
  then show ?thesis using over_set [OF assms(2) update(2), of "q\<lparr>rt_lock := Some p\<rparr>" q rank "Updated n (c + 1)"] by simp
next
  case (conflict p n c v)
  let ?q = "q\<lparr>rt_log := rt_log q @ [retry_line n ''40001'']\<rparr>"
  show ?thesis using conflict over_set [OF assms(2) conflict(2), of ?q q rank "Ready (Suc n)"]
      over_set [OF assms(2) conflict(2), of q q rank "Rejected serialization_failure"]
    by (auto simp: attempt_failed_def MAX_ATTEMPTS_def split: if_splits)
next
  case (commit p n c)
  then show ?thesis
    using over_set [OF assms(2) commit(2), of "q\<lparr>rt_value := c, rt_version := rt_version q + 1, rt_lock := None\<rparr>" q rank "Committed n"] by simp
qed

section \<open>No update is lost\<close>

fun snapshot_ok :: "nat \<Rightarrow> retry_party \<Rightarrow> bool" where
  "snapshot_ok k (Selected n c v) \<longleftrightarrow> c = int v \<and> v \<le> k"
| "snapshot_ok k (AtBarrier n c v) \<longleftrightarrow> c = int v \<and> v \<le> k"
| "snapshot_ok k (Released n c v) \<longleftrightarrow> c = int v \<and> v \<le> k"
| "snapshot_ok k (Updated n c) \<longleftrightarrow> c = int k + 1"
| "snapshot_ok k _ \<longleftrightarrow> True"

fun is_updated :: "retry_party \<Rightarrow> bool" where
  "is_updated (Updated n c) = True"
| "is_updated _ = False"

definition probe_ok :: "string list \<Rightarrow> retry_sys \<Rightarrow> bool" where
  "probe_ok ps q \<longleftrightarrow> rt_value q = int (rt_version q) \<and> rt_version q = over ps is_committed q
     \<and> (\<forall>p. snapshot_ok (rt_version q) (rt_party q p)) \<and> (\<forall>p. is_updated (rt_party q p) \<longleftrightarrow> rt_lock q = Some p)"

lemma snapshot_ok_later: "snapshot_ok k x \<Longrightarrow> \<not> is_updated x \<Longrightarrow> snapshot_ok (Suc k) x"
  by (cases x) auto

lemma probe_ok_set:
  assumes "probe_ok ps q" and "distinct ps" and "p \<in> set ps" and "rt_party q1 = rt_party q" and "rt_value q1 = rt_value q"
    and "rt_version q1 = rt_version q" and "snapshot_ok (rt_version q) x" and "is_committed x = 0" and "is_committed (rt_party q p) = 0"
    and "rt_lock q1 = (if is_updated x then Some p else if is_updated (rt_party q p) then None else rt_lock q)"
    and "is_updated x \<Longrightarrow> rt_lock q = None \<or> rt_lock q = Some p"
  shows "probe_ok ps (set_party p x q1)"
  using over_set [OF assms(2,3,4), of is_committed x] assms unfolding probe_ok_def by (auto split: if_splits)

lemma attempt_failed_ok:
  assumes "probe_ok ps q" and "distinct ps" and "p \<in> set ps" and "running_attempt (rt_party q p) = Some n"
  shows "probe_ok ps (attempt_failed err n p (rolled_back p q))"
proof -
  have c: "is_committed (rt_party q p) = 0" using assms(4) by (cases "rt_party q p") auto
  have l: "rt_lock (rolled_back p q) = (if is_updated (rt_party q p) then None else rt_lock q)"
    using assms(1) by (auto simp: rolled_back_def probe_ok_def)
  show ?thesis using assms(1-3) c l unfolding attempt_failed_def
    by (auto intro!: probe_ok_set [where q = q] simp: rolled_back_def)
qed

lemma rolled_back_idle: "rt_lock q = None \<Longrightarrow> rolled_back p q = q"
  by (simp add: rolled_back_def)

lemma probe_ok_step:
  assumes "faulty_step ps q q'" and ok: "probe_ok ps q" and dist: "distinct ps"
  shows "probe_ok ps q'"
  using assms(1)
proof cases
  case regular
  then show ?thesis
  proof cases
    case (select p n)
    have "rt_value q = int (rt_version q)" using ok by (simp add: probe_ok_def)
    then show ?thesis using select by (auto intro!: probe_ok_set [OF ok dist])
  next
    case (arrive p n c v go q1)
    have "snapshot_ok (rt_version q) (rt_party q p)" using ok unfolding probe_ok_def by blast
    then show ?thesis using arrive waitFirstPass_party [OF arrive(4)] by (auto intro!: probe_ok_set [OF ok dist])
  next
    case (release p n c v)
    have "snapshot_ok (rt_version q) (rt_party q p)" using ok unfolding probe_ok_def by blast
    then show ?thesis using release by (auto intro!: probe_ok_set [OF ok dist])
  next
    case (update p n c v)
    have "snapshot_ok (rt_version q) (rt_party q p)" using ok unfolding probe_ok_def by blast
    then show ?thesis using update by (auto intro!: probe_ok_set [OF ok dist])
  next
    case (conflict p n c v)
    then show ?thesis using attempt_failed_ok [OF ok dist conflict(2), of n serialization_failure] by (simp add: rolled_back_idle)
  next
    case (commit p n c)
    let ?q1 = "q\<lparr>rt_value := c, rt_version := rt_version q + 1, rt_lock := None\<rparr>"
    have snap: "snapshot_ok (rt_version q) (rt_party q r)" and held: "is_updated (rt_party q r) \<longleftrightarrow> rt_lock q = Some r" for r
      using ok unfolding probe_ok_def by blast+
    have c: "c = int (rt_version q) + 1" using snap [of p] commit(3) by simp
    have l: "\<not> is_updated (rt_party q r)" if "r \<noteq> p" for r using held [of p] held [of r] commit(3) that by simp
    have "snapshot_ok (Suc (rt_version q)) (rt_party q r)" if "r \<noteq> p" for r
      using snapshot_ok_later [OF snap l [OF that]] .
    then show ?thesis using over_set [OF dist commit(2), of ?q1 q is_committed "Committed n"] commit c l ok by (auto simp: probe_ok_def)
  qed
next
  case (fault p n err)
  then show ?thesis using attempt_failed_ok [OF ok dist] by simp
qed

lemma probe_ok_start: "probe_ok ps retry_start"
  by (auto simp: probe_ok_def retry_start_def over_def)

lemma probe_ok_reachable: "(faulty_step ps)\<^sup>*\<^sup>* retry_start q \<Longrightarrow> distinct ps \<Longrightarrow> probe_ok ps q"
  by (induction rule: rtranclp_induct) (auto intro: probe_ok_step probe_ok_start)

section \<open>The parties settle\<close>

lemma over_le: "(\<And>x. w x \<le> 1) \<Longrightarrow> over ps w q \<le> length ps"
  unfolding over_def by (induction ps) (auto simp: add_le_mono [of 1 1, simplified] intro: add_le_mono [of _ 1, simplified])

lemma over_full:
  assumes one: "\<And>x. w x \<le> 1"
  shows "length ps \<le> over ps w q \<Longrightarrow> p \<in> set ps \<Longrightarrow> w (rt_party q p) = 1"
proof (induction ps)
  case (Cons a ps)
  have "w (rt_party q a) \<le> 1" "over ps w q \<le> length ps" using one over_le [of w, OF one] by blast+
  moreover have "Suc (length ps) \<le> w (rt_party q a) + over ps w q" using Cons.prems(1) by (simp add: over_def)
  ultimately show ?case using Cons by (auto simp: over_def)
qed simp

lemma flags_le: "is_committed x \<le> 1" "is_waiting x \<le> 1" "is_first x \<le> 1"
  by (cases x; simp)+

lemma over_lt:
  assumes "\<And>x. w x \<le> 1" and "p \<in> set ps" and "w (rt_party q p) = 0"
  shows "over ps w q < length ps"
  using over_full [of w ps q p, OF assms(1) _ assms(2)] assms(3) by (metis not_le zero_neq_one)

fun attempt_ok :: "bool \<Rightarrow> nat \<Rightarrow> retry_party \<Rightarrow> bool" where
  "attempt_ok fp k (Ready n) \<longleftrightarrow> 1 \<le> n \<and> n \<le> k + 1 \<and> (n = 1 \<longleftrightarrow> \<not> fp)"
| "attempt_ok fp k (Selected n c v) \<longleftrightarrow> 1 \<le> n \<and> n \<le> v + 1 \<and> (n = 1 \<longleftrightarrow> \<not> fp)"
| "attempt_ok fp k (AtBarrier n c v) \<longleftrightarrow> n = 1 \<and> v = 0"
| "attempt_ok fp k (Released n c v) \<longleftrightarrow> fp \<and> 1 \<le> n \<and> n \<le> v + 1 \<and> (n = 1 \<longrightarrow> v = 0)"
| "attempt_ok fp k (Updated n c) \<longleftrightarrow> fp \<and> 1 \<le> n \<and> n \<le> k + 1 \<and> (n = 1 \<longrightarrow> k = 0)"
| "attempt_ok fp k (Committed n) \<longleftrightarrow> fp \<and> 1 \<le> n \<and> n \<le> k"
| "attempt_ok fp k (Rejected e) \<longleftrightarrow> False"

definition settle_ok :: "string list \<Rightarrow> retry_sys \<Rightarrow> bool" where
  "settle_ok ps q \<longleftrightarrow> (\<forall>p \<in> set ps. attempt_ok (rt_firstPassDone q) (rt_version q) (rt_party q p))
     \<and> (\<not> rt_firstPassDone q \<longrightarrow> rt_version q = 0 \<and> rt_arrived q = over ps is_waiting q \<and> rt_arrived q < length ps)
     \<and> length (rt_log q) = over ps retries q \<and> (\<forall>l \<in> set (rt_log q). \<exists>n. l = retry_line n ''40001'')
     \<and> over ps is_first q = min 1 (rt_version q) \<and> (\<forall>p. rt_lock q = Some p \<longrightarrow> p \<in> set ps)"

lemma settle_ok_start: "ps \<noteq> [] \<Longrightarrow> settle_ok ps retry_start"
  by (auto simp: settle_ok_def retry_start_def over_def)

lemma settle_ok_set:
  assumes ok: "settle_ok ps q" and "distinct ps" and p: "p \<in> set ps" and "rt_party q1 = rt_party q"
    and "rt_version q1 = rt_version q" and "rt_firstPassDone q1 = rt_firstPassDone q" and "rt_arrived q1 = rt_arrived q"
    and x: "attempt_ok (rt_firstPassDone q) (rt_version q) x" "\<not> rt_firstPassDone q \<Longrightarrow> is_waiting x = is_waiting (rt_party q p)"
    and "length (rt_log q1) + retries (rt_party q p) = length (rt_log q) + retries x" "\<forall>l \<in> set (rt_log q1). \<exists>n. l = retry_line n ''40001''"
    and "is_first x = is_first (rt_party q p)" and "rt_lock q1 = rt_lock q \<or> rt_lock q1 = Some p"
  shows "settle_ok ps (set_party p x q1)"
proof -
  note sums = over_set [OF assms(2) p assms(4)]
  have "length (rt_log q1) = over ps retries (set_party p x q1)" using sums [of retries x] ok assms(10) by (simp add: settle_ok_def)
  moreover have "over ps is_first (set_party p x q1) = over ps is_first q" using sums [of is_first x] assms(12) by simp
  moreover have "\<not> rt_firstPassDone q \<Longrightarrow> over ps is_waiting (set_party p x q1) = over ps is_waiting q"
    using sums [of is_waiting x] x(2) by simp
  ultimately show ?thesis using ok assms(3-8,11,13) unfolding settle_ok_def by auto
qed

lemma attempt_ok_later: "attempt_ok fp k x \<Longrightarrow> fp \<Longrightarrow> \<not> is_updated x \<Longrightarrow> attempt_ok fp (Suc k) x"
  by (cases x) auto

lemma settle_ok_arrive:
  assumes ok: "settle_ok ps q" "probe_ok ps q" and dist: "distinct ps" and p: "p \<in> set ps" "rt_party q p = Selected n c v"
    and open_barrier: "\<not> rt_firstPassDone q" and w: "waitFirstPass (length ps) q = (go, q1)"
  shows "settle_ok ps (set_party p (AtBarrier n c v) q1)"
proof -
  let ?q = "set_party p (AtBarrier n c v) q1"
  have q1: "rt_party q1 = rt_party q" "rt_version q1 = rt_version q" "rt_lock q1 = rt_lock q" "rt_log q1 = rt_log q"
      "rt_arrived q1 = rt_arrived q + 1" "rt_firstPassDone q1 \<longleftrightarrow> length ps \<le> rt_arrived q + 1"
    using w open_barrier by (auto simp: waitFirstPass_def Let_def split: if_splits)
  note sums = over_set [OF dist p(1) q1(1), where x = "AtBarrier n c v"]
  have self: "attempt_ok False 0 (rt_party q p)" "snapshot_ok 0 (rt_party q p)" and v0: "rt_version q = 0"
    using ok p(1) open_barrier unfolding settle_ok_def probe_ok_def by (metis (full_types))+
  have wait: "over ps is_waiting ?q = rt_arrived q + 1" using sums [of is_waiting] ok(1) p(2) open_barrier by (simp add: settle_ok_def)
  have "attempt_ok (rt_firstPassDone q1) 0 (rt_party ?q r)" if "r \<in> set ps" for r
  proof (cases "rt_firstPassDone q1")
    case True
    then have "is_waiting (rt_party ?q r) = 1" using over_full [of is_waiting ps ?q r, OF flags_le(2)] wait q1(6) that by simp
    moreover have "attempt_ok False 0 (rt_party q r)" using ok(1) that open_barrier v0 unfolding settle_ok_def by metis
    ultimately show ?thesis using self p(2) q1(1) by (cases "rt_party q r") (auto split: if_splits)
  next
    case False
    have "attempt_ok False 0 (rt_party q r)" using ok(1) that open_barrier v0 unfolding settle_ok_def by metis
    then show ?thesis using False self p(2) q1(1) by auto
  qed
  then show ?thesis using ok(1) q1 v0 wait sums [of retries] sums [of is_first] p(2) unfolding settle_ok_def by auto
qed

lemma settle_ok_commit:
  assumes ok: "settle_ok ps q" "probe_ok ps q" and dist: "distinct ps" and p: "p \<in> set ps" "rt_party q p = Updated n c"
  shows "settle_ok ps (set_party p (Committed n) (q\<lparr>rt_value := c, rt_version := rt_version q + 1, rt_lock := None\<rparr>))"
proof -
  let ?q1 = "q\<lparr>rt_value := c, rt_version := rt_version q + 1, rt_lock := None\<rparr>"
  note sums = over_set [OF dist p(1), of ?q1 q _ "Committed n", simplified]
  have self: "attempt_ok (rt_firstPassDone q) (rt_version q) (rt_party q p)" using ok(1) p(1) unfolding settle_ok_def by blast
  have held: "is_updated (rt_party q r) \<longleftrightarrow> rt_lock q = Some r" for r using ok(2) unfolding probe_ok_def by blast
  have l: "\<not> is_updated (rt_party q r)" if "r \<noteq> p" for r using held [of p] held [of r] p(2) that by simp
  have "attempt_ok True (Suc (rt_version q)) (rt_party q r)" if "r \<in> set ps" "r \<noteq> p" for r
    using attempt_ok_later [OF _ _ l [OF that(2)], of "rt_firstPassDone q" "rt_version q"] ok(1) that(1) self p(2) by (auto simp: settle_ok_def)
  moreover have "over ps is_first (set_party p (Committed n) ?q1) = 1"
    using sums [of is_first] ok(1) self p(2) by (cases "n = 1") (auto simp: settle_ok_def)
  ultimately show ?thesis using ok(1) self p(2) sums [of retries] unfolding settle_ok_def by auto
qed

lemma settle_ok_step:
  assumes "retry_step ps q q'" and ok: "settle_ok ps q" "probe_ok ps q" and dist: "distinct ps" and few: "length ps \<le> MAX_ATTEMPTS"
  shows "settle_ok ps q'"
proof -
  have at: "attempt_ok (rt_firstPassDone q) (rt_version q) (rt_party q p)" if "p \<in> set ps" for p
    using ok(1) that unfolding settle_ok_def by blast
  have snap: "snapshot_ok (rt_version q) (rt_party q p)" for p using ok(2) unfolding probe_ok_def by blast
  have lines: "\<forall>l \<in> set (rt_log q). \<exists>n. l = retry_line n ''40001''" using ok(1) by (simp add: settle_ok_def)
  show ?thesis using assms(1)
  proof cases
    case (select p n)
    then show ?thesis using at [OF select(2)] lines by (auto intro!: settle_ok_set [OF ok(1) dist])
  next
    case (arrive p n c v go q1)
    have go: "go = rt_firstPassDone q" "go \<Longrightarrow> q1 = q" using arrive(4) by (auto simp: waitFirstPass_def Let_def split: if_splits)
    show ?thesis
    proof (cases go)
      case True
      then show ?thesis using arrive at [OF arrive(2)] lines go by (auto intro!: settle_ok_set [OF ok(1) dist])
    next
      case False
      then show ?thesis using arrive settle_ok_arrive [OF ok dist arrive(2,3) _ arrive(4)] go by simp
    qed
  next
    case (release p n c v)
    then show ?thesis using at [OF release(2)] lines by (auto intro!: settle_ok_set [OF ok(1) dist])
  next
    case (update p n c v)
    then show ?thesis using at [OF update(2)] lines by (auto intro!: settle_ok_set [OF ok(1) dist])
  next
    case (conflict p n c v)
    have "over ps is_committed q < length ps" using over_lt [OF flags_le(1) conflict(2)] conflict(3) by simp
    then have "rt_version q < MAX_ATTEMPTS" using ok(2) few by (simp add: probe_ok_def)
    moreover have "n \<le> v + 1" "v < rt_version q" "1 \<le> n" "rt_firstPassDone q" using at [OF conflict(2)] snap [of p] conflict(3,5) by auto
    ultimately show ?thesis using conflict(1-3) lines
      by (auto simp: attempt_failed_def intro!: settle_ok_set [OF ok(1) dist])
  next
    case (commit p n c)
    then show ?thesis using settle_ok_commit [OF ok dist] by simp
  qed
qed

lemma settle_reachable:
  assumes "(retry_step ps ^^ k) retry_start q" and "distinct ps" and "ps \<noteq> []" and "length ps \<le> MAX_ATTEMPTS"
  shows "settle_ok ps q \<and> probe_ok ps q \<and> k + over ps rank q \<le> 35 * length ps"
  using assms(1)
proof (induction k arbitrary: q)
  case 0
  then show ?case using settle_ok_start [OF assms(3)] probe_ok_start over_all [of ps rank retry_start 35] by (auto simp: retry_start_def)
next
  case (Suc k)
  then obtain r where r: "(retry_step ps ^^ k) retry_start r" "retry_step ps r q" by auto
  note ih = Suc.IH [OF r(1)]
  show ?case using settle_ok_step [OF r(2) _ _ assms(2,4)] probe_ok_step [OF faulty_step.regular [OF r(2)] _ assms(2)]
      retry_step_rank [OF r(2) assms(2)] ih by simp
qed

text \<open>A party that has not committed can be served, or another one can.\<close>

lemma settle_progress:
  assumes ok: "settle_ok ps q" "probe_ok ps q" and p: "p \<in> set ps" "is_committed (rt_party q p) = 0"
  shows "\<exists>q'. retry_step ps q q'"
proof -
  have at: "attempt_ok (rt_firstPassDone q) (rt_version q) (rt_party q r)" if "r \<in> set ps" for r
    using ok(1) that unfolding settle_ok_def by blast
  have early: "\<exists>q'. retry_step ps q q'" if "r \<in> set ps" "rt_party q r = Ready n \<or> rt_party q r = Selected n c v" for r n c v
    using that retry_step.select [OF that(1)] retry_step.arrive [OF that(1) _ prod.collapse [symmetric]] by blast
  show ?thesis
  proof (cases "rt_party q p")
    case (AtBarrier n c v)
    show ?thesis
    proof (cases "rt_firstPassDone q")
      case False
      then have "over ps is_waiting q < length ps" using ok(1) by (auto simp: settle_ok_def)
      then obtain r where r: "r \<in> set ps" "is_waiting (rt_party q r) = 0"
        using over_all [of ps is_waiting q 1] flags_le(2) by (metis less_irrefl less_one linorder_not_le mult.right_neutral order_le_less)
      then show ?thesis using at [OF r(1)] early [OF r(1)] False by (cases "rt_party q r") auto
    qed (use retry_step.release [OF p(1) AtBarrier] in blast)
  next
    case (Released n c v)
    show ?thesis
    proof (cases "rt_lock q")
      case None
      then show ?thesis using retry_step.update [OF p(1) Released] retry_step.conflict [OF p(1) Released] by blast
    next
      case (Some r)
      then have "r \<in> set ps" "is_updated (rt_party q r)" using ok unfolding settle_ok_def probe_ok_def by blast+
      then show ?thesis using retry_step.commit [of r ps q] by (cases "rt_party q r") auto
    qed
  next
    case (Updated n c)
    then show ?thesis using retry_step.commit [OF p(1)] by blast
  qed (use p at [OF p(1)] early [OF p(1)] in auto)
qed

lemma is_committed_iff: "is_committed x = 1 \<longleftrightarrow> (\<exists>n. x = Committed n)"
  by (cases x) auto

lemma settled:
  assumes ok: "settle_ok ps q" "probe_ok ps q" and stuck: "\<nexists>q'. retry_step ps q q'"
  shows "\<forall>p \<in> set ps. \<exists>n. rt_party q p = Committed n" "rt_value q = int (length ps)"
    "length ps - 1 \<le> length (rt_log q)" "2 \<le> length ps \<Longrightarrow> length (rt_log q) < length ps * (length ps - 1)"
proof -
  have one: "is_committed (rt_party q p) = 1" if "p \<in> set ps" for p
    using settle_progress [OF ok that] stuck flags_le(1) [of "rt_party q p"] by (cases "is_committed (rt_party q p)") auto
  then show all: "\<forall>p \<in> set ps. \<exists>n. rt_party q p = Committed n" using is_committed_iff by blast
  have v: "rt_version q = length ps" using over_all [of ps is_committed q 1] one ok(2) by (simp add: probe_ok_def)
  then show "rt_value q = int (length ps)" using ok(2) by (simp add: probe_ok_def)
  have at: "attempt_ok (rt_firstPassDone q) (rt_version q) (rt_party q p)" if "p \<in> set ps" for p
    using ok(1) that unfolding settle_ok_def by blast
  have "over ps is_committed q \<le> over ps (\<lambda>x. is_first x + retries x) q"
  proof (rule over_mono)
    fix p assume "p \<in> set ps"
    then show "is_committed (rt_party q p) \<le> is_first (rt_party q p) + retries (rt_party q p)"
      using all at [of p] by (cases "rt_party q p") auto
  qed
  then show "length ps - 1 \<le> length (rt_log q)" using ok v unfolding over_add settle_ok_def probe_ok_def by auto
  assume two: "2 \<le> length ps"
  have "over ps (\<lambda>x. is_first x + retries x) q \<le> over ps (\<lambda>_. length ps - 1) q"
  proof (rule over_mono)
    fix p assume "p \<in> set ps"
    then show "is_first (rt_party q p) + retries (rt_party q p) \<le> length ps - 1" using all at [of p] v two by (cases "rt_party q p") auto
  qed
  also have "\<dots> = length ps * (length ps - 1)" by (rule over_all) simp
  finally show "length (rt_log q) < length ps * (length ps - 1)" using ok(1) v two by (simp add: settle_ok_def over_add)
qed

section \<open>The intercepted log\<close>

lemma match_code_skip: "CHR ''c'' \<notin> set xs \<Longrightarrow> match_code (xs @ ys) = match_code ys"
  by (induction xs) auto

lemma is_prefix_append [simp]: "is_prefix xs (xs @ ys)"
  by (induction xs) auto

lemma digits_no_c: "CHR ''c'' \<notin> set (show_nat n)"
  using show_nat_digits [of n] by (auto simp: list_all_iff is_digit_def)

lemma match_retry_line [simp]: "match_code (retry_line n ''40001'') = Some ''40001''"
proof -
  have "match_code (retry_line n ''40001'') = match_code (''code=40001 backoffMs='' @ show_nat (10 * 2 ^ (n - 1)))"
    using match_code_skip [of "''retry attempt='' @ show_nat n @ '' ''"] digits_no_c [of n] by (simp add: retry_line_def)
  then show ?thesis by (simp add: is_word_char_def is_digit_def)
qed

lemma contains_retry_line [simp]: "contains_str ''retry attempt='' (retry_line n code)"
  by (simp add: retry_line_def)

lemma note_lines:
  "\<forall>l \<in> set ls. \<exists>n. l = retry_line n ''40001'' \<Longrightarrow>
   fold note_line ls (k, c) = (k + length ls, if ls = [] then c else Some ''40001'')"
  by (induction ls arbitrary: k c) (auto simp: note_line_def)

section \<open>Scheduled runs\<close>

text \<open>The next statement of a party, if it is not blocked, and the run of a schedule.\<close>

definition party_turn :: "string list \<Rightarrow> string \<Rightarrow> retry_sys \<Rightarrow> retry_sys option" where
  "party_turn ps p q =
     (case rt_party q p of
        Ready n \<Rightarrow> Some (set_party p (Selected n (rt_value q) (rt_version q)) q)
      | Selected n c v \<Rightarrow> (case waitFirstPass (length ps) q of
            (go, q1) \<Rightarrow> Some (set_party p (if go then Released n c v else AtBarrier n c v) q1))
      | AtBarrier n c v \<Rightarrow> if rt_firstPassDone q then Some (set_party p (Released n c v) q) else None
      | Released n c v \<Rightarrow>
          if rt_lock q \<noteq> None then None
          else if rt_version q = v then Some (set_party p (Updated n (c + 1)) (q\<lparr>rt_lock := Some p\<rparr>))
          else Some (attempt_failed serialization_failure n p q)
      | Updated n c \<Rightarrow> Some (set_party p (Committed n) (q\<lparr>rt_value := c, rt_version := rt_version q + 1, rt_lock := None\<rparr>))
      | _ \<Rightarrow> None)"

fun run_parties :: "string list \<Rightarrow> string list \<Rightarrow> retry_sys \<Rightarrow> retry_sys option" where
  "run_parties ps [] q = Some q"
| "run_parties ps (p # rs) q = (case party_turn ps p q of None \<Rightarrow> None | Some q1 \<Rightarrow> run_parties ps rs q1)"

lemma party_turn_step: "party_turn ps p q = Some q' \<Longrightarrow> p \<in> set ps \<Longrightarrow> retry_step ps q q'"
  using retry_step.arrive [where go = True] retry_step.arrive [where go = False] retry_step.commit
  by (auto simp: party_turn_def intro: retry_step.intros split: retry_party.splits prod.splits if_splits)

lemma run_parties_steps:
  "run_parties ps rs q = Some q' \<Longrightarrow> set rs \<subseteq> set ps \<Longrightarrow> (retry_step ps ^^ length rs) q q'"
proof (induction rs arbitrary: q)
  case (Cons p rs)
  then obtain q1 where "party_turn ps p q = Some q1" "run_parties ps rs q1 = Some q'" by (auto split: option.splits)
  then show ?case using Cons party_turn_step [of ps p q q1] relpowp_Suc_I2 [of "retry_step ps" q q1 "length rs" q'] by simp
qed simp

lemma committed_stuck: "\<forall>p \<in> set ps. \<exists>n. rt_party q p = Committed n \<Longrightarrow> \<not> retry_step ps q q'"
  by (auto elim!: retry_step.cases)

definition two_parties :: "string list" where
  "two_parties = [''a'', ''b'']"

definition two_schedule :: "string list" where
  "two_schedule = [''a'', ''b'', ''a'', ''b'', ''a'', ''b'', ''a'', ''a'', ''b'', ''b'', ''b'', ''b'', ''b'']"

lemma two_run:
  obtains q where "(retry_step two_parties ^^ 13) retry_start q" "rt_party q ''a'' = Committed 1" "rt_party q ''b'' = Committed 2"
proof -
  have "map_option (\<lambda>q. (rt_party q ''a'', rt_party q ''b'')) (run_parties two_parties two_schedule retry_start)
      = Some (Committed 1, Committed 2)" by code_simp
  then obtain q where q: "run_parties two_parties two_schedule retry_start = Some q" "rt_party q ''a'' = Committed 1" "rt_party q ''b'' = Committed 2"
    by auto
  have "set two_schedule \<subseteq> set two_parties" "length two_schedule = 13" by (simp_all add: two_schedule_def two_parties_def)
  then have "(retry_step two_parties ^^ 13) retry_start q" using run_parties_steps [OF q(1)] by metis
  then show ?thesis using that q(2,3) by blast
qed

section \<open>Properties\<close>

text \<open>
  (C32) Retried transactions lose no update: in every interleaving of any number of parties, with failures
  of any kind at any time before a commit, the value of the row is the number of parties that committed, and
  at most one party has an update of it in flight.
\<close>

theorem retry_no_lost_update:
  assumes "distinct ps" and "(faulty_step ps)\<^sup>*\<^sup>* retry_start q"
  shows "rt_value q = int (length (filter (\<lambda>p. \<exists>n. rt_party q p = Committed n) ps))
    \<and> (\<forall>p r. is_updated (rt_party q p) \<and> is_updated (rt_party q r) \<longrightarrow> p = r)"
proof -
  have ok: "probe_ok ps q" by (rule probe_ok_reachable [OF assms(2,1)])
  have "is_committed x = (if \<exists>n. x = Committed n then 1 else 0)" for x by (cases x) auto
  then have "over ps is_committed q = length (filter (\<lambda>p. \<exists>n. rt_party q p = Committed n) ps)"
    unfolding over_def by (induction ps) auto
  then show ?thesis using ok by (auto simp: probe_ok_def)
qed

text \<open>
  (C31) The demo of the retries succeeds: every run of up to five parties is finite; when it can go no
  further every party has committed, the value is the number of parties, and there was at least one retry
  for every party but one. With the two parties of the program there was exactly one retry, its line is read
  back with the code 40001, and the exit code is 0.
\<close>

theorem demo_retry_settles:
  assumes "distinct ps" and "ps \<noteq> []" and "length ps \<le> MAX_ATTEMPTS" and "(retry_step ps ^^ k) retry_start q"
  shows "k \<le> 35 * length ps
    \<and> ((\<nexists>q'. retry_step ps q q') \<longrightarrow> (\<forall>p \<in> set ps. \<exists>n. rt_party q p = Committed n)
        \<and> rt_value q = int (length ps) \<and> length ps - 1 \<le> length (rt_log q)
        \<and> (length ps = 2 \<longrightarrow> length (rt_log q) = 1 \<and> demo_retry_exit q = 0))"
proof -
  have ok: "settle_ok ps q" "probe_ok ps q" "k \<le> 35 * length ps" using settle_reachable [OF assms(4,1-3)] by auto
  have "fold note_line (rt_log q) (0, None) = (length (rt_log q), if rt_log q = [] then None else Some ''40001'')"
    using note_lines [of "rt_log q" 0 None] ok(1) by (simp add: settle_ok_def)
  then show ?thesis using ok(3) settled [OF ok(1,2)] by (fastforce simp: demo_retry_exit_def)
qed

theorem retry_no_lost_update_witness:
  "\<exists>q. (faulty_step two_parties)\<^sup>*\<^sup>* retry_start q
    \<and> rt_value q = int (length (filter (\<lambda>p. \<exists>n. rt_party q p = Committed n) two_parties))"
proof -
  obtain q where "(retry_step two_parties ^^ 13) retry_start q" by (rule two_run)
  then have "(retry_step two_parties)\<^sup>*\<^sup>* retry_start q" by (rule relpowp_imp_rtranclp)
  then have r: "(faulty_step two_parties)\<^sup>*\<^sup>* retry_start q"
    by (rule rtranclp_mono [THEN predicate2D, rotated]) (auto intro: faulty_step.regular)
  have "distinct two_parties" by (simp add: two_parties_def)
  from retry_no_lost_update [OF this r] r show ?thesis by blast
qed

theorem demo_retry_settles_witness:
  "\<exists>q. (retry_step two_parties ^^ 13) retry_start q \<and> rt_value q = 2 \<and> length (rt_log q) = 1 \<and> demo_retry_exit q = 0"
proof -
  obtain q where q: "(retry_step two_parties ^^ 13) retry_start q" "rt_party q ''a'' = Committed 1" "rt_party q ''b'' = Committed 2"
    by (rule two_run)
  have "\<forall>p \<in> set two_parties. \<exists>n. rt_party q p = Committed n" using q(2,3) by (simp add: two_parties_def)
  then have "\<nexists>q'. retry_step two_parties q q'" using committed_stuck [of two_parties q] by blast
  moreover have "distinct two_parties" "two_parties \<noteq> []" "length two_parties \<le> MAX_ATTEMPTS" "length two_parties = 2"
    by (simp_all add: two_parties_def MAX_ATTEMPTS_def)
  ultimately have "rt_value q = 2" "length (rt_log q) = 1" "demo_retry_exit q = 0"
    using demo_retry_settles [OF _ _ _ q(1)] by (metis of_nat_numeral)+
  then show ?thesis using q(1) by blast
qed

end
