(* ===== verification/JobQueue.thy ===== *)
theory JobQueue
  imports CheckoutOutcomes
begin

text \<open>
  \<open>src/jobs/job-queue.service.ts\<close>: jobs claimed with \<open>FOR UPDATE SKIP LOCKED\<close>. The rows that other open
  transactions have locked when a claim runs are an argument of the claim. The loop of a worker has
  fuel; a worker that runs out of it has not returned. Several workers on one table are a step
  relation over the same claims and completions.
\<close>

section \<open>Claiming and completing\<close>

record claimed_job =
  cj_id :: string
  cj_kind :: string
  cj_payload :: json

fun pg_bigints :: "string list \<Rightarrow> thrown + int list" where
  "pg_bigints [] = Inr []"
| "pg_bigints (s # ss) =
     (case pg_bigint s of
        Inl e \<Rightarrow> Inl e
      | Inr i \<Rightarrow> (case pg_bigints ss of Inl e \<Rightarrow> Inl e | Inr is \<Rightarrow> Inr (i # is)))"

definition claimable :: "int list \<Rightarrow> int list \<Rightarrow> job_row \<Rightarrow> bool" where
  "claimable taken ids j \<longleftrightarrow> j_status j = ''pending'' \<and> j_id j \<in> set ids \<and> j_id j \<notin> set taken"

definition first_claimable :: "int list \<Rightarrow> int list \<Rightarrow> job_row list \<Rightarrow> job_row option" where
  "first_claimable taken ids js =
     (case sort_key j_id (filter (claimable taken ids) js) of [] \<Rightarrow> None | j # _ \<Rightarrow> Some j)"

definition sql_claim :: "int list \<Rightarrow> string list \<Rightarrow> db \<Rightarrow> (thrown + job_row option) \<times> db" where
  "sql_claim taken jobIds d =
     (case pg_bigints jobIds of
        Inl e \<Rightarrow> (Inl e, d)
      | Inr ids \<Rightarrow> (Inr (first_claimable taken ids (jobs d)), d))"

definition claimJob :: "int list \<Rightarrow> string list \<Rightarrow> (world, thrown, claimed_job option) exec" where
  "claimJob taken jobIds =
     (if jobIds = [] then returnE None
      else bindE (sqlE (sql_claim taken jobIds)) (\<lambda>row.
        returnE (map_option (\<lambda>j. \<lparr>cj_id = show_int (j_id j), cj_kind = j_kind j, cj_payload = j_payload j\<rparr>) row)))"

definition mark_done :: "int \<Rightarrow> string \<Rightarrow> job_row list \<Rightarrow> job_row list" where
  "mark_done i workerId js = map (\<lambda>j. if j_id j = i
     then j\<lparr>j_status := ''done'', j_processed_count := j_processed_count j + 1, j_worker_id := Some workerId\<rparr> else j) js"

definition sql_complete :: "string \<Rightarrow> string \<Rightarrow> db \<Rightarrow> (thrown + unit) \<times> db" where
  "sql_complete jobId workerId d =
     (case pg_bigint jobId of
        Inl e \<Rightarrow> (Inl e, d)
      | Inr i \<Rightarrow> (Inr (), d\<lparr>jobs := mark_done i workerId (jobs d)\<rparr>))"

definition completeJob :: "string \<Rightarrow> string \<Rightarrow> (world, thrown, unit) exec" where
  "completeJob jobId workerId = sqlE (sql_complete jobId workerId)"

definition sql_pending_count :: "string list \<Rightarrow> db \<Rightarrow> (thrown + nat) \<times> db" where
  "sql_pending_count jobIds d =
     (case pg_bigints jobIds of
        Inl e \<Rightarrow> (Inl e, d)
      | Inr ids \<Rightarrow> (Inr (length (filter (\<lambda>j. j_status j = ''pending'' \<and> j_id j \<in> set ids) (jobs d))), d))"

definition work_once :: "int list \<Rightarrow> string list \<Rightarrow> string \<Rightarrow> (world, thrown, string option) exec" where
  "work_once taken jobIds workerId =
     transaction (bindE (claimJob taken jobIds) (\<lambda>job.
       case job of
         None \<Rightarrow> returnE None
       | Some j \<Rightarrow> bindE (completeJob (cj_id j) workerId) (\<lambda>_. returnE (Some (cj_id j)))))"

text \<open>
  The loop. \<open>locks n\<close> are the rows locked by others in the \<open>n\<close>-th round; the outer \<open>None\<close> is a loop that
  has not returned within the fuel.
\<close>

fun runWorker ::
  "nat \<Rightarrow> (nat \<Rightarrow> int list) \<Rightarrow> string list \<Rightarrow> string \<Rightarrow> string list \<Rightarrow> world \<Rightarrow> ((thrown + string list) \<times> world) option" where
  "runWorker 0 locks jobIds workerId processed w = None"
| "runWorker (Suc fuel) locks jobIds workerId processed w =
     (case work_once (locks 0) jobIds workerId w of
        (Inl e, w1) \<Rightarrow> Some (Inl e, w1)
      | (Inr (Some j), w1) \<Rightarrow> runWorker fuel (\<lambda>n. locks (Suc n)) jobIds workerId (processed @ [j]) w1
      | (Inr None, w1) \<Rightarrow>
          (case query (sql_pending_count jobIds) w1 of
             (Inl e, w2) \<Rightarrow> Some (Inl e, w2)
           | (Inr n, w2) \<Rightarrow> if n = 0 then Some (Inr processed, w2)
               else runWorker fuel (\<lambda>n. locks (Suc n)) jobIds workerId processed w2))"

section \<open>Several workers\<close>

datatype phase = Claiming | Working int | Checking | Finished | Failed

record queue_sys =
  qs_jobs :: "job_row list"
  qs_phase :: "string \<Rightarrow> phase"
  qs_log :: "(string \<times> int) list"

text \<open>The rows locked by the open transactions of the other workers.\<close>

definition held :: "string list \<Rightarrow> (string \<Rightarrow> phase) \<Rightarrow> string \<Rightarrow> int list" where
  "held ws ph w = concat (map (\<lambda>v. if v = w then [] else case ph v of Working i \<Rightarrow> [i] | _ \<Rightarrow> []) ws)"

text \<open>
  One step of a worker of \<open>ws\<close> on the job ids \<open>ids\<close>: a claim, the commit of a completed job, a crash or
  an abort while working, and the check for pending jobs. The log records the completions.
\<close>

inductive worker_step :: "string list \<Rightarrow> int list \<Rightarrow> queue_sys \<Rightarrow> queue_sys \<Rightarrow> bool"
  for ws ids
where
  claim: "w \<in> set ws \<Longrightarrow> qs_phase q w = Claiming \<Longrightarrow> first_claimable (held ws (qs_phase q) w) ids (qs_jobs q) = Some j
    \<Longrightarrow> worker_step ws ids q (q\<lparr>qs_phase := (qs_phase q)(w := Working (j_id j))\<rparr>)"
| busy: "w \<in> set ws \<Longrightarrow> qs_phase q w = Claiming \<Longrightarrow> first_claimable (held ws (qs_phase q) w) ids (qs_jobs q) = None
    \<Longrightarrow> worker_step ws ids q (q\<lparr>qs_phase := (qs_phase q)(w := Checking)\<rparr>)"
| complete: "w \<in> set ws \<Longrightarrow> qs_phase q w = Working i
    \<Longrightarrow> worker_step ws ids q (q\<lparr>qs_jobs := mark_done i w (qs_jobs q), qs_phase := (qs_phase q)(w := Claiming),
          qs_log := qs_log q @ [(w, i)]\<rparr>)"
| abort: "w \<in> set ws \<Longrightarrow> qs_phase q w \<noteq> Finished \<Longrightarrow> worker_step ws ids q (q\<lparr>qs_phase := (qs_phase q)(w := Failed)\<rparr>)"
| again: "w \<in> set ws \<Longrightarrow> qs_phase q w = Checking \<Longrightarrow> \<exists>j \<in> set (qs_jobs q). j_status j = ''pending'' \<and> j_id j \<in> set ids
    \<Longrightarrow> worker_step ws ids q (q\<lparr>qs_phase := (qs_phase q)(w := Claiming)\<rparr>)"
| finish: "w \<in> set ws \<Longrightarrow> qs_phase q w = Checking \<Longrightarrow> \<forall>j \<in> set (qs_jobs q). j_id j \<in> set ids \<longrightarrow> j_status j \<noteq> ''pending''
    \<Longrightarrow> worker_step ws ids q (q\<lparr>qs_phase := (qs_phase q)(w := Finished)\<rparr>)"

inductive_cases worker_stepE: "worker_step ws ids q q'"

definition queue_start :: "queue_sys \<Rightarrow> bool" where
  "queue_start q \<longleftrightarrow> distinct (map j_id (qs_jobs q)) \<and> qs_log q = [] \<and> (\<forall>w. qs_phase q w = Claiming)
     \<and> (\<forall>j \<in> set (qs_jobs q). j_status j = ''pending'' \<and> j_processed_count j = 0 \<and> j_worker_id j = None)"

text \<open>A job is untouched or done once, by the worker the log names.\<close>

definition job_ok :: "(string \<times> int) list \<Rightarrow> job_row \<Rightarrow> bool" where
  "job_ok lg j \<longleftrightarrow>
     (case filter (\<lambda>e. snd e = j_id j) lg of
        [] \<Rightarrow> j_status j = ''pending'' \<and> j_processed_count j = 0
      | [e] \<Rightarrow> j_status j = ''done'' \<and> j_processed_count j = 1 \<and> j_worker_id j = Some (fst e)
      | _ \<Rightarrow> False)"

definition working_ok :: "queue_sys \<Rightarrow> bool" where
  "working_ok q \<longleftrightarrow>
     (\<forall>w i. qs_phase q w = Working i \<longrightarrow> (\<exists>j \<in> set (qs_jobs q). j_id j = i \<and> j_status j = ''pending''))
     \<and> (\<forall>v w i. qs_phase q v = Working i \<and> qs_phase q w = Working i \<longrightarrow> v = w)"

definition queue_ok :: "string list \<Rightarrow> int list \<Rightarrow> queue_sys \<Rightarrow> bool" where
  "queue_ok ws ids q \<longleftrightarrow> distinct (map j_id (qs_jobs q)) \<and> (\<forall>j \<in> set (qs_jobs q). job_ok (qs_log q) j)
     \<and> working_ok q \<and> (\<forall>w. w \<notin> set ws \<longrightarrow> qs_phase q w = Claiming)
     \<and> (\<forall>w. qs_phase q w = Finished \<longrightarrow> (\<forall>j \<in> set (qs_jobs q). j_id j \<in> set ids \<longrightarrow> j_status j \<noteq> ''pending''))"

lemma first_claimable_Some:
  assumes "first_claimable taken ids js = Some j"
  shows "j \<in> set js \<and> claimable taken ids j"
proof -
  obtain xs where "sort_key j_id (filter (claimable taken ids) js) = j # xs"
    using assms by (auto simp: first_claimable_def split: list.splits)
  then have "j \<in> set (sort_key j_id (filter (claimable taken ids) js))" by simp
  then show ?thesis by simp
qed

lemma held_iff: "v \<in> set ws \<Longrightarrow> v \<noteq> w \<Longrightarrow> ph v = Working i \<Longrightarrow> i \<in> set (held ws ph w)"
  by (force simp: held_def)

lemma map_j_id_mark_done [simp]: "map j_id (mark_done i w js) = map j_id js"
  by (simp add: mark_done_def)

lemma mark_done_mem:
  "j' \<in> set (mark_done i w js) \<longleftrightarrow> (\<exists>j \<in> set js. j' = (if j_id j = i
     then j\<lparr>j_status := ''done'', j_processed_count := j_processed_count j + 1, j_worker_id := Some w\<rparr> else j))"
  by (simp only: mark_done_def set_map image_iff)

lemma job_ok_other: "j_id j \<noteq> i \<Longrightarrow> job_ok (lg @ [(w, i)]) j = job_ok lg j"
  by (simp add: job_ok_def)

lemma job_ok_done:
  assumes "job_ok lg j" and "j_status j = ''pending''"
  shows "job_ok (lg @ [(w, j_id j)])
    (j\<lparr>j_status := ''done'', j_processed_count := j_processed_count j + 1, j_worker_id := Some w\<rparr>)"
proof -
  have "filter (\<lambda>e. snd e = j_id j) lg = []"
    using assms by (auto simp: job_ok_def split: list.splits)
  then show ?thesis using assms(1) by (simp add: job_ok_def)
qed

lemma working_ok_release: "working_ok q \<Longrightarrow> (\<And>i. p \<noteq> Working i) \<Longrightarrow> working_ok (q\<lparr>qs_phase := (qs_phase q)(w := p)\<rparr>)"
  unfolding working_ok_def by (auto split: if_splits)

lemma queue_ok_step:
  assumes "worker_step ws ids q q'" and ok: "queue_ok ws ids q"
  shows "queue_ok ws ids q'"
  using assms(1)
proof cases
  case (claim w j)
  have j: "j \<in> set (qs_jobs q)" "j_status j = ''pending''" "j_id j \<notin> set (held ws (qs_phase q) w)"
    using first_claimable_Some [OF claim(4)] by (auto simp: claimable_def)
  have "qs_phase q v \<noteq> Working (j_id j)" if "v \<noteq> w" for v
    using held_iff [of v ws w "qs_phase q" "j_id j"] j(3) ok that by (cases "v \<in> set ws") (auto simp: queue_ok_def)
  then have "working_ok q'" using ok j claim(1) unfolding queue_ok_def working_ok_def by (auto split: if_splits)
  then show ?thesis using ok claim(1,2) by (auto simp: queue_ok_def)
next
  case (complete w i)
  obtain j where j: "j \<in> set (qs_jobs q)" "j_id j = i" "j_status j = ''pending''"
    using ok complete(3) unfolding queue_ok_def working_ok_def by blast
  have uniq: "x = j" if "x \<in> set (qs_jobs q)" "j_id x = i" for x
    using ok that j by (auto simp: queue_ok_def distinct_map dest: inj_onD)
  have "\<forall>x \<in> set (qs_jobs q'). job_ok (qs_log q') x"
  proof
    fix x assume "x \<in> set (qs_jobs q')"
    then obtain y where y: "y \<in> set (qs_jobs q)" "x = (if j_id y = i
        then y\<lparr>j_status := ''done'', j_processed_count := j_processed_count y + 1, j_worker_id := Some w\<rparr> else y)"
      using complete(1) by (auto simp: mark_done_mem)
    have "job_ok (qs_log q) y" using ok y(1) by (simp add: queue_ok_def)
    then show "job_ok (qs_log q') x"
      using y uniq [OF y(1)] j job_ok_done [of "qs_log q" y w] complete(1) by (cases "j_id y = i") (auto simp: job_ok_other)
  qed
  moreover have "working_ok q'"
  proof -
    have "\<exists>x \<in> set (qs_jobs q'). j_id x = k \<and> j_status x = ''pending''" if "qs_phase q' v = Working k" for v k
    proof -
      have v: "v \<noteq> w" "qs_phase q v = Working k" using that complete(1) by (auto split: if_splits)
      then have "k \<noteq> i" using ok complete(3) unfolding queue_ok_def working_ok_def by blast
      moreover obtain x where x: "x \<in> set (qs_jobs q)" "j_id x = k" "j_status x = ''pending''"
        using ok v(2) unfolding queue_ok_def working_ok_def by blast
      ultimately have "x \<in> set (mark_done i w (qs_jobs q))" unfolding mark_done_mem by (intro bexI [of _ x]) auto
      then show ?thesis using x complete(1) by auto
    qed
    moreover have "v = u" if "qs_phase q' v = Working k" "qs_phase q' u = Working k" for u v k
      using that ok complete(1) unfolding queue_ok_def working_ok_def by (auto split: if_splits)
    ultimately show ?thesis unfolding working_ok_def by blast
  qed
  ultimately show ?thesis using ok complete(1,2) by (auto simp: queue_ok_def mark_done_mem split: if_splits)
next
  case (busy w)
  then show ?thesis using ok working_ok_release [of q Checking w] by (auto simp: queue_ok_def)
next
  case (abort w)
  then show ?thesis using ok working_ok_release [of q Failed w] by (auto simp: queue_ok_def)
next
  case (again w)
  then show ?thesis using ok working_ok_release [of q Claiming w] by (auto simp: queue_ok_def)
next
  case (finish w)
  then show ?thesis using ok working_ok_release [of q Finished w] by (auto simp: queue_ok_def)
qed

lemma queue_ok_start: "queue_start q \<Longrightarrow> queue_ok ws ids q"
  by (auto simp: queue_start_def queue_ok_def working_ok_def job_ok_def)

lemma queue_ok_reachable: "(worker_step ws ids)\<^sup>*\<^sup>* q0 q \<Longrightarrow> queue_start q0 \<Longrightarrow> queue_ok ws ids q"
  by (induction rule: rtranclp_induct) (auto intro: queue_ok_step queue_ok_start)

section \<open>A worker alone\<close>

lemma pg_bigints_show: "\<forall>i \<in> set ids. - int8_max - 1 \<le> i \<and> i \<le> int8_max \<Longrightarrow> pg_bigints (map show_int ids) = Inr ids"
  by (induction ids) (auto simp: pg_bigint_def)

definition pending_jobs :: "int list \<Rightarrow> job_row list \<Rightarrow> job_row list" where
  "pending_jobs ids js = filter (\<lambda>j. j_status j = ''pending'' \<and> j_id j \<in> set ids) js"

lemma first_claimable_free:
  "first_claimable [] ids js = (case sort_key j_id (pending_jobs ids js) of [] \<Rightarrow> None | j # _ \<Rightarrow> Some j)"
  by (simp add: first_claimable_def pending_jobs_def claimable_def [abs_def] del: sort_key_simps)

lemma pending_mark_done: "pending_jobs ids (mark_done i w js) = filter (\<lambda>j. j_id j \<noteq> i) (pending_jobs ids js)"
  by (induction js) (auto simp: pending_jobs_def mark_done_def)

lemma sorted_pending_step:
  assumes "distinct (map j_id js)" and "sort_key j_id (pending_jobs ids js) = j # rest"
  shows "sort_key j_id (pending_jobs ids (mark_done (j_id j) w js)) = rest"
proof -
  have "distinct (map j_id (pending_jobs ids js))" using assms(1) by (simp add: pending_jobs_def distinct_map_filter)
  then have "distinct (map j_id (sort_key j_id (pending_jobs ids js)))"
    by (simp add: distinct_map)
  then have "filter (\<lambda>x. j_id x \<noteq> j_id j) (j # rest) = rest" using assms(2) by (auto intro!: filter_True) (metis imageI)
  moreover have "sort_key j_id (filter (\<lambda>x. j_id x \<noteq> j_id j) (pending_jobs ids js))
      = filter (\<lambda>x. j_id x \<noteq> j_id j) (sort_key j_id (pending_jobs ids js))" by (simp add: filter_sort)
  ultimately show ?thesis using assms(2) by (simp add: pending_mark_done)
qed

definition done_world :: "int \<Rightarrow> string \<Rightarrow> world \<Rightarrow> world" where
  "done_world i workerId w = w\<lparr>w_db := (w_db w)\<lparr>jobs := mark_done i workerId (jobs (w_db w))\<rparr>\<rparr>"

lemma work_once_alone:
  assumes "w_sched w = []" and "\<forall>i \<in> set ids. - int8_max - 1 \<le> i \<and> i \<le> int8_max"
  shows "work_once [] (map show_int ids) workerId w =
    (case sort_key j_id (pending_jobs ids (jobs (w_db w))) of
       [] \<Rightarrow> (Inr None, w)
     | j # _ \<Rightarrow> (Inr (Some (show_int (j_id j))), done_world (j_id j) workerId w))"
proof (cases "sort_key j_id (pending_jobs ids (jobs (w_db w)))")
  case Nil
  then show ?thesis using assms
    by (auto simp: work_once_def transaction_empty bindE_def claimJob_def sqlE_def sql_claim_def pg_bigints_show
        first_claimable_free split: if_splits)
next
  case (Cons j rest)
  have "j \<in> set (sort_key j_id (pending_jobs ids (jobs (w_db w))))" using Cons by simp
  then have j: "j_id j \<in> set ids" by (simp add: pending_jobs_def)
  then have "pg_bigint (show_int (j_id j)) = Inr (j_id j)" using assms(2) by (simp add: pg_bigint_def)
  moreover have "map show_int ids \<noteq> []" using j by auto
  ultimately show ?thesis using assms Cons
    by (simp add: work_once_def transaction_empty bindE_def claimJob_def sqlE_def sql_claim_def pg_bigints_show
        first_claimable_free completeJob_def sql_complete_def done_world_def)
qed

lemma pending_count_alone:
  assumes "w_sched w = []" and "\<forall>i \<in> set ids. - int8_max - 1 \<le> i \<and> i \<le> int8_max"
  shows "query (sql_pending_count (map show_int ids)) w = (Inr (length (pending_jobs ids (jobs (w_db w)))), w)"
  using assms by (simp add: query_def transaction_empty sqlE_def sql_pending_count_def pg_bigints_show pending_jobs_def)

lemma runWorker_alone:
  assumes "w_sched w = []" and "\<forall>i \<in> set ids. - int8_max - 1 \<le> i \<and> i \<le> int8_max"
    and "distinct (map j_id (jobs (w_db w)))" and "length (pending_jobs ids (jobs (w_db w))) < fuel"
  shows "runWorker fuel (\<lambda>_. []) (map show_int ids) workerId processed w =
    Some (Inr (processed @ map (\<lambda>j. show_int (j_id j)) (sort_key j_id (pending_jobs ids (jobs (w_db w))))),
      fold (\<lambda>j. done_world (j_id j) workerId) (sort_key j_id (pending_jobs ids (jobs (w_db w)))) w)"
  using assms
proof (induction fuel arbitrary: w processed)
  case (Suc fuel)
  let ?js = "jobs (w_db w)"
  note once = work_once_alone [OF Suc.prems(1,2), of workerId]
  show ?case
  proof (cases "sort_key j_id (pending_jobs ids ?js)")
    case Nil
    then have "pending_jobs ids ?js = []" by (metis length_0_conv length_sort)
    then show ?thesis using once Nil pending_count_alone [OF Suc.prems(1,2)] by simp
  next
    case (Cons j rest)
    let ?w = "done_world (j_id j) workerId w"
    have len: "length (sort_key j_id (pending_jobs ids ?js)) = Suc (length rest)" using Cons by simp
    have next_w: "w_sched ?w = []" "jobs (w_db ?w) = mark_done (j_id j) workerId ?js"
      using Suc.prems(1) by (simp_all add: done_world_def)
    note rest = sorted_pending_step [OF Suc.prems(3) Cons, of workerId]
    have "length (pending_jobs ids (jobs (w_db ?w))) = length rest" by (metis length_sort next_w(2) rest)
    then have "runWorker fuel (\<lambda>_. []) (map show_int ids) workerId (processed @ [show_int (j_id j)]) ?w =
        Some (Inr ((processed @ [show_int (j_id j)]) @ map (\<lambda>j. show_int (j_id j)) rest),
          fold (\<lambda>j. done_world (j_id j) workerId) rest ?w)"
      using Suc.IH [OF next_w(1) Suc.prems(2), of "processed @ [show_int (j_id j)]"] Suc.prems(3,4) len next_w(2) rest
      by simp
    then show ?thesis using once Cons by simp
  qed
qed simp

lemma pending_fold_done:
  "distinct (map j_id (jobs (w_db w))) \<Longrightarrow> sort_key j_id (pending_jobs ids (jobs (w_db w))) = js \<Longrightarrow>
   pending_jobs ids (jobs (w_db (fold (\<lambda>j. done_world (j_id j) workerId) js w))) = []"
proof (induction js arbitrary: w)
  case Nil
  then show ?case by simp (metis length_0_conv length_sort)
next
  case (Cons j rest)
  then show ?case using sorted_pending_step [OF Cons.prems, of workerId]
      Cons.IH [of "done_world (j_id j) workerId w"] by (simp add: done_world_def)
qed

definition jobs_world :: world where
  "jobs_world = \<lparr>w_db = \<lparr>users = [], categories = [], products = [], orders = [], order_items = [],
     jobs = map (\<lambda>i. \<lparr>j_id = i, j_kind = ''order.postprocess'', j_payload = JsNull, j_status = ''pending'',
       j_processed_count = 0, j_worker_id = None\<rparr>) [2, 3, 1],
     outbox = [], idempotency_keys = [], order_placed_effects = [], order_placed_deliveries = [],
     processed_messages = [], users_seq = 1, categories_seq = 1, products_seq = 1, orders_seq = 1, order_items_seq = 1, jobs_seq = 4, outbox_seq = 1,
     deliveries_seq = 1, now = 0\<rparr>, w_rng = 0, w_sched = []\<rparr>"

section \<open>Properties\<close>

text \<open>
  (C30) Workers share the queue without loss or repetition: over any interleaving of any number of
  workers, claims, commits, crashes and aborts, no two of them work on the same job, every job of the
  table is untouched or was completed exactly once, by the worker it names, and a worker that has
  returned left no pending job among those it was asked for.
\<close>

theorem workers_exactly_once:
  assumes "queue_start q0" and "(worker_step ws ids)\<^sup>*\<^sup>* q0 q"
  shows "(\<forall>v w i. qs_phase q v = Working i \<and> qs_phase q w = Working i \<longrightarrow> v = w)
    \<and> (\<forall>j \<in> set (qs_jobs q).
         (j_status j = ''pending'' \<and> j_processed_count j = 0 \<and> j_id j \<notin> snd ` set (qs_log q))
         \<or> (\<exists>w. j_status j = ''done'' \<and> j_processed_count j = 1 \<and> j_worker_id j = Some w
              \<and> filter (\<lambda>e. snd e = j_id j) (qs_log q) = [(w, j_id j)]))
    \<and> (\<forall>w. qs_phase q w = Finished \<longrightarrow> (\<forall>j \<in> set (qs_jobs q). j_id j \<in> set ids \<longrightarrow> j_status j = ''done''))"
proof -
  have ok: "queue_ok ws ids q" using queue_ok_reachable [OF assms(2,1)] .
  have job: "(j_status j = ''pending'' \<and> j_processed_count j = 0 \<and> j_id j \<notin> snd ` set (qs_log q))
       \<or> (\<exists>w. j_status j = ''done'' \<and> j_processed_count j = 1 \<and> j_worker_id j = Some w
            \<and> filter (\<lambda>e. snd e = j_id j) (qs_log q) = [(w, j_id j)])" if "j \<in> set (qs_jobs q)" for j
  proof -
    have "job_ok (qs_log q) j" using ok that by (simp add: queue_ok_def)
    then consider "filter (\<lambda>e. snd e = j_id j) (qs_log q) = []" "j_status j = ''pending''" "j_processed_count j = 0"
      | e where "filter (\<lambda>e. snd e = j_id j) (qs_log q) = [e]" "j_status j = ''done''" "j_processed_count j = 1"
        "j_worker_id j = Some (fst e)" by (auto simp: job_ok_def split: list.splits)
    then show ?thesis
    proof cases
      case 1
      then show ?thesis by (auto simp: filter_empty_conv)
    next
      case 2
      have "e \<in> set (filter (\<lambda>e. snd e = j_id j) (qs_log q))" using 2(1) by simp
      then have "e = (fst e, j_id j)" by (simp add: prod_eq_iff)
      then show ?thesis using 2 by metis
    qed
  qed
  have "j_status j = ''done''" if "qs_phase q w = Finished" "j \<in> set (qs_jobs q)" "j_id j \<in> set ids" for w j
    using ok job [OF that(2)] that by (auto simp: queue_ok_def)
  then show ?thesis using ok job unfolding queue_ok_def working_ok_def by blast
qed

theorem workers_exactly_once_witness:
  "\<exists>q. (worker_step [''a'', ''b''] [1])\<^sup>*\<^sup>*
      \<lparr>qs_jobs = [\<lparr>j_id = 1, j_kind = ''k'', j_payload = JsNull, j_status = ''pending'', j_processed_count = 0, j_worker_id = None\<rparr>],
       qs_phase = (\<lambda>_. Claiming), qs_log = []\<rparr> q
     \<and> qs_log q = [(''b'', 1)]
     \<and> (\<forall>j \<in> set (qs_jobs q). j_status j = ''done'' \<and> j_processed_count j = 1 \<and> j_worker_id j = Some ''b'')"
proof -
  let ?q0 = "\<lparr>qs_jobs = [\<lparr>j_id = 1, j_kind = ''k'', j_payload = JsNull, j_status = ''pending'', j_processed_count = 0, j_worker_id = None\<rparr>],
       qs_phase = (\<lambda>_. Claiming), qs_log = []\<rparr>"
  let ?q1 = "?q0\<lparr>qs_phase := (qs_phase ?q0)(''b'' := Working 1)\<rparr>"
  let ?q2 = "?q1\<lparr>qs_jobs := mark_done 1 ''b'' (qs_jobs ?q1), qs_phase := (qs_phase ?q1)(''b'' := Claiming), qs_log := qs_log ?q1 @ [(''b'', 1)]\<rparr>"
  have "worker_step [''a'', ''b''] [1] ?q0 ?q1"
    using worker_step.claim [of "''b''" "[''a'', ''b'']" ?q0 "[1]" "hd (qs_jobs ?q0)"]
    by (simp add: held_def first_claimable_def claimable_def)
  moreover have "worker_step [''a'', ''b''] [1] ?q1 ?q2"
    using worker_step.complete [of "''b''" "[''a'', ''b'']" ?q1 1 "[1]"] by simp
  ultimately have run: "(worker_step [''a'', ''b''] [1])\<^sup>*\<^sup>* ?q0 ?q2" by (meson converse_rtranclp_into_rtranclp rtranclp.rtrancl_refl)
  have "queue_start ?q0" by (simp add: queue_start_def)
  from workers_exactly_once [OF this run] run show ?thesis
    by (intro exI [of _ ?q2]) (auto simp: mark_done_def)
qed

text \<open>
  A worker that runs alone returns, after one round per pending job and a last one, with the
  pending jobs of its list in the order of their ids, and none of them is pending afterwards.
\<close>

theorem runWorker_drains:
  assumes "w_sched w = []" and "\<forall>i \<in> set ids. - int8_max - 1 \<le> i \<and> i \<le> int8_max"
    and "distinct (map j_id (jobs (w_db w)))" and "length (pending_jobs ids (jobs (w_db w))) < fuel"
  shows "\<exists>w'. runWorker fuel (\<lambda>_. []) (map show_int ids) workerId [] w =
      Some (Inr (map (\<lambda>j. show_int (j_id j)) (sort_key j_id (pending_jobs ids (jobs (w_db w))))), w')
    \<and> pending_jobs ids (jobs (w_db w')) = []"
  using runWorker_alone [OF assms, of workerId "[]"] pending_fold_done [OF assms(3) refl] by auto

theorem runWorker_drains_witness:
  "\<exists>w'. runWorker 3 (\<lambda>_. []) (map show_int [2, 1]) ''w'' [] jobs_world = Some (Inr [''1'', ''2''], w')
     \<and> pending_jobs [2, 1] (jobs (w_db w')) = []"
proof -
  have c: "w_sched jobs_world = []" "\<forall>i \<in> set [2, 1]. - int8_max - 1 \<le> i \<and> i \<le> int8_max"
    "distinct (map j_id (jobs (w_db jobs_world)))" "length (pending_jobs [2, 1] (jobs (w_db jobs_world))) < 3"
    by (simp_all add: jobs_world_def int8_max_def pending_jobs_def)
  have "map (\<lambda>j. show_int (j_id j)) (sort_key j_id (pending_jobs [2, 1] (jobs (w_db jobs_world)))) = [''1'', ''2'']"
    by code_simp
  then show ?thesis using runWorker_drains [OF c, of "''w''"] by simp
qed

end
