(* ===== verification/WorkersDemo.thy ===== *)
theory WorkersDemo
  imports JobQueue
begin

text \<open>
  \<open>src/demo/demo-workers.ts\<close>: two workers share the eight jobs the program has inserted, in a table that may
  hold other jobs. The workers are interleaved by the step relation of the job queue; the time they took is
  an argument.
\<close>

section \<open>The program\<close>

definition JOB_COUNT :: nat where "JOB_COUNT = 8"
definition WORK_MS :: int where "WORK_MS = 200"
definition SEQUENTIAL_MIN_MS :: int where "SEQUENTIAL_MIN_MS = int JOB_COUNT * WORK_MS"

definition demo_job :: "int \<Rightarrow> job_row" where
  "demo_job i = \<lparr>j_id = i, j_kind = ''demo.work'', j_payload = JsObj [], j_status = ''pending'',
     j_processed_count = 0, j_worker_id = None\<rparr>"

definition sql_insert_demo_jobs :: "nat \<Rightarrow> db \<Rightarrow> (thrown + int list) \<times> db" where
  "sql_insert_demo_jobs n d =
     (let ids = map (\<lambda>k. jobs_seq d + int k) [0..<n]
      in (Inr ids, d\<lparr>jobs := jobs d @ map demo_job ids, jobs_seq := jobs_seq d + int n\<rparr>))"

definition demo_workers :: "string list" where
  "demo_workers = [''worker-1'', ''worker-2'']"

definition workers_start :: "db \<Rightarrow> queue_sys" where
  "workers_start d = \<lparr>qs_jobs = jobs d, qs_phase = (\<lambda>_. Claiming), qs_log = []\<rparr>"

text \<open>What \<open>runWorker\<close> has returned to a finished worker.\<close>

definition processed_by :: "string \<Rightarrow> queue_sys \<Rightarrow> string list" where
  "processed_by w q = map (\<lambda>e. show_int (snd e)) (filter (\<lambda>e. fst e = w) (qs_log q))"

record workers_report =
  wr_worker1 :: nat
  wr_worker2 :: nat
  wr_double :: nat
  wr_overlap :: nat
  wr_exitCode :: nat

definition report_workers :: "int list \<Rightarrow> int \<Rightarrow> queue_sys \<Rightarrow> workers_report" where
  "report_workers ids elapsedMs q =
     (let worker1 = processed_by ''worker-1'' q; worker2 = processed_by ''worker-2'' q;
          doubleCount = length (filter (\<lambda>j. j_id j \<in> set ids \<and> 1 < j_processed_count j) (qs_jobs q));
          overlap = filter (\<lambda>i. i \<in> set worker2) worker1
      in \<lparr>wr_worker1 = length worker1, wr_worker2 = length worker2, wr_double = doubleCount, wr_overlap = length overlap,
          wr_exitCode = (if doubleCount \<noteq> 0 \<or> length overlap \<noteq> 0 \<or> length worker1 = 0 \<or> length worker2 = 0
            \<or> length worker1 + length worker2 \<noteq> JOB_COUNT \<or> SEQUENTIAL_MIN_MS \<le> elapsedMs then 1 else 0)\<rparr>)"

section \<open>The rows of the demo\<close>

text \<open>Claims look at the rows of the given ids only, so that a run is a run on these rows.\<close>

definition own_rows :: "int list \<Rightarrow> queue_sys \<Rightarrow> queue_sys" where
  "own_rows ids q = \<lparr>qs_jobs = filter (\<lambda>j. j_id j \<in> set ids) (qs_jobs q), qs_phase = qs_phase q, qs_log = qs_log q\<rparr>"

lemma own_rows_simps [simp]:
  "qs_jobs (own_rows ids q) = filter (\<lambda>j. j_id j \<in> set ids) (qs_jobs q)"
  "qs_phase (own_rows ids q) = qs_phase q" "qs_log (own_rows ids q) = qs_log q"
  by (simp_all add: own_rows_def)

lemma first_claimable_own: "first_claimable taken ids (filter (\<lambda>j. j_id j \<in> set ids) js) = first_claimable taken ids js"
proof -
  have "filter (claimable taken ids) (filter (\<lambda>j. j_id j \<in> set ids) js) = filter (claimable taken ids) js"
    unfolding filter_filter by (rule filter_cong) (auto simp: claimable_def)
  then show ?thesis by (simp add: first_claimable_def)
qed

lemma mark_done_own: "filter (\<lambda>j. j_id j \<in> set ids) (mark_done i w js) = mark_done i w (filter (\<lambda>j. j_id j \<in> set ids) js)"
  by (induction js) (auto simp: mark_done_def)

lemma own_rows_step: "worker_step ws ids q q' \<Longrightarrow> worker_step ws ids (own_rows ids q) (own_rows ids q')"
proof (induction rule: worker_step.induct)
  case (claim w q j)
  then show ?case using worker_step.claim [of w ws "own_rows ids q" ids j] by (simp add: first_claimable_own own_rows_def)
next
  case (busy w q)
  then show ?case using worker_step.busy [of w ws "own_rows ids q" ids] by (simp add: first_claimable_own own_rows_def)
next
  case (complete w q i)
  then show ?case using worker_step.complete [of w ws "own_rows ids q" i ids] by (simp add: mark_done_own own_rows_def)
next
  case (abort w q)
  then show ?case using worker_step.abort [of w ws "own_rows ids q" ids] by (simp add: own_rows_def)
next
  case (again w q)
  then show ?case using worker_step.again [of w ws "own_rows ids q" ids] by (auto simp: own_rows_def)
next
  case (finish w q)
  then show ?case using worker_step.finish [of w ws "own_rows ids q" ids] by (auto simp: own_rows_def)
qed

lemma own_rows_run: "(worker_step ws ids)\<^sup>*\<^sup>* q q' \<Longrightarrow> (worker_step ws ids)\<^sup>*\<^sup>* (own_rows ids q) (own_rows ids q')"
  by (induction rule: rtranclp_induct) (auto intro: own_rows_step rtranclp.rtrancl_into_rtrancl)

section \<open>The log\<close>

definition log_ok :: "string list \<Rightarrow> queue_sys \<Rightarrow> bool" where
  "log_ok ws q \<longleftrightarrow> (\<forall>e \<in> set (qs_log q). fst e \<in> set ws \<and> snd e \<in> j_id ` set (qs_jobs q))"

lemma log_ok_step:
  assumes "worker_step ws ids q q'" and "queue_ok ws ids q" and "log_ok ws q"
  shows "log_ok ws q'"
  using assms(1)
proof cases
  case (complete w i)
  have "\<exists>j \<in> set (qs_jobs q). j_id j = i" using assms(2) complete(3) unfolding queue_ok_def working_ok_def by blast
  moreover have "j_id ` set (mark_done i w (qs_jobs q)) = j_id ` set (qs_jobs q)" by (metis map_j_id_mark_done set_map)
  ultimately show ?thesis using assms(3) complete(1,2) by (auto simp: log_ok_def)
qed (use assms(3) in \<open>simp_all add: log_ok_def\<close>)

lemma log_ok_reachable: "(worker_step ws ids)\<^sup>*\<^sup>* q0 q \<Longrightarrow> queue_start q0 \<Longrightarrow> log_ok ws q \<and> map j_id (qs_jobs q) = map j_id (qs_jobs q0)"
proof (induction rule: rtranclp_induct)
  case base
  then show ?case by (simp add: log_ok_def queue_start_def)
next
  case (step q q')
  have "map j_id (qs_jobs q') = map j_id (qs_jobs q)" using step.hyps(2) by cases simp_all
  then show ?case using step log_ok_step queue_ok_reachable by metis
qed

lemma log_once:
  assumes "\<And>i. i \<in> snd ` set lg \<Longrightarrow> length (filter (\<lambda>e. snd e = i) lg) = 1"
  shows "distinct (map snd lg)"
  using assms
proof (induction lg)
  case (Cons e lg)
  have "length (filter (\<lambda>x. snd x = snd e) (e # lg)) = 1" by (rule Cons.prems) simp
  then have new: "filter (\<lambda>x. snd x = snd e) lg = []" by simp
  have "length (filter (\<lambda>x. snd x = i) lg) = 1" if "i \<in> snd ` set lg" for i
    using Cons.prems [of i] that new by (auto simp: filter_empty_conv)
  then show ?case using Cons.IH new by (force simp: filter_empty_conv)
qed simp

lemma split_log:
  assumes "\<forall>e \<in> set lg. fst e \<in> {v, w}" and "v \<noteq> w"
  shows "length (filter (\<lambda>e. fst e = v) lg) + length (filter (\<lambda>e. fst e = w) lg) = length lg"
  using assms by (induction lg) auto

section \<open>The insert\<close>

lemma inserted_rows:
  assumes "jobs_ok d" and "sql_insert_demo_jobs n d = (Inr ids, d')"
  shows "filter (\<lambda>j. j_id j \<in> set ids) (jobs d') = map demo_job ids" "distinct ids" "length ids = n" "distinct (map j_id (jobs d'))"
proof -
  have ids: "ids = map (\<lambda>k. jobs_seq d + int k) [0..<n]" and d': "jobs d' = jobs d @ map demo_job ids"
    using assms(2) by (auto simp: sql_insert_demo_jobs_def Let_def)
  show "distinct ids" "length ids = n" unfolding ids by (simp_all add: distinct_map inj_on_def)
  have old: "j_id j \<notin> set ids" if "j \<in> set (jobs d)" for j using assms(1) that unfolding ids jobs_ok_def by force
  have own: "j_id ` set (map demo_job ids) = set ids" "map j_id (map demo_job ids) = ids" by (simp_all add: demo_job_def comp_def image_image)
  show "filter (\<lambda>j. j_id j \<in> set ids) (jobs d') = map demo_job ids"
  proof -
    have "filter (\<lambda>j. j_id j \<in> set ids) (jobs d) = []" using old by (simp add: filter_empty_conv)
    moreover have "filter (\<lambda>j. j_id j \<in> set ids) (map demo_job ids) = map demo_job ids" using own(1) by (intro filter_True) blast
    ultimately show ?thesis unfolding d' by simp
  qed
  show "distinct (map j_id (jobs d'))" using old own(2) assms(1) \<open>distinct ids\<close> unfolding d' by (auto simp: jobs_ok_def simp del: map_map)
qed

lemma own_start: 
  assumes "jobs_ok d" and "sql_insert_demo_jobs n d = (Inr ids, d')"
  shows "queue_start (own_rows ids (workers_start d'))" "map j_id (qs_jobs (own_rows ids (workers_start d'))) = ids"
  using inserted_rows [OF assms] by (auto simp: queue_start_def workers_start_def demo_job_def comp_def)

lemma finished_log:
  assumes ok: "queue_ok ws ids q" "log_ok ws q" and ids: "map j_id (qs_jobs q) = ids" "distinct ids" and fin: "qs_phase q w = Finished"
  shows "distinct (map snd (qs_log q))" "set (map snd (qs_log q)) = set ids" "\<forall>j \<in> set (qs_jobs q). j_processed_count j = 1"
proof -
  have once: "length (filter (\<lambda>e. snd e = j_id j) (qs_log q)) = 1 \<and> j_processed_count j = 1" if "j \<in> set (qs_jobs q)" for j
  proof -
    have "job_ok (qs_log q) j" "j_status j \<noteq> ''pending''" using ok(1) fin that ids(1) unfolding queue_ok_def by auto
    then show ?thesis by (auto simp: job_ok_def split: list.splits)
  qed
  then show "\<forall>j \<in> set (qs_jobs q). j_processed_count j = 1" by blast
  have sub: "snd ` set (qs_log q) \<subseteq> j_id ` set (qs_jobs q)" using ok(2) by (auto simp: log_ok_def)
  have "length (filter (\<lambda>e. snd e = i) (qs_log q)) = 1" if i: "i \<in> snd ` set (qs_log q)" for i
  proof -
    obtain j where "j \<in> set (qs_jobs q)" "i = j_id j" using subsetD [OF sub i] by (rule imageE) (rule that)
    then show ?thesis using once by simp
  qed
  then show "distinct (map snd (qs_log q))" by (rule log_once)
  have "i \<in> snd ` set (qs_log q)" if "i \<in> j_id ` set (qs_jobs q)" for i
  proof -
    have "filter (\<lambda>e. snd e = i) (qs_log q) \<noteq> []" using once that by force
    then show ?thesis by (auto simp: filter_empty_conv)
  qed
  then show "set (map snd (qs_log q)) = set ids" using sub ids(1) by (metis list.set_map subsetI subset_antisym)
qed

section \<open>Scheduled runs\<close>

definition worker_turn :: "string list \<Rightarrow> int list \<Rightarrow> string \<Rightarrow> queue_sys \<Rightarrow> queue_sys option" where
  "worker_turn ws ids w q =
     (case qs_phase q w of
        Claiming \<Rightarrow>
          (case first_claimable (held ws (qs_phase q) w) ids (qs_jobs q) of
             Some j \<Rightarrow> Some (q\<lparr>qs_phase := (qs_phase q)(w := Working (j_id j))\<rparr>)
           | None \<Rightarrow> Some (q\<lparr>qs_phase := (qs_phase q)(w := Checking)\<rparr>))
      | Working i \<Rightarrow> Some (q\<lparr>qs_jobs := mark_done i w (qs_jobs q), qs_phase := (qs_phase q)(w := Claiming), qs_log := qs_log q @ [(w, i)]\<rparr>)
      | Checking \<Rightarrow>
          if list_ex (\<lambda>j. j_status j = ''pending'' \<and> j_id j \<in> set ids) (qs_jobs q)
          then Some (q\<lparr>qs_phase := (qs_phase q)(w := Claiming)\<rparr>) else Some (q\<lparr>qs_phase := (qs_phase q)(w := Finished)\<rparr>)
      | _ \<Rightarrow> None)"

fun run_workers :: "string list \<Rightarrow> int list \<Rightarrow> string list \<Rightarrow> queue_sys \<Rightarrow> queue_sys option" where
  "run_workers ws ids [] q = Some q"
| "run_workers ws ids (w # sched) q = (case worker_turn ws ids w q of None \<Rightarrow> None | Some q1 \<Rightarrow> run_workers ws ids sched q1)"

lemma worker_turn_step:
  assumes "worker_turn ws ids w q = Some q'" and "w \<in> set ws"
  shows "worker_step ws ids q q'"
proof (cases "qs_phase q w")
  case Claiming
  then show ?thesis using assms worker_step.claim [of w ws q ids] worker_step.busy [of w ws q ids]
    by (auto simp: worker_turn_def split: option.splits)
next
  case (Working i)
  then show ?thesis using assms worker_step.complete [of w ws q i ids] by (auto simp: worker_turn_def)
next
  case Checking
  then show ?thesis using assms worker_step.again [of w ws q ids] worker_step.finish [of w ws q ids]
    by (auto simp: worker_turn_def list_ex_iff split: if_splits)
qed (use assms in \<open>simp_all add: worker_turn_def\<close>)

lemma run_workers_steps: "run_workers ws ids sched q = Some q' \<Longrightarrow> set sched \<subseteq> set ws \<Longrightarrow> (worker_step ws ids)\<^sup>*\<^sup>* q q'"
proof (induction sched arbitrary: q)
  case (Cons w sched)
  then obtain q1 where "worker_turn ws ids w q = Some q1" "run_workers ws ids sched q1 = Some q'" by (auto split: option.splits)
  then show ?case using Cons worker_turn_step [of ws ids w q q1] by (auto intro: converse_rtranclp_into_rtranclp)
qed simp

text \<open>Four claims and commits each, a claim in vain and the last check.\<close>

definition fair_schedule :: "string list" where
  "fair_schedule = concat (replicate 10 demo_workers)"

section \<open>Properties\<close>

text \<open>
  Two workers divide the jobs between them: in every interleaving on a table with any other jobs, when
  both workers have returned, the program counts no job that was processed twice, no job that both returned
  and as many returned jobs as it inserted; its exit code says whether both had a share and whether they took
  less than the sequential time.
\<close>

theorem demo_workers_share:
  assumes "jobs_ok d" and "sql_insert_demo_jobs JOB_COUNT d = (Inr ids, d')"
    and "(worker_step demo_workers ids)\<^sup>*\<^sup>* (workers_start d') q"
    and "qs_phase q ''worker-1'' = Finished" and "qs_phase q ''worker-2'' = Finished"
  shows "let r = report_workers ids elapsedMs q in wr_double r = 0 \<and> wr_overlap r = 0 \<and> wr_worker1 r + wr_worker2 r = 8
    \<and> (wr_exitCode r = 0 \<longleftrightarrow> 0 < wr_worker1 r \<and> 0 < wr_worker2 r \<and> elapsedMs < 1600)"
proof -
  let ?q = "own_rows ids q"
  note start = own_start [OF assms(1,2)]
  have run: "(worker_step demo_workers ids)\<^sup>*\<^sup>* (own_rows ids (workers_start d')) ?q" using assms(3) by (rule own_rows_run)
  have ok: "queue_ok demo_workers ids ?q" by (rule queue_ok_reachable [OF run start(1)])
  have lg: "log_ok demo_workers ?q" and rows: "map j_id (qs_jobs ?q) = ids" using log_ok_reachable [OF run start(1)] start(2) by auto
  have fin: "qs_phase ?q ''worker-1'' = Finished" using assms(4) by simp
  note all = finished_log [OF ok lg rows inserted_rows(2) [OF assms(1,2)] fin, simplified]
  have len: "length (qs_log q) = 8"
    using distinct_card [OF all(1)] distinct_card [OF inserted_rows(2) [OF assms(1,2)]] all(2) inserted_rows(3) [OF assms(1,2)]
    by (simp add: JOB_COUNT_def)
  have "length (filter (\<lambda>e. fst e = ''worker-1'') (qs_log q)) + length (filter (\<lambda>e. fst e = ''worker-2'') (qs_log q)) = 8"
    using split_log [of "qs_log q" "''worker-1''" "''worker-2''"] lg len by (simp add: log_ok_def demo_workers_def)
  then have total8: "length (processed_by ''worker-1'' q) + length (processed_by ''worker-2'' q) = 8" by (simp add: processed_by_def)
  have double: "filter (\<lambda>j. j_id j \<in> set ids \<and> 1 < j_processed_count j) (qs_jobs q) = []"
    using all(3) by (auto simp: filter_empty_conv)
  have "x \<notin> set (processed_by ''worker-2'' q)" if "x \<in> set (processed_by ''worker-1'' q)" for x
  proof
    assume in2: "x \<in> set (processed_by ''worker-2'' q)"
    have who: "\<exists>e \<in> set (qs_log q). fst e = w \<and> show_int (snd e) = x" if "x \<in> set (processed_by w q)" for w
      using that by (force simp: processed_by_def)
    from who [OF that] who [OF in2] obtain e e' where e: "e \<in> set (qs_log q)" "e' \<in> set (qs_log q)" "fst e = ''worker-1''"
      "fst e' = ''worker-2''" "show_int (snd e) = show_int (snd e')" by metis
    then have "snd e = snd e'" by (simp add: show_int_inj)
    then have "e = e'" using all(1) e(1,2) by (auto simp: distinct_map dest: inj_onD)
    then show False using e(3,4) by simp
  qed
  then have overlap: "filter (\<lambda>i. i \<in> set (processed_by ''worker-2'' q)) (processed_by ''worker-1'' q) = []"
    by (auto simp: filter_empty_conv)
  show ?thesis using total8 by (simp add: report_workers_def Let_def double overlap JOB_COUNT_def SEQUENTIAL_MIN_MS_def WORK_MS_def)
qed

theorem demo_workers_share_witness:
  "\<exists>q. (worker_step demo_workers [4..11])\<^sup>*\<^sup>* (workers_start (snd (sql_insert_demo_jobs JOB_COUNT (w_db jobs_world)))) q
    \<and> wr_double (report_workers [4..11] 900 q) = 0 \<and> wr_worker1 (report_workers [4..11] 900 q) + wr_worker2 (report_workers [4..11] 900 q) = 8"
proof -
  let ?d = "w_db jobs_world" and ?d' = "snd (sql_insert_demo_jobs JOB_COUNT (w_db jobs_world))"
  have ok: "jobs_ok ?d" by (simp add: jobs_ok_def jobs_world_def)
  have ids: "map (\<lambda>k. jobs_seq ?d + int k) [0..<JOB_COUNT] = [4..11]" by code_simp
  have ins: "sql_insert_demo_jobs JOB_COUNT ?d = (Inr [4..11], ?d')" unfolding ids [symmetric] by (simp add: sql_insert_demo_jobs_def Let_def)
  have "map_option (\<lambda>q. (qs_phase q ''worker-1'', qs_phase q ''worker-2'')) (run_workers demo_workers [4..11] fair_schedule (workers_start ?d'))
      = Some (Finished, Finished)" by code_simp
  then obtain q where q: "run_workers demo_workers [4..11] fair_schedule (workers_start ?d') = Some q"
    "qs_phase q ''worker-1'' = Finished" "qs_phase q ''worker-2'' = Finished" by auto
  have "set fair_schedule \<subseteq> set demo_workers" by (auto simp: fair_schedule_def)
  with q(1) have run: "(worker_step demo_workers [4..11])\<^sup>*\<^sup>* (workers_start ?d') q" by (rule run_workers_steps)
  from demo_workers_share [OF ok ins run q(2,3), of 900] run show ?thesis by (auto simp: Let_def)
qed

end
