(* ===== verification/ProductCard.thy ===== *)
theory ProductCard
  imports Redis JsonText CheckoutOutcomes
begin

text \<open>
  \<open>src/catalog\<close>: the product card, its repository, the cache-aside service with its single-flight lock,
  and the endpoint. The random numbers, the lock token and what happens on the server during a pause
  are arguments. A rating is kept in hundredths; it has at most two decimals.
\<close>

section \<open>Cards and their JSON text\<close>

record product_card =
  pc_id :: string
  pc_name :: string
  pc_stock :: int
  pc_priceCents :: int
  pc_rating :: nat
  pc_orderLines :: nat

definition show_hundredths :: "nat \<Rightarrow> string" where
  "show_hundredths r = show_nat (r div 100) @
     (if r mod 100 = 0 then []
      else if r mod 10 = 0 then [CHR ''.'', digit_char (r mod 100 div 10)]
      else [CHR ''.'', digit_char (r mod 100 div 10), digit_char (r mod 10)])"

definition read_hundredths :: "string \<Rightarrow> (nat \<times> string) option" where
  "read_hundredths t =
     (case read_nat t of
        None \<Rightarrow> None
      | Some (n, rest) \<Rightarrow>
          (case rest of
             c # a # b # more' \<Rightarrow>
               if c = CHR ''.'' \<and> is_digit a then
                 if is_digit b then Some (100 * n + 10 * digit_val a + digit_val b, more')
                 else Some (100 * n + 10 * digit_val a, b # more')
               else Some (100 * n, rest)
           | _ \<Rightarrow> Some (100 * n, rest)))"

definition read_int :: "string \<Rightarrow> (int \<times> string) option" where
  "read_int t =
     (case t of
        [] \<Rightarrow> None
      | c # cs \<Rightarrow> if c = CHR ''-'' then map_option (\<lambda>(n, r). (- int n, r)) (read_nat cs)
          else map_option (\<lambda>(n, r). (int n, r)) (read_nat t))"

abbreviation key_text :: "string \<Rightarrow> string" where
  "key_text k \<equiv> json_quote k @ '':''"

definition print_card :: "product_card \<Rightarrow> string" where
  "print_card c = ''{'' @ key_text ''id'' @ json_quote (pc_id c)
     @ '','' @ key_text ''name'' @ json_quote (pc_name c)
     @ '','' @ key_text ''stock'' @ show_int (pc_stock c)
     @ '','' @ key_text ''priceCents'' @ show_int (pc_priceCents c)
     @ '','' @ key_text ''rating'' @ show_hundredths (pc_rating c)
     @ '','' @ key_text ''orderLines'' @ show_nat (pc_orderLines c) @ ''}''"

definition read_card :: "string \<Rightarrow> (product_card \<times> string) option" where
  "read_card t =
     Option.bind (expect (''{'' @ key_text ''id'') t) (\<lambda>t.
     Option.bind (read_string t) (\<lambda>(i, t).
     Option.bind (expect ('','' @ key_text ''name'') t) (\<lambda>t.
     Option.bind (read_string t) (\<lambda>(n, t).
     Option.bind (expect ('','' @ key_text ''stock'') t) (\<lambda>t.
     Option.bind (read_int t) (\<lambda>(s, t).
     Option.bind (expect ('','' @ key_text ''priceCents'') t) (\<lambda>t.
     Option.bind (read_int t) (\<lambda>(p, t).
     Option.bind (expect ('','' @ key_text ''rating'') t) (\<lambda>t.
     Option.bind (read_hundredths t) (\<lambda>(r, t).
     Option.bind (expect ('','' @ key_text ''orderLines'') t) (\<lambda>t.
     Option.bind (read_nat t) (\<lambda>(l, t).
     Option.bind (expect ''}'' t) (\<lambda>t.
     Some (\<lparr>pc_id = i, pc_name = n, pc_stock = s, pc_priceCents = p, pc_rating = r, pc_orderLines = l\<rparr>, t))))))))))))))"

text \<open>The payload of the cache: found or not, with the card or \<open>null\<close>.\<close>

definition print_cached :: "product_card option \<Rightarrow> string" where
  "print_cached p = ''{'' @ key_text ''found'' @
     (case p of
        Some c \<Rightarrow> ''true,'' @ key_text ''card'' @ print_card c @ ''}''
      | None \<Rightarrow> ''false,'' @ key_text ''card'' @ ''null}'')"

definition parse_cached :: "string \<Rightarrow> thrown + product_card option" where
  "parse_cached t =
     (case expect (''{'' @ key_text ''found'' @ ''true,'' @ key_text ''card'') t of
        Some t1 \<Rightarrow>
          (case read_card t1 of
             Some (c, t2) \<Rightarrow> if t2 = ''}'' then Inr (Some c) else Inl (PlainError ''Unexpected token in JSON'')
           | None \<Rightarrow> Inl (PlainError ''Unexpected token in JSON''))
      | None \<Rightarrow>
          if t = print_cached None then Inr None else Inl (PlainError ''Unexpected token in JSON''))"

lemma read_int_show: "t = [] \<or> \<not> is_digit (hd t) \<Longrightarrow> read_int (show_int i @ t) = Some (i, t)"
proof (cases "i < 0")
  case False
  assume t: "t = [] \<or> \<not> is_digit (hd t)"
  obtain c cs where c: "show_nat (nat i) = c # cs" "is_digit c"
    using show_nat_digits [of "nat i"] show_nat_nonempty [of "nat i"] by (cases "show_nat (nat i)") auto
  then have "c \<noteq> CHR ''-''" by (auto simp: is_digit_def)
  then show ?thesis using False c read_nat_show [OF t, of "nat i"] by (simp add: show_int_def read_int_def)
qed (simp add: show_int_def read_int_def read_nat_show)

lemma read_hundredths_show:
  assumes "\<not> is_digit c" and "c \<noteq> CHR ''.''"
  shows "read_hundredths (show_hundredths r @ c # t) = Some (r, c # t)"
proof -
  have dot: "\<not> is_digit CHR ''.''" by (simp add: is_digit_def)
  have m: "r mod 100 mod 10 = r mod 10" by (rule mod_mod_cancel) simp
  have split: "r = 100 * (r div 100) + r mod 100" "r mod 100 = 10 * (r mod 100 div 10) + r mod 10"
    using mult_div_mod_eq [of 10 "r mod 100"] m by simp_all
  then have val: "100 * (r div 100) + 10 * (r mod 100 div 10) + r mod 10 = r" by linarith
  have small: "r mod 100 div 10 < 10" "r mod 10 < 10" by auto
  consider "r mod 100 = 0" | "r mod 100 \<noteq> 0" "r mod 10 = 0" | "r mod 10 \<noteq> 0" by fastforce
  then show ?thesis
  proof cases
    case 1
    then show ?thesis using assms split(1) read_nat_show [of "c # t" "r div 100"]
      by (auto simp: show_hundredths_def read_hundredths_def split: list.splits)
  next
    case 2
    then show ?thesis using assms split small dot
        read_nat_show [of "CHR ''.'' # digit_char (r mod 100 div 10) # c # t" "r div 100"]
      by (auto simp: show_hundredths_def read_hundredths_def)
  next
    case 3
    then have "r mod 100 \<noteq> 0" using m by (metis mod_0)
    then show ?thesis using 3 assms split small dot
        read_nat_show [of "CHR ''.'' # digit_char (r mod 100 div 10) # digit_char (r mod 10) # c # t" "r div 100"]
      by (auto simp: show_hundredths_def read_hundredths_def val)
  qed
qed

lemma not_digit_sep [simp]: "\<not> is_digit CHR '',''" "\<not> is_digit CHR ''}''"
  by (simp_all add: is_digit_def)

lemma read_card_print: "read_card (print_card c @ t) = Some (c, t)"
proof -
  have step: "print_card c @ t = (''{'' @ key_text ''id'') @ json_quote (pc_id c)
     @ ('','' @ key_text ''name'') @ json_quote (pc_name c)
     @ ('','' @ key_text ''stock'') @ show_int (pc_stock c)
     @ ('','' @ key_text ''priceCents'') @ show_int (pc_priceCents c)
     @ ('','' @ key_text ''rating'') @ show_hundredths (pc_rating c)
     @ ('','' @ key_text ''orderLines'') @ show_nat (pc_orderLines c) @ ''}'' @ t"
    by (simp add: print_card_def)
  have i: "read_int (show_int x @ ('','' @ k) @ u) = Some (x, ('','' @ k) @ u)" for x k u
    by (rule read_int_show) simp
  have h: "read_hundredths (show_hundredths x @ ('','' @ k) @ u) = Some (x, ('','' @ k) @ u)" for x k u
    using read_hundredths_show [of "CHR '',''" x "k @ u"] by simp
  have n: "read_nat (show_nat x @ ''}'' @ u) = Some (x, ''}'' @ u)" for x u
    by (rule read_nat_show) simp
  show ?thesis unfolding step read_card_def
    by (simp only: expect_append read_string_quote i h n Option.bind.simps prod.case) simp
qed

lemma expect_neq: "expect (p @ a # q) (p @ b # t) = None" if "a \<noteq> b"
  using that by (induction p) auto

lemma parse_print_cached [simp]: "parse_cached (print_cached p) = Inr p"
proof (cases p)
  case None
  have n: "print_cached None = (''{'' @ key_text ''found'') @ CHR ''f'' # ''alse,'' @ key_text ''card'' @ ''null}''"
    by (simp add: print_cached_def)
  have "expect ((''{'' @ key_text ''found'') @ CHR ''t'' # ''rue,'' @ key_text ''card'') (print_cached None) = None"
    unfolding n by (rule expect_neq) simp
  then show ?thesis using None by (simp add: parse_cached_def)
next
  case (Some c)
  have "print_cached p = (''{'' @ key_text ''found'' @ ''true,'' @ key_text ''card'') @ print_card c @ ''}''"
    by (simp add: print_cached_def Some)
  then show ?thesis unfolding parse_cached_def using Some
    by (simp only: expect_append option.case read_card_print prod.case) simp
qed

section \<open>The repository\<close>

record 'r card_state =
  cs_redis :: 'r
  cs_world :: world
  cs_dbCalls :: nat

definition redisE :: "('r, thrown, 'a) exec \<Rightarrow> ('r card_state, thrown, 'a) exec" where
  "redisE f s = (case f (cs_redis s) of (x, r) \<Rightarrow> (x, s\<lparr>cs_redis := r\<rparr>))"

text \<open>\<open>ROUND(AVG(quantity), 2)\<close> over positive quantities, in hundredths, halves away from zero.\<close>

definition avg_hundredths :: "int list \<Rightarrow> nat" where
  "avg_hundredths qs = (if qs = [] then 0
     else nat ((200 * sum_list qs + int (length qs)) div (2 * int (length qs))))"

definition sql_load_card :: "string \<Rightarrow> db \<Rightarrow> (thrown + product_card option) \<times> db" where
  "sql_load_card productId d =
     (case pg_bigint productId of
        Inl e \<Rightarrow> (Inl e, d)
      | Inr i \<Rightarrow>
          (Inr (map_option (\<lambda>p.
             let ls = filter (\<lambda>l. i_product_id l = p_id p) (order_items d)
             in \<lparr>pc_id = show_int (p_id p), pc_name = p_name p, pc_stock = p_stock p, pc_priceCents = p_price_cents p,
                 pc_rating = avg_hundredths (map i_quantity ls), pc_orderLines = length ls\<rparr>)
             (find (\<lambda>p. p_id p = i) (products d))), d))"

definition repoE :: "(db \<Rightarrow> (thrown + 'a) \<times> db) \<Rightarrow> ('r card_state, thrown, 'a) exec" where
  "repoE f s = (case query f (cs_world s) of (x, w) \<Rightarrow> (x, s\<lparr>cs_world := w, cs_dbCalls := cs_dbCalls s + 1\<rparr>))"

definition load_card :: "string \<Rightarrow> ('r card_state, thrown, product_card option) exec" where
  "load_card productId = repoE (sql_load_card productId)"

text \<open>Products by the number of their lines; ties in the order of the lines.\<close>

definition sql_hot_products :: "int \<Rightarrow> db \<Rightarrow> (thrown + string list) \<times> db" where
  "sql_hot_products limit d =
     (let ids = remdups (map i_product_id (order_items d))
      in (Inr (map show_int (take (nat limit)
           (sort_key (\<lambda>i. - int (length (filter (\<lambda>l. i_product_id l = i) (order_items d)))) ids))), d))"

definition hotProductIds :: "int \<Rightarrow> ('r card_state, thrown, string list) exec" where
  "hotProductIds limit = repoE (sql_hot_products limit)"

section \<open>The service\<close>

definition CACHE_TTL_BASE_SEC :: int where "CACHE_TTL_BASE_SEC = 300"
definition CACHE_TTL_JITTER_SEC :: int where "CACHE_TTL_JITTER_SEC = 60"
definition LOCK_TTL_MS :: int where "LOCK_TTL_MS = 5000"
definition WAIT_POLL_MS :: int where "WAIT_POLL_MS = 20"

definition WAIT_POLLS :: nat where
  "WAIT_POLLS = nat ((LOCK_TTL_MS + WAIT_POLL_MS - 1) div WAIT_POLL_MS)"

text \<open>\<open>Math.random()\<close> is \<open>n / 2^53\<close> for some \<open>n < 2^53\<close>.\<close>

definition cacheTtlSeconds :: "nat \<Rightarrow> int" where
  "cacheTtlSeconds n = CACHE_TTL_BASE_SEC + int n * (CACHE_TTL_JITTER_SEC + 1) div 2 ^ 53"

definition productCardKey :: "string \<Rightarrow> string" where
  "productCardKey productId = ''product-card:'' @ productId"

definition productCardLockKey :: "string \<Rightarrow> string" where
  "productCardLockKey productId = ''lock:product-card:'' @ productId"

definition unlock_lua :: "'r redis_cmds \<Rightarrow> string \<Rightarrow> string \<Rightarrow> 'r \<Rightarrow> int list \<times> 'r" where
  "unlock_lua cmds key token s =
     (if lua_get cmds key s = Some token then (case lua_del cmds key s of (n, s') \<Rightarrow> ([n], s')) else ([0], s))"

text \<open>\<open>None\<close> is \<open>undefined\<close>: nothing cached. \<open>Some None\<close> is a cached absence.\<close>

definition readCache :: "'r redis_cmds \<Rightarrow> string \<Rightarrow> ('r card_state, thrown, product_card option option) exec" where
  "readCache cmds key =
     bindE (redisE (rd_get cmds key)) (\<lambda>raw.
       case raw of
         None \<Rightarrow> returnE None
       | Some t \<Rightarrow> (case parse_cached t of Inl e \<Rightarrow> throwE e | Inr p \<Rightarrow> returnE (Some p)))"

definition writeCache ::
  "'r redis_cmds \<Rightarrow> nat \<Rightarrow> string \<Rightarrow> product_card option \<Rightarrow> ('r card_state, thrown, unit) exec" where
  "writeCache cmds rnd key payload =
     catchE (redisE (rd_set_ex cmds key (print_cached payload) (cacheTtlSeconds rnd))) (\<lambda>_. returnE ())"

fun wait_card ::
  "'r redis_cmds \<Rightarrow> ('r \<Rightarrow> 'r) \<Rightarrow> string \<Rightarrow> nat \<Rightarrow> ('r card_state, thrown, product_card option) exec" where
  "wait_card cmds sleep productId 0 = throwE (PlainError (''cache wait timed out for product '' @ productId))"
| "wait_card cmds sleep productId (Suc n) = (\<lambda>s.
     bindE (readCache cmds (productCardKey productId)) (\<lambda>waited.
       case waited of Some p \<Rightarrow> returnE p | None \<Rightarrow> wait_card cmds sleep productId n)
     (s\<lparr>cs_redis := sleep (cs_redis s)\<rparr>))"

definition getCard ::
  "'r redis_cmds \<Rightarrow> ('r \<Rightarrow> 'r) \<Rightarrow> string \<Rightarrow> nat \<Rightarrow> string \<Rightarrow> ('r card_state, thrown, product_card option) exec" where
  "getCard cmds sleep token rnd productId =
     (let key = productCardKey productId; lockKey = productCardLockKey productId
      in bindE (readCache cmds key) (\<lambda>cached.
           case cached of
             Some p \<Rightarrow> returnE p
           | None \<Rightarrow>
               bindE (redisE (rd_set_px_nx cmds lockKey token LOCK_TTL_MS)) (\<lambda>acquired.
                 if acquired then
                   finallyE
                     (bindE (readCache cmds key) (\<lambda>again.
                        case again of
                          Some p \<Rightarrow> returnE p
                        | None \<Rightarrow> bindE (load_card productId) (\<lambda>card.
                            bindE (writeCache cmds rnd key card) (\<lambda>_. returnE card))))
                     (bindE (redisE (rd_eval cmds (unlock_lua cmds lockKey token))) (\<lambda>_. returnE ()))
                 else wait_card cmds sleep productId WAIT_POLLS)))"

definition refresh :: "'r redis_cmds \<Rightarrow> nat \<Rightarrow> string \<Rightarrow> ('r card_state, thrown, unit) exec" where
  "refresh cmds rnd productId =
     bindE (load_card productId) (\<lambda>card. writeCache cmds rnd (productCardKey productId) card)"

section \<open>The endpoint\<close>

definition getCard_endpoint ::
  "'r redis_cmds \<Rightarrow> ('r \<Rightarrow> 'r) \<Rightarrow> string \<Rightarrow> nat \<Rightarrow> string \<Rightarrow> ('r card_state, thrown, product_card) exec" where
  "getCard_endpoint cmds sleep token rnd i =
     bindE (getCard cmds sleep token rnd i) (\<lambda>card.
       case card of
         None \<Rightarrow> throwE (mk_problem 404 ''https://marketplace.local/problems/product-not-found'' ''Product not found''
           ''Product with the given id does not exist'' (''/v1/products/'' @ i))
       | Some c \<Rightarrow> returnE c)"

section \<open>What the service returns\<close>

lemma cacheTtlSeconds_bounds:
  assumes "n < 2 ^ 53" shows "300 \<le> cacheTtlSeconds n \<and> cacheTtlSeconds n \<le> 360"
proof -
  have "int n < 9007199254740992" using assms by simp
  then have "0 \<le> int n * 61 div 9007199254740992" "int n * 61 div 9007199254740992 < 61" by linarith+
  then show ?thesis by (simp add: cacheTtlSeconds_def CACHE_TTL_BASE_SEC_def CACHE_TTL_JITTER_SEC_def)
qed

lemma lock_not_key [simp]: "productCardLockKey i \<noteq> productCardKey j" "productCardKey j \<noteq> productCardLockKey i"
  by (simp_all add: productCardLockKey_def productCardKey_def)

lemma load_card_run:
  "load_card i s = (fst (query (sql_load_card i) (cs_world s)),
     s\<lparr>cs_world := snd (query (sql_load_card i) (cs_world s)), cs_dbCalls := Suc (cs_dbCalls s)\<rparr>)"
  by (simp add: load_card_def repoE_def split: prod.splits)

context redis_strings
begin

lemma readCache_hit:
  "peek (cs_redis s) key = Some (print_cached p, d) \<Longrightarrow> readCache cmds key s = (Inr (Some p), s)"
  by (simp add: readCache_def bindE_def redisE_def get)

lemma readCache_miss: "peek (cs_redis s) key = None \<Longrightarrow> readCache cmds key s = (Inr None, s)"
  by (simp add: readCache_def bindE_def redisE_def get)

lemma writeCache_run:
  assumes "rnd < 2 ^ 53"
  obtains r where "writeCache cmds rnd key p s = (Inr (), s\<lparr>cs_redis := r\<rparr>)" "clock r = clock (cs_redis s)"
    "peek r = (peek (cs_redis s))(key \<mapsto> (print_cached p, clock (cs_redis s) + 1000 * cacheTtlSeconds rnd))"
proof -
  have "0 < cacheTtlSeconds rnd" using cacheTtlSeconds_bounds [OF assms] by simp
  from set_ex [OF this, of key "print_cached p" "cs_redis s"] show ?thesis
    using that by (auto simp: writeCache_def catchE_def redisE_def)
qed

lemma unlock_run:
  assumes "peek (cs_redis s) k = Some (token, d)"
  obtains r where "bindE (redisE (rd_eval cmds (unlock_lua cmds k token))) (\<lambda>_. returnE ()) s = (Inr (), s\<lparr>cs_redis := r\<rparr>)"
    "peek r = (peek (cs_redis s))(k := None)"
proof -
  obtain n r where u: "lua_del cmds k (cs_redis s) = (n, r)" by fastforce
  then have "unlock_lua cmds k token (cs_redis s) = ([n], r)" using assms by (simp add: unlock_lua_def script_get)
  then have "rd_eval cmds (unlock_lua cmds k token) (cs_redis s) = (Inr [n], r)"
    using eval_run [of "unlock_lua cmds k token" "cs_redis s"] by auto
  moreover have "peek r = (peek (cs_redis s))(k := None)" using script_del [of k "cs_redis s"] u by simp
  ultimately show ?thesis using that [of r] by (simp add: bindE_def redisE_def)
qed

lemma getCard_fill:
  assumes "peek (cs_redis s) (productCardKey i) = None" and "peek (cs_redis s) (productCardLockKey i) = None"
    and "rnd < 2 ^ 53" and q: "query (sql_load_card i) (cs_world s) = (x, w)"
  obtains r where "getCard cmds sleep token rnd i s = (x, \<lparr>cs_redis = r, cs_world = w, cs_dbCalls = Suc (cs_dbCalls s)\<rparr>)"
    "peek r = (case x of Inl e \<Rightarrow> peek (cs_redis s)
       | Inr p \<Rightarrow> (peek (cs_redis s))(productCardKey i \<mapsto> (print_cached p, clock (cs_redis s) + 1000 * cacheTtlSeconds rnd)))"
proof -
  let ?k = "productCardKey i" and ?l = "productCardLockKey i" and ?r0 = "cs_redis s"
  have "0 < LOCK_TTL_MS" by (simp add: LOCK_TTL_MS_def)
  from set_nx [OF this, of ?l token ?r0] assms(2) obtain r1 where
    lock: "rd_set_px_nx cmds ?l token LOCK_TTL_MS ?r0 = (Inr True, r1)" "clock r1 = clock ?r0"
    "peek r1 = (peek ?r0)(?l \<mapsto> (token, clock ?r0 + LOCK_TTL_MS))" by auto
  let ?s1 = "s\<lparr>cs_redis := r1\<rparr>"
  have miss: "readCache cmds ?k s = (Inr None, s)" "readCache cmds ?k ?s1 = (Inr None, ?s1)"
    using assms(1) lock(3) by (simp_all add: readCache_miss)
  let ?s2 = "?s1\<lparr>cs_world := w, cs_dbCalls := Suc (cs_dbCalls s)\<rparr>"
  have load: "load_card i ?s1 = (x, ?s2)" using q by (simp add: load_card_run)
  show ?thesis
  proof (cases x)
    case (Inl e)
    obtain r where "bindE (redisE (rd_eval cmds (unlock_lua cmds ?l token))) (\<lambda>_. returnE ()) ?s2 = (Inr (), ?s2\<lparr>cs_redis := r\<rparr>)"
      "peek r = (peek (cs_redis ?s2))(?l := None)"
      by (rule unlock_run [of ?s2 ?l token "clock ?r0 + LOCK_TTL_MS"]) (simp_all add: lock(3))
    moreover from this have "peek r = peek ?r0" using lock(3) assms(2) by (simp add: fun_upd_idem)
    ultimately show ?thesis using that [of r] Inl miss lock(1) load
      by (simp add: getCard_def Let_def bindE_def redisE_def finallyE_def)
  next
    case (Inr p)
    obtain r2 where w2: "writeCache cmds rnd ?k p ?s2 = (Inr (), ?s2\<lparr>cs_redis := r2\<rparr>)"
      "peek r2 = (peek r1)(?k \<mapsto> (print_cached p, clock ?r0 + 1000 * cacheTtlSeconds rnd))"
      using lock(2) by (rule_tac writeCache_run [OF assms(3), of ?k p ?s2]) simp
    let ?s3 = "?s2\<lparr>cs_redis := r2\<rparr>"
    obtain r where u: "bindE (redisE (rd_eval cmds (unlock_lua cmds ?l token))) (\<lambda>_. returnE ()) ?s3 = (Inr (), ?s3\<lparr>cs_redis := r\<rparr>)"
      "peek r = (peek (cs_redis ?s3))(?l := None)"
      by (rule unlock_run [of ?s3 ?l token "clock ?r0 + LOCK_TTL_MS"]) (simp_all add: lock(3) w2(2))
    have "peek r = (peek ?r0)(?k \<mapsto> (print_cached p, clock ?r0 + 1000 * cacheTtlSeconds rnd))"
      using u(2) w2(2) lock(3) assms(2) by (auto simp: fun_eq_iff)
    then show ?thesis using that [of r] Inr miss lock(1) load w2(1) u(1)
      by (simp add: getCard_def Let_def bindE_def redisE_def finallyE_def)
  qed
qed

lemma wait_card_run:
  assumes "\<And>j. j < n \<Longrightarrow> peek ((sleep ^^ Suc j) (cs_redis s)) (productCardKey i) = None"
  shows "wait_card cmds sleep i (n + m) s = wait_card cmds sleep i m (s\<lparr>cs_redis := (sleep ^^ n) (cs_redis s)\<rparr>)"
  using assms
proof (induction n arbitrary: s)
  case (Suc n)
  let ?s1 = "s\<lparr>cs_redis := sleep (cs_redis s)\<rparr>"
  have "readCache cmds (productCardKey i) ?s1 = (Inr None, ?s1)"
    using Suc.prems [of 0] by (simp add: readCache_miss)
  moreover have "wait_card cmds sleep i (n + m) ?s1 = wait_card cmds sleep i m (?s1\<lparr>cs_redis := (sleep ^^ n) (cs_redis ?s1)\<rparr>)"
  proof (rule Suc.IH)
    fix j assume "j < n"
    then have "peek ((sleep ^^ Suc (Suc j)) (cs_redis s)) (productCardKey i) = None" using Suc.prems [of "Suc j"] by simp
    then show "peek ((sleep ^^ Suc j) (cs_redis ?s1)) (productCardKey i) = None" by (simp add: funpow_swap1)
  qed
  ultimately show ?case by (simp add: bindE_def funpow_swap1)
qed simp

lemma getCard_wait:
  assumes "peek (cs_redis s) (productCardKey i) = None" and "peek (cs_redis s) (productCardLockKey i) \<noteq> None"
  obtains r where "getCard cmds sleep token rnd i s = wait_card cmds sleep i WAIT_POLLS (s\<lparr>cs_redis := r\<rparr>)"
    "peek r = peek (cs_redis s)" "clock r = clock (cs_redis s)"
proof -
  have "0 < LOCK_TTL_MS" by (simp add: LOCK_TTL_MS_def)
  from set_nx [OF this, of "productCardLockKey i" token "cs_redis s"] assms(2) obtain r where
    "rd_set_px_nx cmds (productCardLockKey i) token LOCK_TTL_MS (cs_redis s) = (Inr False, r)"
    "peek r = peek (cs_redis s)" "clock r = clock (cs_redis s)" by auto
  then show ?thesis using that [of r] readCache_miss [OF assms(1)]
    by (simp add: getCard_def Let_def bindE_def redisE_def)
qed

lemma wait_card_hit:
  assumes "\<And>j. j < n \<Longrightarrow> peek ((sleep ^^ Suc j) (cs_redis s)) (productCardKey i) = None"
    and "peek ((sleep ^^ Suc n) (cs_redis s)) (productCardKey i) = Some (print_cached p, d)" and "n < m"
  shows "wait_card cmds sleep i m s = (Inr p, s\<lparr>cs_redis := (sleep ^^ Suc n) (cs_redis s)\<rparr>)"
proof -
  obtain k where m: "m = n + Suc k" using assms(3) by (metis add_Suc_right less_iff_Suc_add)
  have "readCache cmds (productCardKey i) (s\<lparr>cs_redis := (sleep ^^ Suc n) (cs_redis s)\<rparr>)
      = (Inr (Some p), s\<lparr>cs_redis := (sleep ^^ Suc n) (cs_redis s)\<rparr>)"
    using assms(2) by (intro readCache_hit) simp
  moreover have "wait_card cmds sleep i (n + Suc k) s = wait_card cmds sleep i (Suc k) (s\<lparr>cs_redis := (sleep ^^ n) (cs_redis s)\<rparr>)"
    by (rule wait_card_run) (rule assms(1))
  ultimately show ?thesis unfolding m by (simp add: bindE_def)
qed

lemma wait_card_timeout:
  assumes "\<And>j. j < m \<Longrightarrow> peek ((sleep ^^ Suc j) (cs_redis s)) (productCardKey i) = None"
  shows "wait_card cmds sleep i m s
    = (Inl (PlainError (''cache wait timed out for product '' @ i)), s\<lparr>cs_redis := (sleep ^^ m) (cs_redis s)\<rparr>)"
proof -
  have "wait_card cmds sleep i (m + 0) s = wait_card cmds sleep i 0 (s\<lparr>cs_redis := (sleep ^^ m) (cs_redis s)\<rparr>)"
    by (rule wait_card_run) (rule assms)
  then show ?thesis by simp
qed

end

section \<open>Properties\<close>

text \<open>
  (C29) Reading a card on a healthy cache. A hit is answered from the cache, without a database call
  and without any change, and a stored payload is read back exactly. A miss with a free lock makes
  one database call, returns its outcome, leaves the lock free again, and on success caches the card
  for 300 to 360 seconds; on failure it caches nothing. A miss with a busy lock makes no database call:
  it polls, returns what another request has cached meanwhile, and gives up after as many polls as the
  lock can live.
\<close>

theorem getCard_outcome:
  assumes "redis_strings cmds peek clock pass" and "rnd < 2 ^ 53"
  shows
   "(peek (cs_redis s) (productCardKey i) = Some (print_cached p, d) \<longrightarrow> getCard cmds sleep token rnd i s = (Inr p, s))
    \<and> (peek (cs_redis s) (productCardKey i) = None \<and> peek (cs_redis s) (productCardLockKey i) = None \<longrightarrow>
        (\<exists>r x w. query (sql_load_card i) (cs_world s) = (x, w)
          \<and> getCard cmds sleep token rnd i s = (x, \<lparr>cs_redis = r, cs_world = w, cs_dbCalls = Suc (cs_dbCalls s)\<rparr>)
          \<and> peek r = (case x of Inl e \<Rightarrow> peek (cs_redis s) | Inr c \<Rightarrow>
              (peek (cs_redis s))(productCardKey i \<mapsto> (print_cached c, clock (cs_redis s) + 1000 * cacheTtlSeconds rnd)))
          \<and> 300 \<le> cacheTtlSeconds rnd \<and> cacheTtlSeconds rnd \<le> 360))
    \<and> (peek (cs_redis s) (productCardKey i) = None \<and> peek (cs_redis s) (productCardLockKey i) \<noteq> None \<longrightarrow>
        (\<exists>r. peek r = peek (cs_redis s)
          \<and> (\<forall>n c e. n < WAIT_POLLS \<and> (\<forall>j<n. peek ((sleep ^^ Suc j) r) (productCardKey i) = None)
                \<and> peek ((sleep ^^ Suc n) r) (productCardKey i) = Some (print_cached c, e)
              \<longrightarrow> getCard cmds sleep token rnd i s = (Inr c, s\<lparr>cs_redis := (sleep ^^ Suc n) r\<rparr>))
          \<and> ((\<forall>j<WAIT_POLLS. peek ((sleep ^^ Suc j) r) (productCardKey i) = None)
              \<longrightarrow> getCard cmds sleep token rnd i s
                = (Inl (PlainError (''cache wait timed out for product '' @ i)), s\<lparr>cs_redis := (sleep ^^ WAIT_POLLS) r\<rparr>))))
    \<and> LOCK_TTL_MS \<le> int WAIT_POLLS * WAIT_POLL_MS"
proof (intro conjI impI)
  assume "peek (cs_redis s) (productCardKey i) = Some (print_cached p, d)"
  then show "getCard cmds sleep token rnd i s = (Inr p, s)"
    using redis_strings.readCache_hit [OF assms(1)] by (simp add: getCard_def Let_def bindE_def)
next
  assume free: "peek (cs_redis s) (productCardKey i) = None \<and> peek (cs_redis s) (productCardLockKey i) = None"
  obtain x w where q: "query (sql_load_card i) (cs_world s) = (x, w)" by fastforce
  from redis_strings.getCard_fill [OF assms(1) conjunct1 [OF free] conjunct2 [OF free] assms(2) q]
  obtain r where "getCard cmds sleep token rnd i s = (x, \<lparr>cs_redis = r, cs_world = w, cs_dbCalls = Suc (cs_dbCalls s)\<rparr>)"
    "peek r = (case x of Inl e \<Rightarrow> peek (cs_redis s) | Inr c \<Rightarrow>
       (peek (cs_redis s))(productCardKey i \<mapsto> (print_cached c, clock (cs_redis s) + 1000 * cacheTtlSeconds rnd)))"
    by blast
  then show "\<exists>r x w. query (sql_load_card i) (cs_world s) = (x, w)
          \<and> getCard cmds sleep token rnd i s = (x, \<lparr>cs_redis = r, cs_world = w, cs_dbCalls = Suc (cs_dbCalls s)\<rparr>)
          \<and> peek r = (case x of Inl e \<Rightarrow> peek (cs_redis s) | Inr c \<Rightarrow>
              (peek (cs_redis s))(productCardKey i \<mapsto> (print_cached c, clock (cs_redis s) + 1000 * cacheTtlSeconds rnd)))
          \<and> 300 \<le> cacheTtlSeconds rnd \<and> cacheTtlSeconds rnd \<le> 360"
    using q cacheTtlSeconds_bounds [OF assms(2)] by blast
next
  assume busy: "peek (cs_redis s) (productCardKey i) = None \<and> peek (cs_redis s) (productCardLockKey i) \<noteq> None"
  obtain r where r: "getCard cmds sleep token rnd i s = wait_card cmds sleep i WAIT_POLLS (s\<lparr>cs_redis := r\<rparr>)"
    "peek r = peek (cs_redis s)"
    using redis_strings.getCard_wait [OF assms(1) conjunct1 [OF busy] conjunct2 [OF busy]] by metis
  note hit = redis_strings.wait_card_hit [OF assms(1), of _ sleep "s\<lparr>cs_redis := r\<rparr>" i]
  note miss = redis_strings.wait_card_timeout [OF assms(1), of WAIT_POLLS sleep "s\<lparr>cs_redis := r\<rparr>" i]
  show "\<exists>r. peek r = peek (cs_redis s)
          \<and> (\<forall>n c e. n < WAIT_POLLS \<and> (\<forall>j<n. peek ((sleep ^^ Suc j) r) (productCardKey i) = None)
                \<and> peek ((sleep ^^ Suc n) r) (productCardKey i) = Some (print_cached c, e)
              \<longrightarrow> getCard cmds sleep token rnd i s = (Inr c, s\<lparr>cs_redis := (sleep ^^ Suc n) r\<rparr>))
          \<and> ((\<forall>j<WAIT_POLLS. peek ((sleep ^^ Suc j) r) (productCardKey i) = None)
              \<longrightarrow> getCard cmds sleep token rnd i s
                = (Inl (PlainError (''cache wait timed out for product '' @ i)), s\<lparr>cs_redis := (sleep ^^ WAIT_POLLS) r\<rparr>))"
    unfolding r(1) using r(2) hit miss by (intro exI [of _ r]) auto
qed (simp add: LOCK_TTL_MS_def WAIT_POLLS_def WAIT_POLL_MS_def)

definition card_world :: world where
  "card_world = \<lparr>w_db = \<lparr>users = [], categories = [], products = [\<lparr>p_id = 1, p_name = ''Lamp'', p_description = [], p_price_cents = 100,
       p_stock = 5, p_is_active = True, p_seller_id = 1, p_category_id = None\<rparr>],
     orders = [], order_items = [\<lparr>i_id = 1, i_order_id = 1, i_product_id = 1, i_quantity = 2, i_unit_price_cents = 100\<rparr>,
       \<lparr>i_id = 2, i_order_id = 2, i_product_id = 1, i_quantity = 1, i_unit_price_cents = 100\<rparr>],
     jobs = [], outbox = [], idempotency_keys = [],
     order_placed_effects = [], order_placed_deliveries = [], processed_messages = [],
     users_seq = 1, categories_seq = 1, products_seq = 2, orders_seq = 3, order_items_seq = 3, jobs_seq = 1, outbox_seq = 1, deliveries_seq = 1, now = 0\<rparr>,
     w_rng = 0, w_sched = []\<rparr>"

theorem getCard_outcome_witness:
  "fst (getCard mem_cmds (mem_pass 20) ''tok'' 0 ''1'' \<lparr>cs_redis = mem_start, cs_world = card_world, cs_dbCalls = 0\<rparr>)
     = Inr (Some \<lparr>pc_id = ''1'', pc_name = ''Lamp'', pc_stock = 5, pc_priceCents = 100, pc_rating = 150, pc_orderLines = 2\<rparr>)
   \<and> cs_dbCalls (snd (getCard mem_cmds (mem_pass 20) ''tok'' 0 ''1''
       \<lparr>cs_redis = mem_start, cs_world = card_world, cs_dbCalls = 0\<rparr>)) = 1"
proof -
  let ?s = "\<lparr>cs_redis = mem_start, cs_world = card_world, cs_dbCalls = 0\<rparr>"
  have none: "mem_peek (cs_redis ?s) k = None" for k by (simp add: mem_peek_def mem_start_def)
  have q: "fst (query (sql_load_card ''1'') (cs_world ?s)) = Inr (Some \<lparr>pc_id = ''1'', pc_name = ''Lamp'', pc_stock = 5,
      pc_priceCents = 100, pc_rating = 150, pc_orderLines = 2\<rparr>)" by code_simp
  have "(0::nat) < 2 ^ 53" by simp
  from getCard_outcome [OF mem_strings.redis_strings_axioms this, of ?s "''1''" None 0 "mem_pass 20" "''tok''"] none q
  show ?thesis by auto
qed

end
