(* ===== verification/RatingQueue.thy ===== *)
theory RatingQueue
  imports ProductCard
begin

text \<open>
  \<open>src/queue\<close>: the producer and the worker of the rating queue. BullMQ is a parameter, a record of the
  operations the code calls on a queue server of any type; what the code relies on of it is the locale
  \<open>bull_laws\<close>.
\<close>

section \<open>Constants\<close>

definition RATING_QUEUE :: string where "RATING_QUEUE = ''rating-recalc''"
definition RECALC_JOB :: string where "RECALC_JOB = ''recalc-rating''"
definition SWEEP_JOB :: string where "SWEEP_JOB = ''rating-sweep''"
definition SWEEP_SCHEDULER_ID :: string where "SWEEP_SCHEDULER_ID = ''rating-sweep''"
definition QUEUE_PREFIX :: string where "QUEUE_PREFIX = ''hw23''"
definition SWEEP_EVERY_MS :: int where "SWEEP_EVERY_MS = 10 * 60 * 1000"
definition HOT_PRODUCTS :: int where "HOT_PRODUCTS = 20"

record rating_job =
  rj_id :: string
  rj_name :: string
  rj_productId :: "string option"

record 'q bull_ops =
  bq_add :: "rating_job \<Rightarrow> 'q \<Rightarrow> (thrown + unit) \<times> 'q"
  bq_close :: "'q \<Rightarrow> (thrown + unit) \<times> 'q"
  bq_upsertJobScheduler :: "string \<Rightarrow> int \<Rightarrow> string \<Rightarrow> 'q \<Rightarrow> (thrown + unit) \<times> 'q"
  bq_waitUntilReady :: "'q \<Rightarrow> (thrown + unit) \<times> 'q"

section \<open>The producer\<close>

record 'q producer =
  pr_open :: bool
  pr_server :: 'q

definition serverE :: "('q, thrown, 'a) exec \<Rightarrow> ('q producer, thrown, 'a) exec" where
  "serverE f s = (case f (pr_server s) of (x, q) \<Rightarrow> (x, s\<lparr>pr_server := q\<rparr>))"

lemma serverE_run: "m (pr_server s) = (x, q) \<Longrightarrow> serverE m s = (x, s\<lparr>pr_server := q\<rparr>)"
  by (simp add: serverE_def)

definition open_queue :: "string option \<Rightarrow> ('q producer, thrown, unit) exec" where
  "open_queue url s =
     (if pr_open s then (Inr (), s)
      else (case url of
          None \<Rightarrow> (Inl (PlainError ''REDIS_QUEUE_URL is required''), s)
        | Some u \<Rightarrow> if u = [] then (Inl (PlainError ''REDIS_QUEUE_URL is required''), s)
            else (Inr (), s\<lparr>pr_open := True\<rparr>)))"

text \<open>\<open>[...new Set(xs)]\<close>: the first occurrences, in order.\<close>

fun js_unique :: "'a list \<Rightarrow> 'a list" where
  "js_unique [] = []"
| "js_unique (x # xs) = x # js_unique (filter (\<lambda>y. y \<noteq> x) xs)"

text \<open>\<open>Promise.all\<close>: every call is made; the first rejection is the outcome.\<close>

fun all_calls :: "('s, 'e, unit) exec list \<Rightarrow> ('s, 'e, unit) exec" where
  "all_calls [] s = (Inr (), s)"
| "all_calls (m # ms) s =
     (case m s of
        (Inl e, s1) \<Rightarrow> (Inl e, snd (all_calls ms s1))
      | (Inr _, s1) \<Rightarrow> all_calls ms s1)"

definition recalc_job :: "string \<Rightarrow> string \<Rightarrow> rating_job" where
  "recalc_job orderId productId = \<lparr>rj_id = ''recalc-'' @ orderId @ ''-'' @ productId, rj_name = RECALC_JOB,
     rj_productId = Some productId\<rparr>"

definition enqueueRecalc ::
  "'q bull_ops \<Rightarrow> string option \<Rightarrow> string \<Rightarrow> string list \<Rightarrow> ('q producer, thrown, unit) exec" where
  "enqueueRecalc ops url orderId productIds =
     bindE (open_queue url) (\<lambda>_.
       catchE (all_calls (map (\<lambda>p. serverE (bq_add ops (recalc_job orderId p))) (js_unique productIds)))
         (\<lambda>err s. bindE (serverE (bq_close ops)) (\<lambda>_. throwE err) (s\<lparr>pr_open := False\<rparr>)))"

definition enqueueRecalcInBackground ::
  "'q bull_ops \<Rightarrow> string option \<Rightarrow> string \<Rightarrow> string list \<Rightarrow> 'q producer \<Rightarrow> 'q producer" where
  "enqueueRecalcInBackground ops url orderId productIds s = snd (enqueueRecalc ops url orderId productIds s)"

definition upsertSweepScheduler :: "'q bull_ops \<Rightarrow> int \<Rightarrow> ('q, thrown, unit) exec" where
  "upsertSweepScheduler ops everyMs = bq_upsertJobScheduler ops SWEEP_SCHEDULER_ID everyMs SWEEP_JOB"

definition producer_onModuleDestroy :: "'q bull_ops \<Rightarrow> ('q producer, thrown, unit) exec" where
  "producer_onModuleDestroy ops s = (if pr_open s then serverE (bq_close ops) s else (Inr (), s))"

section \<open>The worker\<close>

definition onApplicationBootstrap :: "'q bull_ops \<Rightarrow> string option \<Rightarrow> ('q, thrown, unit) exec" where
  "onApplicationBootstrap ops url =
     (case url of
        None \<Rightarrow> throwE (PlainError ''REDIS_QUEUE_URL is required'')
      | Some u \<Rightarrow> if u = [] then throwE (PlainError ''REDIS_QUEUE_URL is required'')
          else bindE (bq_waitUntilReady ops) (\<lambda>_. upsertSweepScheduler ops SWEEP_EVERY_MS))"

text \<open>The worker and the scheduler are closed if they were created.\<close>

definition worker_onModuleDestroy :: "'q bull_ops \<Rightarrow> bool \<Rightarrow> bool \<Rightarrow> ('q, thrown, unit) exec" where
  "worker_onModuleDestroy ops hasWorker hasScheduler =
     bindE (whenE hasWorker (bq_close ops)) (\<lambda>_. whenE hasScheduler (bq_close ops))"

fun refresh_all :: "'r redis_cmds \<Rightarrow> nat list \<Rightarrow> string list \<Rightarrow> ('r card_state, thrown, unit) exec" where
  "refresh_all cmds rnds [] = returnE ()"
| "refresh_all cmds rnds (p # ps) =
     bindE (refresh cmds (case rnds of [] \<Rightarrow> 0 | r # _ \<Rightarrow> r) p) (\<lambda>_. refresh_all cmds (tl rnds) ps)"

text \<open>The random numbers of the refreshes are an argument.\<close>

definition process_job :: "'r redis_cmds \<Rightarrow> nat list \<Rightarrow> rating_job \<Rightarrow> ('r card_state, thrown, unit) exec" where
  "process_job cmds rnds job =
     (if rj_name job = SWEEP_JOB then
        bindE (hotProductIds HOT_PRODUCTS) (\<lambda>ids. refresh_all cmds rnds ids)
      else (case rj_productId job of
          None \<Rightarrow> returnE ()
        | Some p \<Rightarrow> if p = [] then returnE () else refresh_all cmds rnds [p]))"

section \<open>The queue server\<close>

text \<open>
  \<open>queued\<close> are the jobs the server knows, in the order they were added, finished ones included while
  their ids are kept. An \<open>add\<close> with a known id adds nothing.
\<close>

definition add_job :: "rating_job \<Rightarrow> rating_job list \<Rightarrow> rating_job list" where
  "add_job j js = (if rj_id j \<in> rj_id ` set js then js else js @ [j])"

locale bull_laws =
  fixes ops :: "'q bull_ops" and queued :: "'q \<Rightarrow> rating_job list"
  assumes add_ok: "bq_add ops j q = (Inr (), q') \<Longrightarrow> queued q' = add_job j (queued q)"
begin

lemma all_calls_Inr:
  "all_calls (map (\<lambda>p. serverE (bq_add ops (f p))) ps) s = (Inr (), s') \<Longrightarrow>
     queued (pr_server s') = fold (\<lambda>p. add_job (f p)) ps (queued (pr_server s)) \<and> pr_open s' = pr_open s"
proof (induction ps arbitrary: s)
  case (Cons p ps)
  obtain x q where a: "bq_add ops (f p) (pr_server s) = (x, q)" by fastforce
  have "x = Inr ()" using Cons.prems a by (cases x) (simp_all add: serverE_run)
  then have "all_calls (map (\<lambda>p. serverE (bq_add ops (f p))) ps) (s\<lparr>pr_server := q\<rparr>) = (Inr (), s')"
    using Cons.prems a by (simp add: serverE_run)
  from Cons.IH [OF this] show ?case using add_ok [OF a [unfolded \<open>x = Inr ()\<close>]] by simp
qed simp

end

section \<open>A queue in memory\<close>

definition mem_bull :: "rating_job list bull_ops" where
  "mem_bull = \<lparr>bq_add = (\<lambda>j q. (Inr (), add_job j q)), bq_close = (\<lambda>q. (Inr (), q)),
     bq_upsertJobScheduler = (\<lambda>i e n q. (Inr (), q)), bq_waitUntilReady = (\<lambda>q. (Inr (), q))\<rparr>"

interpretation bull: bull_laws mem_bull "\<lambda>q. q"
  by unfold_locales (auto simp: mem_bull_def)

section \<open>What is queued\<close>

lemma set_js_unique [simp]: "set (js_unique xs) = set xs"
  by (induction xs rule: js_unique.induct) auto

lemma distinct_js_unique: "distinct (js_unique xs)"
  by (induction xs rule: js_unique.induct) auto

lemma recalc_job_inj: "rj_id (recalc_job oid p) = rj_id (recalc_job oid p') \<longleftrightarrow> p = p'"
  by (simp add: recalc_job_def)

lemma fold_add_known: "\<forall>j \<in> set js. rj_id j \<in> rj_id ` set q \<Longrightarrow> fold add_job js q = q"
  by (induction js) (auto simp: add_job_def)

lemma fold_add_new:
  assumes "distinct (map rj_id js)"
  shows "fold add_job js q = q @ filter (\<lambda>j. rj_id j \<notin> rj_id ` set q) js"
  using assms
proof (induction js arbitrary: q)
  case (Cons j js)
  show ?case
  proof (cases "rj_id j \<in> rj_id ` set q")
    case True
    then show ?thesis using Cons by (simp add: add_job_def)
  next
    case False
    have "filter (\<lambda>x. rj_id x \<notin> rj_id ` set (q @ [j])) js = filter (\<lambda>x. rj_id x \<notin> rj_id ` set q) js"
      using Cons.prems by (intro filter_cong) (auto, metis imageI)
    then show ?thesis using Cons False by (simp add: add_job_def)
  qed
qed simp

lemma enqueueRecalc_Inr:
  assumes "bull_laws ops queued" and "enqueueRecalc ops url oid ps s = (Inr (), s')"
  shows "queued (pr_server s') = fold add_job (map (recalc_job oid) (js_unique ps)) (queued (pr_server s)) \<and> pr_open s'"
proof -
  obtain s1 where o: "open_queue url s = (Inr (), s1)"
    and c: "catchE (all_calls (map (\<lambda>p. serverE (bq_add ops (recalc_job oid p))) (js_unique ps)))
         (\<lambda>err s. bindE (serverE (bq_close ops)) (\<lambda>_. throwE err) (s\<lparr>pr_open := False\<rparr>)) s1 = (Inr (), s')"
    using assms(2) by (auto simp: enqueueRecalc_def elim!: bindE_InrE)
  have s1: "pr_server s1 = pr_server s" "pr_open s1"
    using o by (auto simp: open_queue_def split: if_splits option.splits)
  have "all_calls (map (\<lambda>p. serverE (bq_add ops (recalc_job oid p))) (js_unique ps)) s1 = (Inr (), s')"
    using c by (auto simp: catchE_def split: prod.splits sum.splits elim!: bindE_InrE)
  from bull_laws.all_calls_Inr [OF assms(1) this] show ?thesis using s1 by (simp add: fold_map comp_def)
qed

section \<open>Properties\<close>

text \<open>
  Asking for the ratings of an order is idempotent: a successful call leaves one job for every
  distinct product of the order, keeps the jobs that were there and adds no job twice; repeating it, for
  any list of the same products, adds nothing. The ids of the queued jobs stay distinct.
\<close>

theorem enqueueRecalc_idempotent:
  assumes "bull_laws ops queued" and "enqueueRecalc ops url oid ps s = (Inr (), s')"
    and "enqueueRecalc ops url oid ps' s' = (Inr (), s'')" and "set ps' \<subseteq> set ps"
  shows "queued (pr_server s') = queued (pr_server s)
      @ filter (\<lambda>j. rj_id j \<notin> rj_id ` set (queued (pr_server s))) (map (recalc_job oid) (js_unique ps))
    \<and> queued (pr_server s'') = queued (pr_server s')
    \<and> (distinct (map rj_id (queued (pr_server s))) \<longrightarrow> distinct (map rj_id (queued (pr_server s'))))"
proof -
  let ?js = "map (recalc_job oid) (js_unique ps)" and ?q = "queued (pr_server s)"
  have dist: "distinct (map rj_id ?js)"
    using distinct_js_unique [of ps] by (simp add: distinct_map inj_on_def recalc_job_inj recalc_job_def)
  have s': "queued (pr_server s') = ?q @ filter (\<lambda>j. rj_id j \<notin> rj_id ` set ?q) ?js"
    using enqueueRecalc_Inr [OF assms(1,2)] fold_add_new [OF dist] by simp
  have known: "\<forall>j \<in> set (map (recalc_job oid) (js_unique ps')). rj_id j \<in> rj_id ` set (queued (pr_server s'))"
    unfolding s' using assms(4) by auto
  have "queued (pr_server s'') = queued (pr_server s')"
    using enqueueRecalc_Inr [OF assms(1,3)] fold_add_known [OF known] by simp
  moreover have "distinct (map rj_id (queued (pr_server s')))" if "distinct (map rj_id ?q)"
    unfolding s' using that dist by (auto simp: distinct_map_filter) (metis imageI)
  ultimately show ?thesis using s' by blast
qed

theorem enqueueRecalc_idempotent_witness:
  "\<exists>s'. enqueueRecalc mem_bull (Some ''redis://q'') ''1'' [''2'', ''1'', ''2''] \<lparr>pr_open = False, pr_server = []\<rparr> = (Inr (), s')
     \<and> map rj_id (pr_server s') = [''recalc-1-2'', ''recalc-1-1'']
     \<and> (\<exists>s''. enqueueRecalc mem_bull (Some ''redis://q'') ''1'' [''2''] s' = (Inr (), s'') \<and> pr_server s'' = pr_server s')"
proof -
  let ?s = "\<lparr>pr_open = False, pr_server = []\<rparr> :: rating_job list producer"
  let ?s' = "\<lparr>pr_open = True, pr_server = map (recalc_job ''1'') [''2'', ''1'']\<rparr> :: rating_job list producer"
  have e: "enqueueRecalc mem_bull (Some ''redis://q'') ''1'' [''2'', ''1'', ''2''] ?s = (Inr (), ?s')" by code_simp
  obtain s'' where e2: "enqueueRecalc mem_bull (Some ''redis://q'') ''1'' [''2''] ?s' = (Inr (), s'')"
    by (simp add: enqueueRecalc_def open_queue_def bindE_def catchE_def serverE_def mem_bull_def)
  have "pr_server s'' = pr_server ?s'"
    using enqueueRecalc_idempotent [OF bull.bull_laws_axioms e e2] by simp
  then show ?thesis using e e2 by (intro exI [of _ ?s']) (auto simp: recalc_job_def)
qed

end
