(* ===== verification/QueueDemo.thy ===== *)
theory QueueDemo
  imports RatingQueue
begin

text \<open>
  \<open>src/demo/demo-queue.ts\<close>: a queue of its own on which a job is added twice under one id, fails twice and
  succeeds, while a scheduler that was registered twice adds sweep jobs. BullMQ is a parameter: the operations
  the program calls, and what the library does by itself, that is, to hand an open job to the processor, to
  record how it ended and to let a scheduler add a job. The locale \<open>queue_laws\<close> states what the program relies
  on of it. When the library does something is the argument \<open>idle\<close> or \<open>sleeps\<close>: a list of events for
  every time the program waits.
\<close>

section \<open>Jobs and options\<close>

definition JOB_ID :: string where "JOB_ID = ''recalc-rating-catalog''"
definition DEMO_SWEEP_EVERY_MS :: int where "DEMO_SWEEP_EVERY_MS = 300"
definition DEMO_QUEUE :: string where "DEMO_QUEUE = RATING_QUEUE @ ''-demo''"

text \<open>The options of a job; the jitter of the backoff is in hundredths.\<close>

record jobs_options =
  jo_attempts :: nat
  jo_backoff_delay :: nat
  jo_backoff_jitter :: nat
  jo_removeOnComplete_age :: nat
  jo_removeOnFail_age :: nat

definition ratingJobOptions :: jobs_options where
  "ratingJobOptions = \<lparr>jo_attempts = 3, jo_backoff_delay = 50, jo_backoff_jitter = 50, jo_removeOnComplete_age = 3600,
     jo_removeOnFail_age = 3600\<rparr>"

record demo_job_data = rating_job +
  dj_failUntilAttempt :: "nat option"

record rating_counters =
  rc_attempts :: nat
  rc_scheduledRuns :: nat

definition processDemoJob :: "demo_job_data \<Rightarrow> (rating_counters, thrown, unit) exec" where
  "processDemoJob job c =
     (if rj_name job = SWEEP_JOB then (Inr (), c\<lparr>rc_scheduledRuns := rc_scheduledRuns c + 1\<rparr>)
      else let c' = c\<lparr>rc_attempts := rc_attempts c + 1\<rparr>
           in if rc_attempts c' \<le> (case dj_failUntilAttempt job of None \<Rightarrow> 0 | Some n \<Rightarrow> n)
              then (Inl (PlainError ''rating upstream unavailable''), c') else (Inr (), c'))"

section \<open>The library\<close>

record job_counts =
  jc_waiting :: "nat option"
  jc_delayed :: "nat option"
  jc_active :: "nat option"
  jc_prioritized :: "nat option"

record 'q queue_ops =
  qo_bull :: "'q bull_ops"
  qo_add :: "jobs_options \<Rightarrow> demo_job_data \<Rightarrow> 'q \<Rightarrow> (thrown + unit) \<times> 'q"
  qo_removeJobScheduler :: "string \<Rightarrow> 'q \<Rightarrow> (thrown + unit) \<times> 'q"
  qo_obliterate :: "'q \<Rightarrow> (thrown + unit) \<times> 'q"
  qo_getJobCounts :: "'q \<Rightarrow> (thrown + job_counts) \<times> 'q"
  qo_getJobSchedulersCount :: "'q \<Rightarrow> (thrown + nat) \<times> 'q"
  qo_hand_out :: "nat \<Rightarrow> 'q \<Rightarrow> demo_job_data option"
  qo_settle :: "string \<Rightarrow> bool \<Rightarrow> 'q \<Rightarrow> 'q"
  qo_tick :: "string \<Rightarrow> nat \<Rightarrow> 'q \<Rightarrow> 'q"

datatype queue_event = RunJob nat | Tick string nat

record 'q queue_demo =
  qd_server :: 'q
  qd_counters :: rating_counters
  qd_completed :: nat
  qd_worker :: bool

definition queueE :: "('q \<Rightarrow> (thrown + 'a) \<times> 'q) \<Rightarrow> ('q queue_demo, thrown, 'a) exec" where
  "queueE f s = (case f (qd_server s) of (x, q) \<Rightarrow> (x, s\<lparr>qd_server := q\<rparr>))"

text \<open>A job for the processor of the worker, with its handler of the event \<open>completed\<close>, and a tick of a scheduler.\<close>

fun queue_turn :: "'q queue_ops \<Rightarrow> queue_event \<Rightarrow> 'q queue_demo \<Rightarrow> 'q queue_demo" where
  "queue_turn ops (RunJob i) s =
     (case qo_hand_out ops i (qd_server s) of
        None \<Rightarrow> s
      | Some job \<Rightarrow> (case processDemoJob job (qd_counters s) of (x, c) \<Rightarrow>
          s\<lparr>qd_server := qo_settle ops (rj_id job) (\<not> isl x) (qd_server s), qd_counters := c,
            qd_completed := (if \<not> isl x \<and> rj_name job = RECALC_JOB then 1 else qd_completed s)\<rparr>))"
| "queue_turn ops (Tick sid t) s = s\<lparr>qd_server := qo_tick ops sid t (qd_server s)\<rparr>"

definition idleE :: "'q queue_ops \<Rightarrow> queue_event list \<Rightarrow> ('q queue_demo, thrown, unit) exec" where
  "idleE ops es s = (Inr (), fold (queue_turn ops) es s)"

section \<open>The program\<close>

text \<open>\<open>waitUntil\<close> of \<open>src/common/sleep.ts\<close>: the list has one element per sleep before the deadline.\<close>

fun poll_until :: "('s \<Rightarrow> bool) \<Rightarrow> ('s, thrown, unit) exec list \<Rightarrow> ('s, thrown, unit) exec" where
  "poll_until p [] s = (if p s then (Inr (), s) else (Inl (PlainError ''timed out''), s))"
| "poll_until p (sleep # sleeps) s = (if p s then (Inr (), s) else bindE sleep (\<lambda>_. poll_until p sleeps) s)"

record queue_metrics =
  qm_noeviction :: nat
  qm_attempts :: nat
  qm_completed :: nat
  qm_added :: nat
  qm_queued :: nat
  qm_schedulers :: nat
  qm_scheduledRuns :: nat

definition or_zero :: "nat option \<Rightarrow> nat" where
  "or_zero x = (case x of None \<Rightarrow> 0 | Some n \<Rightarrow> n)"

definition count_open :: "job_counts \<Rightarrow> nat" where
  "count_open c = or_zero (jc_waiting c) + or_zero (jc_delayed c) + or_zero (jc_active c) + or_zero (jc_prioritized c)"

definition demo_payload :: demo_job_data where
  "demo_payload = \<lparr>rj_id = JOB_ID, rj_name = RECALC_JOB, rj_productId = Some ''1'', dj_failUntilAttempt = Some 2\<rparr>"

definition measured :: "'q queue_demo \<Rightarrow> bool" where
  "measured s \<longleftrightarrow> 3 \<le> rc_attempts (qd_counters s) \<and> qd_completed s = 1 \<and> 2 \<le> rc_scheduledRuns (qd_counters s)"

definition queue_exit :: "queue_metrics \<Rightarrow> nat" where
  "queue_exit m =
     (if qm_completed m = 1 \<and> qm_added m = 2 \<and> qm_queued m = 1 \<and> qm_noeviction m = 1 \<and> 3 \<le> qm_attempts m
        \<and> 1 \<le> qm_schedulers m \<and> 2 \<le> qm_scheduledRuns m then 0 else 1)"

definition queue_metrics_of :: "string \<Rightarrow> nat \<Rightarrow> nat \<Rightarrow> nat \<Rightarrow> 'q queue_demo \<Rightarrow> queue_metrics" where
  "queue_metrics_of policy added queued schedulers s =
     \<lparr>qm_noeviction = (if policy = ''noeviction'' then 1 else 0), qm_attempts = rc_attempts (qd_counters s),
      qm_completed = qd_completed s, qm_added = added, qm_queued = queued, qm_schedulers = schedulers,
      qm_scheduledRuns = rc_scheduledRuns (qd_counters s)\<rparr>"

definition queue_body ::
  "'q queue_ops \<Rightarrow> string list option \<Rightarrow> (nat \<Rightarrow> queue_event list) \<Rightarrow> queue_event list list
    \<Rightarrow> ('q queue_demo, thrown, queue_metrics \<times> nat) exec" where
  "queue_body ops reply idle sleeps =
     bindE (liftE (redisConfig ''maxmemory-policy'' reply)) (\<lambda>policy.
     bindE (queueE (bq_waitUntilReady (qo_bull ops))) (\<lambda>_.
     bindE (queueE (qo_removeJobScheduler ops SWEEP_SCHEDULER_ID)) (\<lambda>_.
     bindE (queueE (qo_obliterate ops)) (\<lambda>_.
     bindE (queueE (qo_add ops ratingJobOptions demo_payload)) (\<lambda>_.
     let added = 1 in
     bindE (queueE (qo_add ops ratingJobOptions demo_payload)) (\<lambda>_.
     let added = added + 1 in
     bindE (queueE (qo_getJobCounts ops)) (\<lambda>counts.
     let queued = count_open counts in
     bindE (\<lambda>s. (Inr (), s\<lparr>qd_worker := True\<rparr>)) (\<lambda>_.
     bindE (queueE (bq_waitUntilReady (qo_bull ops))) (\<lambda>_.
     bindE (idleE ops (idle 0)) (\<lambda>_.
     bindE (queueE (upsertSweepScheduler (qo_bull ops) DEMO_SWEEP_EVERY_MS)) (\<lambda>_.
     bindE (idleE ops (idle 1)) (\<lambda>_.
     bindE (queueE (upsertSweepScheduler (qo_bull ops) DEMO_SWEEP_EVERY_MS)) (\<lambda>_.
     bindE (idleE ops (idle 2)) (\<lambda>_.
     bindE (catchE (poll_until measured (map (idleE ops) sleeps)) (\<lambda>_. returnE ())) (\<lambda>_.
     bindE (queueE (qo_getJobSchedulersCount ops)) (\<lambda>schedulers.
     bindE (idleE ops (idle 3)) (\<lambda>_ s.
     let m = queue_metrics_of policy added queued schedulers s in (Inr (m, queue_exit m), s))))))))))))))))))"

definition queue_cleanup :: "'q queue_ops \<Rightarrow> ('q queue_demo, thrown, unit) exec" where
  "queue_cleanup ops =
     bindE (\<lambda>s. whenE (qd_worker s) (queueE (bq_close (qo_bull ops))) s) (\<lambda>_.
     bindE (queueE (qo_removeJobScheduler ops SWEEP_SCHEDULER_ID)) (\<lambda>_.
     bindE (queueE (qo_obliterate ops)) (\<lambda>_.
     queueE (bq_close (qo_bull ops)))))"

definition demo_queue_start :: "'q \<Rightarrow> 'q queue_demo" where
  "demo_queue_start q = \<lparr>qd_server = q, qd_counters = \<lparr>rc_attempts = 0, rc_scheduledRuns = 0\<rparr>, qd_completed = 0, qd_worker = False\<rparr>"

definition demo_queue ::
  "'q queue_ops \<Rightarrow> string option \<Rightarrow> string list option \<Rightarrow> (nat \<Rightarrow> queue_event list) \<Rightarrow> queue_event list list
    \<Rightarrow> 'q \<Rightarrow> (thrown + queue_metrics \<times> nat) \<times> 'q" where
  "demo_queue ops url reply idle sleeps q =
     (case requireRedisQueueUrl url of
        Inl e \<Rightarrow> (Inl e, q)
      | Inr u \<Rightarrow> (case finallyE (queue_body ops reply idle sleeps) (queue_cleanup ops) (demo_queue_start q) of
          (x, s) \<Rightarrow> (x, qd_server s)))"

section \<open>What the library does\<close>

text \<open>
  A job is open until it succeeds or has failed as often as its attempts allow; its id is kept afterwards.
  A scheduler is known by its id and adds jobs of its template, which have one attempt.
\<close>

record tracked_job =
  tj_job :: demo_job_data
  tj_left :: nat
  tj_open :: bool

record queue_view =
  qv_jobs :: "tracked_job list"
  qv_schedulers :: "(string \<times> string) list"

definition open_jobs :: "queue_view \<Rightarrow> tracked_job list" where
  "open_jobs v = filter tj_open (qv_jobs v)"

definition view_add :: "nat \<Rightarrow> demo_job_data \<Rightarrow> queue_view \<Rightarrow> queue_view" where
  "view_add n j v = (if \<exists>t \<in> set (qv_jobs v). rj_id (tj_job t) = rj_id j then v
     else v\<lparr>qv_jobs := qv_jobs v @ [\<lparr>tj_job = j, tj_left = n, tj_open = True\<rparr>]\<rparr>)"

definition settle_tracked :: "bool \<Rightarrow> tracked_job \<Rightarrow> tracked_job" where
  "settle_tracked ok t = (if ok then t\<lparr>tj_open := False\<rparr>
     else t\<lparr>tj_left := tj_left t - 1, tj_open := 1 < tj_left t\<rparr>)"

definition view_settle :: "string \<Rightarrow> bool \<Rightarrow> queue_view \<Rightarrow> queue_view" where
  "view_settle i ok v = v\<lparr>qv_jobs := map (\<lambda>t. if rj_id (tj_job t) = i then settle_tracked ok t else t) (qv_jobs v)\<rparr>"

definition view_upsert :: "string \<Rightarrow> string \<Rightarrow> queue_view \<Rightarrow> queue_view" where
  "view_upsert i name v = v\<lparr>qv_schedulers := (i, name) # filter (\<lambda>(k, _). k \<noteq> i) (qv_schedulers v)\<rparr>"

definition view_remove :: "string \<Rightarrow> queue_view \<Rightarrow> queue_view" where
  "view_remove i v = v\<lparr>qv_schedulers := filter (\<lambda>(k, _). k \<noteq> i) (qv_schedulers v)\<rparr>"

definition view_tick :: "string \<Rightarrow> nat \<Rightarrow> queue_view \<Rightarrow> queue_view" where
  "view_tick i t v =
     (case map_of (qv_schedulers v) i of
        None \<Rightarrow> v
      | Some name \<Rightarrow> view_add 1 \<lparr>rj_id = ''repeat:'' @ i @ '':'' @ show_nat t, rj_name = name, rj_productId = None,
          dj_failUntilAttempt = None\<rparr> v)"

definition view_hand_out :: "nat \<Rightarrow> queue_view \<Rightarrow> demo_job_data option" where
  "view_hand_out i v = (if i < length (open_jobs v) then Some (tj_job (open_jobs v ! i)) else None)"

definition empty_view :: queue_view where
  "empty_view = \<lparr>qv_jobs = [], qv_schedulers = []\<rparr>"

definition answers_as :: "('q \<Rightarrow> queue_view) \<Rightarrow> ('q \<Rightarrow> (thrown + 'a) \<times> 'q) \<Rightarrow> (queue_view \<Rightarrow> 'a \<Rightarrow> bool) \<Rightarrow> (queue_view \<Rightarrow> queue_view) \<Rightarrow> bool" where
  "answers_as view f result change \<longleftrightarrow> (\<forall>q. \<exists>x q'. f q = (Inr x, q') \<and> result (view q) x \<and> view q' = change (view q))"

text \<open>A server that answers. Obliterating a queue removes all of its contents.\<close>

locale queue_laws =
  fixes ops :: "'q queue_ops" and view :: "'q \<Rightarrow> queue_view"
  assumes ready_law: "answers_as view (bq_waitUntilReady (qo_bull ops)) (\<lambda>_ _. True) id"
    and close_law: "answers_as view (bq_close (qo_bull ops)) (\<lambda>_ _. True) id"
    and upsert_law: "answers_as view (bq_upsertJobScheduler (qo_bull ops) i every name) (\<lambda>_ _. True) (view_upsert i name)"
    and add_law: "answers_as view (qo_add ops opts j) (\<lambda>_ _. True) (view_add (jo_attempts opts) j)"
    and remove_law: "answers_as view (qo_removeJobScheduler ops i) (\<lambda>_ _. True) (view_remove i)"
    and obliterate_law: "answers_as view (qo_obliterate ops) (\<lambda>_ _. True) (\<lambda>_. empty_view)"
    and counts_law: "answers_as view (qo_getJobCounts ops) (\<lambda>v c. count_open c = length (open_jobs v)) id"
    and schedulers_law: "answers_as view (qo_getJobSchedulersCount ops) (\<lambda>v n. n = length (qv_schedulers v)) id"
    and hand_out_law: "qo_hand_out ops k q = view_hand_out k (view q)"
    and settle_law: "view (qo_settle ops i ok q) = view_settle i ok (view q)"
    and tick_law: "view (qo_tick ops i t q) = view_tick i t (view q)"

definition mem_queue :: "queue_view queue_ops" where
  "mem_queue = \<lparr>qo_bull = \<lparr>bq_add = (\<lambda>j q. (Inr (), q)), bq_close = (\<lambda>q. (Inr (), q)),
       bq_upsertJobScheduler = (\<lambda>i every name q. (Inr (), view_upsert i name q)), bq_waitUntilReady = (\<lambda>q. (Inr (), q))\<rparr>,
     qo_add = (\<lambda>opts j q. (Inr (), view_add (jo_attempts opts) j q)),
     qo_removeJobScheduler = (\<lambda>i q. (Inr (), view_remove i q)),
     qo_obliterate = (\<lambda>q. (Inr (), empty_view)),
     qo_getJobCounts = (\<lambda>q. (Inr \<lparr>jc_waiting = Some (length (open_jobs q)), jc_delayed = Some 0, jc_active = Some 0,
       jc_prioritized = None\<rparr>, q)),
     qo_getJobSchedulersCount = (\<lambda>q. (Inr (length (qv_schedulers q)), q)),
     qo_hand_out = view_hand_out, qo_settle = view_settle, qo_tick = view_tick\<rparr>"

interpretation mem_queue_laws: queue_laws mem_queue "\<lambda>q. q"
  by unfold_locales (simp_all add: mem_queue_def answers_as_def count_open_def or_zero_def)

section \<open>The measured run\<close>

text \<open>After \<open>a\<close> attempts at the job of the program, of which the first two fail.\<close>

definition recalc_entry :: "nat \<Rightarrow> tracked_job" where
  "recalc_entry a = \<lparr>tj_job = demo_payload, tj_left = (if a < 3 then 3 - a else 1), tj_open = (a < 3)\<rparr>"

definition view_ok :: "nat \<Rightarrow> (string \<times> string) list \<Rightarrow> queue_view \<Rightarrow> bool" where
  "view_ok a sch v \<longleftrightarrow> (\<exists>t \<in> set (qv_jobs v). rj_id (tj_job t) = JOB_ID)
     \<and> (\<forall>t \<in> set (qv_jobs v). if rj_id (tj_job t) = JOB_ID then t = recalc_entry a else rj_name (tj_job t) = SWEEP_JOB)
     \<and> qv_schedulers v = sch \<and> snd ` set sch \<subseteq> {SWEEP_JOB}"

definition run_ok :: "('q \<Rightarrow> queue_view) \<Rightarrow> (string \<times> string) list \<Rightarrow> 'q queue_demo \<Rightarrow> bool" where
  "run_ok view sch s \<longleftrightarrow> view_ok (rc_attempts (qd_counters s)) sch (view (qd_server s)) \<and> rc_attempts (qd_counters s) \<le> 3
     \<and> qd_completed s = (if rc_attempts (qd_counters s) = 3 then 1 else 0) \<and> qd_worker s"

lemma payload_id [simp]: "rj_id demo_payload = JOB_ID" "rj_name demo_payload = RECALC_JOB" "dj_failUntilAttempt demo_payload = Some 2"
  by (simp_all add: demo_payload_def)

lemma entry_simps [simp]: "tj_job (recalc_entry a) = demo_payload" "tj_open (recalc_entry a) = (a < 3)"
  by (simp_all add: recalc_entry_def)

lemma job_names [simp]: "RECALC_JOB \<noteq> SWEEP_JOB" "SWEEP_JOB \<noteq> RECALC_JOB"
  by (simp_all add: RECALC_JOB_def SWEEP_JOB_def)

lemma view_ok_upsert:
  "view_ok a sch v \<Longrightarrow> view_ok a ((i, SWEEP_JOB) # filter (\<lambda>(k, _). k \<noteq> i) sch) (view_upsert i SWEEP_JOB v)"
  by (auto simp: view_ok_def view_upsert_def)

lemma view_ok_tick: "view_ok a sch v \<Longrightarrow> view_ok a sch (view_tick i t v)"
  by (force simp: view_ok_def view_tick_def view_add_def JOB_ID_def dest: map_of_SomeD split: option.splits)

lemma settle_recalc:
  assumes "a < 3"
  shows "settle_tracked (2 \<le> a) (recalc_entry a) = recalc_entry (Suc a)"
  using assms by (auto simp: settle_tracked_def recalc_entry_def)

lemma settle_job [simp]: "tj_job (settle_tracked ok t) = tj_job t"
  by (simp add: settle_tracked_def)

lemma known_settle:
  assumes "view_ok a sch v"
  shows "\<exists>u \<in> set (qv_jobs (view_settle i ok v)). rj_id (tj_job u) = JOB_ID"
proof -
  obtain t where t: "t \<in> set (qv_jobs v)" "rj_id (tj_job t) = JOB_ID" using assms unfolding view_ok_def by blast
  let ?u = "if rj_id (tj_job t) = i then settle_tracked ok t else t"
  have "?u \<in> set (qv_jobs (view_settle i ok v))" using t(1) by (simp add: view_settle_def)
  moreover have "rj_id (tj_job ?u) = JOB_ID" using t(2) by simp
  ultimately show ?thesis by blast
qed

lemma view_ok_settle:
  assumes "view_ok a sch v" and "a < 3"
  shows "view_ok (Suc a) sch (view_settle JOB_ID (2 \<le> a) v)"
proof -
  have "if rj_id (tj_job u) = JOB_ID then u = recalc_entry (Suc a) else rj_name (tj_job u) = SWEEP_JOB"
    if u: "u \<in> set (qv_jobs (view_settle JOB_ID (2 \<le> a) v))" for u
  proof -
    obtain t where t: "t \<in> set (qv_jobs v)" "u = (if rj_id (tj_job t) = JOB_ID then settle_tracked (2 \<le> a) t else t)"
      using u by (auto simp: view_settle_def)
    show ?thesis
    proof (cases "rj_id (tj_job t) = JOB_ID")
      case True
      then have "t = recalc_entry a" using assms(1) t(1) by (simp add: view_ok_def)
      then show ?thesis using t(2) settle_recalc [OF assms(2)] by simp
    next
      case False
      then show ?thesis using assms(1) t by (simp add: view_ok_def)
    qed
  qed
  moreover have "\<exists>u \<in> set (qv_jobs (view_settle JOB_ID (2 \<le> a) v)). rj_id (tj_job u) = JOB_ID"
    using assms(1) by (rule known_settle)
  ultimately show ?thesis using assms(1) by (simp add: view_ok_def) (simp add: view_settle_def)
qed

lemma view_ok_settle_other:
  assumes "view_ok a sch v" and "i \<noteq> JOB_ID"
  shows "view_ok a sch (view_settle i ok v)"
proof -
  have "if rj_id (tj_job u) = JOB_ID then u = recalc_entry a else rj_name (tj_job u) = SWEEP_JOB"
    if u: "u \<in> set (qv_jobs (view_settle i ok v))" for u
  proof -
    obtain t where t: "t \<in> set (qv_jobs v)" "u = (if rj_id (tj_job t) = i then settle_tracked ok t else t)"
      using u by (auto simp: view_settle_def)
    then have "rj_id (tj_job t) = i \<Longrightarrow> rj_name (tj_job t) = SWEEP_JOB" using assms by (simp add: view_ok_def)
    then show ?thesis using t assms by (cases "rj_id (tj_job t) = i") (simp_all add: view_ok_def)
  qed
  moreover have "\<exists>u \<in> set (qv_jobs (view_settle i ok v)). rj_id (tj_job u) = JOB_ID"
    using assms(1) by (rule known_settle)
  ultimately show ?thesis using assms(1) by (simp add: view_ok_def) (simp add: view_settle_def)
qed

lemma hand_out_cases:
  assumes "view_hand_out k v = Some job" and "view_ok a sch v"
  obtains "job = demo_payload" "a < 3" | "rj_name job = SWEEP_JOB" "rj_id job \<noteq> JOB_ID"
proof -
  obtain t where t: "t \<in> set (qv_jobs v)" "tj_open t" "job = tj_job t"
    using assms(1) nth_mem [of k "open_jobs v"] by (auto simp: view_hand_out_def open_jobs_def split: if_splits)
  then show ?thesis using assms(2) that by (cases "rj_id job = JOB_ID") (auto simp: view_ok_def)
qed

lemma queueE_law:
  assumes "answers_as view f result change"
  obtains x q' where "queueE f s = (Inr x, s\<lparr>qd_server := q'\<rparr>)" "result (view (qd_server s)) x" "view q' = change (view (qd_server s))"
proof -
  obtain x q' where "f (qd_server s) = (Inr x, q')" "result (view (qd_server s)) x" "view q' = change (view (qd_server s))"
    using assms unfolding answers_as_def by metis
  then show ?thesis using that by (simp add: queueE_def)
qed

context queue_laws
begin

lemma turn_ok: "run_ok view sch s \<Longrightarrow> run_ok view sch (queue_turn ops e s)"
proof (cases e)
  case (RunJob k)
  assume ok: "run_ok view sch s"
  let ?a = "rc_attempts (qd_counters s)"
  have v: "view_ok ?a sch (view (qd_server s))" using ok by (simp add: run_ok_def)
  show ?thesis
  proof (cases "qo_hand_out ops k (qd_server s)")
    case None
    then show ?thesis using ok RunJob by simp
  next
    case (Some job)
    then have "view_hand_out k (view (qd_server s)) = Some job" by (simp add: hand_out_law)
    then show ?thesis
    proof (rule hand_out_cases [OF _ v])
      assume a: "job = demo_payload" "?a < 3"
      have x: "\<not> isl (fst (processDemoJob demo_payload (qd_counters s))) \<longleftrightarrow> 2 \<le> ?a"
        "snd (processDemoJob demo_payload (qd_counters s)) = (qd_counters s)\<lparr>rc_attempts := ?a + 1\<rparr>"
        by (simp_all add: processDemoJob_def Let_def)
      have "queue_turn ops e s = s\<lparr>qd_server := qo_settle ops JOB_ID (2 \<le> ?a) (qd_server s),
          qd_counters := (qd_counters s)\<lparr>rc_attempts := ?a + 1\<rparr>, qd_completed := (if 2 \<le> ?a then 1 else qd_completed s)\<rparr>"
        using x Some RunJob a(1) by (simp add: split_beta)
      then show ?thesis using ok a(2) view_ok_settle [OF v a(2)] by (auto simp: run_ok_def settle_law)
    next
      assume j: "rj_name job = SWEEP_JOB" "rj_id job \<noteq> JOB_ID"
      then have "queue_turn ops e s = s\<lparr>qd_server := qo_settle ops (rj_id job) True (qd_server s),
          qd_counters := (qd_counters s)\<lparr>rc_scheduledRuns := rc_scheduledRuns (qd_counters s) + 1\<rparr>\<rparr>"
        using Some RunJob job_names by (simp add: processDemoJob_def)
      then show ?thesis using ok view_ok_settle_other [OF v j(2)] by (simp add: run_ok_def settle_law)
    qed
  qed
next
  case (Tick sid t)
  assume "run_ok view sch s"
  then show ?thesis using Tick by (simp add: run_ok_def tick_law view_ok_tick)
qed

lemma turns_ok: "run_ok view sch s \<Longrightarrow> run_ok view sch (fold (queue_turn ops) es s)"
  by (induction es arbitrary: s) (simp_all add: turn_ok)

lemma poll_ok: "run_ok view sch s \<Longrightarrow> run_ok view sch (snd (poll_until p (map (idleE ops) sleeps) s))"
  by (induction sleeps arbitrary: s) (simp_all add: idleE_def bindE_def turns_ok)

lemma upsert_ok:
  assumes "run_ok view sch s"
  obtains s' where "queueE (upsertSweepScheduler (qo_bull ops) every) s = (Inr (), s')"
    "run_ok view ((SWEEP_SCHEDULER_ID, SWEEP_JOB) # filter (\<lambda>(k, _). k \<noteq> SWEEP_SCHEDULER_ID) sch) s'"
proof (rule queueE_law [OF upsert_law [of SWEEP_SCHEDULER_ID every SWEEP_JOB], where s = s])
  fix x q'
  assume q: "queueE (bq_upsertJobScheduler (qo_bull ops) SWEEP_SCHEDULER_ID every SWEEP_JOB) s = (Inr x, s\<lparr>qd_server := q'\<rparr>)"
    "view q' = view_upsert SWEEP_SCHEDULER_ID SWEEP_JOB (view (qd_server s))"
  have "run_ok view ((SWEEP_SCHEDULER_ID, SWEEP_JOB) # filter (\<lambda>(k, _). k \<noteq> SWEEP_SCHEDULER_ID) sch) (s\<lparr>qd_server := q'\<rparr>)"
    using assms view_ok_upsert q(2) by (simp add: run_ok_def)
  then show ?thesis using that q(1) by (simp add: upsertSweepScheduler_def)
qed

lemma prepared:
  obtains s1 s2 s3 s4 s5 counts s6 where
    "queueE (bq_waitUntilReady (qo_bull ops)) (demo_queue_start q) = (Inr (), s1)"
    "queueE (qo_removeJobScheduler ops SWEEP_SCHEDULER_ID) s1 = (Inr (), s2)"
    "queueE (qo_obliterate ops) s2 = (Inr (), s3)"
    "queueE (qo_add ops ratingJobOptions demo_payload) s3 = (Inr (), s4)"
    "queueE (qo_add ops ratingJobOptions demo_payload) s4 = (Inr (), s5)"
    "queueE (qo_getJobCounts ops) s5 = (Inr counts, s6)"
    "count_open counts = 1" "run_ok view [] (s6\<lparr>qd_worker := True\<rparr>)"
proof -
  let ?s0 = "demo_queue_start q"
  obtain q1 where 1: "queueE (bq_waitUntilReady (qo_bull ops)) ?s0 = (Inr (), ?s0\<lparr>qd_server := q1\<rparr>)"
    by (rule queueE_law [OF ready_law, where s = ?s0]) (auto simp: unit_eq)
  obtain q2 where 2: "queueE (qo_removeJobScheduler ops SWEEP_SCHEDULER_ID) (?s0\<lparr>qd_server := q1\<rparr>) = (Inr (), ?s0\<lparr>qd_server := q2\<rparr>)"
    by (rule queueE_law [OF remove_law [of SWEEP_SCHEDULER_ID], where s = "?s0\<lparr>qd_server := q1\<rparr>"]) auto
  obtain q3 where 3: "queueE (qo_obliterate ops) (?s0\<lparr>qd_server := q2\<rparr>) = (Inr (), ?s0\<lparr>qd_server := q3\<rparr>)" "view q3 = empty_view"
    by (rule queueE_law [OF obliterate_law, where s = "?s0\<lparr>qd_server := q2\<rparr>"]) auto
  let ?v = "\<lparr>qv_jobs = [recalc_entry 0], qv_schedulers = []\<rparr>"
  obtain q4 where 4: "queueE (qo_add ops ratingJobOptions demo_payload) (?s0\<lparr>qd_server := q3\<rparr>) = (Inr (), ?s0\<lparr>qd_server := q4\<rparr>)" "view q4 = ?v"
    by (rule queueE_law [OF add_law [of ratingJobOptions demo_payload], where s = "?s0\<lparr>qd_server := q3\<rparr>"])
      (auto simp: 3(2) view_add_def empty_view_def recalc_entry_def ratingJobOptions_def)
  obtain q5 where 5: "queueE (qo_add ops ratingJobOptions demo_payload) (?s0\<lparr>qd_server := q4\<rparr>) = (Inr (), ?s0\<lparr>qd_server := q5\<rparr>)" "view q5 = ?v"
    by (rule queueE_law [OF add_law [of ratingJobOptions demo_payload], where s = "?s0\<lparr>qd_server := q4\<rparr>"]) (auto simp: 4(2) view_add_def)
  obtain c q6 where 6: "queueE (qo_getJobCounts ops) (?s0\<lparr>qd_server := q5\<rparr>) = (Inr c, ?s0\<lparr>qd_server := q6\<rparr>)" "count_open c = 1" "view q6 = ?v"
    by (rule queueE_law [OF counts_law, where s = "?s0\<lparr>qd_server := q5\<rparr>"]) (auto simp: 5(2) open_jobs_def)
  have "run_ok view [] (?s0\<lparr>qd_server := q6, qd_worker := True\<rparr>)"
    by (simp add: run_ok_def view_ok_def 6(3) demo_queue_start_def)
  then show ?thesis using that 1 2 3(1) 4(1) 5(1) 6(1,2) by blast
qed

lemma measured_run:
  obtains s where "queue_body ops (Some (k # policy # rest)) idle sleeps (demo_queue_start q)
      = (Inr (queue_metrics_of policy 2 1 1 s, queue_exit (queue_metrics_of policy 2 1 1 s)), s)"
    "run_ok view [(SWEEP_SCHEDULER_ID, SWEEP_JOB)] s"
proof -
  let ?sch = "[(SWEEP_SCHEDULER_ID, SWEEP_JOB)]"
  obtain s1 s2 s3 s4 s5 c s6 where p: "queueE (bq_waitUntilReady (qo_bull ops)) (demo_queue_start q) = (Inr (), s1)"
    "queueE (qo_removeJobScheduler ops SWEEP_SCHEDULER_ID) s1 = (Inr (), s2)" "queueE (qo_obliterate ops) s2 = (Inr (), s3)"
    "queueE (qo_add ops ratingJobOptions demo_payload) s3 = (Inr (), s4)"
    "queueE (qo_add ops ratingJobOptions demo_payload) s4 = (Inr (), s5)"
    "queueE (qo_getJobCounts ops) s5 = (Inr c, s6)" "count_open c = 1" "run_ok view [] (s6\<lparr>qd_worker := True\<rparr>)"
    by (rule prepared)
  obtain s7 where 7: "queueE (bq_waitUntilReady (qo_bull ops)) (s6\<lparr>qd_worker := True\<rparr>) = (Inr (), s7)" "run_ok view [] s7"
    by (rule queueE_law [OF ready_law, where s = "s6\<lparr>qd_worker := True\<rparr>"]) (use p(8) in \<open>auto simp: run_ok_def\<close>)
  obtain s8 where 8: "queueE (upsertSweepScheduler (qo_bull ops) DEMO_SWEEP_EVERY_MS) (fold (queue_turn ops) (idle 0) s7) = (Inr (), s8)"
      "run_ok view ?sch s8"
    by (rule upsert_ok [OF turns_ok [OF 7(2)]]) auto
  obtain s9 where 9: "queueE (upsertSweepScheduler (qo_bull ops) DEMO_SWEEP_EVERY_MS) (fold (queue_turn ops) (idle 1) s8) = (Inr (), s9)"
      "run_ok view ?sch s9"
    by (rule upsert_ok [OF turns_ok [OF 8(2)]]) auto
  let ?s10 = "snd (poll_until measured (map (idleE ops) sleeps) (fold (queue_turn ops) (idle 2) s9))"
  have 10: "catchE (poll_until measured (map (idleE ops) sleeps)) (\<lambda>_. returnE ()) (fold (queue_turn ops) (idle 2) s9) = (Inr (), ?s10)"
    by (auto simp: catchE_def split: prod.split sum.split)
  have ok: "run_ok view ?sch ?s10" by (rule poll_ok [OF turns_ok [OF 9(2)]])
  obtain s11 where 11: "queueE (qo_getJobSchedulersCount ops) ?s10 = (Inr 1, s11)" "run_ok view ?sch s11"
    by (rule queueE_law [OF schedulers_law, where s = ?s10]) (use ok in \<open>auto simp: run_ok_def view_ok_def\<close>)
  let ?s = "fold (queue_turn ops) (idle 3) s11"
  have turns: "idleE ops es s = (Inr (), fold (queue_turn ops) es s)" for es s by (simp add: idleE_def)
  have "queue_body ops (Some (k # policy # rest)) idle sleeps (demo_queue_start q)
      = (Inr (queue_metrics_of policy 2 1 1 ?s, queue_exit (queue_metrics_of policy 2 1 1 ?s)), ?s)"
    unfolding queue_body_def Let_def
    by (rule bindE_step, simp add: liftE_def redisConfig_def, rule bindE_step, rule p(1), rule bindE_step, rule p(2), rule bindE_step, rule p(3),
        rule bindE_step, rule p(4), rule bindE_step, rule p(5), rule bindE_step, rule p(6), rule bindE_step, simp, rule bindE_step, rule 7(1),
        rule bindE_step, rule turns, rule bindE_step, rule 8(1), rule bindE_step, rule turns, rule bindE_step, rule 9(1),
        rule bindE_step, rule turns, rule bindE_step, rule 10, rule bindE_step, rule 11(1), rule bindE_step, rule turns, simp add: p(7) numeral_2_eq_2)
  then show ?thesis using that turns_ok [OF 11(2)] by blast
qed

lemma cleaned_up:
  obtains s' where "queue_cleanup ops s = (Inr (), s')" "view (qd_server s') = empty_view"
proof -
  obtain q1 where 1: "(\<lambda>s. whenE (qd_worker s) (queueE (bq_close (qo_bull ops))) s) s = (Inr (), s\<lparr>qd_server := q1\<rparr>)"
  proof (cases "qd_worker s")
    case True
    then show ?thesis using that by (auto intro: queueE_law [OF close_law, where s = s])
  next
    case False
    then show ?thesis using that [of "qd_server s"] by simp
  qed
  obtain q2 where 2: "queueE (qo_removeJobScheduler ops SWEEP_SCHEDULER_ID) (s\<lparr>qd_server := q1\<rparr>) = (Inr (), s\<lparr>qd_server := q2\<rparr>)"
    by (rule queueE_law [OF remove_law [of SWEEP_SCHEDULER_ID], where s = "s\<lparr>qd_server := q1\<rparr>"]) auto
  obtain q3 where 3: "queueE (qo_obliterate ops) (s\<lparr>qd_server := q2\<rparr>) = (Inr (), s\<lparr>qd_server := q3\<rparr>)" "view q3 = empty_view"
    by (rule queueE_law [OF obliterate_law, where s = "s\<lparr>qd_server := q2\<rparr>"]) auto
  obtain q4 where 4: "queueE (bq_close (qo_bull ops)) (s\<lparr>qd_server := q3\<rparr>) = (Inr (), s\<lparr>qd_server := q4\<rparr>)" "view q4 = empty_view"
    by (rule queueE_law [OF close_law, where s = "s\<lparr>qd_server := q3\<rparr>"]) (auto simp: 3(2))
  have "queue_cleanup ops s = (Inr (), s\<lparr>qd_server := q4\<rparr>)"
    unfolding queue_cleanup_def
    by (rule bindE_step, rule 1, rule bindE_step, rule 2, rule bindE_step, rule 3(1), rule 4(1))
  then show ?thesis using that 4(2) by simp
qed

lemma demo_queue_run:
  assumes "requireRedisQueueUrl url = Inr u"
  obtains s q' where "demo_queue ops url (Some (k # policy # rest)) idle sleeps q
      = (Inr (queue_metrics_of policy 2 1 1 s, queue_exit (queue_metrics_of policy 2 1 1 s)), q')"
    "run_ok view [(SWEEP_SCHEDULER_ID, SWEEP_JOB)] s" "view q' = empty_view"
proof -
  obtain s where s: "queue_body ops (Some (k # policy # rest)) idle sleeps (demo_queue_start q)
      = (Inr (queue_metrics_of policy 2 1 1 s, queue_exit (queue_metrics_of policy 2 1 1 s)), s)"
    "run_ok view [(SWEEP_SCHEDULER_ID, SWEEP_JOB)] s"
    by (rule measured_run)
  obtain s' where "queue_cleanup ops s = (Inr (), s')" "view (qd_server s') = empty_view" by (rule cleaned_up)
  then show ?thesis using that [of s "qd_server s'"] s assms by (simp add: demo_queue_def finallyE_def)
qed

end

section \<open>Properties\<close>

text \<open>
  The verdict of \<open>demo-queue\<close>, whenever and in whatever order the library runs the jobs: adding a job twice
  under one id queues one job, registering the scheduler twice leaves one, the job is attempted at most three
  times, which its options allow, and is completed exactly by the third attempt, and no sweep counts as an
  attempt. The exit code is 0 exactly if the server has the expected policy, the third attempt was made and two
  sweeps ran in time. The queue is left empty and without scheduler.
\<close>

theorem demo_queue_verdict:
  assumes "queue_laws ops view" and "requireRedisQueueUrl url = Inr u"
  shows "\<exists>m code q'. demo_queue ops url (Some (k # policy # rest)) idle sleeps q = (Inr (m, code), q')
    \<and> qm_added m = 2 \<and> qm_queued m = 1 \<and> qm_schedulers m = 1
    \<and> qm_attempts m \<le> jo_attempts ratingJobOptions \<and> (qm_completed m = 1 \<longleftrightarrow> qm_attempts m = 3)
    \<and> (code = 0 \<longleftrightarrow> policy = ''noeviction'' \<and> qm_attempts m = 3 \<and> 2 \<le> qm_scheduledRuns m)
    \<and> qv_jobs (view q') = [] \<and> qv_schedulers (view q') = []"
proof -
  obtain s q' where run: "demo_queue ops url (Some (k # policy # rest)) idle sleeps q
      = (Inr (queue_metrics_of policy 2 1 1 s, queue_exit (queue_metrics_of policy 2 1 1 s)), q')"
    "run_ok view [(SWEEP_SCHEDULER_ID, SWEEP_JOB)] s" "view q' = empty_view"
    by (rule queue_laws.demo_queue_run [OF assms])
  then show ?thesis
    by (intro exI [of _ "queue_metrics_of policy 2 1 1 s"] exI [of _ "queue_exit (queue_metrics_of policy 2 1 1 s)"] exI [of _ q'])
      (auto simp: run_ok_def queue_metrics_of_def queue_exit_def empty_view_def ratingJobOptions_def)
qed

text \<open>A run in which the third attempt and the two sweeps come while the program sleeps for the second time.\<close>

definition busy_sleep :: "queue_event list" where
  "busy_sleep = [RunJob 0, RunJob 0, Tick SWEEP_SCHEDULER_ID 5, RunJob 1, RunJob 0, Tick SWEEP_SCHEDULER_ID 7, RunJob 0]"

definition busy_state :: "nat \<Rightarrow> (nat \<times> bool) list \<Rightarrow> nat \<Rightarrow> queue_view queue_demo" where
  "busy_state a sweeps runs = \<lparr>qd_server = \<lparr>qv_jobs = recalc_entry a # map (\<lambda>(t, waiting).
       \<lparr>tj_job = \<lparr>rj_id = ''repeat:'' @ SWEEP_SCHEDULER_ID @ '':'' @ show_nat t, rj_name = SWEEP_JOB, rj_productId = None,
          dj_failUntilAttempt = None\<rparr>, tj_left = 1, tj_open = waiting\<rparr>) sweeps,
       qv_schedulers = [(SWEEP_SCHEDULER_ID, SWEEP_JOB)]\<rparr>,
     qd_counters = \<lparr>rc_attempts = a, rc_scheduledRuns = runs\<rparr>, qd_completed = (if a = 3 then 1 else 0), qd_worker = True\<rparr>"

lemma busy_turns:
  "queue_turn mem_queue (RunJob 0) (busy_state 0 [] 0) = busy_state 1 [] 0"
  "queue_turn mem_queue (RunJob 0) (busy_state 1 [] 0) = busy_state 2 [] 0"
  "queue_turn mem_queue (Tick SWEEP_SCHEDULER_ID 5) (busy_state 2 [] 0) = busy_state 2 [(5, True)] 0"
  "queue_turn mem_queue (RunJob 1) (busy_state 2 [(5, True)] 0) = busy_state 2 [(5, False)] 1"
  "queue_turn mem_queue (RunJob 0) (busy_state 2 [(5, False)] 1) = busy_state 3 [(5, False)] 1"
  "queue_turn mem_queue (Tick SWEEP_SCHEDULER_ID 7) (busy_state 3 [(5, False)] 1) = busy_state 3 [(5, False), (7, True)] 1"
  "queue_turn mem_queue (RunJob 0) (busy_state 3 [(5, False), (7, True)] 1) = busy_state 3 [(5, False), (7, False)] 2"
  by code_simp+

lemma busy_poll:
  "poll_until measured (map (idleE mem_queue) [[], busy_sleep]) (busy_state 0 [] 0) = (Inr (), busy_state 3 [(5, False), (7, False)] 2)"
proof -
  have "\<not> measured (busy_state 0 [] 0)" "measured (busy_state 3 [(5, False), (7, False)] 2)"
    by (simp_all add: measured_def busy_state_def)
  moreover have "fold (queue_turn mem_queue) busy_sleep (busy_state 0 [] 0) = busy_state 3 [(5, False), (7, False)] 2"
    by (simp only: busy_sleep_def fold_Cons fold_Nil comp_apply id_apply busy_turns)
  ultimately show ?thesis by (simp add: idleE_def bindE_def)
qed

lemma busy_calls:
  "queueE (bq_waitUntilReady (qo_bull mem_queue)) s = (Inr (), s)"
  "queueE (bq_close (qo_bull mem_queue)) s = (Inr (), s)"
  "queueE (qo_removeJobScheduler mem_queue i) (demo_queue_start empty_view) = (Inr (), demo_queue_start empty_view)"
  "queueE (qo_obliterate mem_queue) s = (Inr (), s\<lparr>qd_server := empty_view\<rparr>)"
  "queueE (qo_add mem_queue ratingJobOptions demo_payload) (demo_queue_start empty_view)
     = (Inr (), demo_queue_start \<lparr>qv_jobs = [recalc_entry 0], qv_schedulers = []\<rparr>)"
  "queueE (qo_add mem_queue ratingJobOptions demo_payload) (demo_queue_start \<lparr>qv_jobs = [recalc_entry 0], qv_schedulers = []\<rparr>)
     = (Inr (), demo_queue_start \<lparr>qv_jobs = [recalc_entry 0], qv_schedulers = []\<rparr>)"
  "queueE (upsertSweepScheduler (qo_bull mem_queue) DEMO_SWEEP_EVERY_MS)
     (demo_queue_start \<lparr>qv_jobs = [recalc_entry 0], qv_schedulers = []\<rparr>\<lparr>qd_worker := True\<rparr>) = (Inr (), busy_state 0 [] 0)"
  "queueE (upsertSweepScheduler (qo_bull mem_queue) DEMO_SWEEP_EVERY_MS) (busy_state 0 [] 0) = (Inr (), busy_state 0 [] 0)"
  "queueE (qo_getJobCounts mem_queue) (demo_queue_start \<lparr>qv_jobs = [recalc_entry 0], qv_schedulers = []\<rparr>)
     = (Inr \<lparr>jc_waiting = Some 1, jc_delayed = Some 0, jc_active = Some 0, jc_prioritized = None\<rparr>,
        demo_queue_start \<lparr>qv_jobs = [recalc_entry 0], qv_schedulers = []\<rparr>)"
  "queueE (qo_getJobSchedulersCount mem_queue) (busy_state a sweeps runs) = (Inr 1, busy_state a sweeps runs)"
  "idleE mem_queue [] s = (Inr (), s)"
  by (simp_all add: idleE_def open_jobs_def queueE_def mem_queue_def upsertSweepScheduler_def view_remove_def view_add_def view_upsert_def empty_view_def
      demo_queue_start_def busy_state_def recalc_entry_def ratingJobOptions_def)

theorem demo_queue_verdict_witness:
  "\<exists>m q'. demo_queue mem_queue (Some ''redis://q'') (Some [''maxmemory-policy'', ''noeviction'']) (\<lambda>_. []) [[], busy_sleep] empty_view
     = (Inr (m, 0), q') \<and> qm_attempts m = 3 \<and> qm_queued m = 1 \<and> qm_schedulers m = 1 \<and> qv_jobs q' = []"
proof -
  let ?m = "queue_metrics_of ''noeviction'' 2 1 1 (busy_state 3 [(5, False), (7, False)] 2)"
  have start: "(demo_queue_start empty_view)\<lparr>qd_server := empty_view\<rparr> = demo_queue_start empty_view" by (simp add: demo_queue_start_def)
  have polled: "catchE (poll_until measured (map (idleE mem_queue) [[], busy_sleep])) (\<lambda>_. returnE ()) (busy_state 0 [] 0)
      = (Inr (), busy_state 3 [(5, False), (7, False)] 2)" by (simp add: catchE_def busy_poll del: poll_until.simps list.map)
  have "queue_body mem_queue (Some [''maxmemory-policy'', ''noeviction'']) (\<lambda>_. []) [[], busy_sleep] (demo_queue_start empty_view)
      = (Inr (?m, queue_exit ?m), busy_state 3 [(5, False), (7, False)] 2)"
    unfolding queue_body_def Let_def
    by (rule bindE_step, simp add: liftE_def redisConfig_def, rule bindE_step, rule busy_calls(1), rule bindE_step, rule busy_calls(3),
        rule bindE_step, rule busy_calls(4), unfold start, rule bindE_step, rule busy_calls(5), rule bindE_step, rule busy_calls(6),
        rule bindE_step, rule busy_calls(9), rule bindE_step, simp, rule bindE_step, rule busy_calls(1), rule bindE_step, rule busy_calls(11),
        rule bindE_step, rule busy_calls(7), rule bindE_step, rule busy_calls(11), rule bindE_step, rule busy_calls(8),
        rule bindE_step, rule busy_calls(11), rule bindE_step, rule polled, rule bindE_step, rule busy_calls(10),
        rule bindE_step, rule busy_calls(11), simp add: count_open_def or_zero_def numeral_2_eq_2)
  note body = this
  have url: "requireRedisQueueUrl (Some ''redis://q'') = Inr ''redis://q''" by code_simp
  obtain m code q' where r: "demo_queue mem_queue (Some ''redis://q'') (Some [''maxmemory-policy'', ''noeviction'']) (\<lambda>_. []) [[], busy_sleep] empty_view
      = (Inr (m, code), q')" "qm_queued m = 1" "qm_schedulers m = 1" "qv_jobs q' = []"
      "code = 0 \<longleftrightarrow> ''noeviction'' = ''noeviction'' \<and> qm_attempts m = 3 \<and> 2 \<le> qm_scheduledRuns m"
    using demo_queue_verdict [OF mem_queue_laws.queue_laws_axioms url, of "''maxmemory-policy''" "''noeviction''" "[]" "\<lambda>_. []" "[[], busy_sleep]" empty_view]
    by (elim exE conjE) (rule that)
  obtain s where "finallyE (queue_body mem_queue (Some [''maxmemory-policy'', ''noeviction'']) (\<lambda>_. []) [[], busy_sleep])
      (queue_cleanup mem_queue) (demo_queue_start empty_view) = (Inr (m, code), s)"
    using r(1) unfolding demo_queue_def url by (simp split: prod.splits)
  then have m: "m = ?m" using body by (auto elim!: finallyE_InrE)
  have "qm_attempts m = 3" "2 \<le> qm_scheduledRuns m" unfolding m by (simp_all add: queue_metrics_of_def busy_state_def)
  then show ?thesis using r by blast
qed

end
