(* ===== verification/Stampede.thy ===== *)
theory Stampede
  imports ProductCard
begin

text \<open>
  Concurrent calls of \<open>getCard\<close> for one product (\<open>src/catalog/product-card.service.ts\<close>), command by command, and the
  burst of \<open>src/demo/demo-cache.ts\<close>. A reader is named by its lock token. The state is the cached text, the
  holder of the lock and the counter of the repository; \<open>sp_seen\<close> records the cards that were cached at the
  start or loaded since.
\<close>

section \<open>Readers\<close>

datatype reader =
    Arriving
  | Missed
  | Locked
  | Loading
  | Writing "product_card option"
  | Unlocking "thrown + product_card option"
  | Polling nat
  | Answered "thrown + product_card option"

record stampede =
  sp_cache :: "string option"
  sp_lock :: "string option"
  sp_dbCalls :: nat
  sp_reader :: "string \<Rightarrow> reader"
  sp_seen :: "product_card option list"

definition set_reader :: "string \<Rightarrow> reader \<Rightarrow> stampede \<Rightarrow> stampede" where
  "set_reader r x q = q\<lparr>sp_reader := (sp_reader q)(r := x)\<rparr>"

text \<open>A read of the cache that answers, or goes on with \<open>miss\<close>; a text that does not parse is an error.\<close>

definition after_read :: "(thrown + product_card option \<Rightarrow> reader) \<Rightarrow> reader \<Rightarrow> stampede \<Rightarrow> reader" where
  "after_read answer miss q = (case sp_cache q of None \<Rightarrow> miss | Some t \<Rightarrow> answer (parse_cached t))"

text \<open>\<open>SET NX\<close> of the lock, and the script that removes it.\<close>

definition try_lock :: "string \<Rightarrow> stampede \<Rightarrow> stampede" where
  "try_lock r q =
     (if sp_lock q = None then set_reader r Locked (q\<lparr>sp_lock := Some r\<rparr>) else set_reader r (Polling 0) q)"

definition unlock :: "string \<Rightarrow> stampede \<Rightarrow> stampede" where
  "unlock r q = q\<lparr>sp_lock := (if sp_lock q = Some r then None else sp_lock q)\<rparr>"

definition timed_out :: "string \<Rightarrow> thrown" where
  "timed_out productId = PlainError (''cache wait timed out for product '' @ productId)"

definition poll :: "string \<Rightarrow> nat \<Rightarrow> stampede \<Rightarrow> reader" where
  "poll productId k q =
     (if k < WAIT_POLLS then after_read Answered (Polling (Suc k)) q else Answered (Inl (timed_out productId)))"

inductive calm_step :: "string \<Rightarrow> stampede \<Rightarrow> stampede \<Rightarrow> bool"
  for productId
where
  read_first: "sp_reader q r = Arriving \<Longrightarrow> calm_step productId q (set_reader r (after_read Answered Missed q) q)"
| lock: "sp_reader q r = Missed \<Longrightarrow> calm_step productId q (try_lock r q)"
| read_again: "sp_reader q r = Locked \<Longrightarrow> calm_step productId q (set_reader r (after_read Unlocking Loading q) q)"
| load: "sp_reader q r = Loading \<Longrightarrow> calm_step productId q
    (set_reader r (Writing crd) (q\<lparr>sp_dbCalls := sp_dbCalls q + 1, sp_seen := sp_seen q @ [crd]\<rparr>))"
| stored: "sp_reader q r = Writing crd \<Longrightarrow> calm_step productId q
    (set_reader r (Unlocking (Inr crd)) (q\<lparr>sp_cache := Some (print_cached crd)\<rparr>))"
| unlocked: "sp_reader q r = Unlocking x \<Longrightarrow> calm_step productId q (set_reader r (Answered x) (unlock r q))"
| polled: "sp_reader q r = Polling k \<Longrightarrow> calm_step productId q (set_reader r (poll productId k q) q)"

text \<open>The same when keys expire or are evicted at any time, and queries and cache writes fail.\<close>

inductive rough_step :: "string \<Rightarrow> stampede \<Rightarrow> stampede \<Rightarrow> bool"
  for productId
where
  calm: "calm_step productId q q' \<Longrightarrow> rough_step productId q q'"
| load_fails: "sp_reader q r = Loading \<Longrightarrow> rough_step productId q
    (set_reader r (Unlocking (Inl e)) (q\<lparr>sp_dbCalls := sp_dbCalls q + 1\<rparr>))"
| write_fails: "sp_reader q r = Writing crd \<Longrightarrow> rough_step productId q (set_reader r (Unlocking (Inr crd)) q)"
| cache_gone: "rough_step productId q (q\<lparr>sp_cache := None\<rparr>)"
| lock_gone: "rough_step productId q (q\<lparr>sp_lock := None\<rparr>)"

definition burst :: "product_card option option \<Rightarrow> stampede" where
  "burst cached = \<lparr>sp_cache = map_option print_cached cached, sp_lock = None, sp_dbCalls = 0, sp_reader = (\<lambda>_. Arriving),
     sp_seen = (case cached of None \<Rightarrow> [] | Some p \<Rightarrow> [p])\<rparr>"

lemma set_reader_simps [simp]:
  "sp_cache (set_reader r x q) = sp_cache q" "sp_lock (set_reader r x q) = sp_lock q" "sp_dbCalls (set_reader r x q) = sp_dbCalls q"
  "sp_seen (set_reader r x q) = sp_seen q" "sp_reader (set_reader r x q) = (sp_reader q)(r := x)"
  by (simp_all add: set_reader_def)

section \<open>Soundness with a broken lock\<close>

fun holds_lock :: "reader \<Rightarrow> bool" where
  "holds_lock Locked = True"
| "holds_lock Loading = True"
| "holds_lock (Writing c) = True"
| "holds_lock (Unlocking x) = True"
| "holds_lock _ = False"

fun reader_ok :: "product_card option list \<Rightarrow> reader \<Rightarrow> bool" where
  "reader_ok seen (Writing c) \<longleftrightarrow> c \<in> set seen"
| "reader_ok seen (Unlocking (Inr c)) \<longleftrightarrow> c \<in> set seen"
| "reader_ok seen (Answered (Inr c)) \<longleftrightarrow> c \<in> set seen"
| "reader_ok seen _ \<longleftrightarrow> True"

definition cards_ok :: "stampede \<Rightarrow> bool" where
  "cards_ok q \<longleftrightarrow> (\<forall>r. reader_ok (sp_seen q) (sp_reader q r)) \<and> (\<forall>t. sp_cache q = Some t \<longrightarrow> (\<exists>c \<in> set (sp_seen q). t = print_cached c))
     \<and> (\<forall>r. sp_lock q = Some r \<longrightarrow> holds_lock (sp_reader q r))"

lemma reader_ok_more: "reader_ok seen x \<Longrightarrow> reader_ok (seen @ more') x"
  by (cases "(seen, x)" rule: reader_ok.cases) auto

lemma after_read_ok:
  assumes "cards_ok q" and "reader_ok (sp_seen q) miss" and "\<And>c. c \<in> set (sp_seen q) \<Longrightarrow> reader_ok (sp_seen q) (answer (Inr c))"
  shows "reader_ok (sp_seen q) (after_read answer miss q)"
proof (cases "sp_cache q")
  case (Some t)
  then obtain c where "c \<in> set (sp_seen q)" "t = print_cached c" using assms(1) unfolding cards_ok_def by blast
  then show ?thesis using assms(3) Some by (simp add: after_read_def)
qed (simp add: after_read_def assms(2))

lemma cards_ok_set:
  assumes "cards_ok q" and "reader_ok (sp_seen q) x" and "sp_lock q = Some r \<Longrightarrow> holds_lock x"
  shows "cards_ok (set_reader r x q)"
  using assms unfolding cards_ok_def by auto

lemma cards_ok_step:
  assumes "rough_step productId q q'" and ok: "cards_ok q"
  shows "cards_ok q'"
  using assms(1)
proof cases
  case calm
  then show ?thesis
  proof cases
    case (read_first r)
    then show ?thesis using ok by (auto intro!: cards_ok_set after_read_ok simp: cards_ok_def)
  next
    case (lock r)
    then show ?thesis using ok unfolding cards_ok_def try_lock_def by auto
  next
    case (read_again r)
    have "holds_lock (after_read Unlocking Loading q)" by (simp add: after_read_def split: option.split)
    then show ?thesis using read_again ok by (auto intro!: cards_ok_set after_read_ok)
  next
    case (load r crd)
    then show ?thesis using ok reader_ok_more unfolding cards_ok_def by (fastforce split: if_splits)
  next
    case (stored r crd)
    have "reader_ok (sp_seen q) (sp_reader q r)" using ok unfolding cards_ok_def by blast
    then show ?thesis using stored ok unfolding cards_ok_def by auto
  next
    case (unlocked r x)
    have "reader_ok (sp_seen q) (sp_reader q r)" using ok unfolding cards_ok_def by blast
    then have "reader_ok (sp_seen q) (Answered x)" using unlocked(2) by (cases x) auto
    then show ?thesis using unlocked ok unfolding cards_ok_def unlock_def by auto
  next
    case (polled r k)
    have "reader_ok (sp_seen q) (poll productId k q)" using after_read_ok [OF ok, of "Polling (Suc k)" Answered] by (simp add: poll_def)
    moreover have "sp_lock q \<noteq> Some r" using ok polled(2) by (auto simp: cards_ok_def)
    ultimately show ?thesis using polled ok by (auto intro!: cards_ok_set)
  qed
next
  case (load_fails r e)
  then show ?thesis using ok unfolding cards_ok_def by auto
next
  case (write_fails r crd)
  have "reader_ok (sp_seen q) (sp_reader q r)" using ok unfolding cards_ok_def by blast
  then show ?thesis using write_fails ok by (auto intro!: cards_ok_set)
qed (use ok in \<open>auto simp: cards_ok_def\<close>)

lemma cards_ok_burst: "cards_ok (burst cached)"
  by (auto simp: cards_ok_def burst_def split: option.splits)

lemma cards_ok_reachable: "(rough_step productId)\<^sup>*\<^sup>* (burst cached) q \<Longrightarrow> cards_ok q"
  by (induction rule: rtranclp_induct) (auto intro: cards_ok_step cards_ok_burst)

section \<open>Single flight\<close>

fun flight_ok :: "stampede \<Rightarrow> reader \<Rightarrow> bool" where
  "flight_ok q Loading \<longleftrightarrow> sp_cache q = None \<and> sp_seen q = []"
| "flight_ok q (Writing c) \<longleftrightarrow> sp_seen q = [c]"
| "flight_ok q _ \<longleftrightarrow> True"

definition single_ok :: "nat \<Rightarrow> stampede \<Rightarrow> bool" where
  "single_ok k q \<longleftrightarrow> length (sp_seen q) \<le> 1 \<and> sp_dbCalls q + k = length (sp_seen q)
     \<and> (\<forall>r. holds_lock (sp_reader q r) \<longleftrightarrow> sp_lock q = Some r) \<and> (\<forall>r. flight_ok q (sp_reader q r))
     \<and> (sp_seen q \<noteq> [] \<longrightarrow> sp_cache q \<noteq> None \<or> (\<exists>r c. sp_reader q r = Writing c))"

lemma flight_ok_free: "\<not> holds_lock x \<Longrightarrow> flight_ok q x"
  by (cases x) auto

lemma flight_ok_cong: "sp_cache q = sp_cache q' \<Longrightarrow> sp_seen q = sp_seen q' \<Longrightarrow> flight_ok q x = flight_ok q' x"
  by (cases x) auto

lemma single_okI:
  assumes "length (sp_seen q) \<le> 1" and "sp_dbCalls q + k = length (sp_seen q)"
    and "\<And>r. holds_lock (sp_reader q r) \<longleftrightarrow> sp_lock q = Some r" and "\<And>r. flight_ok q (sp_reader q r)"
    and "sp_seen q \<noteq> [] \<Longrightarrow> sp_cache q = None \<Longrightarrow> \<exists>r c. sp_reader q r = Writing c"
  shows "single_ok k q"
  unfolding single_ok_def using assms by blast

lemma single_okD:
  assumes "single_ok k q"
  shows "length (sp_seen q) \<le> 1" "sp_dbCalls q + k = length (sp_seen q)" "holds_lock (sp_reader q r) \<longleftrightarrow> sp_lock q = Some r"
    "flight_ok q (sp_reader q r)" "sp_seen q \<noteq> [] \<Longrightarrow> sp_cache q = None \<Longrightarrow> \<exists>r c. sp_reader q r = Writing c"
  using assms unfolding single_ok_def by blast+

lemma single_ok_set:
  assumes ok: "single_ok k q" and "holds_lock x \<longleftrightarrow> holds_lock (sp_reader q r)" and "flight_ok q x" and w: "\<nexists>c. sp_reader q r = Writing c"
  shows "single_ok k (set_reader r x q)"
proof (rule single_okI)
  show "flight_ok (set_reader r x q) (sp_reader (set_reader r x q) s)" for s
    using flight_ok_cong [of "set_reader r x q" q] assms(3) single_okD(4) [OF ok] by simp
  assume "sp_seen (set_reader r x q) \<noteq> []" "sp_cache (set_reader r x q) = None"
  then obtain s c where "sp_reader q s = Writing c" using single_okD(5) [OF ok] by auto
  then show "\<exists>s c. sp_reader (set_reader r x q) s = Writing c" using w by (intro exI [of _ s] exI [of _ c]) auto
qed (use assms(2) single_okD(1-3) [OF ok] in auto)

text \<open>A step of the holder of the lock: only what it does itself matters.\<close>

lemma single_ok_holder:
  assumes ok: "single_ok k q" and h: "holds_lock (sp_reader q r)" and q1: "sp_reader q1 = sp_reader q" "length (sp_seen q1) \<le> 1"
    and "sp_dbCalls q1 + k = length (sp_seen q1)" and "holds_lock x \<longleftrightarrow> sp_lock q1 = Some r" "sp_lock q1 \<noteq> None \<Longrightarrow> sp_lock q1 = Some r"
    and "flight_ok (set_reader r x q1) x" and "sp_seen q1 \<noteq> [] \<Longrightarrow> sp_cache q1 = None \<Longrightarrow> \<exists>c. x = Writing c"
  shows "single_ok k (set_reader r x q1)"
proof -
  have other: "\<not> holds_lock (sp_reader q s)" if "s \<noteq> r" for s
    using single_okD(3) [OF ok, of r] single_okD(3) [OF ok, of s] h that by simp
  show ?thesis
  proof (rule single_okI)
    show "holds_lock (sp_reader (set_reader r x q1) s) \<longleftrightarrow> sp_lock (set_reader r x q1) = Some s" for s
      using other [of s] assms(6,7) q1(1) by (cases "s = r") auto
    show "flight_ok (set_reader r x q1) (sp_reader (set_reader r x q1) s)" for s
      using flight_ok_free [OF other] assms(8) q1(1) by (cases "s = r") auto
    assume "sp_seen (set_reader r x q1) \<noteq> []" "sp_cache (set_reader r x q1) = None"
    then obtain c where "x = Writing c" using assms(9) by auto
    then show "\<exists>s c. sp_reader (set_reader r x q1) s = Writing c" by (intro exI [of _ r] exI [of _ c]) simp
  qed (use assms(4,5) in simp_all)
qed

lemma single_ok_step:
  assumes "calm_step productId q q'" and ok: "single_ok k q"
  shows "single_ok k q'"
proof -
  note held = single_okD(3) [OF ok] and flight = single_okD(4) [OF ok]
  have filled: "sp_seen q = [] \<or> sp_cache q \<noteq> None" if h: "holds_lock (sp_reader q r) \<or> sp_lock q = None" and w: "\<nexists>c. sp_reader q r = Writing c" for r
  proof (rule ccontr)
    assume "\<not> ?thesis"
    then obtain s c where "sp_reader q s = Writing c" using single_okD(5) [OF ok] by blast
    then show False using held [of r] held [of s] h w by (cases "s = r") auto
  qed
  show ?thesis using assms(1)
  proof cases
    case (read_first r)
    then show ?thesis by (auto intro!: single_ok_set [OF ok] simp: after_read_def split: option.split)
  next
    case (lock r)
    show ?thesis
    proof (cases "sp_lock q")
      case None
      let ?q1 = "q\<lparr>sp_lock := Some r\<rparr>"
      have "single_ok k (set_reader r Locked ?q1)"
      proof (rule single_okI)
        show "holds_lock (sp_reader (set_reader r Locked ?q1) s) \<longleftrightarrow> sp_lock (set_reader r Locked ?q1) = Some s" for s
          using held [of s] None by auto
        show "flight_ok (set_reader r Locked ?q1) (sp_reader (set_reader r Locked ?q1) s)" for s
          using held [of s] None flight_ok_free by auto
      qed (use single_okD(1,2) [OF ok] filled [of r] None lock(2) in auto)
      then show ?thesis using lock(1) None by (simp add: try_lock_def)
    next
      case (Some s)
      then show ?thesis using lock by (auto intro!: single_ok_set [OF ok] simp: try_lock_def)
    qed
  next
    case (read_again r)
    then show ?thesis using filled [of r] by (auto intro!: single_ok_set [OF ok] simp: after_read_def split: option.split)
  next
    case (load r c)
    show ?thesis unfolding load(1)
      by (rule single_ok_holder [OF ok]) (use load(2) flight [of r] held [of r] single_okD(2) [OF ok] in auto)
  next
    case (stored r c)
    show ?thesis unfolding stored(1)
      by (rule single_ok_holder [OF ok]) (use stored(2) flight [of r] held [of r] single_okD(2) [OF ok] in auto)
  next
    case (unlocked r x)
    show ?thesis unfolding unlocked(1)
      by (rule single_ok_holder [OF ok]) (use unlocked(2) filled [of r] held [of r] single_okD(1,2) [OF ok] in \<open>auto simp: unlock_def\<close>)
  next
    case (polled r k)
    then show ?thesis by (auto intro!: single_ok_set [OF ok] simp: poll_def after_read_def split: option.split)
  qed
qed

lemma single_ok_burst: "single_ok (if cached = None then 0 else 1) (burst cached)"
  by (auto simp: single_ok_def burst_def split: option.splits)

lemma single_ok_reachable: "(calm_step productId)\<^sup>*\<^sup>* (burst cached) q \<Longrightarrow> single_ok (if cached = None then 0 else 1) q"
proof (induction rule: rtranclp_induct)
  case base
  show ?case by (rule single_ok_burst)
next
  case (step q q')
  then show ?case by (blast intro: single_ok_step)
qed

section \<open>demo-cache\<close>

definition WARMED :: nat where "WARMED = 60"
definition CONCURRENT :: nat where "CONCURRENT = 20"
definition ID_BASE :: int where "ID_BASE = 9000000000000"

definition demo_ids :: "string list" where
  "demo_ids = map (\<lambda>index. show_int (ID_BASE + int index)) [0..<WARMED]"

definition cache_exit :: "string \<Rightarrow> int \<Rightarrow> int set \<Rightarrow> nat \<Rightarrow> nat \<Rightarrow> nat" where
  "cache_exit policy maxmemory ttls dbCalls dbCallsWarm =
     (if policy = ''allkeys-lru'' \<and> 0 < maxmemory \<and> 50 \<le> length demo_ids \<and> 5 \<le> Finite_Set.card ttls \<and> 20 \<le> CONCURRENT
        \<and> dbCalls = 1 \<and> dbCallsWarm = 0 then 0 else 1)"

section \<open>Scheduled runs\<close>

text \<open>The next command of a reader; a load finds \<open>found\<close>.\<close>

definition reader_turn :: "string \<Rightarrow> product_card option \<Rightarrow> string \<Rightarrow> stampede \<Rightarrow> stampede" where
  "reader_turn productId found r q =
     (case sp_reader q r of
        Arriving \<Rightarrow> set_reader r (after_read Answered Missed q) q
      | Missed \<Rightarrow> try_lock r q
      | Locked \<Rightarrow> set_reader r (after_read Unlocking Loading q) q
      | Loading \<Rightarrow> set_reader r (Writing found) (q\<lparr>sp_dbCalls := sp_dbCalls q + 1, sp_seen := sp_seen q @ [found]\<rparr>)
      | Writing c \<Rightarrow> set_reader r (Unlocking (Inr c)) (q\<lparr>sp_cache := Some (print_cached c)\<rparr>)
      | Unlocking x \<Rightarrow> set_reader r (Answered x) (unlock r q)
      | Polling k \<Rightarrow> set_reader r (poll productId k q) q
      | Answered x \<Rightarrow> q)"

lemma reader_turn_step: "(calm_step productId)\<^sup>*\<^sup>* q (reader_turn productId found r q)"
proof -
  have "reader_turn productId found r q = q \<or> calm_step productId q (reader_turn productId found r q)"
    by (cases "sp_reader q r") (auto simp: reader_turn_def simp del: One_nat_def add_Suc_right intro: calm_step.intros)
  then show ?thesis by auto
qed

lemma reader_turns_run: "(calm_step productId)\<^sup>*\<^sup>* q (fold (reader_turn productId found) rs q)"
proof (induction rs arbitrary: q)
  case (Cons r rs)
  show ?case using rtranclp_trans [OF reader_turn_step Cons.IH] by simp
qed simp

section \<open>Properties\<close>

lemma answers_seen:
  assumes "cards_ok q" and "sp_reader q r = Answered (Inr c)"
  shows "c \<in> set (sp_seen q)"
  using assms unfolding cards_ok_def by (metis reader_ok.simps(3))

lemma calm_is_rough: "(calm_step productId)\<^sup>*\<^sup>* q q' \<Longrightarrow> (rough_step productId)\<^sup>*\<^sup>* q q'"
  by (induction rule: rtranclp_induct) (auto intro: rough_step.calm rtranclp.rtrancl_into_rtrancl)

text \<open>
  (C37) One flight: however many concurrent calls ask for a product and however their commands interleave,
  while neither key expires and no command fails, an empty cache costs at most one database call, and exactly
  one once a call was answered with a card; a filled cache costs none. All calls are answered with the same
  card, the loaded or the cached one. With the second read under the lock, a call that missed before the
  write and locked after the release does not load again.
\<close>

theorem getCard_single_flight:
  assumes "(calm_step productId)\<^sup>*\<^sup>* (burst cached) q"
  shows "sp_dbCalls q \<le> (if cached = None then 1 else 0)
    \<and> (\<forall>r c. sp_reader q r = Answered (Inr c) \<longrightarrow> sp_seen q = [c] \<and> (case cached of None \<Rightarrow> sp_dbCalls q = 1 | Some p \<Rightarrow> c = p))
    \<and> (\<forall>r s. sp_reader q r = Loading \<and> sp_reader q s = Loading \<longrightarrow> r = s)"
proof -
  have one: "single_ok (if cached = None then 0 else 1) q" by (rule single_ok_reachable [OF assms])
  have ok: "cards_ok q" by (rule cards_ok_reachable [OF calm_is_rough [OF assms]])
  have kept: "set (sp_seen (burst cached)) \<subseteq> set (sp_seen q)" using assms
  proof (induction rule: rtranclp_induct)
    case (step q q')
    have "set (sp_seen q) \<subseteq> set (sp_seen q')" using step.hyps(2) by cases (auto simp: try_lock_def unlock_def)
    then show ?case using step.IH by blast
  qed simp
  have "sp_seen q = [c] \<and> (case cached of None \<Rightarrow> sp_dbCalls q = 1 | Some p \<Rightarrow> c = p)" if "sp_reader q r = Answered (Inr c)" for r c
  proof -
    have c: "sp_seen q = [c]" using answers_seen [OF ok that] single_okD(1) [OF one] by (cases "sp_seen q") auto
    then show ?thesis using single_okD(2) [OF one] kept by (auto simp: burst_def split: option.splits)
  qed
  moreover have "r = s" if "sp_reader q r = Loading" "sp_reader q s = Loading" for r s
    using single_okD(3) [OF one, of r] single_okD(3) [OF one, of s] that by simp
  ultimately show ?thesis using single_okD(1,2) [OF one] by auto
qed

text \<open>
  The lock is an optimisation only: when keys expire or are evicted at any time and commands fail, every card
  a call is answered with was cached at the start or loaded from the database, and no call leaves a lock of
  its own behind.
\<close>

theorem getCard_sound_unlocked:
  assumes "(rough_step productId)\<^sup>*\<^sup>* (burst cached) q"
  shows "(\<forall>r c. sp_reader q r = Answered (Inr c) \<longrightarrow> c \<in> set (sp_seen q)) \<and> (\<forall>r x. sp_reader q r = Answered x \<longrightarrow> sp_lock q \<noteq> Some r)"
proof -
  have ok: "cards_ok q" by (rule cards_ok_reachable [OF assms])
  then have "sp_lock q \<noteq> Some r" if "sp_reader q r = Answered x" for r x using that by (auto simp: cards_ok_def)
  then show ?thesis using answers_seen [OF ok] by blast
qed

text \<open>
  The burst of \<open>demo-cache\<close> makes one database call and its warm reads make none, so that the exit code is 0
  whenever the server has the expected policy and the warmed keys have five different times to live.
\<close>

theorem demo_cache_stampede:
  assumes "(calm_step i)\<^sup>*\<^sup>* (burst None) q" and "sp_reader q r = Answered (Inr c)" and "(calm_step i)\<^sup>*\<^sup>* (burst (Some c)) q'"
    and "policy = ''allkeys-lru''" and "0 < maxmemory" and "5 \<le> Finite_Set.card ttls"
  shows "cache_exit policy maxmemory ttls (sp_dbCalls q) (sp_dbCalls q') = 0"
proof -
  have "sp_dbCalls q = 1"
  proof -
    have one: "single_ok 0 q" using single_ok_reachable [OF assms(1)] by simp
    have "c \<in> set (sp_seen q)" by (rule answers_seen [OF cards_ok_reachable [OF calm_is_rough [OF assms(1)]] assms(2)])
    then show ?thesis using single_okD(1,2) [OF one] by (cases "sp_seen q") auto
  qed
  moreover have "sp_dbCalls q' = 0" using single_okD(1,2) [OF single_ok_reachable [OF assms(3)]] by simp
  ultimately show ?thesis using assms(4-6) by (simp add: cache_exit_def demo_ids_def WARMED_def CONCURRENT_def)
qed

definition two_readers :: "string list" where
  "two_readers = [''a'', ''b'', ''a'', ''a'', ''a'', ''a'', ''a'', ''b'', ''b'', ''b'']"

definition two_answered :: stampede where
  "two_answered = fold (reader_turn ''7'' None) two_readers (burst None)"

lemma two_answered_run: "(calm_step ''7'')\<^sup>*\<^sup>* (burst None) two_answered"
  unfolding two_answered_def by (rule reader_turns_run)

lemma two_answered_b: "sp_reader two_answered ''b'' = Answered (Inr None)"
  by code_simp

theorem getCard_single_flight_witness:
  "sp_reader two_answered ''b'' = Answered (Inr None) \<and> sp_dbCalls two_answered = 1"
  using getCard_single_flight [OF two_answered_run] two_answered_b by simp

theorem getCard_sound_unlocked_witness: "sp_lock two_answered \<noteq> Some ''b''"
  using getCard_sound_unlocked [OF calm_is_rough [OF two_answered_run]] two_answered_b by blast

theorem demo_cache_stampede_witness: "cache_exit ''allkeys-lru'' 1 {300, 301, 302, 303, 304} (sp_dbCalls two_answered) 0 = 0"
proof -
  have "Finite_Set.card {300, 301, 302, 303, 304 :: int} = 5" by simp
  then show ?thesis using demo_cache_stampede [OF two_answered_run two_answered_b rtranclp.rtrancl_refl, of "''allkeys-lru''" 1 "{300, 301, 302, 303, 304}"]
    by (simp add: burst_def)
qed

end
