(* ===== verification/NPlusOne.thy ===== *)
theory NPlusOne
  imports Schema
begin

text \<open>
  \<open>src/demo/demo-nplus1.ts\<close> with the counter of \<open>src/logging/query-count-logger.ts\<close>: the statements the object mapper
  sends for the same graph of orders, lines and products under three strategies. How many statements one
  call of the mapper sends is a parameter; the loops over the results are the program's own. Printing the
  table is not modelled.
\<close>

section \<open>The counter\<close>

record orm_costs =
  oc_find_orders :: nat
  oc_find_items :: nat
  oc_find_product :: nat
  oc_join :: nat
  oc_query_strategy :: nat
  oc_count :: nat

record count_state =
  cn_world :: world
  cn_count :: nat

definition reset_count :: "(count_state, thrown, unit) exec" where
  "reset_count s = (Inr (), s\<lparr>cn_count := 0\<rparr>)"

definition read_count :: "(count_state, thrown, nat) exec" where
  "read_count s = (Inr (cn_count s), s)"

text \<open>A call of the mapper: its statements are logged and its result comes from one snapshot.\<close>

definition ormE :: "nat \<Rightarrow> (db \<Rightarrow> (thrown + 'a) \<times> db) \<Rightarrow> (count_state, thrown, 'a) exec" where
  "ormE n f s = (case query f (cn_world s) of (x, w) \<Rightarrow> (x, \<lparr>cn_world = w, cn_count = cn_count s + n\<rparr>))"

section \<open>The strategies\<close>

definition first_orders :: "nat \<Rightarrow> db \<Rightarrow> order_row list" where
  "first_orders n d = take n (sort_key o_id (orders d))"

definition sql_orders :: "nat \<Rightarrow> db \<Rightarrow> (thrown + order_row list) \<times> db" where
  "sql_orders n d = (Inr (first_orders n d), d)"

definition sql_items :: "int \<Rightarrow> db \<Rightarrow> (thrown + order_item_row list) \<times> db" where
  "sql_items oid d = (Inr (lines_of d oid), d)"

definition sql_product :: "int \<Rightarrow> db \<Rightarrow> (thrown + product_row) \<times> db" where
  "sql_product i d =
     (case find (\<lambda>p. p_id p = i) (products d) of
        None \<Rightarrow> (Inl (PlainError ''Could not find any entity of type Product''), d)
      | Some p \<Rightarrow> (Inr p, d))"

definition loadNaive :: "orm_costs \<Rightarrow> nat \<Rightarrow> (count_state, thrown, nat) exec" where
  "loadNaive costs n =
     bindE (ormE (oc_find_orders costs) (sql_orders n)) (\<lambda>os.
     bindE (forE os (\<lambda>order.
       bindE (ormE (oc_find_items costs) (sql_items (o_id order))) (\<lambda>items.
       bindE (forE items (\<lambda>item. bindE (ormE (oc_find_product costs) (sql_product (i_product_id item))) (\<lambda>_. returnE ()))) (\<lambda>_.
       returnE ())))) (\<lambda>_.
     returnE (length os)))"

definition loadJoin :: "orm_costs \<Rightarrow> nat \<Rightarrow> (count_state, thrown, unit) exec" where
  "loadJoin costs n = bindE (ormE (oc_join costs) (sql_orders n)) (\<lambda>_. returnE ())"

definition loadQueryStrategy :: "orm_costs \<Rightarrow> nat \<Rightarrow> (count_state, thrown, unit) exec" where
  "loadQueryStrategy costs n = bindE (ormE (oc_query_strategy costs) (sql_orders n)) (\<lambda>_. returnE ())"

record sample_result =
  sr_take :: nat
  sr_naive :: nat
  sr_join :: nat
  sr_queryStrategy :: nat

definition measure_take :: "orm_costs \<Rightarrow> nat \<Rightarrow> (count_state, thrown, sample_result) exec" where
  "measure_take costs n =
     bindE reset_count (\<lambda>_.
     bindE (loadNaive costs n) (\<lambda>_.
     bindE read_count (\<lambda>naive.
     bindE reset_count (\<lambda>_.
     bindE (loadJoin costs n) (\<lambda>_.
     bindE read_count (\<lambda>joined.
     bindE reset_count (\<lambda>_.
     bindE (loadQueryStrategy costs n) (\<lambda>_.
     bindE read_count (\<lambda>queryStrategy.
     returnE \<lparr>sr_take = n, sr_naive = naive, sr_join = joined, sr_queryStrategy = queryStrategy\<rparr>)))))))))"

section \<open>The sizes\<close>

text \<open>The arguments after the script, and what a text is as a number.\<close>

fun read_takes :: "(string \<Rightarrow> js_number) \<Rightarrow> string list \<Rightarrow> thrown + nat list" where
  "read_takes number [] = Inr []"
| "read_takes number (arg # args) =
     (case number arg of
        Whole v \<Rightarrow>
          if v < 1 then Inl (PlainError (''Invalid take '' @ arg))
          else (case read_takes number args of Inl e \<Rightarrow> Inl e | Inr vs \<Rightarrow> Inr (nat v # vs))
      | NotInteger _ \<Rightarrow> Inl (PlainError (''Invalid take '' @ arg)))"

definition parseTakes :: "(string \<Rightarrow> js_number) \<Rightarrow> string list \<Rightarrow> thrown + nat list option" where
  "parseTakes number argv =
     (let raw = filter (\<lambda>arg. 0 < length arg) (drop 2 argv)
      in if raw = [] then Inr None
         else (case read_takes number raw of Inl e \<Rightarrow> Inl e | Inr vs \<Rightarrow> Inr (Some (sort (remdups vs)))))"

definition sql_count_orders :: "db \<Rightarrow> (thrown + nat) \<times> db" where
  "sql_count_orders d = (Inr (length (orders d)), d)"

definition resolveTakes :: "orm_costs \<Rightarrow> (string \<Rightarrow> js_number) \<Rightarrow> string list \<Rightarrow> (count_state, thrown, nat list) exec" where
  "resolveTakes costs number argv =
     bindE (liftE (parseTakes number argv)) (\<lambda>fromArgv.
     case fromArgv of
       Some ts \<Rightarrow> returnE ts
     | None \<Rightarrow>
         bindE (ormE (oc_count costs) sql_count_orders) (\<lambda>all_orders.
         if all_orders < 1 then throwE (PlainError ''No orders in the database; run npm run seed first'')
         else let small = min 3 all_orders
              in returnE (if small = all_orders then [all_orders] else [small, all_orders])))"

definition demo_nplus1 :: "orm_costs \<Rightarrow> (string \<Rightarrow> js_number) \<Rightarrow> string list \<Rightarrow> (count_state, thrown, sample_result list) exec" where
  "demo_nplus1 costs number argv =
     bindE (resolveTakes costs number argv) (\<lambda>ts. forE ts (measure_take costs))"

section \<open>Counting\<close>

lemma ormE_run:
  assumes "w_sched (cn_world s) = []" and "f (w_db (cn_world s)) = (Inr x, w_db (cn_world s))"
  shows "ormE n f s = (Inr x, s\<lparr>cn_count := cn_count s + n\<rparr>)"
  using query_run [OF assms(1), of f x "w_db (cn_world s)"] assms(2) by (simp add: ormE_def)

lemma forE_counts:
  assumes "\<And>x s. x \<in> set xs \<Longrightarrow> cn_world s = w \<Longrightarrow> \<exists>y. f x s = (Inr y, s\<lparr>cn_count := cn_count s + c x\<rparr>)"
  shows "cn_world s = w \<Longrightarrow> \<exists>ys. forE xs f s = (Inr ys, s\<lparr>cn_count := cn_count s + sum_list (map c xs)\<rparr>)"
  using assms
proof (induction xs arbitrary: s)
  case (Cons x xs)
  obtain y where y: "f x s = (Inr y, s\<lparr>cn_count := cn_count s + c x\<rparr>)" using Cons.prems by auto
  obtain ys where "forE xs f (s\<lparr>cn_count := cn_count s + c x\<rparr>) = (Inr ys, s\<lparr>cn_count := cn_count s + c x + sum_list (map c xs)\<rparr>)"
    using Cons.IH [of "s\<lparr>cn_count := cn_count s + c x\<rparr>"] Cons.prems by auto
  then show ?case using y by (simp add: bindE_def add.assoc)
qed simp

lemma sum_list_const_nat: "sum_list (map (\<lambda>x. k) xs) = length xs * (k :: nat)"
  by (induction xs) auto

definition naive_count :: "orm_costs \<Rightarrow> nat \<Rightarrow> db \<Rightarrow> nat" where
  "naive_count costs n d = oc_find_orders costs
     + sum_list (map (\<lambda>order. oc_find_items costs + length (lines_of d (o_id order)) * oc_find_product costs) (first_orders n d))"

lemma loadNaive_run:
  assumes sched: "w_sched (cn_world s) = []" and ok: "order_items_ok (w_db (cn_world s))"
  shows "loadNaive costs n s = (Inr (length (first_orders n (w_db (cn_world s)))),
    s\<lparr>cn_count := cn_count s + naive_count costs n (w_db (cn_world s))\<rparr>)"
proof -
  let ?w = "cn_world s" and ?d = "w_db (cn_world s)"
  have product: "\<exists>y. bindE (ormE (oc_find_product costs) (sql_product (i_product_id item))) (\<lambda>_. returnE ()) t
      = (Inr y, t\<lparr>cn_count := cn_count t + oc_find_product costs\<rparr>)" if "item \<in> set (order_items ?d)" "cn_world t = ?w" for item t
  proof -
    have "i_product_id item \<in> p_id ` set (products ?d)" using ok that(1) unfolding order_items_ok_def by blast
    then have "find (\<lambda>p. p_id p = i_product_id item) (products ?d) \<noteq> None" by (auto simp: find_None_iff)
    then obtain p where "find (\<lambda>p. p_id p = i_product_id item) (products ?d) = Some p" by auto
    then have "sql_product (i_product_id item) ?d = (Inr p, ?d)" by (simp add: sql_product_def)
    then show ?thesis using ormE_run [of t "sql_product (i_product_id item)" p] sched that(2) by (simp add: bindE_def)
  qed
  have lines: "\<exists>ys. forE (lines_of ?d oid) (\<lambda>item. bindE (ormE (oc_find_product costs) (sql_product (i_product_id item))) (\<lambda>_. returnE ())) t
      = (Inr ys, t\<lparr>cn_count := cn_count t + length (lines_of ?d oid) * oc_find_product costs\<rparr>)" if t: "cn_world t = ?w" for oid t
  proof -
    have in_db: "item \<in> set (order_items ?d)" if "item \<in> set (lines_of ?d oid)" for item using that by (simp add: lines_of_def)
    show ?thesis using forE_counts [of "lines_of ?d oid" ?w _ "\<lambda>_. oc_find_product costs" t, OF product [OF in_db] t]
      by (simp add: sum_list_const_nat)
  qed
  have order: "\<exists>y. bindE (ormE (oc_find_items costs) (sql_items oid)) (\<lambda>items.
       bindE (forE items (\<lambda>item. bindE (ormE (oc_find_product costs) (sql_product (i_product_id item))) (\<lambda>_. returnE ()))) (\<lambda>_.
       returnE ())) t = (Inr y, t\<lparr>cn_count := cn_count t + (oc_find_items costs + length (lines_of ?d oid) * oc_find_product costs)\<rparr>)"
    if t: "cn_world t = ?w" for oid t
  proof -
    have "ormE (oc_find_items costs) (sql_items oid) t = (Inr (lines_of ?d oid), t\<lparr>cn_count := cn_count t + oc_find_items costs\<rparr>)"
      using ormE_run [of t "sql_items oid" "lines_of ?d oid"] sched t by (simp add: sql_items_def)
    then show ?thesis using lines [of "t\<lparr>cn_count := cn_count t + oc_find_items costs\<rparr>" oid] t by (auto simp: bindE_def add.assoc)
  qed
  have first: "ormE (oc_find_orders costs) (sql_orders n) s = (Inr (first_orders n ?d), s\<lparr>cn_count := cn_count s + oc_find_orders costs\<rparr>)"
    using ormE_run [of s "sql_orders n" "first_orders n ?d"] sched by (simp add: sql_orders_def)
  obtain ys where "forE (first_orders n ?d) (\<lambda>order. bindE (ormE (oc_find_items costs) (sql_items (o_id order))) (\<lambda>items.
       bindE (forE items (\<lambda>item. bindE (ormE (oc_find_product costs) (sql_product (i_product_id item))) (\<lambda>_. returnE ()))) (\<lambda>_.
       returnE ()))) (s\<lparr>cn_count := cn_count s + oc_find_orders costs\<rparr>)
     = (Inr ys, s\<lparr>cn_count := cn_count s + naive_count costs n ?d\<rparr>)"
    using forE_counts [of "first_orders n ?d" ?w _ "\<lambda>order. oc_find_items costs + length (lines_of ?d (o_id order)) * oc_find_product costs"
        "s\<lparr>cn_count := cn_count s + oc_find_orders costs\<rparr>", OF order] by (auto simp: naive_count_def add.assoc)
  then show ?thesis using first by (simp add: loadNaive_def bindE_def)
qed

lemma other_strategies_run:
  assumes "w_sched (cn_world s) = []"
  shows "loadJoin costs n s = (Inr (), s\<lparr>cn_count := cn_count s + oc_join costs\<rparr>)"
    and "loadQueryStrategy costs n s = (Inr (), s\<lparr>cn_count := cn_count s + oc_query_strategy costs\<rparr>)"
  using ormE_run [of s "sql_orders n" "first_orders n (w_db (cn_world s))"] assms
  by (simp_all add: loadJoin_def loadQueryStrategy_def bindE_def sql_orders_def)

lemma measure_run:
  assumes "w_sched (cn_world s) = []" and "order_items_ok (w_db (cn_world s))"
  shows "measure_take costs n s = (Inr \<lparr>sr_take = n, sr_naive = naive_count costs n (w_db (cn_world s)), sr_join = oc_join costs,
    sr_queryStrategy = oc_query_strategy costs\<rparr>, s\<lparr>cn_count := oc_query_strategy costs\<rparr>)"
  using assms by (simp add: measure_take_def bindE_def reset_count_def read_count_def loadNaive_run other_strategies_run)

lemma read_takes_pos: "read_takes number args = Inr vs \<Longrightarrow> v \<in> set vs \<Longrightarrow> 1 \<le> v"
  by (induction args arbitrary: vs) (auto split: js_number.splits if_splits sum.splits)

section \<open>Properties\<close>

text \<open>
  The sizes are positive, strictly increasing and never empty: taken from the arguments they are the
  distinct positive integers among them, otherwise the number of orders, with a sample of three before it
  if there are more; without orders the program says so.
\<close>

theorem resolveTakes_sizes:
  assumes "w_sched (cn_world s) = []" and "resolveTakes costs number argv s = (x, s')"
  shows "case x of
      Inl e \<Rightarrow> (\<exists>arg. e = PlainError (''Invalid take '' @ arg)) \<or> (orders (w_db (cn_world s)) = [] \<and> parseTakes number argv = Inr None)
    | Inr ts \<Rightarrow> ts \<noteq> [] \<and> sorted_wrt (<) ts \<and> (\<forall>t \<in> set ts. 1 \<le> t)"
proof -
  have bad: "\<exists>arg. e = PlainError (''Invalid take '' @ arg)" if "read_takes number args = Inl e" for args e
    using that by (induction args) (auto split: js_number.splits if_splits sum.splits)
  have some: "ts \<noteq> [] \<and> sorted_wrt (<) ts \<and> (\<forall>t \<in> set ts. 1 \<le> t)" if "parseTakes number argv = Inr (Some ts)" for ts
  proof -
    define raw where "raw = filter (\<lambda>arg. 0 < length arg) (drop 2 argv)"
    have p: "(if raw = [] then Inr None else (case read_takes number raw of Inl e \<Rightarrow> Inl e | Inr vs \<Rightarrow> Inr (Some (sort (remdups vs))))) = Inr (Some ts)"
      using that by (simp only: parseTakes_def Let_def raw_def)
    then obtain vs where r: "raw \<noteq> []" "read_takes number raw = Inr vs" "ts = sort (remdups vs)" by (auto split: if_splits sum.splits)
    have "vs \<noteq> []" using r(1,2) by (cases raw) (auto split: js_number.splits if_splits sum.splits)
    then have "ts \<noteq> []" unfolding r(3) by (metis remdups_eq_nil_iff set_empty set_sort)
    moreover have "sorted_wrt (<) ts" unfolding r(3) by (simp add: strict_sorted_iff)
    ultimately show ?thesis using read_takes_pos [OF r(2)] by (auto simp: r(3))
  qed
  have "ormE (oc_count costs) sql_count_orders s = (Inr (length (orders (w_db (cn_world s)))), s\<lparr>cn_count := cn_count s + oc_count costs\<rparr>)"
    using ormE_run [of s sql_count_orders] assms(1) by (simp add: sql_count_orders_def)
  note run = assms(2) [unfolded resolveTakes_def bindE_def liftE_def]
  show ?thesis
  proof (cases "parseTakes number argv")
    case (Inl e)
    then have "\<exists>arg. e = PlainError (''Invalid take '' @ arg)" using bad by (auto simp: parseTakes_def Let_def split: if_splits sum.splits)
    then show ?thesis using run Inl by auto
  next
    case (Inr fromArgv)
    then show ?thesis
      using run some \<open>ormE (oc_count costs) sql_count_orders s = _\<close> by (cases fromArgv) (auto simp: Let_def min_def Suc_le_eq split: if_splits)
  qed
qed

text \<open>
  The loop pays a statement per order and per line: with a mapper that sends one statement per call, a
  sample of \<open>n\<close> orders costs one statement, one for each of them and one for each of their lines, while the
  join costs one for any number of orders; so a sample with an order costs strictly more than the join.
\<close>

theorem nplus1_counts:
  assumes "w_sched (cn_world s) = []" and "order_items_ok (w_db (cn_world s))" and "oc_find_orders costs = 1" and "oc_find_items costs = 1"
    and "oc_find_product costs = 1" and "oc_join costs = 1"
  shows "\<exists>r s'. measure_take costs n s = (Inr r, s') \<and> sr_join r = 1
    \<and> sr_naive r = 1 + length (first_orders n (w_db (cn_world s))) + length (concat (map (\<lambda>order. lines_of (w_db (cn_world s)) (o_id order)) (first_orders n (w_db (cn_world s)))))
    \<and> (first_orders n (w_db (cn_world s)) \<noteq> [] \<longrightarrow> sr_join r < sr_naive r)"
proof -
  have sum: "sum_list (map (\<lambda>order. Suc (length (lines_of d (o_id order)))) os) = length os + length (concat (map (\<lambda>order. lines_of d (o_id order)) os))" for d os
    by (induction os) auto
  show ?thesis using measure_run [OF assms(1,2), of costs n] assms(3-6) by (simp add: naive_count_def sum)
qed

end
