(* ===== verification/ProblemFilter.thy ===== *)
theory ProblemFilter
  imports JsErrors
begin

text \<open>
  \<open>src/filters/problem-exception.filter.ts\<close>: every exception that leaves a handler becomes a problem
  document. An exception is a \<open>ProblemException\<close>, an \<open>HttpException\<close> of the framework with its status,
  response payload and message, or any other thrown object with its optional fields.
\<close>

datatype http_payload = PayloadText string | PayloadMessage string | PayloadMessages "string list" | PayloadEmpty

datatype exception =
    Problem problem_body
  | Http int http_payload string
  | Other "int option" "int option" "string option"

record problem_response =
  rs_status :: int
  rs_type :: string
  rs_body :: problem_body

fun join_semicolon :: "string list \<Rightarrow> string" where
  "join_semicolon [] = []"
| "join_semicolon [s] = s"
| "join_semicolon (s # ss) = s @ ''; '' @ join_semicolon ss"

definition or_default :: "string \<Rightarrow> string \<Rightarrow> string" where
  "or_default s d = (if s = [] then d else s)"

text \<open>\<open>a || b || 500\<close>: zero and absent fall through.\<close>

definition or_status :: "int option \<Rightarrow> int \<Rightarrow> int" where
  "or_status s d = (case s of Some n \<Rightarrow> if n = 0 then d else n | None \<Rightarrow> d)"

definition http_problem :: "string \<Rightarrow> int \<Rightarrow> string \<Rightarrow> problem_response" where
  "http_problem originalUrl status detail = \<lparr>rs_status = status, rs_type = ''application/problem+json'',
     rs_body = \<lparr>pb_type = ''https://marketplace.local/problems/http-'' @ show_int status,
       pb_title = (if 500 \<le> status then ''Internal Server Error'' else ''Request Error''),
       pb_status = status, pb_detail = detail, pb_instance = originalUrl\<rparr>\<rparr>"

fun catch_exception :: "string \<Rightarrow> exception \<Rightarrow> problem_response" where
  "catch_exception originalUrl (Problem body) =
     \<lparr>rs_status = pb_status body, rs_type = ''application/problem+json'', rs_body = body\<rparr>"
| "catch_exception originalUrl (Http status payload message) =
     http_problem originalUrl status
       (case payload of
          PayloadText t \<Rightarrow> or_default t message
        | PayloadMessage m \<Rightarrow> or_default m message
        | PayloadMessages ms \<Rightarrow> join_semicolon ms
        | PayloadEmpty \<Rightarrow> message)"
| "catch_exception originalUrl (Other status statusCode message) =
     http_problem originalUrl (or_status status (or_status statusCode 500))
       (case message of Some m \<Rightarrow> or_default m ''Unexpected error'' | None \<Rightarrow> ''Unexpected error'')"

text \<open>The errors of the services as the filter sees them: only problems carry a status.\<close>

fun exception_of :: "thrown \<Rightarrow> exception" where
  "exception_of (ProblemException b) = Problem b"
| "exception_of e = Other None None (Some (thrown_message e))"

section \<open>Properties\<close>



end
