(* ===== verification/Housekeeping.thy ===== *)
theory Housekeeping
  imports Schema Redis
begin

text \<open>
  What the program does around its start: the check of the environment (\<open>src/config/env.schema.ts\<close>), the password of the
  database and its ping (\<open>src/database/db.service.ts\<close>, \<open>src/health\<close>), the addresses of the Redis clients
  (\<open>src/redis/redis.module.ts\<close>), and the script that publishes the contracts (\<open>scripts/publish-pact.mjs\<close>). The schema parser,
  the file system, the encoder of URL parts and the HTTP client are parameters.
\<close>

section \<open>Configuration\<close>

fun js_join :: "string \<Rightarrow> string list \<Rightarrow> string" where
  "js_join sep [] = []"
| "js_join sep [x] = x"
| "js_join sep (x # y # xs) = x @ sep @ js_join sep (y # xs)"

record parse_issue =
  pi_path :: "string list"
  pi_message :: string

definition issue_line :: "parse_issue \<Rightarrow> string" where
  "issue_line i = ''  '' @ (let p = js_join ''.'' (pi_path i) in if p = [] then ''(root)'' else p) @ '': '' @ pi_message i"

definition validate_env :: "('raw \<Rightarrow> parse_issue list + 'env) \<Rightarrow> 'raw \<Rightarrow> thrown + 'env" where
  "validate_env safeParse raw =
     (case safeParse raw of
        Inr env \<Rightarrow> Inr env
      | Inl issues \<Rightarrow> Inl (PlainError (''Invalid configuration:'' @ [CHR 0x0A] @ js_join [CHR 0x0A] (map issue_line issues)
          @ [CHR 0x0A] @ ''Compare your .env with .env.example.'')))"

text \<open>The address of a Redis client; other than the demos, the module does not trim it.\<close>

definition redisClient :: "string \<Rightarrow> string option \<Rightarrow> thrown + string" where
  "redisClient variable url =
     (case url of
        None \<Rightarrow> Inl (PlainError (variable @ '' is required''))
      | Some u \<Rightarrow> if u = [] then Inl (PlainError (variable @ '' is required'')) else Inr u)"

section \<open>The database\<close>

definition js_trimEnd :: "string \<Rightarrow> string" where
  "js_trimEnd s = rev (dropWhile js_space (rev s))"

definition db_password :: "thrown + string \<Rightarrow> string \<Rightarrow> string" where
  "db_password file DB_PASSWORD = (case file of Inr t \<Rightarrow> js_trimEnd t | Inl _ \<Rightarrow> DB_PASSWORD)"

definition ping :: "(world, thrown, unit) exec" where
  "ping = query (\<lambda>d. (Inr (), d))"

definition dbHealth :: "(world, thrown, bool) exec" where
  "dbHealth = bindE ping (\<lambda>_. returnE True)"

section \<open>Publishing the contracts\<close>

record pact_env =
  pe_brokerUrl :: "string option"
  pe_consumerVersion :: "string option"
  pe_sha :: "string option"
  pe_token :: "string option"

text \<open>A contract file: its name, its text, and the names in it once it is parsed.\<close>

record pact_file =
  pf_name :: string
  pf_body :: string
  pf_names :: "thrown + string option \<times> string option"

definition strip_slash :: "string \<Rightarrow> string" where
  "strip_slash s = (if s \<noteq> [] \<and> last s = CHR ''/'' then butlast s else s)"

definition consumerVersion :: "pact_env \<Rightarrow> string" where
  "consumerVersion e =
     (case pe_consumerVersion e of Some v \<Rightarrow> v | None \<Rightarrow> (case pe_sha e of Some v \<Rightarrow> v | None \<Rightarrow> ''1.0.0''))"

definition pact_headers :: "pact_env \<Rightarrow> (string \<times> string) list" where
  "pact_headers e = (''Content-Type'', ''application/json'') #
     (case pe_token e of None \<Rightarrow> [] | Some t \<Rightarrow> if t = [] then [] else [(''Authorization'', ''Bearer '' @ t)])"

definition pact_url :: "(string \<Rightarrow> string) \<Rightarrow> string \<Rightarrow> string \<Rightarrow> string \<Rightarrow> string \<Rightarrow> string" where
  "pact_url encodeURIComponent brokerUrl provider consumer version =
     brokerUrl @ ''/pacts/provider/'' @ encodeURIComponent provider @ ''/consumer/'' @ encodeURIComponent consumer
       @ ''/version/'' @ encodeURIComponent version"

text \<open>An answer is an HTTP status with a text. An error stops the script with exit code 1.\<close>

definition publish_pact ::
  "string \<Rightarrow> (string \<Rightarrow> string) \<Rightarrow> (string \<Rightarrow> (string \<times> string) list \<Rightarrow> string \<Rightarrow> ('s, thrown, nat) exec) \<Rightarrow> pact_env \<Rightarrow> string \<Rightarrow> pact_file
    \<Rightarrow> ('s, thrown, unit) exec" where
  "publish_pact pactsDir encodeURIComponent put e brokerUrl file =
     bindE (liftE (pf_names file)) (\<lambda>names.
       (case names of
          (Some (c # consumer), Some (p # provider)) \<Rightarrow>
            bindE (put (pact_url encodeURIComponent brokerUrl (p # provider) (c # consumer) (consumerVersion e)) (pact_headers e) (pf_body file)) (\<lambda>status.
            if 200 \<le> status \<and> status < 300 then returnE ()
            else throwE (PlainError (''Failed to publish '' @ pf_name file @ '': '' @ show_nat status)))
        | _ \<Rightarrow> throwE (PlainError (''Pact '' @ pactsDir @ ''/'' @ pf_name file @ '' is missing consumer/provider name''))))"

definition publish_pacts ::
  "string \<Rightarrow> (string \<Rightarrow> string) \<Rightarrow> (string \<Rightarrow> (string \<times> string) list \<Rightarrow> string \<Rightarrow> ('s, thrown, nat) exec) \<Rightarrow> pact_env \<Rightarrow> pact_file list
    \<Rightarrow> ('s, thrown, unit) exec" where
  "publish_pacts pactsDir encodeURIComponent put e directory =
     (case map_option strip_slash (pe_brokerUrl e) of
        Some (b # brokerUrl) \<Rightarrow>
          let pactFiles = filter (\<lambda>f. is_prefix (rev ''.json'') (rev (pf_name f))) directory in
          if pactFiles = [] then throwE (PlainError (''No pact files found in '' @ pactsDir))
          else bindE (forE pactFiles (publish_pact pactsDir encodeURIComponent put e (b # brokerUrl))) (\<lambda>_. returnE ())
      | _ \<Rightarrow> throwE (PlainError ''PACT_BROKER_URL is required to publish pacts''))"

section \<open>Facts\<close>

text \<open>Every issue of the configuration is named in the error.\<close>

lemma js_join_mem: "x \<in> set xs \<Longrightarrow> \<exists>a b. js_join sep xs = a @ x @ b"
proof (induction sep xs rule: js_join.induct)
  case (2 sep y)
  then show ?case by (intro exI [of _ "[]"]) simp
next
  case (3 sep y z xs)
  show ?case
  proof (cases "x = y")
    case True
    then show ?thesis by (intro exI [of _ "[]"] exI [of _ "sep @ js_join sep (z # xs)"]) simp
  next
    case False
    then obtain a b where "js_join sep (z # xs) = a @ x @ b" using 3 by auto
    then show ?thesis by (intro exI [of _ "y @ sep @ a"] exI [of _ b]) simp
  qed
qed simp

lemma validate_env_names:
  assumes "safeParse raw = Inl issues" and "i \<in> set issues"
  shows "\<exists>a b. validate_env safeParse raw = Inl (PlainError (a @ issue_line i @ b))"
proof -
  obtain a b where "js_join [CHR 0x0A] (map issue_line issues) = a @ issue_line i @ b"
    using js_join_mem [of "issue_line i" "map issue_line issues" "[CHR 0x0A]"] assms(2) by auto
  then show ?thesis using assms(1)
    by (intro exI [of _ "''Invalid configuration:'' @ [CHR 0x0A] @ a"] exI [of _ "b @ [CHR 0x0A] @ ''Compare your .env with .env.example.''"])
      (simp add: validate_env_def)
qed

lemma dbHealth_alive: "w_sched w = [] \<Longrightarrow> dbHealth w = (Inr True, w)"
  by (simp add: dbHealth_def ping_def bindE_def query_alone)

text \<open>The trailing newline of the secret file is not part of the password.\<close>

lemma db_password_newline:
  assumes "s \<noteq> []" and "\<not> js_space (last s)" and "list_all js_space blanks"
  shows "db_password (Inr (s @ blanks)) p = s"
proof -
  have "dropWhile js_space (rev blanks @ rev s) = dropWhile js_space (rev s)"
    using assms(3) by (intro dropWhile_append2) (auto simp: list_all_iff)
  also have "\<dots> = rev s" using assms(1,2) by (cases s rule: rev_cases) auto
  finally show ?thesis by (simp add: db_password_def js_trimEnd_def)
qed

section \<open>A broker of contracts that records\<close>

definition put_log :: "(string \<Rightarrow> nat) \<Rightarrow> string \<Rightarrow> (string \<times> string) list \<Rightarrow> string \<Rightarrow> ((string \<times> string) list, thrown, nat) exec" where
  "put_log status url headers body log = (Inr (status url), log @ [(url, body)])"

definition named_pact :: "pact_file \<Rightarrow> bool" where
  "named_pact f \<longleftrightarrow> (\<exists>c cs p ps. pf_names f = Inr (Some (c # cs), Some (p # ps)))"

definition pact_request :: "(string \<Rightarrow> string) \<Rightarrow> pact_env \<Rightarrow> string \<Rightarrow> pact_file \<Rightarrow> string \<times> string" where
  "pact_request enc e brokerUrl f = (case pf_names f of
      Inr (Some c, Some p) \<Rightarrow> (pact_url enc brokerUrl p c (consumerVersion e), pf_body f)
    | _ \<Rightarrow> ([], []))"

definition accepted :: "(string \<Rightarrow> nat) \<Rightarrow> string \<times> string \<Rightarrow> bool" where
  "accepted status r \<longleftrightarrow> 200 \<le> status (fst r) \<and> status (fst r) < 300"

lemma publish_pact_named:
  assumes "named_pact f"
  shows "publish_pact dir enc (put_log status) e b f log
    = (if accepted status (pact_request enc e b f) then Inr ()
       else Inl (PlainError (''Failed to publish '' @ pf_name f @ '': '' @ show_nat (status (fst (pact_request enc e b f))))),
       log @ [pact_request enc e b f])"
  using assms by (auto simp: named_pact_def publish_pact_def pact_request_def accepted_def put_log_def bindE_def liftE_def)

text \<open>The files are published in order, and the script stops at the first that is refused.\<close>

lemma publish_each:
  assumes "list_all named_pact fs"
  shows "snd (forE fs (publish_pact dir enc (put_log status) e b) log)
      = log @ (let rs = map (pact_request enc e b) fs; k = length (takeWhile (accepted status) rs) in take (Suc k) rs)
    \<and> (isl (fst (forE fs (publish_pact dir enc (put_log status) e b) log)) \<longleftrightarrow> \<not> list_all (accepted status) (map (pact_request enc e b) fs))"
  using assms
proof (induction fs arbitrary: log)
  case (Cons f fs)
  have f: "named_pact f" and fs: "list_all named_pact fs" using Cons.prems by simp_all
  show ?case
    using Cons.IH [OF fs, of "log @ [pact_request enc e b f]"]
    by (auto simp: publish_pact_named [OF f] bindE_def Let_def split: prod.splits sum.splits)
qed simp

end
