(* ===== verification/Spec2Isabelle.thy ===== *)
theory Spec2Isabelle
  imports LockOrder CheckoutRace SeedAgain Report MessagingDemo Pipeline OrdersApi RealtimeDemo RedisDemo RetryDemo WorkersDemo QueueDemo Stampede NPlusOne ProblemFilter Housekeeping
begin

text \<open>
  A verification development for the marketplace backend, a NestJS service on PostgreSQL,
  RabbitMQ and Redis.

  \<^bold>\<open>The program.\<close> A buyer posts an order (\<open>src/orders\<close>); the order service resolves the listings of
  the in-memory store (\<open>src/store\<close>, \<open>src/listings\<close>) to catalog products and calls the checkout
  (\<open>src/checkout\<close>), one transaction that takes stock, charges the buyer and writes the order, its lines,
  a job, an outbox row and the intent key of the request. A relay publishes the outbox rows
  (\<open>src/messaging/outbox-relay.ts\<close>) and a consumer applies each event once
  (\<open>order-placed.consumer.ts\<close>, \<open>effect-store.ts\<close>). Status changes go over an in-process bus to
  server-sent-event streams and WebSocket rooms. Redis carries the rate limiter (\<open>src/ratelimit\<close>),
  the sessions (\<open>src/session\<close>) and the cache of product cards (\<open>src/catalog\<close>); background work is a job
  table claimed with \<open>SKIP LOCKED\<close> (\<open>src/jobs\<close>) and a BullMQ queue of rating jobs (\<open>src/queue\<close>). Scripts seed the
  tables (\<open>src/seed.ts\<close>) and report on them (\<open>src/report.ts\<close>), and the programs of \<open>src/demo\<close> measure what the services promise.

  \<^bold>\<open>The theories.\<close>
  \<^item> \<open>Prelude\<close>: computations that thread a state and may throw (\<open>returnE\<close>, \<open>bindE\<close>, \<open>catchE\<close>, \<open>finallyE\<close>), the
    predicate \<open>keeps\<close> for what they preserve, the stable sort of the language, decimal numerals.
  \<^item> \<open>JsErrors\<close>: the exceptions of the services, \<open>common/with-retry.ts\<close>, and the classification of consumer
    errors on object graphs that may be cyclic.
  \<^item> \<open>Schema\<close>: the tables as records, their constraints (\<open>db_ok\<close>), bind parameters with the ranges of
    \<open>integer\<close> and \<open>bigint\<close>, statements, transactions, and the schedule of what other processes do.
  \<^item> \<open>OrderPlaced\<close>, \<open>Checkout\<close>, \<open>CheckoutEffect\<close>, \<open>CheckoutOutcomes\<close>, \<open>CheckoutCorrect\<close>: the checkout, statement by
    statement; its specification \<open>committed\<close> and \<open>admissible\<close>; refinement, atomicity, invariants,
    conservation of goods and money, idempotency, availability. \<open>LockOrder\<close>: the row locks of concurrent
    checkouts and the absence of deadlocks. \<open>CheckoutRace\<close>: \<open>demo-race.ts\<close>, which never oversells.
  \<^item> \<open>Outbox\<close>, \<open>EffectStore\<close>, \<open>Consumer\<close>: the relay, the inbox and the message handler. \<open>Pipeline\<close>: checkout, relay,
    broker and consumer as one step relation, with the invariant behind the two theorems below. \<open>Topology\<close>: the
    exchanges and queues of \<open>topology.ts\<close>.
  \<^item> \<open>Store\<close>: listings and cursor pagination. \<open>OrderEvents\<close>: the status bus with its replay buffer.
    \<open>Orders\<close>: the order service; \<open>OrdersCorrect\<close>: who reads and changes an order; \<open>OrderPlacement\<close>: creation of
    orders. \<open>Realtime\<close>: the event stream and the gateway. \<open>OrdersApi\<close>: the endpoints, with the creation of orders
    behind its rate limit.
  \<^item> \<open>JsonText\<close>: JSON texts as the code writes them, and reading them back. \<open>Redis\<close>: the commands the code sends
    and their laws. \<open>RateLimit\<close>, \<open>Session\<close>, \<open>ProductCard\<close>, \<open>JobQueue\<close>, \<open>RatingQueue\<close>: the components named so.
    \<open>Stampede\<close>: concurrent reads of one product card, command by command. \<open>ProblemFilter\<close>: the exception filter.
    \<open>Housekeeping\<close>: the check of the environment, health, and the publication of contracts.
  \<^item> \<open>LoneRun\<close>: straight runs of statements without interference; on it \<open>Seed\<close>, \<open>SeedFirst\<close> and \<open>SeedAgain\<close>: the seed script, its first
    run on any database and its repetition; \<open>Report\<close>: the report and its query.
  \<^item> The demos, each with the theorem that its verdict is the expected one: \<open>OutboxDemo\<close>, \<open>OutboxDemoPrep\<close>, \<open>OutboxDemoRun\<close> (the outbox,
    a crash before the commit and a crash of the relay), \<open>MessagingDemo\<close> (publication, dead letters, redelivery),
    \<open>RetryDemo\<close> (retried transactions), \<open>WorkersDemo\<close> (two workers), \<open>RedisDemo\<close> (sessions and rate limit), \<open>QueueDemo\<close> (BullMQ),
    \<open>NPlusOne\<close> (statements of the object mapper), \<open>RealtimeDemo\<close> (\<open>scripts/realtime-demo.mjs\<close>).

  \<^bold>\<open>How code is modelled.\<close> A method is a function from its arguments and the state to a result and the new
  state; a result is \<open>Inl\<close> of what is thrown or \<open>Inr\<close> of what is returned. An SQL statement is a function on
  the record \<open>db\<close>, translated from its text, constraint violations and range errors included. A sequence is
  not rolled back. Every database call first takes the next step of the schedule \<open>w_sched\<close>, an arbitrary
  committed change of other processes and possibly an abort (serialization failure, deadlock victim, lost
  connection); an empty schedule means that the process is alone. Identifiers, clocks and random numbers are
  arguments. Redis, BullMQ, the AMQP broker, SHA-256 and the parser of timestamps are parameters; the
  theorems assume their documented laws (the locales \<open>redis_strings\<close>, \<open>redis_ttl\<close>, \<open>redis_scripts\<close>, \<open>bull_laws\<close>, \<open>queue_laws\<close>,
  \<open>topology_laws\<close> and the laws of channels and brokers), and every such locale is interpreted on a concrete model, on which
  the witnesses run. Where calls of one process overlap (workers, readers of the cache, retried transactions,
  locks, the pipeline) the model is a step relation whose steps are the single commands. In the demos of the
  messaging and of the queue the other side runs while the program sleeps: a schedule says how many messages the
  consumer handles, each to its end, or which jobs the library runs, during each sleep before the deadline.

  \<^bold>\<open>Fuel and bounds.\<close> Loops are recursions that end by themselves except for two. \<open>visit\<close> on object graphs ends because
  it never enters an object twice. \<open>runWorker\<close> polls until no job is pending and has fuel; one unit more than
  there are pending jobs is enough for a worker that runs alone (\<open>runWorker_drains\<close>), and the concurrent
  workers are a step relation without fuel. Money is \<open>int\<close> with the \<open>int4\<close> range checked where the
  database checks it. Event ids are natural numbers, exact in the language up to \<open>2^53\<close>, which is also the
  bound \<open>parseLastEventId\<close> enforces.

  \<^bold>\<open>Conventions.\<close> Rows come in the order of the table where a query has no \<open>ORDER BY\<close>, so theorems about such
  queries fix one of the orders the server may choose. Characters are 8 bit and lower-casing is that
  of A to Z. Request bodies have the shape the OpenAPI validator lets through (whole quantities, a limit of
  1 to 100). The store of the process is changed between two database calls only by the request itself.
  Names inherited from \<open>Object.prototype\<close> are not looked up in \<open>USER_ALIASES\<close>. \<open>JSON.parse\<close> is modelled on the
  texts the code itself writes. Ratings are in hundredths.

  \<^bold>\<open>Not modelled.\<close> Construction of clients and modules, process start, the OpenAPI validator, the environment schema and
  the configuration of the object mapper: declarations that frameworks and libraries read. Printing. Of \<open>demo-cache.ts\<close>
  the warming of the keys, whose distinct times to live are a matter of chance. The tests, and the scripts that
  compare files of the repository. Down migrations and indexes. How many statements the object mapper sends for one call, and
  the times at which a server expires keys, are parameters.
\<close>

section \<open>From the checkout to the effect\<close>





end
